(* ===== verification/LuPrelude.thy ===== *)
theory LuPrelude
  imports Main "HOL-Library.Word" "HOL-Library.Multiset" "HOL-Library.Code_Target_Numeral"
begin

unbundle bit_operations_syntax

text \<open>
  Shared vocabulary of the development: the C integer types the sources use, flag tests on
  machine words, and the generic lemmas on lists and multisets that the component theories
  share. \<open>lu_flags\<close> collects the rewrite rules for flag words, \<open>lu_consts\<close>
  the values of the flag constants.
\<close>

named_theorems lu_flags
named_theorems lu_consts

section \<open>C types\<close>

type_synonym c_short = "16 word"
type_synonym c_uint8 = "8 word"
type_synonym c_size_t = "64 word"
type_synonym c_ptr = "64 word"

text \<open>\<open>LU_SIZE_MAX\<close> and \<open>INT_MAX\<close> of \<open>lu_util.h\<close> and \<open>limits.h\<close>.\<close>

definition LU_SIZE_MAX :: nat where "LU_SIZE_MAX = 2 ^ 64 - 1"
definition INT_MAX :: int where "INT_MAX = 2147483647"

section \<open>Flag words\<close>

definition has_flag :: "'a::len word \<Rightarrow> 'a word \<Rightarrow> bool" where
  "has_flag x f \<longleftrightarrow> x AND f \<noteq> 0"

definition set_flag :: "'a::len word \<Rightarrow> 'a word \<Rightarrow> 'a word" where
  "set_flag x f = x OR f"

definition clr_flag :: "'a::len word \<Rightarrow> 'a word \<Rightarrow> 'a word" where
  "clr_flag x f = x AND NOT f"

lemma has_set_flag [lu_flags]: "f \<noteq> 0 \<Longrightarrow> has_flag (set_flag x f) f"
  by (simp add: has_flag_def set_flag_def)

lemma has_set_flag_other [lu_flags]:
  assumes "f AND g = 0"
  shows "has_flag (set_flag x f) g = has_flag x g"
proof -
  have "(x OR f) AND g = (x AND g) OR (f AND g)"
    by (simp add: bit.conj_disj_distrib2)
  then show ?thesis using assms by (simp add: has_flag_def set_flag_def)
qed

lemma has_clr_flag [lu_flags]: "\<not> has_flag (clr_flag x f) f"
proof -
  have "(x AND NOT f) AND f = 0" by (rule bit_word_eqI) (auto simp: bit_simps)
  then show ?thesis by (simp add: has_flag_def clr_flag_def)
qed

lemma has_clr_flag_other [lu_flags]:
  assumes "f AND g = 0"
  shows "has_flag (clr_flag x f) g = has_flag x g"
proof -
  have "(x AND NOT f) AND g = (x AND g) AND NOT (f AND g)"
    by (rule bit_word_eqI) (auto simp: bit_simps)
  then show ?thesis using assms by (simp add: has_flag_def clr_flag_def)
qed

lemma has_flag_or: "has_flag x (a OR b) \<longleftrightarrow> has_flag x a \<or> has_flag x b"
  unfolding has_flag_def by (auto simp: bit_eq_iff bit_simps)

lemma clr_set_flag:
  assumes "x AND f = 0"
  shows "clr_flag (set_flag x f) f = x"
proof -
  have "(x OR f) AND NOT f = x AND NOT (x AND f)"
    by (rule bit_word_eqI) (auto simp: bit_simps)
  then show ?thesis using assms by (simp add: clr_flag_def set_flag_def)
qed

section \<open>Lists and multisets\<close>

lemma mset_update_swap:
  "i < length xs \<Longrightarrow> j < length xs \<Longrightarrow>
     mset ((xs[i := xs ! j])[j := e]) = mset (xs[i := e])"
proof -
  assume i: "i < length xs" and j: "j < length xs"
  have "(xs[i := e])[j := (xs[i := e]) ! i, i := (xs[i := e]) ! j] = (xs[i := xs ! j])[j := e]"
    using i j by (intro nth_equalityI) (auto simp: nth_list_update)
  then show ?thesis
    using mset_swap [of i "xs[i := e]" j] i j by simp
qed

lemma mset_take_Suc:
  "n < length xs \<Longrightarrow> mset (take (Suc n) xs) = add_mset (xs ! n) (mset (take n xs))"
  by (simp add: take_Suc_conv_app_nth)

lemma mset_remove_update:
  "i < length xs \<Longrightarrow> mset (xs[i := e]) = add_mset e (mset xs - {# xs ! i #})"
  by (simp add: mset_update)

lemma remove1_idem_mset: "x \<notin> set xs \<Longrightarrow> mset xs - {#x#} = mset xs"
  by simp

lemma length_concat_update:
  "p < length qs \<Longrightarrow> length (concat (qs[p := q])) + length (qs ! p) = length (concat qs) + length q"
proof (induction qs arbitrary: p)
  case (Cons x qs)
  then show ?case by (cases p) auto
qed simp

lemma length_concat_update_minus:
  "p < length qs \<Longrightarrow> int (length (concat (qs[p := q]))) = int (length (concat qs)) + int (length q) - int (length (qs ! p))"
  using length_concat_update [of p qs q] by simp

lemma sum_fun_upd_int:
  fixes g :: "'a \<Rightarrow> int"
  assumes "finite D" "e \<in> D"
  shows "(\<Sum>x\<in>D. g (if x = e then y else f x)) = (\<Sum>x\<in>D. g (f x)) + g y - g (f e)"
  using assms by (simp add: sum.remove [of D e])

lemma length_remove1_in: "x \<in> set xs \<Longrightarrow> length (remove1 x xs) + 1 = length xs"
  by (induction xs) auto

end
