(* ===== verification/LuTime.thy ===== *)
theory LuTime
  imports LuPrelude
begin

text \<open>
  Time values (\<open>struct timeval\<close> and the \<open>lu_evutil_timer*\<close> macros of
  \<open>include/lu_util.h\<close>) and the monotonic timer of \<open>src/lu_evutil_time.c\<close>.
  \<open>tv_sec\<close> and \<open>tv_usec\<close> are signed 64-bit in the code; overflow of a signed
  integer is undefined there and out of range for any time a clock returns, so they are
  integers here. \<open>clock_gettime\<close> and \<open>gettimeofday\<close> are parameters: the value the
  call returns, \<open>None\<close> when it fails.
\<close>

section \<open>struct timeval\<close>

datatype timeval = Timeval (tv_sec: int) (tv_usec: int)

definition lu_evutil_timerclear :: "timeval \<Rightarrow> timeval" where
  "lu_evutil_timerclear tv = Timeval 0 0"

definition lu_evutil_timerisset :: "timeval \<Rightarrow> bool" where
  "lu_evutil_timerisset tv \<longleftrightarrow> tv_sec tv \<noteq> 0 \<or> tv_usec tv \<noteq> 0"

definition lu_evutil_timercmp :: "timeval \<Rightarrow> timeval \<Rightarrow> (int \<Rightarrow> int \<Rightarrow> bool) \<Rightarrow> bool" where
  "lu_evutil_timercmp tvp uvp cmp =
     (if tv_sec tvp = tv_sec uvp then cmp (tv_usec tvp) (tv_usec uvp)
      else cmp (tv_sec tvp) (tv_sec uvp))"

definition lu_evutil_timeradd :: "timeval \<Rightarrow> timeval \<Rightarrow> timeval" where
  "lu_evutil_timeradd tvp uvp =
     (let s = tv_sec tvp + tv_sec uvp;
          u = tv_usec tvp + tv_usec uvp
      in if u \<ge> 1000000 then Timeval (s + 1) (u - 1000000) else Timeval s u)"

definition lu_evutil_timersub :: "timeval \<Rightarrow> timeval \<Rightarrow> timeval" where
  "lu_evutil_timersub tvp uvp =
     (let s = tv_sec tvp - tv_sec uvp;
          u = tv_usec tvp - tv_usec uvp
      in if u < 0 then Timeval (s - 1) (u + 1000000) else Timeval s u)"

text \<open>The order \<open>lu_evutil_timercmp\<close> compares by, as an instance of \<open>linorder\<close>.\<close>

instantiation timeval :: linorder
begin

definition less_eq_timeval :: "timeval \<Rightarrow> timeval \<Rightarrow> bool" where
  "less_eq_timeval t u \<longleftrightarrow> tv_sec t < tv_sec u \<or> (tv_sec t = tv_sec u \<and> tv_usec t \<le> tv_usec u)"

definition less_timeval :: "timeval \<Rightarrow> timeval \<Rightarrow> bool" where
  "less_timeval t u \<longleftrightarrow> tv_sec t < tv_sec u \<or> (tv_sec t = tv_sec u \<and> tv_usec t < tv_usec u)"

instance
  by standard (auto simp: less_eq_timeval_def less_timeval_def intro: timeval.expand)

end

lemma timercmp_less [simp]: "lu_evutil_timercmp t u (<) = (t < u)"
  by (auto simp: lu_evutil_timercmp_def less_timeval_def)

lemma timercmp_greater [simp]: "lu_evutil_timercmp t u (>) = (u < t)"
  by (auto simp: lu_evutil_timercmp_def less_timeval_def)

text \<open>A normalised value has its microseconds in \<open>[0, 1000000)\<close>; \<open>tv_us\<close> is its value.\<close>

definition tv_normal :: "timeval \<Rightarrow> bool" where
  "tv_normal t \<longleftrightarrow> 0 \<le> tv_usec t \<and> tv_usec t < 1000000"

definition tv_us :: "timeval \<Rightarrow> int" where
  "tv_us t = tv_sec t * 1000000 + tv_usec t"

lemma tv_us_add [simp]: "tv_us (lu_evutil_timeradd t u) = tv_us t + tv_us u"
  by (simp add: tv_us_def lu_evutil_timeradd_def Let_def algebra_simps)

lemma tv_us_sub [simp]: "tv_us (lu_evutil_timersub t u) = tv_us t - tv_us u"
  by (simp add: tv_us_def lu_evutil_timersub_def Let_def algebra_simps)

lemma tv_normal_add: "tv_normal t \<Longrightarrow> tv_normal u \<Longrightarrow> tv_normal (lu_evutil_timeradd t u)"
  by (auto simp: tv_normal_def lu_evutil_timeradd_def Let_def)

lemma tv_normal_sub: "tv_normal t \<Longrightarrow> tv_normal u \<Longrightarrow> tv_normal (lu_evutil_timersub t u)"
  by (auto simp: tv_normal_def lu_evutil_timersub_def Let_def)

lemma tv_us_less_iff: "tv_normal t \<Longrightarrow> tv_normal u \<Longrightarrow> t < u \<longleftrightarrow> tv_us t < tv_us u"
  by (auto simp: tv_normal_def less_timeval_def tv_us_def)

lemma tv_us_le_iff: "tv_normal t \<Longrightarrow> tv_normal u \<Longrightarrow> t \<le> u \<longleftrightarrow> tv_us t \<le> tv_us u"
  by (auto simp: tv_normal_def less_eq_timeval_def tv_us_def)

lemma tv_us_inject:
  assumes "tv_normal t" "tv_normal u" "tv_us t = tv_us u"
  shows "t = u"
  using assms by (intro antisym) (simp_all add: tv_us_le_iff)

section \<open>The monotonic timer\<close>

text \<open>\<open>struct lu_evutil_monotonic_timer_s\<close>; the clock ids are the POSIX/Linux ones.\<close>

record lu_evutil_monotonic_timer_t =
  monotonic_clock :: int
  adjust_monotonic_clock :: timeval
  last_time :: timeval

datatype timespec = Timespec (ts_sec: int) (ts_nsec: int)

definition CLOCK_MONOTONIC :: int where "CLOCK_MONOTONIC = 1"
definition CLOCK_MONOTONIC_COARSE :: int where "CLOCK_MONOTONIC_COARSE = 6"
definition LU_EVENT_MONOT_PRECISE :: "32 word" where "LU_EVENT_MONOT_PRECISE = 1"
definition LU_EVENT_MONOT_FALLBACK :: "32 word" where "LU_EVENT_MONOT_FALLBACK = 2"

text \<open>\<open>mm_memzero\<close> on the timer.\<close>

definition zero_timer :: lu_evutil_monotonic_timer_t where
  "zero_timer = \<lparr>monotonic_clock = 0, adjust_monotonic_clock = Timeval 0 0, last_time = Timeval 0 0\<rparr>"

text \<open>
  \<open>clock_ok c\<close> says that \<open>clock_gettime(c, \<dots>)\<close> succeeds. The two \<open>if (CLOCK_X < 0)\<close>
  checks of the code compare a constant with 0 and never fire.
\<close>

definition lu_evutil_configure_monotonic_time ::
    "(int \<Rightarrow> bool) \<Rightarrow> 32 word \<Rightarrow> lu_evutil_monotonic_timer_t \<times> int" where
  "lu_evutil_configure_monotonic_time clock_ok flags =
     (let fallback_clock = has_flag flags LU_EVENT_MONOT_FALLBACK;
          precise_clock = has_flag flags LU_EVENT_MONOT_PRECISE;
          base = zero_timer
      in if \<not> precise_clock \<and> \<not> fallback_clock \<and> clock_ok CLOCK_MONOTONIC_COARSE
         then (base\<lparr>monotonic_clock := CLOCK_MONOTONIC_COARSE\<rparr>, 0)
         else if \<not> fallback_clock \<and> clock_ok CLOCK_MONOTONIC
         then (base\<lparr>monotonic_clock := CLOCK_MONOTONIC\<rparr>, 0)
         else (base\<lparr>monotonic_clock := - 1\<rparr>, 0))"

definition lu_evutil_adjust_monotonic_time ::
    "lu_evutil_monotonic_timer_t \<Rightarrow> timeval \<Rightarrow> lu_evutil_monotonic_timer_t \<times> timeval" where
  "lu_evutil_adjust_monotonic_time base tv0 =
     (let tv = lu_evutil_timeradd tv0 (adjust_monotonic_clock base);
          (base', tv') =
            (if lu_evutil_timercmp tv (last_time base) (<)
             then (let adjust = lu_evutil_timersub (last_time base) tv
                   in (base\<lparr>adjust_monotonic_clock :=
                              lu_evutil_timeradd adjust (adjust_monotonic_clock base)\<rparr>,
                       last_time base))
             else (base, tv))
      in (base'\<lparr>last_time := tv'\<rparr>, tv'))"

text \<open>
  \<open>gettimeofday\<close> and \<open>clock_gettime\<close> are given by what they return. The result is the
  timer, the value stored through \<open>tp\<close> (\<open>None\<close>: not written) and the return code.
\<close>

definition lu_evutil_gettime_monotonic ::
    "timeval option \<Rightarrow> (int \<Rightarrow> timespec option) \<Rightarrow> lu_evutil_monotonic_timer_t
     \<Rightarrow> lu_evutil_monotonic_timer_t \<times> timeval option \<times> int" where
  "lu_evutil_gettime_monotonic tod clock base =
     (if monotonic_clock base < 0
      then (case tod of
              None \<Rightarrow> (base, None, - 1)
            | Some tv \<Rightarrow> (let (base', tv') = lu_evutil_adjust_monotonic_time base tv
                          in (base', Some tv', 0)))
      else (case clock (monotonic_clock base) of
              None \<Rightarrow> (base, None, - 1)
            | Some ts \<Rightarrow> (base, Some (Timeval (ts_sec ts) (ts_nsec ts div 1000)), 0)))"

text \<open>A run of calls of the fallback clock on the wall-clock values \<open>tvs\<close>.\<close>

fun adjust_run :: "lu_evutil_monotonic_timer_t \<Rightarrow> timeval list \<Rightarrow> timeval list" where
  "adjust_run base [] = []"
| "adjust_run base (tv # tvs) =
     (let (base', tv') = lu_evutil_adjust_monotonic_time base tv in tv' # adjust_run base' tvs)"

lemma adjust_last:
  "lu_evutil_adjust_monotonic_time base tv = (base', tv') \<Longrightarrow>
     last_time base' = tv' \<and> last_time base \<le> tv'"
  by (auto simp: lu_evutil_adjust_monotonic_time_def Let_def split: if_splits)

lemma adjust_run_ge: "t \<in> set (adjust_run base tvs) \<Longrightarrow> last_time base \<le> t"
proof (induction tvs arbitrary: base)
  case Nil then show ?case by simp
next
  case (Cons tv tvs)
  obtain b t' where a: "lu_evutil_adjust_monotonic_time base tv = (b, t')" by fastforce
  from Cons a adjust_last [OF a] show ?case by fastforce
qed

lemma adjust_exact_aux:
  assumes n: "tv_normal tv" "tv_normal (adjust_monotonic_clock base)" "tv_normal (last_time base)"
    and r: "lu_evutil_adjust_monotonic_time base tv = (base', tv')"
  shows "tv_us tv' = max (tv_us (last_time base)) (tv_us tv + tv_us (adjust_monotonic_clock base))
    \<and> tv_us tv' = tv_us tv + tv_us (adjust_monotonic_clock base')
    \<and> tv_normal tv' \<and> tv_normal (adjust_monotonic_clock base')"
proof -
  have nt: "tv_normal (lu_evutil_timeradd tv (adjust_monotonic_clock base))"
    using n by (simp add: tv_normal_add)
  from r n nt show ?thesis
    by (auto simp: lu_evutil_adjust_monotonic_time_def Let_def tv_us_less_iff
        tv_normal_add tv_normal_sub not_less split: if_splits)
qed

text \<open>The wall-clock fallback returns the wall-clock time plus the adjustment, or the last
  time returned when that is later; when the clock steps back the adjustment grows by exactly the
  missing time, so that time plus the new adjustment is the value returned, and every value stays
  normalised.\<close>

theorem adjust_exact:
  assumes "tv_normal tv" "tv_normal (adjust_monotonic_clock base)" "tv_normal (last_time base)"
    and "lu_evutil_adjust_monotonic_time base tv = (base', tv')"
  shows "tv_us tv' = max (tv_us (last_time base)) (tv_us tv + tv_us (adjust_monotonic_clock base))
    \<and> tv_us tv' = tv_us tv + tv_us (adjust_monotonic_clock base')
    \<and> last_time base' = tv' \<and> tv_normal tv' \<and> tv_normal (adjust_monotonic_clock base')"
  using adjust_exact_aux [OF assms] adjust_last [OF assms(4)] by blast

theorem adjust_exact_witness:
  "lu_evutil_adjust_monotonic_time
     \<lparr>monotonic_clock = - 1, adjust_monotonic_clock = Timeval 1 0, last_time = Timeval 9 500000\<rparr>
     (Timeval 7 750000) =
   (\<lparr>monotonic_clock = - 1, adjust_monotonic_clock = Timeval 1 750000, last_time = Timeval 9 500000\<rparr>,
    Timeval 9 500000) \<and> tv_us (Timeval 9 500000) = 7750000 + 1750000"
proof -
  let ?b = "\<lparr>monotonic_clock = - 1, adjust_monotonic_clock = Timeval 1 0, last_time = Timeval 9 500000\<rparr>"
  have r: "lu_evutil_adjust_monotonic_time ?b (Timeval 7 750000) =
    (\<lparr>monotonic_clock = - 1, adjust_monotonic_clock = Timeval 1 750000, last_time = Timeval 9 500000\<rparr>,
     Timeval 9 500000)" by code_simp
  moreover have "tv_normal (Timeval 7 750000)" "tv_normal (adjust_monotonic_clock ?b)"
    "tv_normal (last_time ?b)" by (simp_all add: tv_normal_def tv_us_def)
  ultimately show ?thesis using adjust_exact [of "Timeval 7 750000" ?b] by (simp add: tv_us_def)
qed

text \<open>The values that a run of calls of the fallback clock returns never decrease and never fall
  below the last time of the timer, whatever the wall clock does between the calls.\<close>

theorem adjust_run_sorted: "sorted (last_time base # adjust_run base tvs)"
proof (induction tvs arbitrary: base)
  case (Cons tv tvs)
  obtain b t where a: "lu_evutil_adjust_monotonic_time base tv = (b, t)" by fastforce
  then show ?case using Cons.IH [of b] adjust_last [OF a] adjust_run_ge [of _ b tvs] by auto
qed simp

text \<open>The reference: a counter that starts at \<open>t\<close> when the wall clock shows \<open>w\<close>, and adds what the wall clock gains from
  each reading to the next; a step back of the wall clock adds nothing.\<close>

fun wall_progress :: "int \<Rightarrow> int \<Rightarrow> int list \<Rightarrow> int list" where
  "wall_progress t w [] = []"
| "wall_progress t w (x # xs) = (t + max 0 (x - w)) # wall_progress (t + max 0 (x - w)) x xs"

lemma adjust_run_progress:
  assumes "\<forall>tv\<in>set tvs. tv_normal tv" "tv_normal (adjust_monotonic_clock base)" "tv_normal (last_time base)"
    "tv_us (last_time base) = w + tv_us (adjust_monotonic_clock base)"
  shows "map tv_us (adjust_run base tvs) = wall_progress (tv_us (last_time base)) w (map tv_us tvs)"
  using assms
proof (induction tvs arbitrary: base w)
  case (Cons tv tvs)
  obtain b t where a: "lu_evutil_adjust_monotonic_time base tv = (b, t)" by fastforce
  have n: "tv_normal tv" using Cons.prems(1) by simp
  note e = adjust_exact_aux [OF n Cons.prems(2,3) a]
  note l = adjust_last [OF a, THEN conjunct1]
  have "map tv_us (adjust_run b tvs) = wall_progress (tv_us (last_time b)) (tv_us tv) (map tv_us tvs)"
    using Cons.IH [of b "tv_us tv"] Cons.prems(1) e l by simp
  moreover have "tv_us t = tv_us (last_time base) + max 0 (tv_us tv - w)" using e Cons.prems(4) by (simp add: max_def)
  ultimately show ?case using a l by simp
qed simp

text \<open>C31: the fallback for a system without a monotonic clock counts time as a monotonic clock
  should, whatever is done to the wall clock: its first reading is the wall clock with the adjustment, or the last time of
  the timer when that is later, and from then on every reading is the one before plus what the wall clock has gained since,
  to the microsecond, and nothing when the wall clock was set back.\<close>

theorem monotonic_counts_progress:
  assumes "\<forall>x\<in>set (tv # tvs). tv_normal x" "tv_normal (adjust_monotonic_clock base)" "tv_normal (last_time base)"
    and t: "t = max (tv_us (last_time base)) (tv_us tv + tv_us (adjust_monotonic_clock base))"
  shows "map tv_us (adjust_run base (tv # tvs)) = t # wall_progress t (tv_us tv) (map tv_us tvs)"
proof -
  obtain b t' where a: "lu_evutil_adjust_monotonic_time base tv = (b, t')" by fastforce
  have n: "tv_normal tv" using assms(1) by simp
  note e = adjust_exact_aux [OF n assms(2,3) a]
  note l = adjust_last [OF a, THEN conjunct1]
  have "map tv_us (adjust_run b tvs) = wall_progress (tv_us (last_time b)) (tv_us tv) (map tv_us tvs)"
    using adjust_run_progress [of tvs b "tv_us tv"] assms(1) e l by simp
  then show ?thesis using a e l t by simp
qed

theorem monotonic_counts_progress_witness:
  "map tv_us (adjust_run \<lparr>monotonic_clock = - 1, adjust_monotonic_clock = Timeval 0 0, last_time = Timeval 0 0\<rparr>
     [Timeval 10 0, Timeval 10 250000, Timeval 3 0, Timeval 4 500000]) = [10000000, 10250000, 10250000, 11750000]"
  by (subst monotonic_counts_progress [OF _ _ _ refl]) (simp_all add: tv_normal_def tv_us_def)

end
