(* ===== verification/LuEventStruct.thy ===== *)
theory LuEventStruct
  imports LuTime
begin

text \<open>
  The event structures of \<open>include/lu_event_struct.h\<close> and the flag constants of
  \<open>include/lu_event.h\<close> and \<open>include/lu_event-internal.h\<close>. An event is named by its
  address (\<open>evptr\<close>); the callback is the first member of the event, so a callback and the
  event around it have the same address and \<open>LU_EVUTIL_UPCAST\<close> is the identity. The
  queue links (\<open>TAILQ_ENTRY\<close>, \<open>LIST_ENTRY\<close>) are not fields: a queue is the list of the
  addresses it links, in order. The members of the two unions are separate fields; the code
  selects them by \<open>LU_EV_SIGNAL\<close> (\<open>ev_\<close>) and by the kind of timeout (\<open>ev_timeout_pos\<close>).
  Function pointers and user arguments are opaque numbers.
\<close>

type_synonym evptr = nat

record lu_event_callback_t =
  evcb_flags :: c_short
  evcb_pri :: c_uint8
  evcb_closure :: c_uint8
  evcb_cb_union :: nat
  evcb_arg :: nat

record lu_event_t =
  ev_evcallback :: lu_event_callback_t
  min_heap_idx :: nat
  ev_fd :: int
  ev_events :: c_short
  ev_res :: c_short
  ev_base :: "nat option"
  ev_io_timeout :: timeval
  ev_ncalls :: c_short
  ev_pncalls :: "nat option"
  ev_timeout :: timeval

type_synonym estore = "evptr \<Rightarrow> lu_event_t"

section \<open>List flags, event flags, closures, delete modes\<close>

definition LU_EVLIST_TIMEOUT :: c_short where [lu_consts]: "LU_EVLIST_TIMEOUT = 0x01"
definition LU_EVLIST_INSERTED :: c_short where [lu_consts]: "LU_EVLIST_INSERTED = 0x02"
definition LU_EVLIST_SIGNAL :: c_short where [lu_consts]: "LU_EVLIST_SIGNAL = 0x04"
definition LU_EVLIST_ACTIVE :: c_short where [lu_consts]: "LU_EVLIST_ACTIVE = 0x08"
definition LU_EVLIST_INTERNAL :: c_short where [lu_consts]: "LU_EVLIST_INTERNAL = 0x10"
definition LU_EVLIST_ACTIVE_LATER :: c_short where [lu_consts]: "LU_EVLIST_ACTIVE_LATER = 0x20"
definition LU_EVLIST_FINALIZING :: c_short where [lu_consts]: "LU_EVLIST_FINALIZING = 0x40"
definition LU_EVLIST_INIT :: c_short where [lu_consts]: "LU_EVLIST_INIT = 0x80"
definition LU_EVLIST_ALL :: c_short where [lu_consts]: "LU_EVLIST_ALL = 0xff"

definition LU_EV_TIMEOUT :: c_short where [lu_consts]: "LU_EV_TIMEOUT = 0x01"
definition LU_EV_READ :: c_short where [lu_consts]: "LU_EV_READ = 0x02"
definition LU_EV_WRITE :: c_short where [lu_consts]: "LU_EV_WRITE = 0x04"
definition LU_EV_SIGNAL :: c_short where [lu_consts]: "LU_EV_SIGNAL = 0x08"
definition LU_EV_PERSIST :: c_short where [lu_consts]: "LU_EV_PERSIST = 0x10"
definition LU_EV_ET :: c_short where [lu_consts]: "LU_EV_ET = 0x20"
definition LU_EV_FINALIZE :: c_short where [lu_consts]: "LU_EV_FINALIZE = 0x40"
definition LU_EV_CLOSED :: c_short where [lu_consts]: "LU_EV_CLOSED = 0x80"

definition LU_EV_CLOSURE_EVENT :: c_uint8 where "LU_EV_CLOSURE_EVENT = 0"
definition LU_EV_CLOSURE_EVENT_SIGNAL :: c_uint8 where "LU_EV_CLOSURE_EVENT_SIGNAL = 1"
definition LU_EV_CLOSURE_EVENT_PERSIST :: c_uint8 where "LU_EV_CLOSURE_EVENT_PERSIST = 2"
definition LU_EV_CLOSURE_CB_SELF :: c_uint8 where "LU_EV_CLOSURE_CB_SELF = 3"
definition LU_EV_CLOSURE_CB_FINALIZE :: c_uint8 where "LU_EV_CLOSURE_CB_FINALIZE = 4"
definition LU_EV_CLOSURE_EVENT_FINALIZE :: c_uint8 where "LU_EV_CLOSURE_EVENT_FINALIZE = 5"
definition LU_EV_CLOSURE_EVENT_FINALIZE_FREE :: c_uint8 where
  "LU_EV_CLOSURE_EVENT_FINALIZE_FREE = 6"

datatype del_mode =
    LU_EVENT_DEL_NOBLOCK
  | LU_EVENT_DEL_BLOCK
  | LU_EVENT_DEL_AUTOBLOCK
  | LU_EVENT_DEL_EVEN_IF_FINALIZING

text \<open>The list flags are different bits: with these facts a flag test passes over the setting
  and clearing of every other flag.\<close>

lemma evlist_disjoint [lu_flags]:
  "LU_EVLIST_TIMEOUT AND LU_EVLIST_INSERTED = 0"
  "LU_EVLIST_TIMEOUT AND LU_EVLIST_ACTIVE = 0"
  "LU_EVLIST_TIMEOUT AND LU_EVLIST_INTERNAL = 0"
  "LU_EVLIST_TIMEOUT AND LU_EVLIST_ACTIVE_LATER = 0"
  "LU_EVLIST_TIMEOUT AND LU_EVLIST_FINALIZING = 0"
  "LU_EVLIST_TIMEOUT AND LU_EVLIST_INIT = 0"
  "LU_EVLIST_INSERTED AND LU_EVLIST_TIMEOUT = 0"
  "LU_EVLIST_INSERTED AND LU_EVLIST_ACTIVE = 0"
  "LU_EVLIST_INSERTED AND LU_EVLIST_INTERNAL = 0"
  "LU_EVLIST_INSERTED AND LU_EVLIST_ACTIVE_LATER = 0"
  "LU_EVLIST_INSERTED AND LU_EVLIST_FINALIZING = 0"
  "LU_EVLIST_INSERTED AND LU_EVLIST_INIT = 0"
  "LU_EVLIST_ACTIVE AND LU_EVLIST_TIMEOUT = 0"
  "LU_EVLIST_ACTIVE AND LU_EVLIST_INSERTED = 0"
  "LU_EVLIST_ACTIVE AND LU_EVLIST_INTERNAL = 0"
  "LU_EVLIST_ACTIVE AND LU_EVLIST_ACTIVE_LATER = 0"
  "LU_EVLIST_ACTIVE AND LU_EVLIST_FINALIZING = 0"
  "LU_EVLIST_ACTIVE AND LU_EVLIST_INIT = 0"
  "LU_EVLIST_INTERNAL AND LU_EVLIST_TIMEOUT = 0"
  "LU_EVLIST_INTERNAL AND LU_EVLIST_INSERTED = 0"
  "LU_EVLIST_INTERNAL AND LU_EVLIST_ACTIVE = 0"
  "LU_EVLIST_INTERNAL AND LU_EVLIST_ACTIVE_LATER = 0"
  "LU_EVLIST_INTERNAL AND LU_EVLIST_FINALIZING = 0"
  "LU_EVLIST_INTERNAL AND LU_EVLIST_INIT = 0"
  "LU_EVLIST_ACTIVE_LATER AND LU_EVLIST_TIMEOUT = 0"
  "LU_EVLIST_ACTIVE_LATER AND LU_EVLIST_INSERTED = 0"
  "LU_EVLIST_ACTIVE_LATER AND LU_EVLIST_ACTIVE = 0"
  "LU_EVLIST_ACTIVE_LATER AND LU_EVLIST_INTERNAL = 0"
  "LU_EVLIST_ACTIVE_LATER AND LU_EVLIST_FINALIZING = 0"
  "LU_EVLIST_ACTIVE_LATER AND LU_EVLIST_INIT = 0"
  "LU_EVLIST_FINALIZING AND LU_EVLIST_TIMEOUT = 0"
  "LU_EVLIST_FINALIZING AND LU_EVLIST_INSERTED = 0"
  "LU_EVLIST_FINALIZING AND LU_EVLIST_ACTIVE = 0"
  "LU_EVLIST_FINALIZING AND LU_EVLIST_INTERNAL = 0"
  "LU_EVLIST_FINALIZING AND LU_EVLIST_ACTIVE_LATER = 0"
  "LU_EVLIST_FINALIZING AND LU_EVLIST_INIT = 0"
  "LU_EVLIST_INIT AND LU_EVLIST_TIMEOUT = 0"
  "LU_EVLIST_INIT AND LU_EVLIST_INSERTED = 0"
  "LU_EVLIST_INIT AND LU_EVLIST_ACTIVE = 0"
  "LU_EVLIST_INIT AND LU_EVLIST_INTERNAL = 0"
  "LU_EVLIST_INIT AND LU_EVLIST_ACTIVE_LATER = 0"
  "LU_EVLIST_INIT AND LU_EVLIST_FINALIZING = 0"
  by (simp_all add: lu_consts)

lemma evlist_nonzero [lu_flags]:
  "LU_EVLIST_TIMEOUT \<noteq> 0"
  "LU_EVLIST_INSERTED \<noteq> 0"
  "LU_EVLIST_ACTIVE \<noteq> 0"
  "LU_EVLIST_INTERNAL \<noteq> 0"
  "LU_EVLIST_ACTIVE_LATER \<noteq> 0"
  "LU_EVLIST_FINALIZING \<noteq> 0"
  "LU_EVLIST_INIT \<noteq> 0"
  by (simp_all add: lu_consts)

lemma ev_disjoint [lu_flags]:
  "LU_EV_READ AND LU_EV_WRITE = 0"
  "LU_EV_READ AND LU_EV_CLOSED = 0"
  "LU_EV_READ AND LU_EV_ET = 0"
  "LU_EV_READ AND LU_EV_SIGNAL = 0"
  "LU_EV_WRITE AND LU_EV_READ = 0"
  "LU_EV_WRITE AND LU_EV_CLOSED = 0"
  "LU_EV_WRITE AND LU_EV_ET = 0"
  "LU_EV_WRITE AND LU_EV_SIGNAL = 0"
  "LU_EV_CLOSED AND LU_EV_READ = 0"
  "LU_EV_CLOSED AND LU_EV_WRITE = 0"
  "LU_EV_CLOSED AND LU_EV_ET = 0"
  "LU_EV_CLOSED AND LU_EV_SIGNAL = 0"
  "LU_EV_ET AND LU_EV_READ = 0"
  "LU_EV_ET AND LU_EV_WRITE = 0"
  "LU_EV_ET AND LU_EV_CLOSED = 0"
  "LU_EV_ET AND LU_EV_SIGNAL = 0"
  "LU_EV_SIGNAL AND LU_EV_READ = 0"
  "LU_EV_SIGNAL AND LU_EV_WRITE = 0"
  "LU_EV_SIGNAL AND LU_EV_CLOSED = 0"
  "LU_EV_SIGNAL AND LU_EV_ET = 0"
  by (simp_all add: lu_consts)

lemma ev_nonzero [lu_flags]:
  "LU_EV_READ \<noteq> 0"
  "LU_EV_WRITE \<noteq> 0"
  "LU_EV_CLOSED \<noteq> 0"
  "LU_EV_SIGNAL \<noteq> 0"
  "LU_EV_ET \<noteq> 0"
  "LU_EV_TIMEOUT \<noteq> 0"
  "LU_EV_PERSIST \<noteq> 0"
  by (simp_all add: lu_consts)

section \<open>The accessor macros\<close>

abbreviation ev_flags :: "lu_event_t \<Rightarrow> c_short" where
  "ev_flags ev \<equiv> evcb_flags (ev_evcallback ev)"

abbreviation ev_pri :: "lu_event_t \<Rightarrow> c_uint8" where
  "ev_pri ev \<equiv> evcb_pri (ev_evcallback ev)"

abbreviation ev_closure :: "lu_event_t \<Rightarrow> c_uint8" where
  "ev_closure ev \<equiv> evcb_closure (ev_evcallback ev)"

definition upd_flags :: "(c_short \<Rightarrow> c_short) \<Rightarrow> lu_event_t \<Rightarrow> lu_event_t" where
  "upd_flags f ev = ev\<lparr>ev_evcallback := (ev_evcallback ev)\<lparr>evcb_flags := f (ev_flags ev)\<rparr>\<rparr>"

lemma upd_flags_simps [simp]:
  "ev_flags (upd_flags f ev) = f (ev_flags ev)"
  "ev_pri (upd_flags f ev) = ev_pri ev"
  "ev_closure (upd_flags f ev) = ev_closure ev"
  "evcb_arg (ev_evcallback (upd_flags f ev)) = evcb_arg (ev_evcallback ev)"
  "evcb_cb_union (ev_evcallback (upd_flags f ev)) = evcb_cb_union (ev_evcallback ev)"
  "min_heap_idx (upd_flags f ev) = min_heap_idx ev"
  "ev_fd (upd_flags f ev) = ev_fd ev"
  "ev_events (upd_flags f ev) = ev_events ev"
  "ev_res (upd_flags f ev) = ev_res ev"
  "ev_base (upd_flags f ev) = ev_base ev"
  "ev_io_timeout (upd_flags f ev) = ev_io_timeout ev"
  "ev_ncalls (upd_flags f ev) = ev_ncalls ev"
  "ev_pncalls (upd_flags f ev) = ev_pncalls ev"
  "ev_timeout (upd_flags f ev) = ev_timeout ev"
  by (simp_all add: upd_flags_def)

definition set_heap_idx :: "estore \<Rightarrow> evptr \<Rightarrow> nat \<Rightarrow> estore" where
  "set_heap_idx es e i = es(e := (es e)\<lparr>min_heap_idx := i\<rparr>)"

lemma set_heap_idx_simps [simp]:
  "ev_timeout (set_heap_idx es e i x) = ev_timeout (es x)"
  "ev_evcallback (set_heap_idx es e i x) = ev_evcallback (es x)"
  "ev_events (set_heap_idx es e i x) = ev_events (es x)"
  "ev_fd (set_heap_idx es e i x) = ev_fd (es x)"
  "min_heap_idx (set_heap_idx es e i x) = (if x = e then i else min_heap_idx (es x))"
  by (auto simp: set_heap_idx_def)

text \<open>A zeroed event, as \<open>mm_calloc\<close> returns it.\<close>

definition zero_event_callback :: lu_event_callback_t where
  "zero_event_callback = \<lparr>evcb_flags = 0, evcb_pri = 0, evcb_closure = 0, evcb_cb_union = 0, evcb_arg = 0\<rparr>"

definition zero_event :: lu_event_t where
  "zero_event = \<lparr>ev_evcallback = zero_event_callback, min_heap_idx = 0, ev_fd = 0, ev_events = 0,
     ev_res = 0, ev_base = None, ev_io_timeout = Timeval 0 0, ev_ncalls = 0, ev_pncalls = None,
     ev_timeout = Timeval 0 0\<rparr>"

end
