(* ===== verification/LuBag.thy ===== *)
theory LuBag
  imports LuPrelude
begin

text \<open>
  The interface between the event core and a container of events: a state that holds a
  multiset of events, an insertion and a removal that hands out one of them. The client
  side is a loop that empties the container (the way \<open>lu_event_base_free_queues_\<close> and the
  timeout processing use theirs).
\<close>

text \<open>\<open>bag_drain\<close> takes events out until the container has none left, at most \<open>k\<close> times.\<close>

fun bag_drain :: "('s \<Rightarrow> 's \<times> 'e option) \<Rightarrow> nat \<Rightarrow> 's \<Rightarrow> 's \<times> 'e list" where
  "bag_drain take_one 0 s = (s, [])"
| "bag_drain take_one (Suc k) s =
     (case take_one s of
        (s', None) \<Rightarrow> (s', [])
      | (s', Some e) \<Rightarrow> (let (s'', es) = bag_drain take_one k s' in (s'', e # es)))"

fun bag_fill :: "('e \<Rightarrow> 's \<Rightarrow> 's) \<Rightarrow> 'e list \<Rightarrow> 's \<Rightarrow> 's" where
  "bag_fill put [] s = s"
| "bag_fill put (e # es) s = bag_fill put es (put e s)"

locale event_bag =
  fixes wf :: "'s \<Rightarrow> bool"
    and bag :: "'s \<Rightarrow> 'e multiset"
    and fits :: "nat \<Rightarrow> bool"
    and put :: "'e \<Rightarrow> 's \<Rightarrow> 's"
    and take_one :: "'s \<Rightarrow> 's \<times> 'e option"
  assumes put_bag: "wf s \<Longrightarrow> e \<notin># bag s \<Longrightarrow> fits (size (bag s) + 1) \<Longrightarrow> bag (put e s) = add_mset e (bag s)"
    and put_wf: "wf s \<Longrightarrow> e \<notin># bag s \<Longrightarrow> fits (size (bag s) + 1) \<Longrightarrow> wf (put e s)"
    and take_none: "wf s \<Longrightarrow> bag s = {#} \<Longrightarrow> take_one s = (s, None)"
    and take_some: "wf s \<Longrightarrow> bag s \<noteq> {#} \<Longrightarrow> take_one s = (s', r) \<Longrightarrow>
          \<exists>e. r = Some e \<and> e \<in># bag s \<and> bag s' = bag s - {#e#} \<and> wf s'"
    and fits_less: "fits n \<Longrightarrow> m \<le> n \<Longrightarrow> fits m"
begin

lemma fill_bag:
  "wf s \<Longrightarrow> distinct es \<Longrightarrow> (\<forall>e \<in> set es. e \<notin># bag s) \<Longrightarrow> fits (size (bag s) + length es) \<Longrightarrow>
     wf (bag_fill put es s) \<and> bag (bag_fill put es s) = bag s + mset es"
proof (induction es arbitrary: s)
  case (Cons e es)
  have "fits (size (bag s) + 1)" using fits_less Cons.prems(4) by auto
  with Cons.prems have "wf (put e s)" "bag (put e s) = add_mset e (bag s)"
    using put_bag put_wf by auto
  moreover have "fits (size (bag (put e s)) + length es)" "\<forall>x \<in> set es. x \<notin># bag (put e s)"
    using calculation Cons.prems by auto
  ultimately show ?case using Cons.IH [of "put e s"] Cons.prems(2) by simp
qed simp

lemma drain_all:
  "wf s \<Longrightarrow> size (bag s) \<le> k \<Longrightarrow> bag_drain take_one k s = (s', es) \<Longrightarrow>
     mset es = bag s \<and> bag s' = {#} \<and> wf s'"
proof (induction k arbitrary: s s' es)
  case (Suc k)
  obtain s1 r where t: "take_one s = (s1, r)" by fastforce
  show ?case
  proof (cases "bag s = {#}")
    case True
    then show ?thesis using take_none Suc.prems by auto
  next
    case False
    from take_some [OF Suc.prems(1) False t] obtain e where
      e: "r = Some e" "e \<in># bag s" "bag s1 = bag s - {#e#}" "wf s1" by blast
    obtain s2 es2 where d: "bag_drain take_one k s1 = (s2, es2)" by fastforce
    have "size (bag s1) \<le> k" using Suc.prems(2) e(2,3) by (simp add: size_Diff_singleton)
    from Suc.IH [OF e(4) this d] show ?thesis using Suc.prems(3) t e d by auto
  qed
qed auto

text \<open>What was put in comes out, each event once.\<close>

lemma fill_drain:
  assumes "wf s" "bag s = {#}" "distinct es" "fits (length es)"
    and "bag_drain take_one (length es) (bag_fill put es s) = (s', out)"
  shows "mset out = mset es \<and> bag s' = {#}"
  using fill_bag [of s es] drain_all [OF _ _ assms(5)] assms by auto

end

end
