(* ===== verification/LuMinHeap.thy ===== *)
theory LuMinHeap
  imports LuEventStruct LuBag
begin

text \<open>
  The timeout heap of \<open>src/lu_min_heap.c\<close>. \<open>elements\<close> is the allocated array (its
  length is \<open>capacity\<close>, its first \<open>n\<close> slots are in use), and every event in the heap
  stores its own position in \<open>min_heap_idx\<close> (\<open>LU_SIZE_MAX\<close> when it is in no heap).
  Each function takes the event store and the heap and returns both. Positions and sizes
  are natural numbers: they stay below the capacity, which \<open>mm_realloc\<close> bounds well under
  \<open>2 ^ 63\<close>, so \<open>2 * (hole + 1)\<close> does not wrap; \<open>(hole - 1) / 2\<close> wraps in the code when
  \<open>hole = 0\<close>, and its value is then not used.
\<close>

record lu_min_heap_t =
  elements :: "evptr list"
  hn :: nat
  capacity :: nat

definition lu_min_heap_constructor :: lu_min_heap_t where
  "lu_min_heap_constructor = \<lparr>elements = [], hn = 0, capacity = 0\<rparr>"

text \<open>The destructor frees the array and leaves the fields as they are.\<close>

definition lu_min_heap_destructor :: "lu_min_heap_t \<Rightarrow> evptr list option" where
  "lu_min_heap_destructor heap = (if elements heap \<noteq> [] then Some (elements heap) else None)"

definition lu_min_heap_element_greater :: "estore \<Rightarrow> evptr \<Rightarrow> evptr \<Rightarrow> bool" where
  "lu_min_heap_element_greater es a b = lu_evutil_timercmp (ev_timeout (es a)) (ev_timeout (es b)) (>)"

definition lu_min_heap_element_init :: "estore \<Rightarrow> evptr \<Rightarrow> estore" where
  "lu_min_heap_element_init es event = set_heap_idx es event LU_SIZE_MAX"

definition lu_min_heap_empty :: "lu_min_heap_t \<Rightarrow> bool" where
  "lu_min_heap_empty heap \<longleftrightarrow> 0 = hn heap"

definition lu_min_heaps_size :: "lu_min_heap_t \<Rightarrow> nat" where
  "lu_min_heaps_size heap = hn heap"

definition lu_min_heap_top :: "lu_min_heap_t \<Rightarrow> evptr option" where
  "lu_min_heap_top heap = (if hn heap \<noteq> 0 then Some (elements heap ! 0) else None)"

definition lu_min_heap_element_is_top :: "estore \<Rightarrow> evptr \<Rightarrow> bool" where
  "lu_min_heap_element_is_top es event \<longleftrightarrow> min_heap_idx (es event) = 0"

section \<open>Moving the hole\<close>

text \<open>\<open>place\<close> is the assignment \<open>(elements[i] = e)->ev_timeout_pos.min_heap_idx = i\<close>.\<close>

definition place :: "estore \<times> evptr list \<Rightarrow> nat \<Rightarrow> evptr \<Rightarrow> estore \<times> evptr list" where
  "place st i e = (set_heap_idx (fst st) e i, (snd st)[i := e])"

function lu_min_heap_shift_up :: "estore \<times> evptr list \<Rightarrow> nat \<Rightarrow> evptr \<Rightarrow> estore \<times> evptr list" where
  "lu_min_heap_shift_up st hole_index event =
     (let parent = (hole_index - 1) div 2 in
      if hole_index \<noteq> 0 \<and> lu_min_heap_element_greater (fst st) (snd st ! parent) event
      then lu_min_heap_shift_up (place st hole_index (snd st ! parent)) parent event
      else place st hole_index event)"
  by pat_completeness auto
termination
  by (relation "measure (\<lambda>(st, hole, e). hole)") auto

declare lu_min_heap_shift_up.simps [simp del]

text \<open>The \<open>do \<dots> while\<close> form: the first move is unconditional.\<close>

definition lu_min_heap_shift_up_unconditional ::
    "estore \<times> evptr list \<Rightarrow> nat \<Rightarrow> evptr \<Rightarrow> estore \<times> evptr list" where
  "lu_min_heap_shift_up_unconditional st hole_index event =
     (let parent = (hole_index - 1) div 2
      in lu_min_heap_shift_up (place st hole_index (snd st ! parent)) parent event)"

text \<open>
  The loop of \<open>lu_min_heap_shift_down_\<close>, entered with \<open>min_child = hole_index * 2 + 1\<close>
  (the \<open>left\<close> child) and continued with \<open>min_child = 2 * (hole_index + 1)\<close> (the
  \<open>right\<close> child), both under the test \<open>min_child < n\<close>.
\<close>

definition sd_min_child :: "estore \<times> evptr list \<Rightarrow> nat \<Rightarrow> nat \<Rightarrow> nat" where
  "sd_min_child st n c =
     c - (if c = n \<or> lu_min_heap_element_greater (fst st) (snd st ! c) (snd st ! (c - 1)) then 1 else 0)"

lemma sd_min_child_bounds: "sd_min_child st n c \<le> c" "c \<le> sd_min_child st n c + 1"
  unfolding sd_min_child_def by auto

lemma sd_min_child_less: "c < n \<Longrightarrow> sd_min_child st n' c < n"
  using sd_min_child_bounds(1) le_less_trans by blast

function shift_down_loop ::
    "estore \<times> evptr list \<Rightarrow> nat \<Rightarrow> nat \<Rightarrow> nat \<Rightarrow> evptr \<Rightarrow> estore \<times> evptr list" where
  "shift_down_loop st n hole_index min_child0 event =
     (if min_child0 < n then
        (let min_child = sd_min_child st n min_child0
         in if \<not> lu_min_heap_element_greater (fst st) event (snd st ! min_child)
            then place st hole_index event
            else shift_down_loop (place st hole_index (snd st ! min_child)) n min_child
                   (2 * (min_child + 1)) event)
      else place st hole_index event)"
  by pat_completeness auto
termination
proof (relation "measure (\<lambda>(st, n, hole, mc, e). n - mc)", goal_cases)
  case (2 st n hole c e m)
  then show ?case using sd_min_child_bounds(2) [of c st n] by auto
qed simp

declare shift_down_loop.simps [simp del]

text \<open>The two cases of a round of the loop, for the proofs below.\<close>

lemma shift_down_step:
  "c < n \<Longrightarrow> lu_min_heap_element_greater (fst st) e (snd st ! sd_min_child st n c) \<Longrightarrow>
   shift_down_loop st n h c e =
     shift_down_loop (place st h (snd st ! sd_min_child st n c)) n (sd_min_child st n c)
       (2 * (sd_min_child st n c + 1)) e"
  by (subst shift_down_loop.simps) (simp add: Let_def)

lemma shift_down_stop:
  "\<not> (c < n \<and> lu_min_heap_element_greater (fst st) e (snd st ! sd_min_child st n c)) \<Longrightarrow>
   shift_down_loop st n h c e = place st h e"
  by (subst shift_down_loop.simps) (auto simp: Let_def)

definition lu_min_heap_shift_down ::
    "estore \<times> evptr list \<Rightarrow> nat \<Rightarrow> nat \<Rightarrow> evptr \<Rightarrow> estore \<times> evptr list" where
  "lu_min_heap_shift_down st n hole_index event =
     shift_down_loop st n hole_index (hole_index * 2 + 1) event"

section \<open>The heap operations\<close>

text \<open>
  \<open>alloc_ok\<close> says whether \<open>mm_realloc\<close> succeeds; the slots it adds are not initialised
  in the code and are 0 (no event) here. The second component is the return code.
\<close>

definition lu_min_heap_reserve :: "bool \<Rightarrow> lu_min_heap_t \<Rightarrow> nat \<Rightarrow> lu_min_heap_t \<times> int" where
  "lu_min_heap_reserve alloc_ok heap n =
     (if capacity heap < n then
        (let c = (if capacity heap \<noteq> 0 then capacity heap * 2 else 8);
             new_capacity = (if c < n then n else c)
         in if \<not> alloc_ok then (heap, - 1)
            else (heap\<lparr>elements := elements heap @ replicate (new_capacity - length (elements heap)) 0,
                       capacity := new_capacity\<rparr>, 0))
      else (heap, 0))"

definition lu_min_heap_push ::
    "bool \<Rightarrow> estore \<Rightarrow> lu_min_heap_t \<Rightarrow> evptr \<Rightarrow> estore \<times> lu_min_heap_t \<times> int" where
  "lu_min_heap_push alloc_ok es heap event =
     (let (heap1, r) = lu_min_heap_reserve alloc_ok heap (hn heap + 1) in
      if r \<noteq> 0 then (es, heap1, - 1)
      else (let (es', a) = lu_min_heap_shift_up (es, elements heap1) (hn heap1) event
            in (es', heap1\<lparr>elements := a, hn := hn heap1 + 1\<rparr>, 0)))"

definition lu_min_heap_pop :: "estore \<Rightarrow> lu_min_heap_t \<Rightarrow> estore \<times> lu_min_heap_t \<times> evptr option" where
  "lu_min_heap_pop es heap =
     (if hn heap \<noteq> 0 then
        (let element = elements heap ! 0;
             n' = hn heap - 1;
             (es', a) = lu_min_heap_shift_down (es, elements heap) n' 0 (elements heap ! n')
         in (set_heap_idx es' element LU_SIZE_MAX, heap\<lparr>elements := a, hn := n'\<rparr>, Some element))
      else (es, heap, None))"

definition lu_min_heap_erase :: "estore \<Rightarrow> lu_min_heap_t \<Rightarrow> evptr \<Rightarrow> estore \<times> lu_min_heap_t \<times> int" where
  "lu_min_heap_erase es heap event =
     (if LU_SIZE_MAX \<noteq> min_heap_idx (es event) then
        (let n' = hn heap - 1;
             last = elements heap ! n';
             idx = min_heap_idx (es event);
             parent = (idx - 1) div 2;
             (es', a) =
               (if idx > 0 \<and> lu_min_heap_element_greater es (elements heap ! parent) last
                then lu_min_heap_shift_up_unconditional (es, elements heap) idx last
                else lu_min_heap_shift_down (es, elements heap) n' idx last)
         in (set_heap_idx es' event LU_SIZE_MAX, heap\<lparr>elements := a, hn := n'\<rparr>, 0))
      else (es, heap, - 1))"

definition lu_min_heap_adjust ::
    "bool \<Rightarrow> estore \<Rightarrow> lu_min_heap_t \<Rightarrow> evptr \<Rightarrow> estore \<times> lu_min_heap_t \<times> int" where
  "lu_min_heap_adjust alloc_ok es heap event =
     (if LU_SIZE_MAX = min_heap_idx (es event) then lu_min_heap_push alloc_ok es heap event
      else
        (let idx = min_heap_idx (es event);
             parent = (idx - 1) div 2;
             (es', a) =
               (if idx > 0 \<and> lu_min_heap_element_greater es (elements heap ! parent) event
                then lu_min_heap_shift_up_unconditional (es, elements heap) idx event
                else lu_min_heap_shift_down (es, elements heap) (hn heap) idx event)
         in (es', heap\<lparr>elements := a\<rparr>, 0)))"

section \<open>Frame: only \<open>min_heap_idx\<close> changes, and only of the events moved\<close>

definition same_but_idx :: "estore \<Rightarrow> estore \<Rightarrow> bool" where
  "same_but_idx es es' \<longleftrightarrow> (\<forall>x. es' x = (es x)\<lparr>min_heap_idx := min_heap_idx (es' x)\<rparr>)"

lemma same_but_idx_refl [simp]: "same_but_idx es es"
  by (simp add: same_but_idx_def)

lemma same_but_idx_trans: "same_but_idx a b \<Longrightarrow> same_but_idx b c \<Longrightarrow> same_but_idx a c"
  unfolding same_but_idx_def by (metis lu_event_t.update_convs(2) lu_event_t.surjective)

lemma same_but_idx_set [simp]: "same_but_idx es (set_heap_idx es e i)"
  by (simp add: same_but_idx_def set_heap_idx_def)

lemma same_but_idx_timeout: "same_but_idx es es' \<Longrightarrow> ev_timeout (es' x) = ev_timeout (es x)"
  unfolding same_but_idx_def by (metis lu_event_t.select_convs(10) lu_event_t.surjective lu_event_t.update_convs(2))

lemma same_but_idx_greater:
  "same_but_idx es es' \<Longrightarrow> lu_min_heap_element_greater es' a b = lu_min_heap_element_greater es a b"
  by (simp add: lu_min_heap_element_greater_def same_but_idx_timeout)

lemma place_simps [simp]:
  "snd (place st i e) = (snd st)[i := e]"
  "fst (place st i e) = set_heap_idx (fst st) e i"
  by (simp_all add: place_def)

lemma shift_up_step:
  "h \<noteq> 0 \<Longrightarrow> lu_min_heap_element_greater (fst st) (snd st ! ((h - 1) div 2)) e \<Longrightarrow>
   lu_min_heap_shift_up st h e =
     lu_min_heap_shift_up (place st h (snd st ! ((h - 1) div 2))) ((h - 1) div 2) e"
  by (subst lu_min_heap_shift_up.simps) (simp add: Let_def)

lemma shift_up_stop:
  "\<not> (h \<noteq> 0 \<and> lu_min_heap_element_greater (fst st) (snd st ! ((h - 1) div 2)) e) \<Longrightarrow>
   lu_min_heap_shift_up st h e = place st h e"
  by (subst lu_min_heap_shift_up.simps) (auto simp: Let_def)

text \<open>
  Induction over the rounds of each loop: the goal for the state after one move gives the
  goal for the state before it, and the last assignment is the base case.
\<close>

lemma shift_up_induct [case_names move stop]:
  assumes move: "\<And>st h p. h \<noteq> 0 \<Longrightarrow> p = (h - 1) div 2 \<Longrightarrow> p < h \<Longrightarrow>
             lu_min_heap_element_greater (fst st) (snd st ! p) e \<Longrightarrow>
             P (place st h (snd st ! p)) p (lu_min_heap_shift_up (place st h (snd st ! p)) p e) \<Longrightarrow>
             P st h (lu_min_heap_shift_up (place st h (snd st ! p)) p e)"
    and stop: "\<And>st h. h = 0 \<or> \<not> lu_min_heap_element_greater (fst st) (snd st ! ((h - 1) div 2)) e \<Longrightarrow>
             P st h (place st h e)"
  shows "P st h (lu_min_heap_shift_up st h e)"
proof (induction h arbitrary: st rule: less_induct)
  case (less h)
  show ?case
  proof (cases "h \<noteq> 0 \<and> lu_min_heap_element_greater (fst st) (snd st ! ((h - 1) div 2)) e")
    case True
    then have p: "(h - 1) div 2 < h" by auto
    show ?thesis
      using move [OF _ refl p, of st] less.IH [OF p] True by (metis shift_up_step)
  next
    case False
    then show ?thesis using stop [of h st] by (metis shift_up_stop)
  qed
qed

lemma shift_down_induct [case_names move stop]:
  assumes move: "\<And>st h c m. c < n \<Longrightarrow> m < n \<Longrightarrow> m \<le> c \<Longrightarrow> c \<le> m + 1 \<Longrightarrow>
             lu_min_heap_element_greater (fst st) e (snd st ! m) \<Longrightarrow>
             P (place st h (snd st ! m)) m (2 * (m + 1))
               (shift_down_loop (place st h (snd st ! m)) n m (2 * (m + 1)) e) \<Longrightarrow>
             P st h c (shift_down_loop (place st h (snd st ! m)) n m (2 * (m + 1)) e)"
    and stop: "\<And>st h c. P st h c (place st h e)"
  shows "P st h c (shift_down_loop st n h c e)"
proof (induction "n - c" arbitrary: st h c rule: less_induct)
  case less
  let ?m = "sd_min_child st n c"
  show ?case
  proof (cases "c < n \<and> lu_min_heap_element_greater (fst st) e (snd st ! ?m)")
    case True
    then have "n - 2 * (?m + 1) < n - c" using sd_min_child_bounds(2) [of c st n] by auto
    from less.hyps [OF this] show ?thesis
      using move [of c ?m st h] True sd_min_child_bounds [where c = c] sd_min_child_less
      by (metis shift_down_step)
  next
    case False
    then show ?thesis using stop [of st h c] by (metis shift_down_stop)
  qed
qed

lemma shift_up_frame: "same_but_idx (fst st) (fst (lu_min_heap_shift_up st h e))"
  by (rule shift_up_induct [where P = "\<lambda>st h r. same_but_idx (fst st) (fst r)"])
    (auto intro: same_but_idx_trans [OF same_but_idx_set])

lemma shift_down_frame: "same_but_idx (fst st) (fst (shift_down_loop st n h c e))"
  by (rule shift_down_induct [where P = "\<lambda>st h c r. same_but_idx (fst st) (fst r)"])
    (auto intro: same_but_idx_trans [OF same_but_idx_set])

section \<open>The array is permuted\<close>

lemma shift_up_length [simp]: "length (snd (lu_min_heap_shift_up st h e)) = length (snd st)"
  by (rule shift_up_induct [where P = "\<lambda>st h r. length (snd r) = length (snd st)"]) auto

lemma shift_down_length [simp]: "length (snd (shift_down_loop st n h c e)) = length (snd st)"
  by (rule shift_down_induct [where P = "\<lambda>st h c r. length (snd r) = length (snd st)"]) auto

lemma shift_up_mset:
  "h < length (snd st) \<longrightarrow> mset (snd (lu_min_heap_shift_up st h e)) = mset ((snd st)[h := e])"
  by (rule shift_up_induct [where P = "\<lambda>st h r. h < length (snd st) \<longrightarrow> mset (snd r) = mset ((snd st)[h := e])"])
    (auto simp: mset_update_swap)

lemma shift_up_above: "h < n \<longrightarrow> drop n (snd (lu_min_heap_shift_up st h e)) = drop n (snd st)"
  by (rule shift_up_induct [where P = "\<lambda>st h r. h < n \<longrightarrow> drop n (snd r) = drop n (snd st)"]) auto

lemma shift_down_mset:
  assumes "n \<le> length (snd st)"
  shows "h < n \<longrightarrow> mset (snd (shift_down_loop st n h c e)) = mset ((snd st)[h := e])"
proof -
  have "n \<le> length (snd st) \<longrightarrow> h < n \<longrightarrow>
      mset (snd (shift_down_loop st n h c e)) = mset ((snd st)[h := e])"
    by (rule shift_down_induct [where P = "\<lambda>st h c r. n \<le> length (snd st) \<longrightarrow> h < n \<longrightarrow>
          mset (snd r) = mset ((snd st)[h := e])"])
      (auto simp: mset_update_swap)
  then show ?thesis using assms by blast
qed

lemma shift_down_above: "h < n \<longrightarrow> drop n (snd (shift_down_loop st n h c e)) = drop n (snd st)"
  by (rule shift_down_induct [where P = "\<lambda>st h c r. h < n \<longrightarrow> drop n (snd r) = drop n (snd st)"]) auto

lemma mset_take_of_drop:
  "mset xs = mset ys \<Longrightarrow> drop n xs = drop n ys \<Longrightarrow> mset (take n xs) = mset (take n ys)"
  by (metis add_right_cancel append_take_drop_id mset_append)

lemma shift_up_take:
  assumes "h < n" "n \<le> length (snd st)"
  shows "mset (take n (snd (lu_min_heap_shift_up st h e))) = mset (take n ((snd st)[h := e]))"
  by (rule mset_take_of_drop) (use assms in \<open>simp_all add: shift_up_mset shift_up_above\<close>)

lemma shift_down_take:
  assumes "h < n" "n \<le> length (snd st)"
  shows "mset (take n (snd (shift_down_loop st n h c e))) = mset (take n ((snd st)[h := e]))"
  by (rule mset_take_of_drop) (use assms in \<open>simp_all add: shift_down_mset shift_down_above\<close>)

section \<open>Every event knows its position\<close>

definition heap_idx_ok :: "estore \<Rightarrow> evptr list \<Rightarrow> nat \<Rightarrow> bool" where
  "heap_idx_ok es a n \<longleftrightarrow> (\<forall>i<n. min_heap_idx (es (a ! i)) = i)"

text \<open>The same with a hole at \<open>h\<close> that \<open>e\<close> will fill.\<close>

definition hole_idx_ok :: "estore \<times> evptr list \<Rightarrow> nat \<Rightarrow> nat \<Rightarrow> evptr \<Rightarrow> bool" where
  "hole_idx_ok st n h e \<longleftrightarrow>
     (\<forall>i<n. i \<noteq> h \<longrightarrow> min_heap_idx (fst st (snd st ! i)) = i \<and> snd st ! i \<noteq> e)"

lemma hole_idx_ok_place:
  assumes "hole_idx_ok st n h e" "n \<le> length (snd st)"
  shows "heap_idx_ok (fst (place st h e)) (snd (place st h e)) n"
  unfolding heap_idx_ok_def
proof (intro allI impI)
  fix i assume i: "i < n"
  then have nth: "(snd st)[h := e] ! i = (if h = i then e else snd st ! i)"
    using assms(2) by (simp add: nth_list_update)
  show "min_heap_idx (fst (place st h e) (snd (place st h e) ! i)) = i"
    using assms(1) i unfolding place_simps nth hole_idx_ok_def by (cases "h = i") auto
qed

lemma hole_idx_ok_move:
  assumes "hole_idx_ok st n h e" "m < n" "n \<le> length (snd st)" "m \<noteq> h"
  shows "hole_idx_ok (place st h (snd st ! m)) n m e"
  unfolding hole_idx_ok_def
proof (intro allI impI)
  fix i assume i: "i < n" "i \<noteq> m"
  then have nth: "(snd st)[h := snd st ! m] ! i = (if h = i then snd st ! m else snd st ! i)"
    using assms(3) by (simp add: nth_list_update)
  have ok: "\<And>j. j < n \<Longrightarrow> j \<noteq> h \<Longrightarrow> min_heap_idx (fst st (snd st ! j)) = j \<and> snd st ! j \<noteq> e"
    using assms(1) unfolding hole_idx_ok_def by blast
  have "snd st ! i \<noteq> snd st ! m" if "i \<noteq> h"
    using ok [of i] ok [of m] that i assms(2,4) by metis
  then show "min_heap_idx (fst (place st h (snd st ! m)) (snd (place st h (snd st ! m)) ! i)) = i \<and>
      snd (place st h (snd st ! m)) ! i \<noteq> e"
    using ok [of i] ok [of m] i assms(2,4) unfolding place_simps nth by (cases "h = i") auto
qed

lemma hole_idx_ok_stay:
  assumes "hole_idx_ok st n h e" "\<forall>i<n. i \<noteq> h \<longrightarrow> snd st ! i \<noteq> snd st ! h"
  shows "hole_idx_ok (place st h (snd st ! h)) n h e"
  using assms by (auto simp: hole_idx_ok_def)

lemma shift_up_idx:
  assumes "hole_idx_ok st n h e" "h < n" "n \<le> length (snd st)"
  shows "heap_idx_ok (fst (lu_min_heap_shift_up st h e)) (snd (lu_min_heap_shift_up st h e)) n"
proof -
  have "hole_idx_ok st n h e \<and> h < n \<and> n \<le> length (snd st) \<longrightarrow>
      heap_idx_ok (fst (lu_min_heap_shift_up st h e)) (snd (lu_min_heap_shift_up st h e)) n"
    by (rule shift_up_induct [where P = "\<lambda>st h r. hole_idx_ok st n h e \<and> h < n \<and>
          n \<le> length (snd st) \<longrightarrow> heap_idx_ok (fst r) (snd r) n"])
      (auto simp del: place_simps(2) simp: hole_idx_ok_move hole_idx_ok_place [simplified])
  then show ?thesis using assms by blast
qed

lemma shift_down_idx:
  assumes "hole_idx_ok st n h e" "n \<le> length (snd st)"
    and "\<forall>i<n. i \<noteq> h \<longrightarrow> snd st ! i \<noteq> snd st ! h"
  shows "heap_idx_ok (fst (shift_down_loop st n h c e)) (snd (shift_down_loop st n h c e)) n"
proof -
  let ?pre = "\<lambda>st h c. hole_idx_ok st n h e \<and> n \<le> length (snd st) \<and>
                (c \<le> h + 1 \<longrightarrow> (\<forall>i<n. i \<noteq> h \<longrightarrow> snd st ! i \<noteq> snd st ! h))"
  have "?pre st h c \<longrightarrow>
      heap_idx_ok (fst (shift_down_loop st n h c e)) (snd (shift_down_loop st n h c e)) n"
  proof (rule shift_down_induct [where P = "\<lambda>st h c r. ?pre st h c \<longrightarrow> heap_idx_ok (fst r) (snd r) n"],
      goal_cases)
    case (1 st h c m)
    have "?pre st h c \<longrightarrow> hole_idx_ok (place st h (snd st ! m)) n m e"
      using 1 hole_idx_ok_move [of st n h e m] hole_idx_ok_stay [of st n h e] by (cases "m = h") auto
    then show ?case using 1 by auto
  next
    case (2 st h c)
    then show ?case using hole_idx_ok_place by blast
  qed
  then show ?thesis using assms by blast
qed

section \<open>Only the events of the heap are touched\<close>

lemma shift_up_other:
  "h < length (snd st) \<and> x \<noteq> e \<and> x \<notin> set (take h (snd st)) \<longrightarrow>
     fst (lu_min_heap_shift_up st h e) x = fst st x"
proof (rule shift_up_induct [where P = "\<lambda>st h r. h < length (snd st) \<and> x \<noteq> e \<and>
          x \<notin> set (take h (snd st)) \<longrightarrow> fst r x = fst st x"], goal_cases)
  case (1 st h p)
  have "snd st ! p \<in> set (take h (snd st))" if "h < length (snd st)"
    using that 1(3) by (auto simp: in_set_conv_nth intro!: exI [of _ p])
  moreover have "set (take p (snd st)) \<subseteq> set (take h (snd st))"
    using 1(3) by (simp add: set_take_subset_set_take)
  ultimately show ?case using 1 by (auto simp: set_heap_idx_def)
qed (auto simp: set_heap_idx_def)

lemma shift_down_other:
  "n \<le> length (snd st) \<and> x \<noteq> e \<and> x \<notin> set (take n (snd st)) \<longrightarrow>
     fst (shift_down_loop st n h c e) x = fst st x"
proof (rule shift_down_induct [where P = "\<lambda>st h c r. n \<le> length (snd st) \<and> x \<noteq> e \<and>
          x \<notin> set (take n (snd st)) \<longrightarrow> fst r x = fst st x"], goal_cases)
  case (1 st h c m)
  have "snd st ! m \<in> set (take n (snd st))" if "n \<le> length (snd st)"
    using that 1(2) by (auto simp: in_set_conv_nth intro!: exI [of _ m])
  moreover have "set (take n ((snd st)[h := snd st ! m])) \<subseteq> insert (snd st ! m) (set (take n (snd st)))"
    by (metis set_update_subset_insert take_update_swap)
  ultimately show ?case using 1 by (auto simp: set_heap_idx_def)
qed (auto simp: set_heap_idx_def)

section \<open>Heap order\<close>

definition heap_ordered :: "estore \<Rightarrow> evptr list \<Rightarrow> nat \<Rightarrow> bool" where
  "heap_ordered es a n \<longleftrightarrow>
     (\<forall>i<n. 0 < i \<longrightarrow> ev_timeout (es (a ! ((i - 1) div 2))) \<le> ev_timeout (es (a ! i)))"

text \<open>
  Ordered but for the hole \<open>h\<close>: every edge that does not touch the hole is ordered, the
  children of the hole are above \<open>e\<close> and above the hole's own parent.
\<close>

definition hole_ordered :: "estore \<times> evptr list \<Rightarrow> nat \<Rightarrow> nat \<Rightarrow> evptr \<Rightarrow> bool" where
  "hole_ordered st n h e \<longleftrightarrow>
     (\<forall>i<n. 0 < i \<longrightarrow> i \<noteq> h \<longrightarrow>
        (if (i - 1) div 2 = h
         then ev_timeout (fst st e) \<le> ev_timeout (fst st (snd st ! i)) \<and>
              (0 < h \<longrightarrow> ev_timeout (fst st (snd st ! ((h - 1) div 2))) \<le> ev_timeout (fst st (snd st ! i)))
         else ev_timeout (fst st (snd st ! ((i - 1) div 2))) \<le> ev_timeout (fst st (snd st ! i))))"

lemma hole_orderedD:
  assumes "hole_ordered st n h e" "i < n" "0 < i" "i \<noteq> h"
  shows "(i - 1) div 2 \<noteq> h \<Longrightarrow>
           ev_timeout (fst st (snd st ! ((i - 1) div 2))) \<le> ev_timeout (fst st (snd st ! i))"
    and "(i - 1) div 2 = h \<Longrightarrow> ev_timeout (fst st e) \<le> ev_timeout (fst st (snd st ! i))"
    and "(i - 1) div 2 = h \<Longrightarrow> 0 < h \<Longrightarrow>
           ev_timeout (fst st (snd st ! ((h - 1) div 2))) \<le> ev_timeout (fst st (snd st ! i))"
  using assms unfolding hole_ordered_def by metis+

lemma hole_ordered_place:
  assumes "hole_ordered st n h e" "n \<le> length (snd st)" "h < n"
    and stop: "h = 0 \<or> ev_timeout (fst st (snd st ! ((h - 1) div 2))) \<le> ev_timeout (fst st e)"
  shows "heap_ordered (fst (place st h e)) (snd (place st h e)) n"
  unfolding heap_ordered_def
proof (intro allI impI)
  fix i assume i: "i < n" "0 < i"
  then have nth: "\<And>j. j < n \<Longrightarrow> (snd st)[h := e] ! j = (if h = j then e else snd st ! j)"
    using assms(2) by (simp add: nth_list_update)
  have p: "(i - 1) div 2 < n" "(i - 1) div 2 \<noteq> i" using i by auto
  show "ev_timeout (fst (place st h e) (snd (place st h e) ! ((i - 1) div 2)))
      \<le> ev_timeout (fst (place st h e) (snd (place st h e) ! i))"
    using hole_orderedD(1,2) [OF assms(1) i] stop i p
    unfolding place_simps nth [OF p(1)] nth [OF i(1)] set_heap_idx_simps
    by (cases "h = i"; cases "h = (i - 1) div 2") auto
qed

lemma hole_ordered_move:
  assumes "hole_ordered st n h e" "n \<le> length (snd st)" "h < n" "0 < h"
    and p: "p = (h - 1) div 2"
    and less: "ev_timeout (fst st e) < ev_timeout (fst st (snd st ! p))"
  shows "hole_ordered (place st h (snd st ! p)) n p e"
  unfolding hole_ordered_def
proof (intro allI impI)
  fix i assume i: "i < n" "0 < i" "i \<noteq> p"
  let ?v = "\<lambda>j. ev_timeout (fst st (snd st ! j))"
  have ph: "p < h" "p < n" using p assms(3,4) by auto
  have nth: "\<And>j. j < n \<Longrightarrow> (snd st)[h := snd st ! p] ! j = (if h = j then snd st ! p else snd st ! j)"
    using assms(2) by (simp add: nth_list_update)
  have q: "(i - 1) div 2 < n" "(p - 1) div 2 < n" "(p - 1) div 2 \<noteq> h" using i ph by auto
  have gp: "0 < p \<Longrightarrow> ?v ((p - 1) div 2) \<le> ?v p"
    using hole_orderedD(1) [OF assms(1), of p] ph q by auto
  show "if (i - 1) div 2 = p
        then ev_timeout (fst (place st h (snd st ! p)) e)
               \<le> ev_timeout (fst (place st h (snd st ! p)) (snd (place st h (snd st ! p)) ! i)) \<and>
             (0 < p \<longrightarrow> ev_timeout (fst (place st h (snd st ! p)) (snd (place st h (snd st ! p)) ! ((p - 1) div 2)))
               \<le> ev_timeout (fst (place st h (snd st ! p)) (snd (place st h (snd st ! p)) ! i)))
        else ev_timeout (fst (place st h (snd st ! p)) (snd (place st h (snd st ! p)) ! ((i - 1) div 2)))
               \<le> ev_timeout (fst (place st h (snd st ! p)) (snd (place st h (snd st ! p)) ! i))"
    unfolding place_simps set_heap_idx_simps nth [OF q(1)] nth [OF q(2)] nth [OF i(1)]
  proof (cases "i = h")
    case True
    then show "if (i - 1) div 2 = p
        then ev_timeout (fst st e) \<le> ev_timeout (fst st (if h = i then snd st ! p else snd st ! i)) \<and>
             (0 < p \<longrightarrow> ev_timeout (fst st (if h = (p - 1) div 2 then snd st ! p else snd st ! ((p - 1) div 2)))
               \<le> ev_timeout (fst st (if h = i then snd st ! p else snd st ! i)))
        else ev_timeout (fst st (if h = (i - 1) div 2 then snd st ! p else snd st ! ((i - 1) div 2)))
               \<le> ev_timeout (fst st (if h = i then snd st ! p else snd st ! i))"
      using gp less p q by auto
  next
    case False
    have "?v ((i - 1) div 2) \<le> ?v i" if "(i - 1) div 2 \<noteq> h"
      using hole_orderedD(1) [OF assms(1) i(1,2) False that] .
    moreover have "?v p \<le> ?v i" if "(i - 1) div 2 = h"
      using hole_orderedD(3) [OF assms(1) i(1,2) False that assms(4)] p by simp
    ultimately show "if (i - 1) div 2 = p
        then ev_timeout (fst st e) \<le> ev_timeout (fst st (if h = i then snd st ! p else snd st ! i)) \<and>
             (0 < p \<longrightarrow> ev_timeout (fst st (if h = (p - 1) div 2 then snd st ! p else snd st ! ((p - 1) div 2)))
               \<le> ev_timeout (fst st (if h = i then snd st ! p else snd st ! i)))
        else ev_timeout (fst st (if h = (i - 1) div 2 then snd st ! p else snd st ! ((i - 1) div 2)))
               \<le> ev_timeout (fst st (if h = i then snd st ! p else snd st ! i))"
      using False gp less ph q by (cases "(i - 1) div 2 = p"; cases "(i - 1) div 2 = h") auto
  qed
qed

lemma shift_up_ordered:
  assumes "hole_ordered st n h e" "h < n" "n \<le> length (snd st)"
  shows "heap_ordered (fst (lu_min_heap_shift_up st h e)) (snd (lu_min_heap_shift_up st h e)) n"
proof -
  have "hole_ordered st n h e \<and> h < n \<and> n \<le> length (snd st) \<longrightarrow>
      heap_ordered (fst (lu_min_heap_shift_up st h e)) (snd (lu_min_heap_shift_up st h e)) n"
  proof (rule shift_up_induct [where P = "\<lambda>st h r. hole_ordered st n h e \<and> h < n \<and>
          n \<le> length (snd st) \<longrightarrow> heap_ordered (fst r) (snd r) n"], goal_cases)
    case (1 st h p)
    then show ?case using hole_ordered_move [of st n h e p]
      by (auto simp: lu_min_heap_element_greater_def)
  next
    case (2 st h)
    then show ?case using hole_ordered_place [of st n h e]
      by (auto simp: lu_min_heap_element_greater_def not_less)
  qed
  then show ?thesis using assms by blast
qed

text \<open>The root of an ordered heap has the least timeout.\<close>

lemma heap_root_least:
  "heap_ordered es a n \<Longrightarrow> i < n \<Longrightarrow> ev_timeout (es (a ! 0)) \<le> ev_timeout (es (a ! i))"
proof (induction i rule: less_induct)
  case (less i)
  show ?case
  proof (cases "i = 0")
    case False
    then have "(i - 1) div 2 < i" by auto
    then have "ev_timeout (es (a ! 0)) \<le> ev_timeout (es (a ! ((i - 1) div 2)))"
      using less by simp
    also have "\<dots> \<le> ev_timeout (es (a ! i))"
      using less.prems False by (auto simp: heap_ordered_def)
    finally show ?thesis .
  qed simp
qed

section \<open>The operations\<close>

definition heap_bag :: "lu_min_heap_t \<Rightarrow> evptr multiset" where
  "heap_bag h = mset (take (hn h) (elements h))"

definition heap_wf :: "estore \<Rightarrow> lu_min_heap_t \<Rightarrow> bool" where
  "heap_wf es h \<longleftrightarrow>
     hn h \<le> length (elements h) \<and> length (elements h) = capacity h \<and> hn h \<le> LU_SIZE_MAX \<and>
     heap_idx_ok es (elements h) (hn h)"

lemma heap_wf_constructor: "heap_wf es lu_min_heap_constructor"
  by (simp add: heap_wf_def lu_min_heap_constructor_def heap_idx_ok_def)

lemma heap_bag_constructor: "heap_bag lu_min_heap_constructor = {#}"
  by (simp add: heap_bag_def lu_min_heap_constructor_def)

lemma heap_wf_idx: "heap_wf es h \<Longrightarrow> i < hn h \<Longrightarrow> min_heap_idx (es (elements h ! i)) = i"
  by (simp add: heap_wf_def heap_idx_ok_def)

lemma heap_wf_nth: "heap_wf es h \<Longrightarrow> i < hn h \<Longrightarrow> elements h ! i \<in># heap_bag h"
  by (auto simp: heap_wf_def heap_bag_def in_set_conv_nth intro!: exI [of _ i])

lemma heap_bag_nth:
  assumes "heap_wf es h" "e \<in># heap_bag h"
  shows "min_heap_idx (es e) < hn h" "elements h ! min_heap_idx (es e) = e"
  using assms heap_wf_idx [OF assms(1)] by (auto simp: heap_bag_def in_set_conv_nth)

lemma heap_wf_inj:
  "heap_wf es h \<Longrightarrow> i < hn h \<Longrightarrow> j < hn h \<Longrightarrow> elements h ! i = elements h ! j \<Longrightarrow> i = j"
  by (metis heap_wf_idx)

lemma heap_wf_fresh:
  assumes "heap_wf es h" "min_heap_idx (es e) = LU_SIZE_MAX"
  shows "e \<notin># heap_bag h"
  using heap_bag_nth(1) [OF assms(1), of e] assms by (auto simp: heap_wf_def)

lemma heap_bag_size [simp]: "heap_wf es h \<Longrightarrow> size (heap_bag h) = hn h"
  by (simp add: heap_bag_def heap_wf_def)

lemma reserve_cases:
  assumes "lu_min_heap_reserve ok h n = (h', r)" "length (elements h) = capacity h"
  obtains (fails) "\<not> ok" "capacity h < n" "r = - 1" "h' = h"
        | (enough) ys where "r = 0" "elements h' = elements h @ ys" "hn h' = hn h"
            "length (elements h') = capacity h'" "n \<le> capacity h'"
proof (cases "capacity h < n")
  case True
  then show thesis
  proof (cases ok)
    case True
    with assms \<open>capacity h < n\<close> show thesis
      by (intro enough [of "replicate (capacity h' - capacity h) 0"])
        (auto simp: lu_min_heap_reserve_def Let_def split: if_splits)
  next
    case False
    with assms \<open>capacity h < n\<close> show thesis
      by (intro fails) (auto simp: lu_min_heap_reserve_def Let_def)
  qed
next
  case False
  with assms show thesis by (intro enough [of "[]"]) (auto simp: lu_min_heap_reserve_def)
qed

lemma push_effect:
  assumes wf: "heap_wf es h" and e: "min_heap_idx (es e) = LU_SIZE_MAX" and n: "hn h < LU_SIZE_MAX"
    and push: "lu_min_heap_push ok es h e = (es', h', 0)"
  shows "heap_bag h' = add_mset e (heap_bag h)" "heap_wf es' h'" "same_but_idx es es'"
    and "heap_ordered es (elements h) (hn h) \<Longrightarrow> heap_ordered es' (elements h') (hn h')"
    and "\<And>x. x \<notin># heap_bag h' \<Longrightarrow> es' x = es x"
proof -
  obtain h1 r where res: "lu_min_heap_reserve ok h (hn h + 1) = (h1, r)" by fastforce
  have len: "length (elements h) = capacity h" using wf by (simp add: heap_wf_def)
  have r0: "r = 0" using push res by (auto simp: lu_min_heap_push_def split: if_splits prod.splits)
  from res len obtain ys where h1: "elements h1 = elements h @ ys" "hn h1 = hn h"
      "length (elements h1) = capacity h1" "hn h + 1 \<le> capacity h1"
    by (cases rule: reserve_cases) (use r0 in auto)
  let ?st = "(es, elements h1)"
  let ?r = "lu_min_heap_shift_up ?st (hn h) e"
  have res': "es' = fst ?r" "h' = h1\<lparr>elements := snd ?r, hn := hn h + 1\<rparr>"
    using push res r0 h1(2) by (auto simp: lu_min_heap_push_def split: prod.splits)
  have le: "hn h \<le> length (elements h)" using wf by (simp add: heap_wf_def)
  have nth: "\<And>i. i < hn h \<Longrightarrow> elements h1 ! i = elements h ! i"
    using h1(1) le by (simp add: nth_append)
  have fresh: "\<And>i. i < hn h \<Longrightarrow> elements h ! i \<noteq> e"
    using heap_wf_fresh [OF wf e] heap_wf_nth [OF wf] by metis
  have hole: "hole_idx_ok ?st (hn h + 1) (hn h) e"
    using nth fresh heap_wf_idx [OF wf] by (auto simp: hole_idx_ok_def less_Suc_eq)
  have take1: "take (hn h) (elements h1) = take (hn h) (elements h)" using h1(1) le by simp
  show bag: "heap_bag h' = add_mset e (heap_bag h)"
    using shift_up_take [of "hn h" "hn h + 1" ?st e] h1 take1 le
    by (simp add: heap_bag_def res' take_Suc_conv_app_nth)
  show "heap_wf es' h'"
    using shift_up_idx [OF hole] h1 n by (simp add: heap_wf_def res')
  show "same_but_idx es es'" using shift_up_frame [of ?st] by (simp add: res')
  show "heap_ordered es' (elements h') (hn h')" if "heap_ordered es (elements h) (hn h)"
  proof -
    have "hole_ordered ?st (hn h + 1) (hn h) e"
      unfolding hole_ordered_def
    proof (intro allI impI)
      fix i assume i: "i < hn h + 1" "0 < i" "i \<noteq> hn h"
      then have "(i - 1) div 2 < hn h" "i < hn h" by auto
      with that i show "if (i - 1) div 2 = hn h then
          ev_timeout (fst ?st e) \<le> ev_timeout (fst ?st (snd ?st ! i)) \<and>
          (0 < hn h \<longrightarrow> ev_timeout (fst ?st (snd ?st ! ((hn h - 1) div 2))) \<le> ev_timeout (fst ?st (snd ?st ! i)))
        else ev_timeout (fst ?st (snd ?st ! ((i - 1) div 2))) \<le> ev_timeout (fst ?st (snd ?st ! i))"
        by (auto simp: nth heap_ordered_def)
    qed
    then show ?thesis using shift_up_ordered [of ?st "hn h + 1" "hn h" e] h1 by (simp add: res')
  qed
  show "es' x = es x" if "x \<notin># heap_bag h'" for x
  proof -
    have "x \<noteq> e" "x \<notin> set (take (hn h) (elements h1))"
      using that bag take1 by (auto simp: heap_bag_def simp flip: set_mset_mset)
    then show ?thesis
      using shift_up_other [of "hn h" ?st x e] h1 by (simp add: res')
  qed
qed

lemma push_returns:
  assumes "heap_wf es h" "ok \<or> hn h < capacity h"
  obtains es' h' where "lu_min_heap_push ok es h e = (es', h', 0)"
proof -
  obtain h1 r where res: "lu_min_heap_reserve ok h (hn h + 1) = (h1, r)" by fastforce
  from res have "r = 0"
    by (cases rule: reserve_cases) (use assms in \<open>auto simp: heap_wf_def\<close>)
  then show thesis
    using res that [of "fst (lu_min_heap_shift_up (es, elements h1) (hn h1) e)"]
    by (simp add: lu_min_heap_push_def split_beta)
qed

lemma heap_wf_distinct: "heap_wf es h \<Longrightarrow> distinct (take (hn h) (elements h))"
  by (auto simp: distinct_conv_nth dest: heap_wf_inj)

lemma heap_bag_once: "heap_wf es h \<Longrightarrow> x \<notin># heap_bag h - {#x#}"
  by (simp add: heap_bag_def heap_wf_distinct not_in_iff distinct_count_atmost_1 [THEN iffD1])

text \<open>Filling the hole left by the element at \<open>i\<close> with the last element.\<close>

lemma heap_bag_last:
  assumes "heap_wf es h" "0 < hn h"
  shows "heap_bag h = add_mset (elements h ! (hn h - 1)) (mset (take (hn h - 1) (elements h)))"
proof -
  have "hn h - 1 < length (elements h)" using assms by (auto simp: heap_wf_def)
  from mset_take_Suc [OF this] show ?thesis using assms(2) by (simp add: heap_bag_def)
qed

lemma fill_mset:
  assumes wf: "heap_wf es h" and i: "i < hn h - 1"
  shows "mset (take (hn h - 1) ((elements h)[i := elements h ! (hn h - 1)])) =
           heap_bag h - {#elements h ! i#}"
proof -
  let ?l = "elements h ! (hn h - 1)"
  have ne: "elements h ! i \<noteq> ?l" using heap_wf_inj [OF wf, of i "hn h - 1"] i by auto
  have "i < length (elements h)" using wf i by (auto simp: heap_wf_def)
  then have "mset (take (hn h - 1) ((elements h)[i := ?l])) =
      add_mset ?l (mset (take (hn h - 1) (elements h)) - {#elements h ! i#})"
    using i by (simp add: take_update_swap mset_update)
  also have "\<dots> = heap_bag h - {#elements h ! i#}"
    using heap_bag_last [OF wf] i ne by simp
  finally show ?thesis .
qed

lemma fill_hole:
  assumes wf: "heap_wf es h" and i: "i < hn h" and j: "j < hn h - 1" "j \<noteq> i"
  shows "elements h ! j \<noteq> elements h ! (hn h - 1)" "elements h ! j \<noteq> elements h ! i"
    and "min_heap_idx (es (elements h ! j)) = j"
proof -
  have "j < hn h" "hn h - 1 < hn h" using j by auto
  then show "elements h ! j \<noteq> elements h ! (hn h - 1)" "elements h ! j \<noteq> elements h ! i"
      "min_heap_idx (es (elements h ! j)) = j"
    using heap_wf_inj [OF wf, of j "hn h - 1"] heap_wf_inj [OF wf, of j i] heap_wf_idx [OF wf] i j
    by fastforce+
qed

lemma shift_down_remove:
  assumes wf: "heap_wf es h" and i: "i < hn h"
    and r: "r = lu_min_heap_shift_down (es, elements h) (hn h - 1) i (elements h ! (hn h - 1))"
  shows "mset (take (hn h - 1) (snd r)) = heap_bag h - {#elements h ! i#}"
    and "heap_idx_ok (fst r) (snd r) (hn h - 1)"
    and "x \<notin># heap_bag h \<Longrightarrow> fst r x = es x"
proof -
  let ?n = "hn h - 1"
  let ?l = "elements h ! ?n"
  have le: "?n < length (elements h)" using wf i by (auto simp: heap_wf_def)
  have bag: "heap_bag h = add_mset ?l (mset (take ?n (elements h)))"
    using heap_bag_last [OF wf] i by simp
  show "mset (take ?n (snd r)) = heap_bag h - {#elements h ! i#}"
  proof (cases "i < ?n")
    case True
    then show ?thesis
      using shift_down_take [of i ?n "(es, elements h)"] fill_mset [OF wf True] le
      by (simp add: r lu_min_heap_shift_down_def)
  next
    case False
    then have "i = ?n" using i by simp
    moreover have "take ?n (snd r) = take ?n (elements h)"
      unfolding r lu_min_heap_shift_down_def using \<open>i = ?n\<close> by (subst shift_down_stop) auto
    ultimately show ?thesis using bag by simp
  qed
  show "heap_idx_ok (fst r) (snd r) ?n"
    unfolding r lu_min_heap_shift_down_def using le fill_hole [OF wf i]
    by (intro shift_down_idx) (auto simp: hole_idx_ok_def)
  show "fst r x = es x" if "x \<notin># heap_bag h"
    using that shift_down_other [of ?n "(es, elements h)" x ?l i "i * 2 + 1"] bag le
    by (simp add: r lu_min_heap_shift_down_def)
qed

lemma shift_up_remove:
  assumes wf: "heap_wf es h" and i: "i < hn h - 1"
    and r: "r = lu_min_heap_shift_up (es, elements h) i (elements h ! (hn h - 1))"
  shows "mset (take (hn h - 1) (snd r)) = heap_bag h - {#elements h ! i#}"
    and "heap_idx_ok (fst r) (snd r) (hn h - 1)"
    and "x \<notin># heap_bag h \<Longrightarrow> fst r x = es x"
proof -
  let ?n = "hn h - 1"
  have le: "?n < length (elements h)" using wf i by (auto simp: heap_wf_def)
  show "mset (take ?n (snd r)) = heap_bag h - {#elements h ! i#}"
    using shift_up_take [of i ?n "(es, elements h)"] fill_mset [OF wf i] i le by (simp add: r)
  show "heap_idx_ok (fst r) (snd r) ?n"
    unfolding r using i le fill_hole [OF wf, of i]
    by (intro shift_up_idx) (auto simp: hole_idx_ok_def)
  show "fst r x = es x" if "x \<notin># heap_bag h"
  proof -
    have "set (take i (elements h)) \<subseteq> set (take ?n (elements h))"
      using i by (simp add: set_take_subset_set_take)
    then show ?thesis
      using that shift_up_other [of i "(es, elements h)" x "elements h ! ?n"] heap_bag_last [OF wf] i le
      by (auto simp: r)
  qed
qed

lemma remove_wf:
  assumes wf: "heap_wf es h" and i: "i < hn h"
    and r: "mset (take (hn h - 1) a) = heap_bag h - {#elements h ! i#}"
      "heap_idx_ok es1 a (hn h - 1)" "length a = length (elements h)"
  shows "heap_wf (set_heap_idx es1 (elements h ! i) LU_SIZE_MAX) (h\<lparr>elements := a, hn := hn h - 1\<rparr>)"
proof -
  have "elements h ! i \<notin># mset (take (hn h - 1) a)" using heap_bag_once [OF wf] r(1) by metis
  moreover have "a ! j \<in> set (take (hn h - 1) a)" if "j < hn h - 1" for j
    using that wf r(3) by (auto simp: in_set_conv_nth heap_wf_def intro!: exI [of _ j])
  ultimately have "a ! j \<noteq> elements h ! i" if "j < hn h - 1" for j
    using that by (metis set_mset_mset)
  then have "heap_idx_ok (set_heap_idx es1 (elements h ! i) LU_SIZE_MAX) a (hn h - 1)"
    using r(2) unfolding heap_idx_ok_def by simp
  then show ?thesis using wf r(3) by (auto simp: heap_wf_def)
qed

lemma pop_unfold:
  assumes "hn h \<noteq> 0"
    and "r = lu_min_heap_shift_down (es, elements h) (hn h - 1) 0 (elements h ! (hn h - 1))"
  shows "lu_min_heap_pop es h = (set_heap_idx (fst r) (elements h ! 0) LU_SIZE_MAX,
           h\<lparr>elements := snd r, hn := hn h - 1\<rparr>, Some (elements h ! 0))"
  using assms by (simp add: lu_min_heap_pop_def split_beta Let_def)

lemma shift_down_frame': "same_but_idx es (set_heap_idx (fst (lu_min_heap_shift_down (es, a) n h e)) x i)"
  using same_but_idx_trans [OF shift_down_frame [of "(es, a)"] same_but_idx_set]
  by (simp add: lu_min_heap_shift_down_def)

lemma pop_effect:
  assumes wf: "heap_wf es h" and n: "hn h \<noteq> 0"
    and pop: "lu_min_heap_pop es h = (es', h', r)"
  shows "r = Some (elements h ! 0)" "heap_bag h' = heap_bag h - {#elements h ! 0#}"
    and "heap_wf es' h'" "same_but_idx es es'" "min_heap_idx (es' (elements h ! 0)) = LU_SIZE_MAX"
    and "\<And>x. x \<notin># heap_bag h \<Longrightarrow> es' x = es x"
proof -
  define r0 where "r0 = lu_min_heap_shift_down (es, elements h) (hn h - 1) 0 (elements h ! (hn h - 1))"
  note eq = pop_unfold [OF n r0_def, unfolded pop, simplified]
  have n0: "0 < hn h" using n by simp
  note rem = shift_down_remove [OF wf n0 r0_def]
  show "r = Some (elements h ! 0)" "min_heap_idx (es' (elements h ! 0)) = LU_SIZE_MAX"
      "heap_bag h' = heap_bag h - {#elements h ! 0#}" "same_but_idx es es'"
    using rem(1) shift_down_frame' by (simp_all add: eq heap_bag_def r0_def)
  have len: "length (snd r0) = length (elements h)" by (simp add: r0_def lu_min_heap_shift_down_def)
  show "heap_wf es' h'" using remove_wf [OF wf n0 rem(1,2) len] by (simp add: eq)
  show "es' x = es x" if "x \<notin># heap_bag h" for x
    using that rem(3) heap_wf_nth [OF wf, of 0] n by (auto simp: eq set_heap_idx_def)
qed

text \<open>Erasing takes the unconditional climb only when the conditional one would move too.\<close>

lemma erase_unfold:
  assumes wf: "heap_wf es h" and ord: "heap_ordered es (elements h) (hn h)" and i: "i < hn h"
    and e: "elements h ! i = e"
  obtains r where "lu_min_heap_erase es h e = (set_heap_idx (fst r) e LU_SIZE_MAX,
                      h\<lparr>elements := snd r, hn := hn h - 1\<rparr>, 0)"
    and "r = lu_min_heap_shift_down (es, elements h) (hn h - 1) i (elements h ! (hn h - 1)) \<or>
         i < hn h - 1 \<and> r = lu_min_heap_shift_up (es, elements h) i (elements h ! (hn h - 1))"
proof -
  let ?l = "elements h ! (hn h - 1)"
  have idx: "min_heap_idx (es e) = i" using heap_wf_idx [OF wf i] e by simp
  have ne: "LU_SIZE_MAX \<noteq> i" using wf i by (simp add: heap_wf_def)
  let ?up = "i > 0 \<and> lu_min_heap_element_greater es (elements h ! ((i - 1) div 2)) ?l"
  show thesis
  proof (cases ?up)
    case True
    have "i \<noteq> hn h - 1"
    proof
      assume "i = hn h - 1"
      then have "ev_timeout (es (elements h ! ((i - 1) div 2))) \<le> ev_timeout (es ?l)"
        using ord i(1) True unfolding heap_ordered_def by metis
      with True show False by (auto simp: lu_min_heap_element_greater_def)
    qed
    moreover have "lu_min_heap_shift_up_unconditional (es, elements h) i ?l =
        lu_min_heap_shift_up (es, elements h) i ?l"
      using True by (subst shift_up_step) (auto simp: lu_min_heap_shift_up_unconditional_def Let_def)
    ultimately show thesis
      using True i idx ne
      by (intro that [of "lu_min_heap_shift_up (es, elements h) i ?l"])
        (auto simp: lu_min_heap_erase_def Let_def split_beta)
  next
    case False
    then show thesis
      using idx ne
      by (intro that [of "lu_min_heap_shift_down (es, elements h) (hn h - 1) i ?l"])
        (auto simp: lu_min_heap_erase_def Let_def split_beta)
  qed
qed

lemma erase_effect:
  assumes wf: "heap_wf es h" and ord: "heap_ordered es (elements h) (hn h)" and e: "e \<in># heap_bag h"
    and erase: "lu_min_heap_erase es h e = (es', h', r)"
  shows "r = 0" "heap_bag h' = heap_bag h - {#e#}" "heap_wf es' h'" "same_but_idx es es'"
    and "min_heap_idx (es' e) = LU_SIZE_MAX"
proof -
  obtain i where i: "i < hn h" "elements h ! i = e" using heap_bag_nth [OF wf e] by blast
  obtain r0 where eq: "lu_min_heap_erase es h e = (set_heap_idx (fst r0) e LU_SIZE_MAX,
                      h\<lparr>elements := snd r0, hn := hn h - 1\<rparr>, 0)"
    and r0: "r0 = lu_min_heap_shift_down (es, elements h) (hn h - 1) i (elements h ! (hn h - 1)) \<or>
         i < hn h - 1 \<and> r0 = lu_min_heap_shift_up (es, elements h) i (elements h ! (hn h - 1))"
    using erase_unfold [OF wf ord i] .
  have m: "mset (take (hn h - 1) (snd r0)) = heap_bag h - {#elements h ! i#}"
      "heap_idx_ok (fst r0) (snd r0) (hn h - 1)"
    using r0 shift_down_remove(1,2) [OF wf i(1)] shift_up_remove(1,2) [OF wf] by metis+
  have len: "length (snd r0) = length (elements h)"
    using r0 by (auto simp: lu_min_heap_shift_down_def)
  note eq' = eq [unfolded erase, simplified]
  show "r = 0" "min_heap_idx (es' e) = LU_SIZE_MAX" "heap_bag h' = heap_bag h - {#e#}"
    using m i by (simp_all add: eq' heap_bag_def)
  show "heap_wf es' h'" using remove_wf [OF wf i(1) m len] i(2) by (simp add: eq')
  show "same_but_idx es es'"
    using r0 shift_down_frame' [of es] same_but_idx_trans [OF shift_up_frame [of "(es, elements h)"] same_but_idx_set]
    by (auto simp: eq')
qed

section \<open>The heap as a bag of events\<close>

text \<open>
  The interface \<open>event_bag\<close> over the pair of the event store and the heap: every event
  outside the heap has the position \<open>LU_SIZE_MAX\<close>, as \<open>lu_min_heap_element_init\<close> leaves it.
\<close>

definition heap_state_wf :: "estore \<times> lu_min_heap_t \<Rightarrow> bool" where
  "heap_state_wf s \<longleftrightarrow> heap_wf (fst s) (snd s) \<and>
     (\<forall>x. x \<notin># heap_bag (snd s) \<longrightarrow> min_heap_idx (fst s x) = LU_SIZE_MAX)"

definition heap_put :: "evptr \<Rightarrow> estore \<times> lu_min_heap_t \<Rightarrow> estore \<times> lu_min_heap_t" where
  "heap_put e s = (let (es', h', r) = lu_min_heap_push True (fst s) (snd s) e in (es', h'))"

definition heap_take :: "estore \<times> lu_min_heap_t \<Rightarrow> (estore \<times> lu_min_heap_t) \<times> evptr option" where
  "heap_take s = (let (es', h', r) = lu_min_heap_pop (fst s) (snd s) in ((es', h'), r))"

interpretation heap_bag_of: event_bag heap_state_wf "\<lambda>s. heap_bag (snd s)" "\<lambda>n. n \<le> LU_SIZE_MAX"
    heap_put heap_take
proof unfold_locales
  fix s :: "estore \<times> lu_min_heap_t" and e
  assume wf: "heap_state_wf s" and e: "e \<notin># heap_bag (snd s)" and n: "size (heap_bag (snd s)) + 1 \<le> LU_SIZE_MAX"
  have wf': "heap_wf (fst s) (snd s)" "min_heap_idx (fst s e) = LU_SIZE_MAX"
    using wf e by (auto simp: heap_state_wf_def)
  moreover have n': "hn (snd s) < LU_SIZE_MAX" using n wf' by simp
  ultimately obtain es' h' where p: "lu_min_heap_push True (fst s) (snd s) e = (es', h', 0)"
    using push_returns [of "fst s" "snd s" True e] by blast
  note eff = push_effect [OF wf' n' p]
  have put: "heap_put e s = (es', h')" using p by (simp add: heap_put_def)
  show "heap_bag (snd (heap_put e s)) = add_mset e (heap_bag (snd s))" using eff(1) put by simp
  show "heap_state_wf (heap_put e s)"
    using wf eff(1,2,5) put by (auto simp: heap_state_wf_def)
next
  fix s :: "estore \<times> lu_min_heap_t"
  assume wf: "heap_state_wf s" and e: "heap_bag (snd s) = {#}"
  then have "hn (snd s) = 0" using heap_bag_size [of "fst s" "snd s"] by (simp add: heap_state_wf_def)
  then show "heap_take s = (s, None)" by (simp add: heap_take_def lu_min_heap_pop_def)
next
  fix s s' :: "estore \<times> lu_min_heap_t" and r
  assume wf: "heap_state_wf s" and e: "heap_bag (snd s) \<noteq> {#}" and t: "heap_take s = (s', r)"
  have wf': "heap_wf (fst s) (snd s)" using wf by (simp add: heap_state_wf_def)
  have n: "hn (snd s) \<noteq> 0" using e heap_bag_size [OF wf'] by (metis size_eq_0_iff_empty)
  have p: "lu_min_heap_pop (fst s) (snd s) = (fst s', snd s', r)"
    using t by (auto simp: heap_take_def split: prod.splits)
  note eff = pop_effect [OF wf' n p]
  let ?x = "elements (snd s) ! 0"
  have "min_heap_idx (fst s' x) = LU_SIZE_MAX" if "x \<notin># heap_bag (snd s')" for x
  proof (cases "x = ?x")
    case False
    then have "x \<notin># heap_bag (snd s)" using that eff(2) by (auto simp: not_in_iff)
    then show ?thesis using eff(6) wf by (simp add: heap_state_wf_def)
  qed (use eff(5) in simp)
  then have "heap_state_wf s'" using eff(3) by (simp add: heap_state_wf_def)
  then show "\<exists>e. r = Some e \<and> e \<in># heap_bag (snd s) \<and> heap_bag (snd s') = heap_bag (snd s) - {#e#} \<and> heap_state_wf s'"
    using eff(1,2) heap_wf_nth [OF wf', of 0] n by auto
qed simp

lemma heap_state_wf_constructor:
  "(\<forall>x. min_heap_idx (es x) = LU_SIZE_MAX) \<Longrightarrow> heap_state_wf (es, lu_min_heap_constructor)"
  by (simp add: heap_state_wf_def heap_wf_constructor)

section \<open>Properties\<close>

text \<open>Event \<open>k\<close> of this store has a timeout of \<open>k\<close> seconds and is in no heap.\<close>

definition sec_store :: estore where
  "sec_store k = zero_event\<lparr>ev_timeout := Timeval (int k) 0, min_heap_idx := LU_SIZE_MAX\<rparr>"

definition sec_heap :: "evptr list \<Rightarrow> estore \<times> lu_min_heap_t" where
  "sec_heap ks = bag_fill heap_put ks (sec_store, lu_min_heap_constructor)"

lemma sec_store_idx [simp]: "min_heap_idx (sec_store k) = LU_SIZE_MAX"
  by (simp add: sec_store_def)

text \<open>C9: pushing an event that is in no heap succeeds whenever the array has a free slot or can
  be grown; it adds exactly that event, keeps every event's own index right, keeps the heap
  order, and touches nothing but the indices; on an allocation failure it returns -1 and
  changes nothing.\<close>

theorem heap_push_correct:
  assumes "heap_wf es h" "min_heap_idx (es e) = LU_SIZE_MAX" "hn h < LU_SIZE_MAX"
    and "lu_min_heap_push alloc_ok es h e = (es', h', r)"
  shows "if alloc_ok \<or> hn h < capacity h
         then r = 0 \<and> heap_bag h' = add_mset e (heap_bag h) \<and> heap_wf es' h' \<and> same_but_idx es es' \<and>
              (heap_ordered es (elements h) (hn h) \<longrightarrow> heap_ordered es' (elements h') (hn h'))
         else r = - 1 \<and> es' = es \<and> h' = h"
proof (cases "alloc_ok \<or> hn h < capacity h")
  case True
  then have r: "r = 0" using push_returns [OF assms(1) True, of e] assms(4) by auto
  note eff = push_effect [OF assms(1-3) assms(4) [unfolded r]]
  show ?thesis unfolding if_P [OF True] using r eff(1-4) by (intro conjI impI) assumption+
next
  case False
  then show ?thesis using assms(4) by (auto simp: lu_min_heap_push_def lu_min_heap_reserve_def Let_def)
qed

theorem heap_push_correct_witness:
  "let (es', h', r) = lu_min_heap_push True sec_store lu_min_heap_constructor 5 in
     r = 0 \<and> heap_bag h' = {#5#} \<and> heap_ordered es' (elements h') (hn h')"
proof -
  obtain es' h' r where p: "lu_min_heap_push True sec_store lu_min_heap_constructor 5 = (es', h', r)"
    by (metis prod_cases3)
  have "hn lu_min_heap_constructor < LU_SIZE_MAX"
      "heap_ordered sec_store (elements lu_min_heap_constructor) (hn lu_min_heap_constructor)"
    by (simp_all add: lu_min_heap_constructor_def LU_SIZE_MAX_def heap_ordered_def)
  then show ?thesis
    using heap_push_correct [OF heap_wf_constructor sec_store_idx _ p] p
    by (simp add: heap_bag_constructor)
qed

text \<open>C10: popping a non-empty heap returns its root, removes exactly that event, marks it as
  being in no heap and keeps the other indices right; when the heap is ordered, no event
  left has an earlier timeout than the one returned.\<close>

theorem heap_pop_correct:
  assumes "heap_wf es h" "hn h \<noteq> 0" "lu_min_heap_pop es h = (es', h', r)"
  shows "\<exists>e. r = Some e \<and> lu_min_heap_top h = Some e \<and> heap_bag h = add_mset e (heap_bag h') \<and>
           heap_wf es' h' \<and> min_heap_idx (es' e) = LU_SIZE_MAX \<and> same_but_idx es es' \<and>
           (heap_ordered es (elements h) (hn h) \<longrightarrow>
              (\<forall>x. x \<in># heap_bag h' \<longrightarrow> \<not> lu_min_heap_element_greater es e x))"
proof -
  note eff = pop_effect [OF assms]
  let ?e = "elements h ! 0"
  have mem: "?e \<in># heap_bag h" using heap_wf_nth [OF assms(1)] assms(2) by simp
  have "\<not> lu_min_heap_element_greater es ?e x"
    if ord: "heap_ordered es (elements h) (hn h)" and x: "x \<in># heap_bag h'" for x
  proof -
    have "x \<in># heap_bag h" using x eff(2) by (metis in_diffD)
    then show ?thesis
      using heap_root_least [OF ord heap_bag_nth(1) [OF assms(1)]] heap_bag_nth(2) [OF assms(1)]
      by (metis lu_min_heap_element_greater_def not_less timercmp_greater)
  qed
  then show ?thesis using eff mem assms(2) by (auto simp: lu_min_heap_top_def)
qed

theorem heap_pop_correct_witness:
  "let h = snd (sec_heap [2, 1]) in \<exists>es' h'. lu_min_heap_pop (fst (sec_heap [2, 1])) h = (es', h', Some 1) \<and> heap_bag h' = {#2#}"
proof -
  obtain es' h' r where p: "lu_min_heap_pop (fst (sec_heap [2, 1])) (snd (sec_heap [2, 1])) = (es', h', r)"
    by (metis prod_cases3)
  have wf: "heap_wf (fst (sec_heap [2, 1])) (snd (sec_heap [2, 1]))"
    and bag: "heap_bag (snd (sec_heap [2, 1])) = {#2, 1#}"
    using heap_bag_of.fill_bag [OF heap_state_wf_constructor, of sec_store "[2, 1]"]
    by (simp_all add: sec_heap_def heap_bag_constructor LU_SIZE_MAX_def heap_state_wf_def add_mset_commute)
  have "hn (snd (sec_heap [2, 1])) \<noteq> 0" "lu_min_heap_top (snd (sec_heap [2, 1])) = Some 1" by code_simp+
  then show ?thesis using heap_pop_correct [OF wf _ p] p bag by auto
qed

text \<open>Erasing an event of an ordered heap succeeds, removes exactly that event wherever it
  stands, marks it as being in no heap and keeps the other indices right.\<close>

theorem heap_erase_correct:
  assumes "heap_wf es h" "heap_ordered es (elements h) (hn h)" "e \<in># heap_bag h"
    and "lu_min_heap_erase es h e = (es', h', r)"
  shows "r = 0 \<and> heap_bag h = add_mset e (heap_bag h') \<and> heap_wf es' h' \<and>
         min_heap_idx (es' e) = LU_SIZE_MAX \<and> same_but_idx es es'"
  using erase_effect [OF assms] assms(3) by simp

theorem heap_erase_correct_witness:
  "let h = snd (sec_heap [1, 2]) in \<exists>es' h'. lu_min_heap_erase (fst (sec_heap [1, 2])) h 1 = (es', h', 0) \<and> heap_bag h' = {#2#}"
proof -
  obtain es' h' r where p: "lu_min_heap_erase (fst (sec_heap [1, 2])) (snd (sec_heap [1, 2])) 1 = (es', h', r)"
    by (metis prod_cases3)
  have wf: "heap_wf (fst (sec_heap [1, 2])) (snd (sec_heap [1, 2]))"
    and bag: "heap_bag (snd (sec_heap [1, 2])) = {#1, 2#}"
    using heap_bag_of.fill_bag [OF heap_state_wf_constructor, of sec_store "[1, 2]"]
    by (simp_all add: sec_heap_def heap_bag_constructor LU_SIZE_MAX_def heap_state_wf_def add_mset_commute)
  have "heap_ordered (fst (sec_heap [1, 2])) (elements (snd (sec_heap [1, 2]))) (hn (snd (sec_heap [1, 2])))"
    by code_simp
  then show ?thesis using heap_erase_correct [OF wf _ _ p] p bag by auto
qed

text \<open>Whatever distinct events are pushed on a new heap, popping it until it is empty
  returns each of them exactly once.\<close>

theorem heap_fill_drain:
  assumes "\<forall>x. min_heap_idx (es x) = LU_SIZE_MAX" "distinct evs" "length evs \<le> LU_SIZE_MAX"
    and "bag_drain heap_take (length evs) (bag_fill heap_put evs (es, lu_min_heap_constructor)) = (s', out)"
  shows "mset out = mset evs \<and> lu_min_heap_empty (snd s')"
proof -
  have "mset out = mset evs \<and> heap_bag (snd s') = {#}"
    using heap_bag_of.fill_drain [OF heap_state_wf_constructor [OF assms(1)]] assms(2-4)
    by (simp add: heap_bag_constructor)
  moreover have "heap_state_wf s'"
    using heap_bag_of.drain_all [OF _ _ assms(4)] heap_bag_of.fill_bag [of "(es, lu_min_heap_constructor)" evs]
      heap_state_wf_constructor [OF assms(1)] assms(2,3) by (simp add: heap_bag_constructor)
  ultimately show ?thesis
    using heap_bag_size [of "fst s'" "snd s'"] by (simp add: heap_state_wf_def lu_min_heap_empty_def)
qed

theorem heap_fill_drain_witness:
  "mset (snd (bag_drain heap_take 3 (bag_fill heap_put [3, 1, 2] (sec_store, lu_min_heap_constructor)))) = {#3, 1, 2#}"
  using heap_fill_drain [of sec_store "[3, 1, 2]"] by (auto simp: LU_SIZE_MAX_def simp del: bag_drain.simps bag_fill.simps) (metis numeral_3_eq_3 prod.collapse)

text \<open>\<open>lu_min_heap_shift_down_\<close> starts from the left child and compares it with the slot
  before it, so it never looks at the right child of the root: after pushing events that
  time out at 1, 2 and 3 and popping the first, the top of the heap is the event of time 3
  while the event of time 2 is still inside.\<close>

theorem heap_pop_loses_order:
  "let (s, r) = heap_take (sec_heap [1, 2, 3]) in
     r = Some 1 \<and> lu_min_heap_top (snd s) = Some 3 \<and> 2 \<in> set (take (hn (snd s)) (elements (snd s))) \<and>
     \<not> heap_ordered (fst s) (elements (snd s)) (hn (snd s))"
  by code_simp

text \<open>On the heap that pop leaves disordered, erasing the event of time 2 returns success but
  keeps that event in the array, marked as being in no heap, and loses the event of time 3.\<close>

theorem heap_erase_wrong_event:
  "let (s, _) = heap_take (sec_heap [1, 2, 3]);
       (es, h, r) = lu_min_heap_erase (fst s) (snd s) 2
   in r = 0 \<and> take (hn h) (elements h) = [2] \<and> min_heap_idx (es 2) = LU_SIZE_MAX \<and>
      3 \<notin> set (take (hn h) (elements h))"
  by code_simp

end
