(* ===== verification/LuEventBase.thy ===== *)
theory LuEventBase
  imports LuMinHeap
begin

text \<open>
  The event base (\<open>struct lu_event_base_s\<close> of \<open>include/lu_event-internal.h\<close>) with the
  structures it embeds: the slot maps of \<open>include/lu_evmap.h\<close>, the change list, the signal
  information, the table of backend operations, the configuration. An array of pointers
  (\<open>entries\<close>) is a list of optional slots, a \<open>TAILQ\<close> or \<open>LIST\<close> is the list of the
  addresses it links, front first (\<open>LuQueueEvent\<close> shows that the macros on memory do the same). \<open>io_calls\<close> and \<open>sig_calls\<close> record the calls made to
  the I/O and the signal backend, oldest first: a backend's answer may depend on every call
  made to it before. The locks carry the depth at which this thread holds them (\<open>LuThread\<close> has the macros on the callbacks).
\<close>

section \<open>Faults\<close>

text \<open>What the code does not return from: a failed assertion, a dereferenced null pointer,
  an access outside an array, an error logged with \<open>LU_EVENT_LOG_ERRORX\<close>, which ends the process with its
  code; and the bound on the rounds of a loop that is given one.\<close>

datatype fault = Assertion_failed | Null_dereference | Out_of_bounds | Process_exit int | Out_of_fuel

type_synonym 'a res = "fault + 'a"

fun bind_res :: "'a res \<Rightarrow> ('a \<Rightarrow> 'b res) \<Rightarrow> 'b res" where
  "bind_res (Inl f) k = Inl f"
| "bind_res (Inr x) k = k x"

definition lu_assert :: "bool \<Rightarrow> 'a res \<Rightarrow> 'a res" where
  "lu_assert c k = (if c then k else Inl Assertion_failed)"

lemma bind_res_Inr [simp]: "bind_res r k = Inr y \<longleftrightarrow> (\<exists>x. r = Inr x \<and> k x = Inr y)"
  by (cases r) auto

lemma lu_assert_Inr [simp]: "lu_assert c k = Inr y \<longleftrightarrow> c \<and> k = Inr y"
  by (simp add: lu_assert_def)

section \<open>Backends\<close>

datatype backend_call = Backend_add (call_fd: int) (call_old: c_short) (call_events: c_short) (call_ret: int)
  | Backend_del (call_fd: int) (call_old: c_short) (call_events: c_short) (call_ret: int)

record lu_event_op_t =
  op_name :: string
  op_init :: "nat option"
  op_add :: "backend_call list \<Rightarrow> int \<Rightarrow> c_short \<Rightarrow> c_short \<Rightarrow> int"
  op_del :: "backend_call list \<Rightarrow> int \<Rightarrow> c_short \<Rightarrow> c_short \<Rightarrow> int"
  op_dealloc :: bool
  need_reinit :: int
  features :: "32 word"
  fdinfo_len :: nat

section \<open>Slot maps\<close>

record lu_evmap_io_t =
  io_events :: "evptr list"
  nread :: nat
  nwrite :: nat
  nclose :: nat

record lu_evmap_signal_t =
  sig_events :: "evptr list"

record 'slot lu_event_signal_map_t =
  map_entries :: "'slot option list"
  nentries :: int

type_synonym lu_event_io_map_t = "lu_evmap_io_t lu_event_signal_map_t"

section \<open>The change list, the signal information, common timeouts\<close>

record lu_event_change_t =
  change_fd :: int
  old_events :: c_short
  read_change :: c_uint8
  write_change :: c_uint8
  error_change :: c_uint8

record lu_event_changelist_t =
  changes :: "lu_event_change_t list option"
  n_changes :: int
  changes_size :: int

definition lu_event_changelist_init :: lu_event_changelist_t where
  "lu_event_changelist_init = \<lparr>changes = None, n_changes = 0, changes_size = 0\<rparr>"

definition lu_event_changelist_freemem ::
    "lu_event_changelist_t \<Rightarrow> lu_event_changelist_t \<times> lu_event_change_t list option" where
  "lu_event_changelist_freemem changelist = (lu_event_changelist_init, changes changelist)"

record lu_evsig_info_t =
  ev_signal :: evptr
  ev_signal_pair :: "int \<times> int"
  ev_signal_added :: int
  ev_n_signals_added :: int
  sh_old :: "nat option"
  sh_old_max :: int

record lu_common_timeout_list_t =
  ctl_events :: "evptr list"
  ctl_duration :: timeval
  ctl_timeout_event :: evptr

definition EVWATCH_MAX :: nat where "EVWATCH_MAX = 2"

section \<open>Configuration\<close>

definition LU_EVENT_BASE_FLAG_NOLOCK :: "32 word" where "LU_EVENT_BASE_FLAG_NOLOCK = 0x01"
definition LU_EVENT_BASE_FLAG_IGNORE_ENV :: "32 word" where "LU_EVENT_BASE_FLAG_IGNORE_ENV = 0x02"
definition LU_EVENT_BASE_FLAG_NO_CACHE_TIME :: "32 word" where "LU_EVENT_BASE_FLAG_NO_CACHE_TIME = 0x08"
definition LU_EVENT_BASE_FLAG_EPOLL_USE_CHANGELIST :: "32 word" where
  "LU_EVENT_BASE_FLAG_EPOLL_USE_CHANGELIST = 0x10"
definition LU_EVENT_BASE_FLAG_PRECISE_TIMER :: "32 word" where "LU_EVENT_BASE_FLAG_PRECISE_TIMER = 0x20"
definition LU_EVENT_BASE_FLAG_EPOLL_DISALLOW_TIMERFD :: "32 word" where
  "LU_EVENT_BASE_FLAG_EPOLL_DISALLOW_TIMERFD = 0x40"
definition LU_EVENT_BASE_FLAG_USE_SIGNALFD :: "32 word" where "LU_EVENT_BASE_FLAG_USE_SIGNALFD = 0x80"

definition LU_EVENT_FEATURE_ET :: "32 word" where "LU_EVENT_FEATURE_ET = 0x01"
definition LU_EVENT_FEATURE_O1 :: "32 word" where "LU_EVENT_FEATURE_O1 = 0x02"
definition LU_EVENT_FEATURE_FDS :: "32 word" where "LU_EVENT_FEATURE_FDS = 0x04"
definition LU_EVENT_FEATURE_EARLY_CLOSE :: "32 word" where "LU_EVENT_FEATURE_EARLY_CLOSE = 0x08"

record lu_event_config_t =
  cfg_entries :: "string option list"
  n_cpus_hint :: int
  max_dispatch_interval :: timeval
  cfg_max_dispatch_callbacks :: int
  cfg_limit_callbacks_after_priority :: int
  required_features :: "32 word"
  cfg_flags :: "32 word"

section \<open>The base\<close>

record lu_event_base_t =
  evsel_op :: "lu_event_op_t option"
  evbase :: "nat option"
  changelist :: lu_event_changelist_t
  evsigsel_op :: "lu_event_op_t option"
  sig_info :: lu_evsig_info_t
  virtual_event_count :: int
  virtual_event_count_max :: int
  event_count :: int
  event_count_max :: int
  event_count_active :: int
  event_count_active_max :: int
  event_continue :: int
  event_running_priority :: int
  running_loop :: int
  activequeues :: "evptr list list"
  nactivequeues :: int
  active_later_queue :: "evptr list"
  common_timeout_queues :: "lu_common_timeout_list_t list"
  n_common_timeouts :: int
  io :: lu_event_io_map_t
  sigmap :: "lu_evmap_signal_t lu_event_signal_map_t"
  time_heap :: lu_min_heap_t
  tv_cache :: timeval
  monotonic_timer :: lu_evutil_monotonic_timer_t
  th_owner_id :: nat
  th_base_lock :: "nat option"
  current_event_cond :: "nat option"
  current_event_waiters :: int
  current_event :: "evptr option"
  base_flags :: "32 word"
  max_dispatch_time :: timeval
  max_dispatch_callbacks :: int
  limit_callbacks_after_priority :: int
  is_notify_pending :: int
  th_notify_fd :: "int \<times> int"
  th_notify :: evptr
  th_notify_fn :: "int option"
  once_events :: "evptr list"
  watchers :: "evptr list list"
  io_calls :: "backend_call list"
  sig_calls :: "backend_call list"

text \<open>
  Left out are the fields that no code reads or writes after the zeroing: \<open>event_gotterm\<close>,
  \<open>event_break\<close>, \<open>n_deferred_queued\<close>, \<open>n_common_timeouts_allocated\<close>, the clock difference
  and the random seed.

  The whole state: the events, the base at address \<open>w_self\<close>, and the short integers that
  \<open>ev_pncalls\<close> points to.
\<close>

record world =
  w_evs :: estore
  w_base :: lu_event_base_t
  w_self :: nat
  w_cells :: "nat \<Rightarrow> c_short"

text \<open>What the code reads from outside during one operation: whether each allocation
  succeeds, the clocks (\<open>stack_time\<close> is what an uninitialised \<open>struct timeval\<close> on the
  stack holds), the identity of the calling thread (\<open>None\<close> when no
  \<open>evthread_id_fn_\<close> is set), the debug switch.\<close>

record env =
  heap_alloc_ok :: bool
  map_alloc_ok :: bool
  slot_alloc_ok :: bool
  clock_gettime :: "int \<Rightarrow> timespec option"
  gettimeofday :: "timeval option"
  stack_time :: timeval
  thread_id :: "nat option"
  event_debug_mode_on :: bool

definition upd_base :: "(lu_event_base_t \<Rightarrow> lu_event_base_t) \<Rightarrow> world \<Rightarrow> world" where
  "upd_base f w = w\<lparr>w_base := f (w_base w)\<rparr>"

definition upd_ev :: "(lu_event_t \<Rightarrow> lu_event_t) \<Rightarrow> evptr \<Rightarrow> world \<Rightarrow> world" where
  "upd_ev f e w = w\<lparr>w_evs := (w_evs w)(e := f (w_evs w e))\<rparr>"

abbreviation ev_of :: "world \<Rightarrow> evptr \<Rightarrow> lu_event_t" where
  "ev_of w e \<equiv> w_evs w e"

lemma upd_base_simps [simp]:
  "w_base (upd_base f w) = f (w_base w)" "w_evs (upd_base f w) = w_evs w"
  "w_self (upd_base f w) = w_self w" "w_cells (upd_base f w) = w_cells w"
  by (simp_all add: upd_base_def)

lemma upd_ev_simps [simp]:
  "w_base (upd_ev f e w) = w_base w" "w_self (upd_ev f e w) = w_self w"
  "w_cells (upd_ev f e w) = w_cells w"
  "w_evs (upd_ev f e w) = (w_evs w)(e := f (w_evs w e))"
  by (simp_all add: upd_ev_def)

section \<open>Thread macros\<close>

definition LU_EVBASE_IN_THREAD :: "env \<Rightarrow> lu_event_base_t \<Rightarrow> bool" where
  "LU_EVBASE_IN_THREAD v b = (case thread_id v of None \<Rightarrow> True | Some t \<Rightarrow> th_owner_id b = t)"

definition LU_EVBASE_NEED_NOTIFY :: "env \<Rightarrow> lu_event_base_t \<Rightarrow> bool" where
  "LU_EVBASE_NEED_NOTIFY v b =
     (case thread_id v of None \<Rightarrow> False | Some t \<Rightarrow> running_loop b \<noteq> 0 \<and> th_owner_id b \<noteq> t)"

definition LU_EVTHREAD_GET_ID :: "env \<Rightarrow> nat" where
  "LU_EVTHREAD_GET_ID v = (case thread_id v of None \<Rightarrow> 1 | Some t \<Rightarrow> t)"

text \<open>Acquiring and releasing do nothing when the base has no lock; otherwise they count the depth.\<close>

definition LU_EVBASE_ACQUIRE_LOCK :: "world \<Rightarrow> world" where
  "LU_EVBASE_ACQUIRE_LOCK = upd_base (\<lambda>b. b\<lparr>th_base_lock := map_option Suc (th_base_lock b)\<rparr>)"

definition LU_EVBASE_RELEASE_LOCK :: "world \<Rightarrow> world" where
  "LU_EVBASE_RELEASE_LOCK = upd_base (\<lambda>b. b\<lparr>th_base_lock := map_option (\<lambda>d. d - 1) (th_base_lock b)\<rparr>)"

text \<open>Waiting on the condition releases and retakes the lock; only the count of waiters is kept.\<close>

definition wait_current_event :: "world \<Rightarrow> world" where
  "wait_current_event = upd_base (\<lambda>b. b\<lparr>current_event_waiters := current_event_waiters b + 1\<rparr>)"

end
