(* ===== verification/LuEvMap.thy ===== *)
theory LuEvMap
  imports LuEventBase
begin

text \<open>
  The maps from file descriptors and signals to events (\<open>src/lu_evmap.c\<close>). A slot of the
  I/O map keeps the events on one descriptor, most recently added first, and how many of
  them want to read, to write and to hear of a close; the backend is told only when one of
  these counts leaves or reaches 0. Every function takes the world and returns it with the
  C return value.
\<close>

definition NSIG :: int where "NSIG = 65"

text \<open>\<open>sizeof\<close> of a pointer: the \<open>msize\<close> both callers pass.\<close>

definition ptr_size :: int where "ptr_size = 8"

definition lu_evmap_io_initmap :: lu_event_io_map_t where
  "lu_evmap_io_initmap = \<lparr>map_entries = [], nentries = 0\<rparr>"

definition lu_evmap_siganl_initmap :: "lu_evmap_signal_t lu_event_signal_map_t" where
  "lu_evmap_siganl_initmap = \<lparr>map_entries = [], nentries = 0\<rparr>"

definition lu_evmap_io_init :: lu_evmap_io_t where
  "lu_evmap_io_init = \<lparr>io_events = [], nread = 0, nwrite = 0, nclose = 0\<rparr>"

definition lu_evmap_signal_init :: lu_evmap_signal_t where
  "lu_evmap_signal_init = \<lparr>sig_events = []\<rparr>"

section \<open>Growing a map\<close>

function double_until :: "int \<Rightarrow> int \<Rightarrow> int" where
  "double_until n slot = (if 0 < n \<and> n \<le> slot then double_until (n * 2) slot else n)"
  by pat_completeness auto
termination by (relation "measure (\<lambda>(n, s). nat (s + 1 - n))") auto

declare double_until.simps [simp del]

lemma double_until_gt: "0 < n \<Longrightarrow> slot < double_until n slot"
proof (induction n slot rule: double_until.induct)
  case (1 n slot)
  then show ?case by (subst double_until.simps) auto
qed

lemma double_until_ge: "0 < n \<Longrightarrow> n \<le> double_until n slot"
proof (induction n slot rule: double_until.induct)
  case (1 n slot)
  then show ?case by (subst double_until.simps) auto
qed

lemma double_until_bound: "0 < n \<Longrightarrow> double_until n slot \<le> max n (2 * slot)"
proof (induction n slot rule: double_until.induct)
  case (1 n slot)
  then show ?case by (subst double_until.simps) auto
qed

definition lu_evmap_make_space ::
    "bool \<Rightarrow> 'slot lu_event_signal_map_t \<Rightarrow> int \<Rightarrow> int \<Rightarrow> 'slot lu_event_signal_map_t \<times> int" where
  "lu_evmap_make_space realloc_ok mp slot msize =
     (if nentries mp \<le> slot then
        (if slot > INT_MAX div 2 then (mp, - 1)
         else
           (let n = double_until (if nentries mp \<noteq> 0 then nentries mp else 32) slot in
            if n > INT_MAX div msize then (mp, - 1)
            else if \<not> realloc_ok then (mp, - 1)
            else (mp\<lparr>map_entries := map_entries mp @ replicate (nat (n - nentries mp)) None,
                      nentries := n\<rparr>, 0)))
      else (mp, 0))"

text \<open>\<open>GET_SIGNAL_SLOT_AND_CTOR\<close>: the slot, constructed when it is null; \<open>None\<close> when the
  allocation fails.\<close>

definition GET_SLOT_AND_CTOR ::
    "bool \<Rightarrow> 'slot lu_event_signal_map_t \<Rightarrow> int \<Rightarrow> 'slot \<Rightarrow> ('slot lu_event_signal_map_t \<times> 'slot) option" where
  "GET_SLOT_AND_CTOR calloc_ok mp slot ctor =
     (case map_entries mp ! nat slot of
        Some x \<Rightarrow> Some (mp, x)
      | None \<Rightarrow> (if calloc_ok
                 then Some (mp\<lparr>map_entries := (map_entries mp)[nat slot := Some ctor]\<rparr>, ctor)
                 else None))"

definition put_slot :: "'slot lu_event_signal_map_t \<Rightarrow> int \<Rightarrow> 'slot \<Rightarrow> 'slot lu_event_signal_map_t" where
  "put_slot mp slot x = mp\<lparr>map_entries := (map_entries mp)[nat slot := Some x]\<rparr>"

section \<open>I/O events\<close>

text \<open>The flags of the counts that are not 0, and the part of \<open>events\<close> that is selected.\<close>

definition count_flags :: "nat \<Rightarrow> nat \<Rightarrow> nat \<Rightarrow> c_short" where
  "count_flags r w c =
     (if r \<noteq> 0 then LU_EV_READ else 0) OR (if w \<noteq> 0 then LU_EV_WRITE else 0) OR
     (if c \<noteq> 0 then LU_EV_CLOSED else 0)"

definition select_flags :: "bool \<Rightarrow> bool \<Rightarrow> bool \<Rightarrow> c_short" where
  "select_flags r w c =
     (if r then LU_EV_READ else 0) OR (if w then LU_EV_WRITE else 0) OR (if c then LU_EV_CLOSED else 0)"

definition lu_evmap_io_add :: "env \<Rightarrow> world \<Rightarrow> int \<Rightarrow> evptr \<Rightarrow> (world \<times> int) res" where
  "lu_evmap_io_add v w fd ev =
     lu_assert (fd = ev_fd (ev_of w ev))
     (if fd < 0 then Inr (w, 0) else
      let (m0, r) = (if fd \<ge> nentries (io (w_base w))
                     then lu_evmap_make_space (map_alloc_ok v) (io (w_base w)) fd ptr_size
                     else (io (w_base w), 0))
      in if r = - 1 then Inr (upd_base (\<lambda>b. b\<lparr>io := m0\<rparr>) w, - 1)
      else
        (case GET_SLOT_AND_CTOR (slot_alloc_ok v) m0 fd lu_evmap_io_init of
           None \<Rightarrow> Inr (upd_base (\<lambda>b. b\<lparr>io := m0\<rparr>) w, - 1)
         | Some (m, ctx) \<Rightarrow>
             let w1 = upd_base (\<lambda>b. b\<lparr>io := m\<rparr>) w;
                 evts = ev_events (ev_of w ev);
                 old = count_flags (nread ctx) (nwrite ctx) (nclose ctx);
                 rd = nread ctx + (if has_flag evts LU_EV_READ then 1 else 0);
                 wr = nwrite ctx + (if has_flag evts LU_EV_WRITE then 1 else 0);
                 cl = nclose ctx + (if has_flag evts LU_EV_CLOSED then 1 else 0);
                 res = select_flags (has_flag evts LU_EV_READ \<and> rd = 1)
                         (has_flag evts LU_EV_WRITE \<and> wr = 1) (has_flag evts LU_EV_CLOSED \<and> cl = 1);
                 ctx' = ctx\<lparr>io_events := ev # io_events ctx, nread := rd, nwrite := wr, nclose := cl\<rparr>
             in if rd > 0xffff \<or> wr > 0xffff \<or> cl > 0xffff then Inr (w1, - 1)
             else if event_debug_mode_on v \<and> io_events ctx \<noteq> [] \<and>
                     ev_events (ev_of w (hd (io_events ctx))) AND LU_EV_ET \<noteq> evts AND LU_EV_ET
             then Inr (w1, - 1)
             else if res \<noteq> 0 then
               (case evsel_op (w_base w) of
                  None \<Rightarrow> Inl Null_dereference
                | Some evsel \<Rightarrow>
                    let ret = op_add evsel (io_calls (w_base w)) (ev_fd (ev_of w ev)) old ((evts AND LU_EV_ET) OR res);
                        w2 = upd_base (\<lambda>b. b\<lparr>io_calls := io_calls b @
                               [Backend_add (ev_fd (ev_of w ev)) old ((evts AND LU_EV_ET) OR res) ret]\<rparr>) w1
                    in if ret = - 1 then Inr (w2, - 1)
                       else Inr (upd_base (\<lambda>b. b\<lparr>io := put_slot (io b) fd ctx'\<rparr>) w2, 1))
             else Inr (upd_base (\<lambda>b. b\<lparr>io := put_slot (io b) fd ctx'\<rparr>) w1, 0)))"

text \<open>The counts go below 0 only in front of a failing assertion.\<close>

definition lu_evmap_io_del :: "env \<Rightarrow> world \<Rightarrow> int \<Rightarrow> evptr \<Rightarrow> (world \<times> int) res" where
  "lu_evmap_io_del v w fd ev =
     (if fd < 0 then Inr (w, 0) else
      lu_assert (fd = ev_fd (ev_of w ev))
      (if fd \<ge> nentries (io (w_base w)) then Inr (w, - 1) else
       (case map_entries (io (w_base w)) ! nat fd of
          None \<Rightarrow> Inl Null_dereference
        | Some ctx \<Rightarrow>
            let evts = ev_events (ev_of w ev);
                old = count_flags (nread ctx) (nwrite ctx) (nclose ctx);
                rd = int (nread ctx) - (if has_flag evts LU_EV_READ then 1 else 0);
                wr = int (nwrite ctx) - (if has_flag evts LU_EV_WRITE then 1 else 0);
                cl = int (nclose ctx) - (if has_flag evts LU_EV_CLOSED then 1 else 0);
                res = select_flags (has_flag evts LU_EV_READ \<and> rd = 0)
                        (has_flag evts LU_EV_WRITE \<and> wr = 0) (has_flag evts LU_EV_CLOSED \<and> cl = 0);
                ctx' = ctx\<lparr>io_events := remove1 ev (io_events ctx), nread := nat rd, nwrite := nat wr,
                           nclose := nat cl\<rparr>
            in lu_assert (rd \<ge> 0 \<and> wr \<ge> 0 \<and> cl \<ge> 0)
               (if res \<noteq> 0 then
                 (case evsel_op (w_base w) of
                    None \<Rightarrow> Inl Null_dereference
                  | Some evsel \<Rightarrow>
                      let ret = op_del evsel (io_calls (w_base w)) (ev_fd (ev_of w ev)) old ((evts AND LU_EV_ET) OR res)
                      in Inr (upd_base (\<lambda>b. b\<lparr>io := put_slot (io b) fd ctx',
                                io_calls := io_calls b @
                                  [Backend_del (ev_fd (ev_of w ev)) old ((evts AND LU_EV_ET) OR res) ret]\<rparr>) w,
                              if ret = - 1 then - 1 else 1))
                else Inr (upd_base (\<lambda>b. b\<lparr>io := put_slot (io b) fd ctx'\<rparr>) w, 0)))))"

section \<open>Signal events\<close>

definition lu_evmap_signal_add :: "env \<Rightarrow> world \<Rightarrow> int \<Rightarrow> evptr \<Rightarrow> (world \<times> int) res" where
  "lu_evmap_signal_add v w sig ev =
     (if sig < 0 \<or> sig \<ge> NSIG then Inr (w, - 1) else
      let (m0, r) = (if sig \<ge> nentries (sigmap (w_base w))
                     then lu_evmap_make_space (map_alloc_ok v) (sigmap (w_base w)) sig ptr_size
                     else (sigmap (w_base w), 0))
      in if r = - 1 then Inr (upd_base (\<lambda>b. b\<lparr>sigmap := m0\<rparr>) w, - 1)
      else if map_entries m0 ! nat sig = None \<and> evsigsel_op (w_base w) = None then Inl Null_dereference
      else
        (case GET_SLOT_AND_CTOR (slot_alloc_ok v) m0 sig lu_evmap_signal_init of
           None \<Rightarrow> Inr (upd_base (\<lambda>b. b\<lparr>sigmap := m0\<rparr>) w, - 1)
         | Some (m, ctx) \<Rightarrow>
             let w1 = upd_base (\<lambda>b. b\<lparr>sigmap := m\<rparr>) w;
                 ctx' = ctx\<lparr>sig_events := ev # sig_events ctx\<rparr>
             in if sig_events ctx = [] then
                  (case evsigsel_op (w_base w) of
                     None \<Rightarrow> Inl Null_dereference
                   | Some evsel \<Rightarrow>
                       let ret = op_add evsel (sig_calls (w_base w)) (ev_fd (ev_of w ev)) 0 LU_EV_SIGNAL;
                           w2 = upd_base (\<lambda>b. b\<lparr>sig_calls := sig_calls b @
                                  [Backend_add (ev_fd (ev_of w ev)) 0 LU_EV_SIGNAL ret]\<rparr>) w1
                       in if ret = - 1 then Inr (w2, - 1)
                          else Inr (upd_base (\<lambda>b. b\<lparr>sigmap := put_slot (sigmap b) sig ctx'\<rparr>) w2, 1))
                else Inr (upd_base (\<lambda>b. b\<lparr>sigmap := put_slot (sigmap b) sig ctx'\<rparr>) w1, 1)))"

definition lu_evmap_signal_del :: "env \<Rightarrow> world \<Rightarrow> int \<Rightarrow> evptr \<Rightarrow> (world \<times> int) res" where
  "lu_evmap_signal_del v w sig ev =
     (if sig < 0 \<or> sig \<ge> nentries (sigmap (w_base w)) then Inr (w, - 1) else
      (case map_entries (sigmap (w_base w)) ! nat sig of
         None \<Rightarrow> Inl Null_dereference
       | Some ctx \<Rightarrow>
           let ctx' = ctx\<lparr>sig_events := remove1 ev (sig_events ctx)\<rparr>;
               w1 = upd_base (\<lambda>b. b\<lparr>sigmap := put_slot (sigmap b) sig ctx'\<rparr>) w
           in if sig_events ctx' = [] then
                (case evsigsel_op (w_base w) of
                   None \<Rightarrow> Inl Null_dereference
                 | Some evsel \<Rightarrow>
                     let ret = op_del evsel (sig_calls (w_base w)) (ev_fd (ev_of w ev)) 0 LU_EV_SIGNAL
                     in Inr (upd_base (\<lambda>b. b\<lparr>sig_calls := sig_calls b @
                               [Backend_del (ev_fd (ev_of w ev)) 0 LU_EV_SIGNAL ret]\<rparr>) w1,
                             if ret = - 1 then - 1 else 1))
              else Inr (w1, 1)))"

section \<open>Traversal and clearing\<close>

text \<open>
  \<open>lu_evmap_io_foreach_fd\<close> and \<open>lu_evmap_signal_foreach_signal\<close>: the callback runs on every
  slot that is not null, in order, until it returns a value other than 0. \<open>slot_of\<close> reads
  the map again in every round, as the loop does.
\<close>

fun evmap_foreach ::
    "(world \<Rightarrow> 'slot lu_event_signal_map_t) \<Rightarrow> (world \<Rightarrow> int \<Rightarrow> (world \<times> int) res) \<Rightarrow> nat \<Rightarrow> int \<Rightarrow> world \<Rightarrow>
       (world \<times> int) res" where
  "evmap_foreach mp_of fn 0 i w = Inr (w, 0)"
| "evmap_foreach mp_of fn (Suc k) i w =
     (case map_entries (mp_of w) ! nat i of
        None \<Rightarrow> evmap_foreach mp_of fn k (i + 1) w
      | Some ctx \<Rightarrow> bind_res (fn w i) (\<lambda>(w', r). if r \<noteq> 0 then Inr (w', r)
                                                else evmap_foreach mp_of fn k (i + 1) w'))"

definition lu_evmap_io_foreach_fd :: "(world \<Rightarrow> int \<Rightarrow> (world \<times> int) res) \<Rightarrow> world \<Rightarrow> (world \<times> int) res" where
  "lu_evmap_io_foreach_fd fn w =
     evmap_foreach (\<lambda>w. io (w_base w)) fn (nat (nentries (io (w_base w)))) 0 w"

definition lu_evmap_signal_foreach_signal ::
    "(world \<Rightarrow> int \<Rightarrow> (world \<times> int) res) \<Rightarrow> world \<Rightarrow> (world \<times> int) res" where
  "lu_evmap_signal_foreach_signal fn w =
     evmap_foreach (\<lambda>w. sigmap (w_base w)) fn (nat (nentries (sigmap (w_base w)))) 0 w"

text \<open>Clearing frees every slot and the array; the second component is what is freed.\<close>

definition lu_evmap_signal_clear ::
    "'slot lu_event_signal_map_t \<Rightarrow> 'slot lu_event_signal_map_t \<times> 'slot list" where
  "lu_evmap_signal_clear ctx =
     (\<lparr>map_entries = [], nentries = 0\<rparr>,
      List.map_filter id (take (nat (nentries ctx)) (map_entries ctx)))"

definition lu_evmap_io_clear :: "lu_event_io_map_t \<Rightarrow> lu_event_io_map_t \<times> lu_evmap_io_t list" where
  "lu_evmap_io_clear ctx = lu_evmap_signal_clear ctx"

end
