(* ===== verification/LuEvent.thy ===== *)
theory LuEvent
  imports LuEvMap
begin

text \<open>
  The event core of \<open>src/lu_event.c\<close>: the queues of active callbacks, the flags and
  counters an event carries through them, adding, deleting and activating an event. The
  functions follow the code's order of tests and of state changes; each returns the world
  with the C return value, or the fault it stops at. Logging that returns, the debug hooks of
  \<open>include/lu_event.h\<close> (empty bodies) and \<open>LU_EVENT_BASE_ASSERT_LOCKED\<close> (off unless lock
  debugging is on, which no code turns on) have no effect and are not written out.
\<close>

section \<open>Counters and flags\<close>

definition counted :: "c_short \<Rightarrow> int" where
  "counted flags = (if has_flag flags LU_EVLIST_INTERNAL then 0 else 1)"

definition LU_INCR_EVENT_COUNT :: "c_short \<Rightarrow> world \<Rightarrow> world" where
  "LU_INCR_EVENT_COUNT flags = upd_base (\<lambda>b.
     b\<lparr>event_count := event_count b + counted flags,
       event_count_max := max (event_count_max b) (event_count b + counted flags)\<rparr>)"

definition LU_DECR_EVENT_COUNT :: "c_short \<Rightarrow> world \<Rightarrow> world" where
  "LU_DECR_EVENT_COUNT flags = upd_base (\<lambda>b. b\<lparr>event_count := event_count b - counted flags\<rparr>)"

definition ev_set_flag :: "c_short \<Rightarrow> evptr \<Rightarrow> world \<Rightarrow> world" where
  "ev_set_flag f = upd_ev (upd_flags (\<lambda>x. set_flag x f))"

definition ev_clr_flag :: "c_short \<Rightarrow> evptr \<Rightarrow> world \<Rightarrow> world" where
  "ev_clr_flag f = upd_ev (upd_flags (\<lambda>x. clr_flag x f))"

abbreviation fl :: "world \<Rightarrow> evptr \<Rightarrow> c_short" where
  "fl w e \<equiv> ev_flags (ev_of w e)"

definition lu_event_haveevents :: "world \<Rightarrow> bool" where
  "lu_event_haveevents w \<longleftrightarrow> virtual_event_count (w_base w) > 0 \<or> event_count (w_base w) > 0"

definition N_ACTIVE_CALLBACKS :: "world \<Rightarrow> int" where
  "N_ACTIVE_CALLBACKS w = event_count_active (w_base w)"

section \<open>Time\<close>

text \<open>\<open>gettime\<close>: the cached time when there is one; the second component is \<open>*tp\<close> when written.\<close>

definition gettime :: "env \<Rightarrow> world \<Rightarrow> world \<times> timeval option \<times> int" where
  "gettime v w =
     (if tv_sec (tv_cache (w_base w)) \<noteq> 0 then (w, Some (tv_cache (w_base w)), 0)
      else (let (m, t, r) = lu_evutil_gettime_monotonic (gettimeofday v) (clock_gettime v) (monotonic_timer (w_base w))
            in (upd_base (\<lambda>b. b\<lparr>monotonic_timer := m\<rparr>) w, t, if r = - 1 then - 1 else 0)))"

definition MICROSECONDS_MASK :: int where "MICROSECONDS_MASK = 0x000fffff"
definition COMMON_TIMEOUT_IDX_MASK :: int where "COMMON_TIMEOUT_IDX_MASK = 0x0ff00000"
definition COMMON_TIMEOUT_MASK :: int where "COMMON_TIMEOUT_MASK = 0xf0000000"
definition COMMON_TIMEOUT_MAGIC :: int where "COMMON_TIMEOUT_MAGIC = 0x50000000"

definition LU_COMMON_TIMEOUT_IDX :: "timeval \<Rightarrow> nat" where
  "LU_COMMON_TIMEOUT_IDX tv = nat (drop_bit 20 (tv_usec tv AND COMMON_TIMEOUT_IDX_MASK))"

definition lu_is_common_timeout :: "timeval \<Rightarrow> lu_event_base_t \<Rightarrow> bool" where
  "lu_is_common_timeout tv b \<longleftrightarrow>
     tv_usec tv AND COMMON_TIMEOUT_MASK = COMMON_TIMEOUT_MAGIC \<and>
     int (LU_COMMON_TIMEOUT_IDX tv) < n_common_timeouts b"

definition lu_get_common_timeout_list :: "lu_event_base_t \<Rightarrow> timeval \<Rightarrow> lu_common_timeout_list_t" where
  "lu_get_common_timeout_list b tv = common_timeout_queues b ! LU_COMMON_TIMEOUT_IDX tv"

section \<open>The queues\<close>

text \<open>\<open>TAILQ_REMOVE\<close> and \<open>TAILQ_INSERT_TAIL\<close> on the active queue of a priority.\<close>

definition upd_queue :: "nat \<Rightarrow> (evptr list \<Rightarrow> evptr list) \<Rightarrow> world \<Rightarrow> world res" where
  "upd_queue p f w =
     (if p < length (activequeues (w_base w))
      then Inr (upd_base (\<lambda>b. b\<lparr>activequeues := (activequeues b)[p := f (activequeues b ! p)]\<rparr>) w)
      else Inl Out_of_bounds)"

definition lu_event_queue_remove_active :: "world \<Rightarrow> evptr \<Rightarrow> world res" where
  "lu_event_queue_remove_active w evcb =
     (if \<not> has_flag (fl w evcb) LU_EVLIST_ACTIVE then Inl (Process_exit 1)
      else
        (let w1 = LU_DECR_EVENT_COUNT (fl w evcb) w;
             w2 = ev_clr_flag LU_EVLIST_ACTIVE evcb w1;
             w3 = upd_base (\<lambda>b. b\<lparr>event_count_active := event_count_active b - 1\<rparr>) w2
         in upd_queue (unat (ev_pri (ev_of w evcb))) (remove1 evcb) w3))"

definition lu_event_queue_remove_active_later :: "world \<Rightarrow> evptr \<Rightarrow> world res" where
  "lu_event_queue_remove_active_later w evcb =
     (if \<not> has_flag (fl w evcb) LU_EVLIST_ACTIVE_LATER then Inl (Process_exit 1)
      else
        (let w1 = LU_DECR_EVENT_COUNT (fl w evcb) w;
             w2 = ev_clr_flag LU_EVLIST_ACTIVE_LATER evcb w1
         in Inr (upd_base (\<lambda>b. b\<lparr>event_count_active := event_count_active b - 1,
                                 active_later_queue := remove1 evcb (active_later_queue b)\<rparr>) w2)))"

definition lu_event_queue_insert_active :: "world \<Rightarrow> evptr \<Rightarrow> world res" where
  "lu_event_queue_insert_active w evcb =
     (if has_flag (fl w evcb) LU_EVLIST_ACTIVE then Inr w
      else
        (let w1 = LU_INCR_EVENT_COUNT (fl w evcb) w;
             w2 = ev_set_flag LU_EVLIST_ACTIVE evcb w1;
             w3 = upd_base (\<lambda>b. b\<lparr>event_count_active := event_count_active b + 1,
                    event_count_active_max := max (event_count_active_max b) (event_count_active b + 1)\<rparr>) w2;
             p = unat (ev_pri (ev_of w evcb))
         in lu_assert (int p < nactivequeues (w_base w3)) (upd_queue p (\<lambda>q. q @ [evcb]) w3)))"

definition lu_event_queue_remove_inserted :: "world \<Rightarrow> evptr \<Rightarrow> world res" where
  "lu_event_queue_remove_inserted w ev =
     (if \<not> has_flag (fl w ev) LU_EVLIST_INSERTED then Inl (Process_exit 1)
      else Inr (ev_clr_flag LU_EVLIST_INSERTED ev (LU_DECR_EVENT_COUNT (fl w ev) w)))"

definition lu_event_queue_insert_inserted :: "world \<Rightarrow> evptr \<Rightarrow> world res" where
  "lu_event_queue_insert_inserted w ev =
     (if has_flag (fl w ev) LU_EVLIST_INSERTED then Inl (Process_exit 1)
      else Inr (ev_set_flag LU_EVLIST_INSERTED ev (LU_INCR_EVENT_COUNT (fl w ev) w)))"

definition lu_event_queue_remove_timeout :: "world \<Rightarrow> evptr \<Rightarrow> world res" where
  "lu_event_queue_remove_timeout w ev =
     (if \<not> has_flag (fl w ev) LU_EVLIST_TIMEOUT then Inl (Process_exit 1)
      else Inr
        (let w1 = ev_clr_flag LU_EVLIST_TIMEOUT ev (LU_DECR_EVENT_COUNT (fl w ev) w);
             tv = ev_timeout (ev_of w ev)
         in if lu_is_common_timeout tv (w_base w1)
            then upd_base (\<lambda>b. b\<lparr>common_timeout_queues := (common_timeout_queues b)
                   [LU_COMMON_TIMEOUT_IDX tv := (lu_get_common_timeout_list b tv)
                      \<lparr>ctl_events := remove1 ev (ctl_events (lu_get_common_timeout_list b tv))\<rparr>]\<rparr>) w1
            else (let (es, h, r) = lu_min_heap_erase (w_evs w1) (time_heap (w_base w1)) ev
                  in upd_base (\<lambda>b. b\<lparr>time_heap := h\<rparr>) (w1\<lparr>w_evs := es\<rparr>))))"

definition lu_evthread_notify_base :: "world \<Rightarrow> world \<times> int" where
  "lu_evthread_notify_base w =
     (case th_notify_fn (w_base w) of
        None \<Rightarrow> (w, - 1)
      | Some r \<Rightarrow> (if is_notify_pending (w_base w) \<noteq> 0 then (w, 0)
                  else (upd_base (\<lambda>b. b\<lparr>is_notify_pending := 1\<rparr>) w, r)))"

section \<open>Activating\<close>

definition lu_event_callback_activate_nolock :: "env \<Rightarrow> world \<Rightarrow> evptr \<Rightarrow> (world \<times> int) res" where
  "lu_event_callback_activate_nolock v w evcb =
     (let a = has_flag (fl w evcb) LU_EVLIST_ACTIVE; l = has_flag (fl w evcb) LU_EVLIST_ACTIVE_LATER;
          finish = (\<lambda>w r. bind_res (lu_event_queue_insert_active w evcb) (\<lambda>w'.
             Inr (if LU_EVBASE_NEED_NOTIFY v (w_base w') then fst (lu_evthread_notify_base w') else w', r)))
      in if has_flag (fl w evcb) LU_EVLIST_FINALIZING then Inr (w, 0)
         else if a \<and> l then Inl Assertion_failed
         else if l then bind_res (lu_event_queue_remove_active_later w evcb) (\<lambda>w'. finish w' 0)
         else if a then Inr (w, 0)
         else finish w 1)"

definition lu_event_active_nolock :: "env \<Rightarrow> world \<Rightarrow> evptr \<Rightarrow> c_short \<Rightarrow> c_short \<Rightarrow> world res" where
  "lu_event_active_nolock v w ev res ncalls =
     (let a = has_flag (fl w ev) LU_EVLIST_ACTIVE; l = has_flag (fl w ev) LU_EVLIST_ACTIVE_LATER
      in if ev_base (ev_of w ev) = None then Inl Null_dereference
         else if has_flag (fl w ev) LU_EVLIST_FINALIZING then Inr w
         else if a \<and> l then Inl Assertion_failed
         else if a then Inr (upd_ev (\<lambda>e. e\<lparr>ev_res := ev_res e OR res\<rparr>) ev w)
         else
           (let w1 = upd_ev (\<lambda>e. e\<lparr>ev_res := (if l then ev_res e OR res else res)\<rparr>) ev w;
                w2 = (if int (unat (ev_pri (ev_of w1 ev))) < event_running_priority (w_base w1)
                      then upd_base (\<lambda>b. b\<lparr>event_continue := 1\<rparr>) w1 else w1);
                w3 = (if has_flag (ev_events (ev_of w2 ev)) LU_EV_SIGNAL
                      then upd_ev (\<lambda>e. e\<lparr>ev_ncalls := ncalls, ev_pncalls := None\<rparr>) ev
                             (if current_event (w_base w2) = Some ev \<and> \<not> LU_EVBASE_IN_THREAD v (w_base w2)
                              then wait_current_event w2 else w2)
                      else w2)
            in bind_res (lu_event_callback_activate_nolock v w3 ev) (\<lambda>(w', r). Inr w')))"

section \<open>Deleting\<close>

text \<open>\<open>*ev->ev_pncalls = 0\<close>, when the event is being run in a loop.\<close>

definition abort_signal_loop :: "evptr \<Rightarrow> world \<Rightarrow> world" where
  "abort_signal_loop ev w =
     (if ev_ncalls (ev_of w ev) \<noteq> 0
      then (case ev_pncalls (ev_of w ev) of
              None \<Rightarrow> w | Some c \<Rightarrow> w\<lparr>w_cells := (w_cells w)(c := 0)\<rparr>)
      else w)"

definition IO_EVENTS :: c_short where
  "IO_EVENTS = LU_EV_READ OR LU_EV_WRITE OR LU_EV_CLOSED"

definition lu_event_del_nolock :: "env \<Rightarrow> world \<Rightarrow> evptr \<Rightarrow> del_mode \<Rightarrow> (world \<times> int) res" where
  "lu_event_del_nolock v w ev blocking =
     (if ev_base (ev_of w ev) = None then Inr (w, - 1)
      else if blocking \<noteq> LU_EVENT_DEL_EVEN_IF_FINALIZING \<and> has_flag (fl w ev) LU_EVLIST_FINALIZING
      then Inr (w, 0)
      else lu_assert (clr_flag (fl w ev) LU_EVLIST_ALL = 0)
        (let w1 = (if has_flag (ev_events (ev_of w ev)) LU_EV_SIGNAL then abort_signal_loop ev w else w)
         in bind_res
              (if has_flag (fl w1 ev) LU_EVLIST_TIMEOUT
               then bind_res (lu_event_queue_remove_timeout w1 ev)
                      (\<lambda>w2. Inr (w2, lu_min_heap_top (time_heap (w_base w1)) = Some ev))
               else Inr (w1, False))
            (\<lambda>(w2, notify2). bind_res
              (if has_flag (fl w2 ev) LU_EVLIST_ACTIVE then lu_event_queue_remove_active w2 ev
               else if has_flag (fl w2 ev) LU_EVLIST_ACTIVE_LATER then lu_event_queue_remove_active_later w2 ev
               else Inr w2)
            (\<lambda>w3. bind_res
              (if has_flag (fl w3 ev) LU_EVLIST_INSERTED
               then bind_res
                 (bind_res (lu_event_queue_remove_inserted w3 ev)
                   (\<lambda>w4. if has_flag (ev_events (ev_of w4 ev)) IO_EVENTS
                     then lu_evmap_io_del v w4 (ev_fd (ev_of w4 ev)) ev
                     else lu_evmap_signal_del v w4 (ev_fd (ev_of w4 ev)) ev))
                 (\<lambda>(w5, r). Inr (w5, if r = 1 then 0 else r,
                    r = 1 \<or> notify2 \<or> (\<not> lu_event_haveevents w5 \<and> N_ACTIVE_CALLBACKS w5 = 0)))
               else Inr (w3, 0, notify2))
            (\<lambda>(w6, r, notify).
              let w7 = (if r \<noteq> - 1 \<and> notify \<and> LU_EVBASE_NEED_NOTIFY v (w_base w6)
                        then fst (lu_evthread_notify_base w6) else w6);
                  w8 = (if blocking \<noteq> LU_EVENT_DEL_NOBLOCK \<and> current_event (w_base w7) = Some ev \<and>
                           \<not> LU_EVBASE_IN_THREAD v (w_base w7) \<and>
                           (blocking = LU_EVENT_DEL_BLOCK \<or> \<not> has_flag (ev_events (ev_of w7 ev)) LU_EV_FINALIZE)
                        then wait_current_event w7 else w7)
              in Inr (w8, r))))))"

definition lu_event_del_locked :: "env \<Rightarrow> world \<Rightarrow> evptr \<Rightarrow> del_mode \<Rightarrow> (world \<times> int) res" where
  "lu_event_del_locked v w ev blocking =
     (if ev_base (ev_of w ev) = None then Inr (w, - 1)
      else bind_res (lu_event_del_nolock v (LU_EVBASE_ACQUIRE_LOCK w) ev blocking)
             (\<lambda>(w', r). Inr (LU_EVBASE_RELEASE_LOCK w', r)))"

definition lu_event_del :: "env \<Rightarrow> world \<Rightarrow> evptr \<Rightarrow> (world \<times> int) res" where
  "lu_event_del v w ev = lu_event_del_locked v w ev LU_EVENT_DEL_AUTOBLOCK"

definition lu_event_del_noblock :: "env \<Rightarrow> world \<Rightarrow> evptr \<Rightarrow> (world \<times> int) res" where
  "lu_event_del_noblock v w ev = lu_event_del_locked v w ev LU_EVENT_DEL_NOBLOCK"

section \<open>Adding\<close>

text \<open>
  \<open>lu_event_add_nolock_\<close> calls itself through \<open>lu_common_timeout_schedule\<close>, on the timer
  event of a common-timeout queue. \<open>fuel\<close> bounds the depth; the inner call has a timeout
  whose index bits are masked out, so it never calls again and two levels are enough
  (\<open>add_nolock_fuel\<close> below). The steps up to the insertion in the event map, the new
  timeout and the final notification are functions of their own.
\<close>

definition add_to_map :: "env \<Rightarrow> world \<Rightarrow> evptr \<Rightarrow> (world \<times> int \<times> bool) res" where
  "add_to_map v w ev =
     (let evts = ev_events (ev_of w ev) in
      if has_flag evts (IO_EVENTS OR LU_EV_SIGNAL) \<and>
         \<not> has_flag (fl w ev) (LU_EVLIST_INSERTED OR LU_EVLIST_ACTIVE OR LU_EVLIST_ACTIVE_LATER)
      then bind_res
        (if has_flag evts IO_EVENTS then lu_evmap_io_add v w (ev_fd (ev_of w ev)) ev
         else if has_flag evts LU_EV_SIGNAL then lu_evmap_signal_add v w (ev_fd (ev_of w ev)) ev
         else Inr (w, 0))
        (\<lambda>(w1, r). bind_res (if r \<noteq> - 1 then lu_event_queue_insert_inserted w1 ev else Inr w1)
           (\<lambda>w2. Inr (w2, if r = 1 then 0 else r, r = 1)))
      else Inr (w, 0, False))"

definition new_timeout :: "timeval \<Rightarrow> timeval \<Rightarrow> bool \<Rightarrow> bool \<Rightarrow> timeval" where
  "new_timeout now tv tv_is_absolute common_timeout =
     (if tv_is_absolute then tv
      else if common_timeout then
        (let sum = lu_evutil_timeradd now (Timeval (tv_sec tv) (tv_usec tv AND MICROSECONDS_MASK))
         in Timeval (tv_sec sum) (tv_usec sum OR (tv_usec tv AND NOT MICROSECONDS_MASK)))
      else lu_evutil_timeradd now tv)"

text \<open>\<open>lu_common_timeout_schedule\<close> puts the timer of a queue in the heap, for the time of its first event.\<close>

definition lu_common_timeout_schedule ::
    "(world \<Rightarrow> evptr \<Rightarrow> timeval \<Rightarrow> (world \<times> int) res) \<Rightarrow> world \<Rightarrow> lu_common_timeout_list_t \<Rightarrow> evptr \<Rightarrow>
       (world \<times> int) res" where
  "lu_common_timeout_schedule add w ctl head =
     (let timeout = ev_timeout (ev_of w head)
      in add w (ctl_timeout_event ctl) (Timeval (tv_sec timeout) (tv_usec timeout AND MICROSECONDS_MASK)))"

text \<open>The timeout part; \<open>schedule\<close> is \<open>lu_common_timeout_schedule\<close>.\<close>

definition set_timeout ::
    "(world \<Rightarrow> lu_common_timeout_list_t \<Rightarrow> evptr \<Rightarrow> (world \<times> int) res) \<Rightarrow> env \<Rightarrow> world \<Rightarrow> evptr \<Rightarrow> timeval \<Rightarrow> bool \<Rightarrow> bool \<Rightarrow>
       (world \<times> bool) res" where
  "set_timeout schedule v w3 ev tv tv_is_absolute notify =
     (let w4 = (if ev_closure (ev_of w3 ev) = LU_EV_CLOSURE_EVENT_PERSIST \<and> \<not> tv_is_absolute
                then upd_ev (\<lambda>e. e\<lparr>ev_io_timeout := tv\<rparr>) ev w3 else w3)
      in bind_res
        (if has_flag (fl w4 ev) LU_EVLIST_TIMEOUT then lu_event_queue_remove_timeout w4 ev else Inr w4)
      (\<lambda>w5. bind_res
        (if has_flag (fl w5 ev) LU_EVLIST_ACTIVE \<and> has_flag (ev_res (ev_of w5 ev)) LU_EV_TIMEOUT
         then lu_event_queue_remove_active
                (if has_flag (ev_events (ev_of w5 ev)) LU_EV_SIGNAL
                 then abort_signal_loop ev w5 else w5) ev
         else Inr w5)
        (\<lambda>w6.
          let (w7, t, _) = gettime v w6;
              now = (case t of Some x \<Rightarrow> x | None \<Rightarrow> stack_time v);
              common_timeout = lu_is_common_timeout tv (w_base w7);
              w8 = upd_ev (\<lambda>e. e\<lparr>ev_timeout := new_timeout now tv tv_is_absolute common_timeout\<rparr>) ev w7
          in if common_timeout then
               (let ctl = lu_get_common_timeout_list (w_base w8) (ev_timeout (ev_of w8 ev))
                in if ctl_events ctl \<noteq> [] \<and> hd (ctl_events ctl) = ev
                   then bind_res (schedule w8 ctl ev) (\<lambda>(w9, _). Inr (w9, notify))
                   else Inr (w8, notify))
             else if lu_min_heap_element_is_top (w_evs w8) ev then Inr (w8, True)
             else (case lu_min_heap_top (time_heap (w_base w8)) of
                     None \<Rightarrow> Inr (w8, notify)
                   | Some top_ev \<Rightarrow> Inr (w8, notify \<or>
                       lu_evutil_timercmp (ev_timeout (ev_of w8 top_ev)) now (<))))))"

definition reserve_timeout :: "env \<Rightarrow> world \<Rightarrow> evptr \<Rightarrow> timeval option \<Rightarrow> world \<times> int" where
  "reserve_timeout v w ev tvo =
     (let (h, r) = (if tvo \<noteq> None \<and> \<not> has_flag (fl w ev) LU_EVLIST_TIMEOUT
                    then lu_min_heap_reserve (heap_alloc_ok v) (time_heap (w_base w))
                           (1 + lu_min_heaps_size (time_heap (w_base w)))
                    else (time_heap (w_base w), 0))
      in (upd_base (\<lambda>b. b\<lparr>time_heap := h\<rparr>) w, r))"

fun lu_event_add_nolock :: "nat \<Rightarrow> env \<Rightarrow> world \<Rightarrow> evptr \<Rightarrow> timeval option \<Rightarrow> bool \<Rightarrow> (world \<times> int) res" where
  "lu_event_add_nolock 0 v w ev tvo tv_is_absolute = Inl Out_of_fuel"
| "lu_event_add_nolock (Suc fuel) v w ev tvo tv_is_absolute =
     (if ev_base (ev_of w ev) = None then Inl Null_dereference
      else lu_assert (clr_flag (fl w ev) LU_EVLIST_ALL = 0)
     (if has_flag (fl w ev) LU_EVLIST_FINALIZING then Inr (w, - 1)
      else
        (let (w1, r) = reserve_timeout v w ev tvo
         in if r = - 1 then Inr (w1, - 1)
            else
              (let w2 = (if current_event (w_base w1) = Some ev \<and> has_flag (ev_events (ev_of w1 ev)) LU_EV_SIGNAL \<and>
                            \<not> LU_EVBASE_IN_THREAD v (w_base w1)
                         then wait_current_event w1 else w1)
               in bind_res (add_to_map v w2 ev)
            (\<lambda>(w3, res, notify). bind_res
              (case tvo of
                 None \<Rightarrow> Inr (w3, notify)
               | Some tv \<Rightarrow>
                   if res = - 1 then Inr (w3, notify)
                   else set_timeout
                          (lu_common_timeout_schedule (\<lambda>w e t. lu_event_add_nolock fuel v w e (Some t) True))
                          v w3 ev tv tv_is_absolute notify)
              (\<lambda>(w10, notify').
                 Inr (if res \<noteq> - 1 \<and> notify' \<and> LU_EVBASE_NEED_NOTIFY v (w_base w10)
                      then fst (lu_evthread_notify_base w10) else w10, res)))))))"

declare lu_event_add_nolock.simps [simp del]

section \<open>Assigning, priorities\<close>

text \<open>
  The code stores every argument but the descriptor: \<open>ev_fd\<close> keeps the value it had.
  \<open>base\<close> is the address passed (\<open>None\<close>: null, then \<open>current_base\<close>); \<open>self_arg\<close> says that
  the argument is \<open>&event_self_cbarg_ptr_\<close>. \<open>fcntl_nonblock\<close> is the answer of the debug
  check of the descriptor (\<open>None\<close>: \<open>fcntl\<close> fails).
\<close>

definition lu_event_debug_assert_socket_nonblocking :: "env \<Rightarrow> (int \<Rightarrow> bool option) \<Rightarrow> int \<Rightarrow> 'a res \<Rightarrow> 'a res" where
  "lu_event_debug_assert_socket_nonblocking v fcntl_nonblock fd k =
     (if \<not> event_debug_mode_on v then k
      else if fd < 0 then k
      else (case fcntl_nonblock fd of None \<Rightarrow> k | Some b \<Rightarrow> lu_assert b k))"

definition lu_event_assign ::
    "env \<Rightarrow> (int \<Rightarrow> bool option) \<Rightarrow> nat option \<Rightarrow> world \<Rightarrow> evptr \<Rightarrow> nat option \<Rightarrow> int \<Rightarrow> c_short \<Rightarrow> nat \<Rightarrow> nat \<Rightarrow> bool \<Rightarrow>
       (world \<times> int) res" where
  "lu_event_assign v fcntl_nonblock current_base w ev base fd events callback callback_arg self_arg =
     (let base = (if base = None then current_base else base);
          check = (\<lambda>k. if has_flag events LU_EV_SIGNAL then k
                       else lu_event_debug_assert_socket_nonblocking v fcntl_nonblock fd k);
          e1 = (ev_of w ev)\<lparr>ev_evcallback := (ev_evcallback (ev_of w ev))
                    \<lparr>evcb_cb_union := callback, evcb_arg := (if self_arg then ev else callback_arg),
                     evcb_flags := LU_EVLIST_INIT\<rparr>,
                 ev_events := events, ev_res := 0, ev_base := base, ev_ncalls := 0, ev_pncalls := None\<rparr>;
          set_closure = (\<lambda>c e. e\<lparr>ev_evcallback := (ev_evcallback e)\<lparr>evcb_closure := c\<rparr>\<rparr>)
      in check
        (if has_flag events LU_EV_SIGNAL \<and> has_flag events IO_EVENTS
         then Inr (upd_ev (\<lambda>_. e1) ev w, - 1)
         else
           (let e2 = (if has_flag events LU_EV_SIGNAL then set_closure LU_EV_CLOSURE_EVENT_SIGNAL e1
                      else if has_flag events LU_EV_PERSIST
                      then set_closure LU_EV_CLOSURE_EVENT_PERSIST (e1\<lparr>ev_io_timeout := lu_evutil_timerclear (ev_io_timeout e1)\<rparr>)
                      else set_closure LU_EV_CLOSURE_EVENT e1);
                e3 = e2\<lparr>min_heap_idx := LU_SIZE_MAX\<rparr>;
                e4 = (if base \<noteq> None
                      then e3\<lparr>ev_evcallback := (ev_evcallback e3)
                                \<lparr>evcb_pri := of_int (nactivequeues (w_base w) div 2)\<rparr>\<rparr>
                      else e3)
            in Inr (upd_ev (\<lambda>_. e4) ev w, 0))))"

definition lu_event_debug_unassign :: "world \<Rightarrow> evptr \<Rightarrow> world" where
  "lu_event_debug_unassign w ev = ev_clr_flag LU_EVLIST_INIT ev w"

definition lu_event_priority_set :: "world \<Rightarrow> evptr \<Rightarrow> int \<Rightarrow> (world \<times> int) res" where
  "lu_event_priority_set w ev pri =
     (if has_flag (fl w ev) LU_EVLIST_ACTIVE then Inr (w, - 1)
      else if pri < 0 then Inr (w, - 1)
      else if ev_base (ev_of w ev) = None then Inl Null_dereference
      else if pri \<ge> nactivequeues (w_base w) then Inr (w, - 1)
      else Inr (upd_ev (\<lambda>e. e\<lparr>ev_evcallback := (ev_evcallback e)\<lparr>evcb_pri := of_int pri\<rparr>\<rparr>) ev w, 0))"

definition LU_EVENT_MAX_PRIORITIES :: int where "LU_EVENT_MAX_PRIORITIES = 256"

definition lu_event_base_priority_init :: "bool \<Rightarrow> world \<Rightarrow> int \<Rightarrow> world \<times> int" where
  "lu_event_base_priority_init calloc_ok w npriorities =
     (let w1 = LU_EVBASE_ACQUIRE_LOCK w in
      if N_ACTIVE_CALLBACKS w1 \<noteq> 0 \<or> npriorities < 1 \<or> npriorities \<ge> LU_EVENT_MAX_PRIORITIES
      then (LU_EVBASE_RELEASE_LOCK w1, - 1)
      else if npriorities = nactivequeues (w_base w1) then (LU_EVBASE_RELEASE_LOCK w1, 0)
      else
        (let w2 = (if nactivequeues (w_base w1) \<noteq> 0
                   then upd_base (\<lambda>b. b\<lparr>activequeues := [], nactivequeues := 0\<rparr>) w1 else w1)
         in if \<not> calloc_ok then (LU_EVBASE_RELEASE_LOCK w2, - 1)
            else (LU_EVBASE_RELEASE_LOCK (upd_base (\<lambda>b. b\<lparr>activequeues := replicate (nat npriorities) [],
                    nactivequeues := npriorities\<rparr>) w2), 0)))"

section \<open>Cancelling\<close>

text \<open>A callback is the first member of its event, so the two addresses are the same; from the callback to
  the event the code asserts that it is one.\<close>

definition lu_event_callback_to_event :: "world \<Rightarrow> evptr \<Rightarrow> evptr res" where
  "lu_event_callback_to_event w evcb = lu_assert (has_flag (fl w evcb) LU_EVLIST_INIT) (Inr evcb)"

definition lu_event_callback_cancel_nolock :: "env \<Rightarrow> world \<Rightarrow> evptr \<Rightarrow> bool \<Rightarrow> (world \<times> int) res" where
  "lu_event_callback_cancel_nolock v w evcb even_if_finalizing =
     (let a = has_flag (fl w evcb) LU_EVLIST_ACTIVE; l = has_flag (fl w evcb) LU_EVLIST_ACTIVE_LATER
      in if has_flag (fl w evcb) LU_EVLIST_FINALIZING \<and> \<not> even_if_finalizing then Inr (w, 0)
         else if has_flag (fl w evcb) LU_EVLIST_INIT
         then bind_res (lu_event_callback_to_event w evcb) (\<lambda>ev. lu_event_del_nolock v w ev
                (if even_if_finalizing then LU_EVENT_DEL_EVEN_IF_FINALIZING else LU_EVENT_DEL_AUTOBLOCK))
         else if a \<and> l then Inl Assertion_failed
         else if a then bind_res (lu_event_queue_remove_active w evcb) (\<lambda>w'. Inr (w', 0))
         else if l then bind_res (lu_event_queue_remove_active_later w evcb) (\<lambda>w'. Inr (w', 0))
         else Inr (w, 0))"

text \<open>
  The finalizer that \<open>lu_event_base_cancel_single_callback_\<close> runs is user code: the world it
  leaves is a parameter. The result says also whether the event is freed.
\<close>

definition lu_event_base_cancel_single_callback ::
    "env \<Rightarrow> (evptr \<Rightarrow> world \<Rightarrow> world) \<Rightarrow> world \<Rightarrow> evptr \<Rightarrow> bool \<Rightarrow> (world \<times> int \<times> bool) res" where
  "lu_event_base_cancel_single_callback v finalizer w evcb run_finalizers =
     bind_res
       (if has_flag (fl w evcb) LU_EVLIST_INIT
        then bind_res (lu_event_callback_to_event w evcb)
               (\<lambda>ev. if \<not> has_flag (fl w ev) LU_EVLIST_INTERNAL
                 then bind_res (lu_event_del v w ev) (\<lambda>(w', r). Inr (w', 1)) else Inr (w, 0))
        else bind_res (lu_event_callback_cancel_nolock v (LU_EVBASE_ACQUIRE_LOCK w) evcb True)
               (\<lambda>(w', r). Inr (LU_EVBASE_RELEASE_LOCK w', 1)))
       (\<lambda>(w1, result).
         if run_finalizers \<and> has_flag (fl w1 evcb) LU_EVLIST_FINALIZING then
           (let c = ev_closure (ev_of w1 evcb) in
            if c = LU_EV_CLOSURE_EVENT_FINALIZE \<or> c = LU_EV_CLOSURE_EVENT_FINALIZE_FREE
            then bind_res (lu_event_callback_to_event w1 evcb)
                   (\<lambda>ev. let w2 = finalizer ev w1
                      in Inr (w2, result, ev_closure (ev_of w2 evcb) = LU_EV_CLOSURE_EVENT_FINALIZE_FREE))
            else if c = LU_EV_CLOSURE_CB_FINALIZE then Inr (finalizer evcb w1, result, False)
            else Inr (w1, result, False))
         else Inr (w1, result, False))"

section \<open>The recursion of adding stops after one level\<close>

lemma masked_not_common:
  "\<not> lu_is_common_timeout (Timeval s (u AND MICROSECONDS_MASK)) b"
proof -
  have "(u AND MICROSECONDS_MASK) AND COMMON_TIMEOUT_MASK = u AND (MICROSECONDS_MASK AND COMMON_TIMEOUT_MASK)"
    by (simp add: ac_simps)
  also have "\<dots> = 0" by (simp add: MICROSECONDS_MASK_def COMMON_TIMEOUT_MASK_def)
  finally show ?thesis by (simp add: lu_is_common_timeout_def COMMON_TIMEOUT_MAGIC_def)
qed

lemma set_timeout_plain:
  assumes "\<And>b. \<not> lu_is_common_timeout tv b"
  shows "set_timeout s v w ev tv a n = set_timeout s' v w ev tv a n"
  by (simp add: set_timeout_def assms)

lemma add_nolock_plain:
  assumes "\<And>b. \<not> lu_is_common_timeout tv b"
  shows "lu_event_add_nolock (Suc k) v w ev (Some tv) a = lu_event_add_nolock (Suc k') v w ev (Some tv) a"
  by (simp only: lu_event_add_nolock.simps option.case
      set_timeout_plain [OF assms, where s = "lu_common_timeout_schedule (\<lambda>w e t. lu_event_add_nolock k v w e (Some t) True)"
        and s' = "lu_common_timeout_schedule (\<lambda>w e t. lu_event_add_nolock k' v w e (Some t) True)"])


end
