(* ===== verification/LuEvMapInv.thy ===== *)
theory LuEvMapInv
  imports LuEvMap
begin

text \<open>
  What the event maps keep true: a slot holds exactly the events inserted for its
  descriptor, its counts are those of its events, and the calls made to the backend leave
  it interested in exactly the flags whose count is not 0.
\<close>

section \<open>Slots\<close>

definition slots_ok :: "(int \<Rightarrow> evptr set) \<Rightarrow> ('slot \<Rightarrow> evptr set \<Rightarrow> bool) \<Rightarrow> 'slot lu_event_signal_map_t \<Rightarrow> bool" where
  "slots_ok S P m \<longleftrightarrow> 0 \<le> nentries m \<and> length (map_entries m) = nat (nentries m) \<and>
     (\<forall>fd. 0 \<le> fd \<longrightarrow> fd < nentries m \<longrightarrow>
        (case map_entries m ! nat fd of None \<Rightarrow> S fd = {} | Some c \<Rightarrow> P c (S fd))) \<and>
     (\<forall>fd. nentries m \<le> fd \<longrightarrow> S fd = {})"

lemma slots_okD:
  assumes "slots_ok S P m" "0 \<le> fd" "fd < nentries m"
  shows "nat fd < length (map_entries m)" "map_entries m ! nat fd = None \<Longrightarrow> S fd = {}"
    "map_entries m ! nat fd = Some c \<Longrightarrow> P c (S fd)"
  using assms by (auto simp: slots_ok_def split: option.splits)

lemma slots_ok_less: "slots_ok S P m \<Longrightarrow> e \<in> S fd \<Longrightarrow> fd < nentries m"
  by (rule ccontr) (auto simp: slots_ok_def not_less)

lemma slots_ok_cong:
  assumes "slots_ok S P m" "\<And>fd. 0 \<le> fd \<Longrightarrow> S' fd = S fd" "\<And>c X. P c X \<Longrightarrow> P' c X"
  shows "slots_ok S' P' m"
  using assms unfolding slots_ok_def by (auto split: option.splits)

lemma make_space_ok:
  assumes m: "slots_ok S P m" and r: "lu_evmap_make_space ok m slot msize = (m', r)" and s: "0 \<le> slot"
  shows "slots_ok S P m'" "r = 0 \<and> slot < nentries m' \<or> r = - 1 \<and> m' = m"
proof -
  show "r = 0 \<and> slot < nentries m' \<or> r = - 1 \<and> m' = m"
    using r double_until_gt [of "if nentries m \<noteq> 0 then nentries m else 32" slot] m
    by (auto simp: lu_evmap_make_space_def Let_def slots_ok_def split: if_splits)
  show "slots_ok S P m'"
  proof (cases "m' = m")
    case False
    define n where "n = double_until (if nentries m \<noteq> 0 then nentries m else 32) slot"
    have n: "nentries m < n" "0 \<le> nentries m"
      using m double_until_gt [of "if nentries m \<noteq> 0 then nentries m else 32" slot] False r
      by (auto simp: n_def slots_ok_def lu_evmap_make_space_def Let_def split: if_splits)
    have m': "m' = m\<lparr>map_entries := map_entries m @ replicate (nat (n - nentries m)) None, nentries := n\<rparr>"
      using False r by (auto simp: lu_evmap_make_space_def Let_def n_def split: if_splits)
    have "(map_entries m @ replicate (nat (n - nentries m)) None) ! nat fd =
        (if fd < nentries m then map_entries m ! nat fd else None)" if "0 \<le> fd" "fd < n" for fd
      using that n m by (auto simp: nth_append slots_ok_def)
    then show ?thesis using m n unfolding m' by (auto simp: slots_ok_def split: option.splits)
  qed (use m in simp)
qed

lemma ctor_ok:
  assumes m: "slots_ok S P m" "0 \<le> slot" "slot < nentries m" "P ctor {}"
    and r: "GET_SLOT_AND_CTOR ok m slot ctor = Some (m', c)"
  shows "slots_ok S P m'" "P c (S slot)" "nentries m' = nentries m" "map_entries m' ! nat slot = Some c"
    "map_entries m ! nat slot = Some c \<and> m' = m \<or> map_entries m ! nat slot = None \<and> c = ctor"
proof -
  note d = slots_okD [OF m(1-3)]
  have 1: "map_entries m ! nat slot = Some c \<and> m' = m \<or>
      map_entries m ! nat slot = None \<and> c = ctor \<and>
      m' = m\<lparr>map_entries := (map_entries m)[nat slot := Some ctor]\<rparr>"
    using r by (auto simp: GET_SLOT_AND_CTOR_def split: option.splits if_splits)
  then show "P c (S slot)" "nentries m' = nentries m" "map_entries m' ! nat slot = Some c"
      "map_entries m ! nat slot = Some c \<and> m' = m \<or> map_entries m ! nat slot = None \<and> c = ctor"
    using d m(4) by auto
  from 1 show "slots_ok S P m'"
  proof (elim disjE conjE)
    assume m': "map_entries m ! nat slot = None" "c = ctor" "m' = m\<lparr>map_entries := (map_entries m)[nat slot := Some ctor]\<rparr>"
    have "(map_entries m)[nat slot := Some ctor] ! nat fd =
        (if fd = slot then Some ctor else map_entries m ! nat fd)" if "0 \<le> fd" for fd
      using that d(1) m(2) by (auto simp: nth_list_update)
    then show ?thesis
      using m d(2) m'(1) unfolding m'(3) by (auto simp: slots_ok_def split: option.splits)
  qed (use m in simp)
qed

lemma put_slot_ok:
  assumes m: "slots_ok S P m" "0 \<le> slot" "slot < nentries m" and P: "P c X"
  shows "slots_ok (S(slot := X)) P (put_slot m slot c)"
proof -
  have nth: "(map_entries m)[nat slot := Some c] ! nat fd =
      (if fd = slot then Some c else map_entries m ! nat fd)" if "0 \<le> fd" for fd
    using that slots_okD(1) [OF m] m(2) by (cases "fd = slot") (auto simp: nth_list_update)
  have "case (map_entries m)[nat slot := Some c] ! nat fd of
          None \<Rightarrow> (S(slot := X)) fd = {} | Some c' \<Rightarrow> P c' ((S(slot := X)) fd)"
    if "0 \<le> fd" "fd < nentries m" for fd
    using m(1) that P unfolding nth [OF that(1)]
    by (cases "fd = slot") (auto simp: slots_ok_def split: option.splits)
  then show ?thesis
    using m unfolding slots_ok_def put_slot_def by simp
qed

lemma put_slot_simps [simp]: "nentries (put_slot m slot c) = nentries m"
  by (simp add: put_slot_def)

text \<open>The slot of a number, when there is one.\<close>

definition slot_at :: "'slot lu_event_signal_map_t \<Rightarrow> int \<Rightarrow> 'slot option" where
  "slot_at mp fd = (if 0 \<le> fd \<and> fd < nentries mp then map_entries mp ! nat fd else None)"

lemma slot_at_space:
  assumes m: "slots_ok S P m" and r: "lu_evmap_make_space ok m slot msize = (m', r)" and s: "0 \<le> slot"
  shows "slot_at m' = slot_at m"
proof (cases "m' = m")
  case False
  define n where "n = double_until (if nentries m \<noteq> 0 then nentries m else 32) slot"
  have n: "nentries m < n" "0 \<le> nentries m"
    using m double_until_gt [of "if nentries m \<noteq> 0 then nentries m else 32" slot] False r
    by (auto simp: n_def slots_ok_def lu_evmap_make_space_def Let_def split: if_splits)
  have m': "m' = m\<lparr>map_entries := map_entries m @ replicate (nat (n - nentries m)) None, nentries := n\<rparr>"
    using False r by (auto simp: lu_evmap_make_space_def Let_def n_def split: if_splits)
  have "(map_entries m @ replicate (nat (n - nentries m)) None) ! nat fd =
      (if fd < nentries m then map_entries m ! nat fd else None)" if "0 \<le> fd" "fd < n" for fd
    using that n m by (auto simp: nth_append slots_ok_def)
  then show ?thesis using n unfolding m' slot_at_def by (auto simp: fun_eq_iff)
qed simp

lemma slot_at_put:
  assumes "slots_ok S P m" "0 \<le> slot" "slot < nentries m"
  shows "slot_at (put_slot m slot c) = (slot_at m)(slot := Some c)"
  using assms slots_okD(1) [OF assms] by (auto simp: slot_at_def put_slot_def fun_eq_iff nth_list_update)

lemma slot_at_ctor:
  assumes "slots_ok S P m" "0 \<le> slot" "slot < nentries m" "GET_SLOT_AND_CTOR ok m slot ctor = Some (m', c)"
  shows "slot_at m' = (slot_at m)(slot := Some c)" "slot_at m slot = None \<Longrightarrow> c = ctor"
    "slot_at m slot = Some d \<Longrightarrow> c = d"
  using assms slots_okD(1) [OF assms(1-3)]
  by (auto simp: slot_at_def GET_SLOT_AND_CTOR_def fun_eq_iff nth_list_update split: option.splits if_splits)

section \<open>The counts of an I/O slot\<close>

definition count_of :: "c_short \<Rightarrow> (evptr \<Rightarrow> c_short) \<Rightarrow> evptr list \<Rightarrow> nat" where
  "count_of f evs es = length (filter (\<lambda>e. has_flag (evs e) f) es)"

lemma count_of_simps [simp]:
  "count_of f evs [] = 0"
  "count_of f evs (e # es) = count_of f evs es + (if has_flag (evs e) f then 1 else 0)"
  by (simp_all add: count_of_def)

lemma count_of_remove:
  "e \<in> set es \<Longrightarrow> count_of f evs (remove1 e es) + (if has_flag (evs e) f then 1 else 0) = count_of f evs es"
  by (induction es) auto

definition io_slot_ok :: "(evptr \<Rightarrow> c_short) \<Rightarrow> lu_evmap_io_t \<Rightarrow> evptr set \<Rightarrow> bool" where
  "io_slot_ok evs c X \<longleftrightarrow> distinct (io_events c) \<and> set (io_events c) = X \<and>
     nread c = count_of LU_EV_READ evs (io_events c) \<and> nwrite c = count_of LU_EV_WRITE evs (io_events c) \<and>
     nclose c = count_of LU_EV_CLOSED evs (io_events c)"

definition sig_slot_ok :: "lu_evmap_signal_t \<Rightarrow> evptr set \<Rightarrow> bool" where
  "sig_slot_ok c X \<longleftrightarrow> distinct (sig_events c) \<and> set (sig_events c) = X"

lemma io_slot_init: "io_slot_ok evs lu_evmap_io_init {}"
  by (simp add: io_slot_ok_def lu_evmap_io_init_def)

lemma sig_slot_init: "sig_slot_ok lu_evmap_signal_init {}"
  by (simp add: sig_slot_ok_def lu_evmap_signal_init_def)

section \<open>What the backend was told\<close>

text \<open>The flags the backend watches on each descriptor after a sequence of calls; a failing
  \<open>add\<close> changes nothing, \<open>LU_EV_ET\<close> is a mode and not an interest.\<close>

fun interest_step :: "(int \<Rightarrow> c_short) \<Rightarrow> backend_call \<Rightarrow> int \<Rightarrow> c_short" where
  "interest_step k (Backend_add fd old evs r) = (if r = - 1 then k else k(fd := k fd OR (evs AND NOT LU_EV_ET)))"
| "interest_step k (Backend_del fd old evs r) = k(fd := k fd AND NOT evs)"

definition interest :: "backend_call list \<Rightarrow> int \<Rightarrow> c_short" where
  "interest cs = foldl interest_step (\<lambda>_. 0) cs"

lemma interest_snoc [simp]: "interest (cs @ [c]) = interest_step (interest cs) c"
  by (simp add: interest_def)

text \<open>Every call passes, as \<open>old\<close>, exactly what the backend watches at that time.\<close>

fun calls_old_ok :: "(int \<Rightarrow> c_short) \<Rightarrow> backend_call list \<Rightarrow> bool" where
  "calls_old_ok k [] = True"
| "calls_old_ok k (c # cs) = (call_old c = k (call_fd c) \<and> calls_old_ok (interest_step k c) cs)"

lemma calls_old_ok_snoc:
  "calls_old_ok k (cs @ [c]) = (calls_old_ok k cs \<and> call_old c = foldl interest_step k cs (call_fd c))"
  by (induction cs arbitrary: k) auto

definition slot_flags :: "lu_event_io_map_t \<Rightarrow> int \<Rightarrow> c_short" where
  "slot_flags m fd =
     (if 0 \<le> fd \<and> fd < nentries m then
        (case map_entries m ! nat fd of None \<Rightarrow> 0 | Some c \<Rightarrow> count_flags (nread c) (nwrite c) (nclose c))
      else 0)"

definition calls_ok :: "backend_call list \<Rightarrow> lu_event_io_map_t \<Rightarrow> bool" where
  "calls_ok cs m \<longleftrightarrow> interest cs = slot_flags m \<and> calls_old_ok (\<lambda>_. 0) cs"

lemma calls_ok_add:
  assumes "calls_ok cs m"
  shows "calls_ok (cs @ [Backend_add fd (slot_flags m fd) evs (- 1)]) m"
    and "r \<noteq> - 1 \<Longrightarrow> slot_flags m' = (slot_flags m)(fd := slot_flags m fd OR (evs AND NOT LU_EV_ET)) \<Longrightarrow>
           calls_ok (cs @ [Backend_add fd (slot_flags m fd) evs r]) m'"
  using assms by (auto simp: calls_ok_def calls_old_ok_snoc interest_def)

lemma calls_ok_del:
  assumes "calls_ok cs m" "slot_flags m' = (slot_flags m)(fd := slot_flags m fd AND NOT evs)"
  shows "calls_ok (cs @ [Backend_del fd (slot_flags m fd) evs r]) m'"
  using assms by (auto simp: calls_ok_def calls_old_ok_snoc interest_def)

section \<open>Adding and deleting in the maps\<close>

lemma short_bits [simp]:
  "(if a then LU_EV_READ else 0) AND NOT LU_EV_ET = (if a then LU_EV_READ else 0)"
  "(if a then LU_EV_WRITE else 0) AND NOT LU_EV_ET = (if a then LU_EV_WRITE else 0)"
  "(if a then LU_EV_CLOSED else 0) AND NOT LU_EV_ET = (if a then LU_EV_CLOSED else 0)"
  by (simp_all add: lu_consts)

lemma et_or: "((x AND LU_EV_ET) OR y) AND NOT LU_EV_ET = y AND NOT LU_EV_ET"
  by (rule bit_word_eqI) (auto simp: bit_simps)

lemma select_no_et: "select_flags r w c AND NOT LU_EV_ET = select_flags r w c"
  by (simp add: select_flags_def lu_consts)

lemma count_no_et: "count_flags r w c AND LU_EV_ET = 0"
  by (simp add: count_flags_def lu_consts)

lemma andnot_et_or: "c AND LU_EV_ET = 0 \<Longrightarrow> c AND NOT ((x AND LU_EV_ET) OR y) = c AND NOT (y :: c_short)"
proof -
  assume "c AND LU_EV_ET = 0"
  then have "\<not> (bit c n \<and> bit LU_EV_ET n)" for n by (metis bit_0_eq bit_and_iff bot_apply bot_bool_def)
  then show ?thesis by (intro bit_word_eqI) (auto simp: bit_simps)
qed

lemma count_flags_add:
  "count_flags r w c OR select_flags (br \<and> r + of_bool br = 1) (bw \<and> w + of_bool bw = 1) (bc \<and> c + of_bool bc = 1) =
     count_flags (r + of_bool br) (w + of_bool bw) (c + of_bool bc)"
  by (cases br; cases bw; cases bc) (auto simp: count_flags_def select_flags_def lu_consts)

lemma count_flags_del:
  assumes "br \<Longrightarrow> r \<noteq> 0" "bw \<Longrightarrow> w \<noteq> 0" "bc \<Longrightarrow> c \<noteq> 0"
  shows "count_flags r w c AND NOT (select_flags (br \<and> r - of_bool br = 0) (bw \<and> w - of_bool bw = 0) (bc \<and> c - of_bool bc = 0)) =
     count_flags (r - of_bool br) (w - of_bool bw) (c - of_bool bc)"
  using assms by (cases br; cases bw; cases bc) (auto simp: count_flags_def select_flags_def lu_consts)

text \<open>The world with another I/O map and call record; both functions change nothing else.\<close>

definition with_io :: "world \<Rightarrow> lu_event_io_map_t \<Rightarrow> backend_call list \<Rightarrow> world" where
  "with_io w m cs = upd_base (\<lambda>b. b\<lparr>io := m, io_calls := cs\<rparr>) w"

lemma with_io_same: "with_io w (io (w_base w)) (io_calls (w_base w)) = w"
  by (simp add: with_io_def upd_base_def)

lemma with_io_map: "upd_base (\<lambda>b. b\<lparr>io := m\<rparr>) w = with_io w m (io_calls (w_base w))"
  by (simp add: with_io_def upd_base_def)

definition io_inv :: "(int \<Rightarrow> evptr set) \<Rightarrow> (evptr \<Rightarrow> c_short) \<Rightarrow> lu_event_io_map_t \<Rightarrow> backend_call list \<Rightarrow> bool" where
  "io_inv S evs m cs \<longleftrightarrow> slots_ok S (io_slot_ok evs) m \<and> calls_ok cs m"

lemma slot_flags_get:
  "0 \<le> fd \<Longrightarrow> fd < nentries m \<Longrightarrow> map_entries m ! nat fd = Some c \<Longrightarrow>
     slot_flags m fd = count_flags (nread c) (nwrite c) (nclose c)"
  by (simp add: slot_flags_def)

lemma slot_flags_at:
  "slot_flags m fd = (case slot_at m fd of None \<Rightarrow> 0 | Some c \<Rightarrow> count_flags (nread c) (nwrite c) (nclose c))"
  by (simp add: slot_flags_def slot_at_def)

lemma slot_flags_put:
  assumes "slots_ok S P m" "0 \<le> fd" "fd < nentries m"
  shows "slot_flags (put_slot m fd c) = (slot_flags m)(fd := count_flags (nread c) (nwrite c) (nclose c))"
  by (simp add: fun_eq_iff slot_flags_at slot_at_put [OF assms])

text \<open>Growing the map and constructing a slot leave the watched flags as they are.\<close>

lemma slot_flags_space:
  assumes "slots_ok S P m" "lu_evmap_make_space ok m slot msize = (m', r)" "0 \<le> slot"
  shows "slot_flags m' = slot_flags m"
  by (simp add: fun_eq_iff slot_flags_at slot_at_space [OF assms])

lemma slot_flags_ctor:
  assumes "slots_ok S (io_slot_ok evs) m" "0 \<le> fd" "fd < nentries m"
    and r: "GET_SLOT_AND_CTOR ok m fd lu_evmap_io_init = Some (m', c)"
  shows "slot_flags m' = slot_flags m"
proof (cases "map_entries m ! nat fd")
  case None
  then have m': "m' = put_slot m fd lu_evmap_io_init"
    using r by (auto simp: GET_SLOT_AND_CTOR_def put_slot_def split: if_splits)
  have "slot_flags m fd = 0" using None by (simp add: slot_flags_def)
  moreover have "count_flags (nread lu_evmap_io_init) (nwrite lu_evmap_io_init) (nclose lu_evmap_io_init) = 0"
    by (simp add: count_flags_def lu_evmap_io_init_def)
  ultimately show ?thesis by (simp add: m' slot_flags_put [OF assms(1-3)] fun_upd_idem)
qed (use r in \<open>auto simp: GET_SLOT_AND_CTOR_def\<close>)

lemma io_add_space:
  assumes inv: "io_inv S evs m cs" and fd: "0 \<le> fd"
    and r: "(if fd \<ge> nentries m then lu_evmap_make_space ok m fd ptr_size else (m, 0)) = (m0, r)"
  shows "io_inv S evs m0 cs" "r = 0 \<and> fd < nentries m0 \<or> r = - 1"
proof -
  have s: "slots_ok S (io_slot_ok evs) m" using inv by (simp add: io_inv_def)
  show "io_inv S evs m0 cs"
    using r inv make_space_ok(1) [OF s _ fd] slot_flags_space [OF s _ fd]
    by (auto simp: io_inv_def calls_ok_def split: if_splits)
  show "r = 0 \<and> fd < nentries m0 \<or> r = - 1"
    using r make_space_ok(2) [OF s _ fd] by (auto split: if_splits)
qed

lemma io_add_ctor:
  assumes inv: "io_inv S evs m cs" and fd: "0 \<le> fd" "fd < nentries m"
    and r: "GET_SLOT_AND_CTOR ok m fd lu_evmap_io_init = Some (m', c)"
  shows "io_inv S evs m' cs" "io_slot_ok evs c (S fd)" "fd < nentries m'"
    "slot_flags m' fd = count_flags (nread c) (nwrite c) (nclose c)"
proof -
  have s: "slots_ok S (io_slot_ok evs) m" using inv by (simp add: io_inv_def)
  note ok = ctor_ok [OF s fd io_slot_init r]
  show "io_inv S evs m' cs"
    using inv ok(1) slot_flags_ctor [OF s fd r] by (simp add: io_inv_def calls_ok_def)
  show "io_slot_ok evs c (S fd)" "fd < nentries m'"
    "slot_flags m' fd = count_flags (nread c) (nwrite c) (nclose c)"
    using ok fd by (auto simp: slot_flags_get)
qed

lemma io_put_inv:
  assumes inv: "io_inv S evs m cs" and fd: "0 \<le> fd" "fd < nentries m" and c: "io_slot_ok evs c X"
    and calls: "calls_ok cs' (put_slot m fd c)"
  shows "io_inv (S(fd := X)) evs (put_slot m fd c) cs'"
  using put_slot_ok [of S "io_slot_ok evs" m fd c X] inv fd c calls by (simp add: io_inv_def)

lemma io_slot_add:
  assumes "io_slot_ok evs c X" "e \<notin> X"
  shows "io_slot_ok evs (c\<lparr>io_events := e # io_events c,
      nread := nread c + of_bool (has_flag (evs e) LU_EV_READ),
      nwrite := nwrite c + of_bool (has_flag (evs e) LU_EV_WRITE),
      nclose := nclose c + of_bool (has_flag (evs e) LU_EV_CLOSED)\<rparr>) (insert e X)"
  using assms by (auto simp: io_slot_ok_def)

lemma io_slot_del:
  assumes "io_slot_ok evs c X" "e \<in> X"
  shows "io_slot_ok evs (c\<lparr>io_events := remove1 e (io_events c),
      nread := nread c - of_bool (has_flag (evs e) LU_EV_READ),
      nwrite := nwrite c - of_bool (has_flag (evs e) LU_EV_WRITE),
      nclose := nclose c - of_bool (has_flag (evs e) LU_EV_CLOSED)\<rparr>) (X - {e})"
    and "has_flag (evs e) LU_EV_READ \<Longrightarrow> nread c \<noteq> 0" "has_flag (evs e) LU_EV_WRITE \<Longrightarrow> nwrite c \<noteq> 0"
    "has_flag (evs e) LU_EV_CLOSED \<Longrightarrow> nclose c \<noteq> 0"
  using assms count_of_remove [of e "io_events c" LU_EV_READ evs] count_of_remove [of e "io_events c" LU_EV_WRITE evs]
    count_of_remove [of e "io_events c" LU_EV_CLOSED evs]
  by (auto simp: io_slot_ok_def split: if_splits)

text \<open>
  Adding: the only fault is a missing backend; the event is in its slot exactly when the
  result is not -1.
\<close>

lemma io_add_effect:
  assumes inv: "io_inv S (\<lambda>x. ev_events (ev_of w x)) (io (w_base w)) (io_calls (w_base w))"
    and fd: "ev_fd (ev_of w e) = fd" and sel: "evsel_op (w_base w) \<noteq> None" and new: "e \<notin> S fd"
  shows "\<exists>m cs r. lu_evmap_io_add v w fd e = Inr (with_io w m cs, r) \<and> r \<in> {- 1, 0, 1} \<and>
           io_inv (if r \<noteq> - 1 \<and> 0 \<le> fd then S(fd := insert e (S fd)) else S) (\<lambda>x. ev_events (ev_of w x)) m cs"
proof (cases "fd < 0")
  case True
  then show ?thesis using inv fd
    by (intro exI [of _ "io (w_base w)"] exI [of _ "io_calls (w_base w)"] exI [of _ 0])
      (simp add: lu_evmap_io_add_def lu_assert_def with_io_same)
next
  case False
  let ?evs = "\<lambda>x. ev_events (ev_of w x)"
  let ?cs = "io_calls (w_base w)"
  obtain m0 r0 where sp: "(if fd \<ge> nentries (io (w_base w))
      then lu_evmap_make_space (map_alloc_ok v) (io (w_base w)) fd ptr_size else (io (w_base w), 0)) = (m0, r0)"
    by fastforce
  have fd0: "0 \<le> fd" using False by simp
  note m0 = io_add_space [OF inv fd0 sp]
  show ?thesis
  proof (cases "r0 = - 1")
    case True
    then show ?thesis using m0 sp fd False
      by (intro exI [of _ m0] exI [of _ ?cs] exI [of _ "- 1"])
        (simp add: lu_evmap_io_add_def lu_assert_def with_io_map)
  next
    case r0: False
    then have lt: "fd < nentries m0" using m0(2) by simp
    show ?thesis
    proof (cases "GET_SLOT_AND_CTOR (slot_alloc_ok v) m0 fd lu_evmap_io_init")
      case None
      then show ?thesis using m0 sp fd False r0
        by (intro exI [of _ m0] exI [of _ ?cs] exI [of _ "- 1"])
          (simp add: lu_evmap_io_add_def lu_assert_def with_io_map)
    next
      case (Some p)
      obtain m c where mc: "GET_SLOT_AND_CTOR (slot_alloc_ok v) m0 fd lu_evmap_io_init = Some (m, c)"
        using Some by (cases p) auto
      note ct = io_add_ctor [OF m0(1) fd0 lt mc]
      obtain evsel where evsel: "evsel_op (w_base w) = Some evsel" using sel by auto
      let ?c = "c\<lparr>io_events := e # io_events c,
        nread := nread c + of_bool (has_flag (?evs e) LU_EV_READ),
        nwrite := nwrite c + of_bool (has_flag (?evs e) LU_EV_WRITE),
        nclose := nclose c + of_bool (has_flag (?evs e) LU_EV_CLOSED)\<rparr>"
      let ?res = "select_flags (has_flag (?evs e) LU_EV_READ \<and> nread ?c = 1)
        (has_flag (?evs e) LU_EV_WRITE \<and> nwrite ?c = 1) (has_flag (?evs e) LU_EV_CLOSED \<and> nclose ?c = 1)"
      let ?arg = "(?evs e AND LU_EV_ET) OR ?res"
      let ?ret = "op_add evsel ?cs fd (slot_flags m fd) ?arg"
      have sok: "slots_ok S (io_slot_ok ?evs) m" and cok: "calls_ok ?cs m" using ct(1) by (simp_all add: io_inv_def)
      have flags: "slot_flags (put_slot m fd ?c) = (slot_flags m)(fd := slot_flags m fd OR ?res)"
        using count_flags_add [of "nread c" "nwrite c" "nclose c"]
        by (simp add: slot_flags_put [OF sok fd0 ct(3)] ct(4))
      have slot: "io_slot_ok ?evs ?c (insert e (S fd))" by (rule io_slot_add [OF ct(2) new])
      let ?big = "nread ?c > 0xffff \<or> nwrite ?c > 0xffff \<or> nclose ?c > 0xffff"
      let ?mix = "event_debug_mode_on v \<and> io_events c \<noteq> [] \<and> ?evs (hd (io_events c)) AND LU_EV_ET \<noteq> ?evs e AND LU_EV_ET"
      have eq: "lu_evmap_io_add v w fd e =
        (if ?big then Inr (with_io w m ?cs, - 1) else if ?mix then Inr (with_io w m ?cs, - 1)
         else if ?res \<noteq> 0 then
           (if ?ret = - 1 then Inr (with_io w m (?cs @ [Backend_add fd (slot_flags m fd) ?arg ?ret]), - 1)
            else Inr (with_io w (put_slot m fd ?c) (?cs @ [Backend_add fd (slot_flags m fd) ?arg ?ret]), 1))
         else Inr (with_io w (put_slot m fd ?c) ?cs, 0))"
        using False fd sp r0 mc evsel ct(4)
        by (simp add: lu_evmap_io_add_def lu_assert_def Let_def with_io_def of_bool_def upd_base_def)
      note put = io_put_inv [OF ct(1) fd0 ct(3) slot]
      have bits: "?arg AND NOT LU_EV_ET = ?res" by (simp only: et_or select_no_et)
      consider (fail) "?big \<or> ?mix" | (told_fail) "\<not> ?big" "\<not> ?mix" "?res \<noteq> 0" "?ret = - 1"
        | (told) "\<not> ?big" "\<not> ?mix" "?res \<noteq> 0" "?ret \<noteq> - 1" | (quiet) "\<not> ?big" "\<not> ?mix" "?res = 0"
        by blast
      then show ?thesis
      proof cases
        case fail
        then have "lu_evmap_io_add v w fd e = Inr (with_io w m ?cs, - 1)" unfolding eq by auto
        then show ?thesis using ct(1) by (intro exI [of _ m] exI [of _ ?cs] exI [of _ "- 1"]) simp
      next
        case told_fail
        have r: "lu_evmap_io_add v w fd e = Inr (with_io w m (?cs @ [Backend_add fd (slot_flags m fd) ?arg ?ret]), - 1)"
          unfolding eq by (simp only: told_fail simp_thms if_True if_False)
        have "calls_ok (?cs @ [Backend_add fd (slot_flags m fd) ?arg ?ret]) m"
          using calls_ok_add(1) [OF cok, of fd ?arg] told_fail(4) by (simp only:)
        then show ?thesis using ct(1) r unfolding io_inv_def
          by (intro exI [of _ m] exI [of _ "?cs @ [Backend_add fd (slot_flags m fd) ?arg ?ret]"] exI [of _ "- 1"])
            auto
      next
        case told
        have r: "lu_evmap_io_add v w fd e = Inr (with_io w (put_slot m fd ?c) (?cs @ [Backend_add fd (slot_flags m fd) ?arg ?ret]), 1)"
          unfolding eq by (simp only: told simp_thms if_True if_False)
        have "calls_ok (?cs @ [Backend_add fd (slot_flags m fd) ?arg ?ret]) (put_slot m fd ?c)"
          using calls_ok_add(2) [OF cok told(4), of "put_slot m fd ?c" fd ?arg] flags bits by simp
        then show ?thesis using r put fd0
          by (intro exI [of _ "put_slot m fd ?c"] exI [of _ "?cs @ [Backend_add fd (slot_flags m fd) ?arg ?ret]"] exI [of _ 1])
            auto
      next
        case quiet
        have r: "lu_evmap_io_add v w fd e = Inr (with_io w (put_slot m fd ?c) ?cs, 0)"
          unfolding eq by (simp only: quiet simp_thms if_True if_False)
        have "slot_flags (put_slot m fd ?c) = slot_flags m"
          unfolding flags quiet(3) by simp
        then have "calls_ok ?cs (put_slot m fd ?c)" using cok by (simp only: calls_ok_def)
        then show ?thesis using r put fd0
          by (intro exI [of _ "put_slot m fd ?c"] exI [of _ ?cs] exI [of _ 0]) auto
      qed
    qed
  qed
qed

text \<open>Deleting an inserted event: it leaves its slot whatever the backend answers.\<close>

lemma io_del_effect:
  assumes inv: "io_inv S (\<lambda>x. ev_events (ev_of w x)) (io (w_base w)) (io_calls (w_base w))"
    and fd: "ev_fd (ev_of w e) = fd" and sel: "evsel_op (w_base w) \<noteq> None" and old: "0 \<le> fd \<Longrightarrow> e \<in> S fd"
  shows "\<exists>m cs r. lu_evmap_io_del v w fd e = Inr (with_io w m cs, r) \<and> r \<in> {- 1, 0, 1} \<and>
           io_inv (if 0 \<le> fd then S(fd := S fd - {e}) else S) (\<lambda>x. ev_events (ev_of w x)) m cs"
proof (cases "fd < 0")
  case True
  then show ?thesis using inv
    by (intro exI [of _ "io (w_base w)"] exI [of _ "io_calls (w_base w)"] exI [of _ 0])
      (simp add: lu_evmap_io_del_def with_io_same)
next
  case False
  let ?evs = "\<lambda>x. ev_events (ev_of w x)"
  let ?cs = "io_calls (w_base w)"
  let ?m = "io (w_base w)"
  have fd0: "0 \<le> fd" using False by simp
  have sok: "slots_ok S (io_slot_ok ?evs) ?m" and cok: "calls_ok ?cs ?m" using inv by (simp_all add: io_inv_def)
  have mem: "e \<in> S fd" using old fd0 by simp
  have lt: "fd < nentries ?m" using slots_ok_less [OF sok mem] .
  obtain c where c: "map_entries ?m ! nat fd = Some c"
    using slots_okD(2) [OF sok fd0 lt] mem by (cases "map_entries ?m ! nat fd") auto
  have ok: "io_slot_ok ?evs c (S fd)" using slots_okD(3) [OF sok fd0 lt c] .
  note del = io_slot_del [OF ok mem]
  obtain evsel where evsel: "evsel_op (w_base w) = Some evsel" using sel by auto
  let ?c = "c\<lparr>io_events := remove1 e (io_events c),
    nread := nread c - of_bool (has_flag (?evs e) LU_EV_READ),
    nwrite := nwrite c - of_bool (has_flag (?evs e) LU_EV_WRITE),
    nclose := nclose c - of_bool (has_flag (?evs e) LU_EV_CLOSED)\<rparr>"
  let ?res = "select_flags (has_flag (?evs e) LU_EV_READ \<and> nread ?c = 0)
    (has_flag (?evs e) LU_EV_WRITE \<and> nwrite ?c = 0) (has_flag (?evs e) LU_EV_CLOSED \<and> nclose ?c = 0)"
  let ?arg = "(?evs e AND LU_EV_ET) OR ?res"
  let ?ret = "op_del evsel ?cs fd (slot_flags ?m fd) ?arg"
  have sf: "slot_flags ?m fd = count_flags (nread c) (nwrite c) (nclose c)"
    by (rule slot_flags_get [OF fd0 lt c])
  have fields: "nread ?c = nread c - of_bool (has_flag (?evs e) LU_EV_READ)"
    "nwrite ?c = nwrite c - of_bool (has_flag (?evs e) LU_EV_WRITE)"
    "nclose ?c = nclose c - of_bool (has_flag (?evs e) LU_EV_CLOSED)" by simp_all
  have "slot_flags ?m fd AND NOT ?arg = count_flags (nread ?c) (nwrite ?c) (nclose ?c)"
    unfolding sf andnot_et_or [OF count_no_et] fields by (rule count_flags_del [OF del(2-4)])
  then have flags: "slot_flags (put_slot ?m fd ?c) = (slot_flags ?m)(fd := slot_flags ?m fd AND NOT ?arg)"
    unfolding slot_flags_put [OF sok fd0 lt] by (simp only:)
  have int: "int (nread c) - (if has_flag (?evs e) LU_EV_READ then 1 else 0) = int (nread ?c)"
    "int (nwrite c) - (if has_flag (?evs e) LU_EV_WRITE then 1 else 0) = int (nwrite ?c)"
    "int (nclose c) - (if has_flag (?evs e) LU_EV_CLOSED then 1 else 0) = int (nclose ?c)"
    using del(2-4) by auto
  have eq: "lu_evmap_io_del v w fd e =
    (if ?res \<noteq> 0 then Inr (with_io w (put_slot ?m fd ?c) (?cs @ [Backend_del fd (slot_flags ?m fd) ?arg ?ret]),
                           if ?ret = - 1 then - 1 else 1)
     else Inr (with_io w (put_slot ?m fd ?c) ?cs, 0))"
    using False fd lt c evsel
    unfolding lu_evmap_io_del_def Let_def lu_assert_def sf
    by (simp add: int with_io_def upd_base_def)
  note put = io_put_inv [OF inv fd0 lt del(1)]
  show ?thesis
  proof (cases "?res = 0")
    case True
    have "slot_flags ?m fd AND NOT ?arg = slot_flags ?m fd"
      unfolding sf andnot_et_or [OF count_no_et] True by simp
    then have "slot_flags (put_slot ?m fd ?c) = slot_flags ?m" unfolding flags by (simp only: fun_upd_triv)
    then have "calls_ok ?cs (put_slot ?m fd ?c)" using cok by (simp only: calls_ok_def)
    moreover have "lu_evmap_io_del v w fd e = Inr (with_io w (put_slot ?m fd ?c) ?cs, 0)"
      unfolding eq by (simp only: True simp_thms if_False)
    ultimately show ?thesis using put fd0
      by (intro exI [of _ "put_slot ?m fd ?c"] exI [of _ ?cs] exI [of _ 0]) auto
  next
    case False
    have "calls_ok (?cs @ [Backend_del fd (slot_flags ?m fd) ?arg ?ret]) (put_slot ?m fd ?c)"
      by (rule calls_ok_del [OF cok flags])
    moreover have "lu_evmap_io_del v w fd e =
        Inr (with_io w (put_slot ?m fd ?c) (?cs @ [Backend_del fd (slot_flags ?m fd) ?arg ?ret]),
             if ?ret = - 1 then - 1 else 1)"
      unfolding eq by (simp only: False simp_thms if_True)
    ultimately show ?thesis using put fd0
      by (intro exI [of _ "put_slot ?m fd ?c"]
          exI [of _ "?cs @ [Backend_del fd (slot_flags ?m fd) ?arg ?ret]"]
          exI [of _ "if ?ret = - 1 then - 1 else 1"]) auto
  qed
qed

section \<open>Signals\<close>

definition with_sig :: "world \<Rightarrow> lu_evmap_signal_t lu_event_signal_map_t \<Rightarrow> backend_call list \<Rightarrow> world" where
  "with_sig w m cs = upd_base (\<lambda>b. b\<lparr>sigmap := m, sig_calls := cs\<rparr>) w"

lemma with_sig_same: "with_sig w (sigmap (w_base w)) (sig_calls (w_base w)) = w"
  by (simp add: with_sig_def upd_base_def)

lemma with_sig_map: "upd_base (\<lambda>b. b\<lparr>sigmap := m\<rparr>) w = with_sig w m (sig_calls (w_base w))"
  by (simp add: with_sig_def upd_base_def)

lemma sig_slot_add: "sig_slot_ok c X \<Longrightarrow> e \<notin> X \<Longrightarrow> sig_slot_ok (c\<lparr>sig_events := e # sig_events c\<rparr>) (insert e X)"
  by (auto simp: sig_slot_ok_def)

lemma sig_slot_del: "sig_slot_ok c X \<Longrightarrow> sig_slot_ok (c\<lparr>sig_events := remove1 e (sig_events c)\<rparr>) (X - {e})"
  by (auto simp: sig_slot_ok_def)

lemma signal_add_effect:
  assumes inv: "slots_ok S sig_slot_ok (sigmap (w_base w))"
    and sel: "evsigsel_op (w_base w) \<noteq> None" and new: "e \<notin> S sig"
  shows "\<exists>m cs r. lu_evmap_signal_add v w sig e = Inr (with_sig w m cs, r) \<and> r \<in> {- 1, 1} \<and>
           slots_ok (if r \<noteq> - 1 then S(sig := insert e (S sig)) else S) sig_slot_ok m \<and> (r \<noteq> - 1 \<longrightarrow> 0 \<le> sig)"
proof (cases "sig < 0 \<or> sig \<ge> NSIG")
  case True
  then show ?thesis using inv
    by (intro exI [of _ "sigmap (w_base w)"] exI [of _ "sig_calls (w_base w)"] exI [of _ "- 1"])
      (simp add: lu_evmap_signal_add_def with_sig_same)
next
  case False
  let ?cs = "sig_calls (w_base w)"
  obtain evsel where evsel: "evsigsel_op (w_base w) = Some evsel" using sel by auto
  obtain m0 r0 where sp: "(if sig \<ge> nentries (sigmap (w_base w))
      then lu_evmap_make_space (map_alloc_ok v) (sigmap (w_base w)) sig ptr_size else (sigmap (w_base w), 0)) = (m0, r0)"
    by fastforce
  have s0: "0 \<le> sig" using False by simp
  have m0: "slots_ok S sig_slot_ok m0" "r0 = 0 \<and> sig < nentries m0 \<or> r0 = - 1"
  proof -
    show "slots_ok S sig_slot_ok m0"
      using sp inv make_space_ok(1) [OF inv _ s0] by (auto split: if_splits)
    show "r0 = 0 \<and> sig < nentries m0 \<or> r0 = - 1"
      using sp make_space_ok(2) [OF inv _ s0, of "map_alloc_ok v" ptr_size m0 r0] by (auto split: if_splits)
  qed
  show ?thesis
  proof (cases "r0 = - 1")
    case True
    then show ?thesis using m0 sp False
      by (intro exI [of _ m0] exI [of _ ?cs] exI [of _ "- 1"])
        (simp add: lu_evmap_signal_add_def with_sig_map)
  next
    case r0: False
    then have lt: "sig < nentries m0" using m0(2) by simp
    show ?thesis
    proof (cases "GET_SLOT_AND_CTOR (slot_alloc_ok v) m0 sig lu_evmap_signal_init")
      case None
      then show ?thesis using m0 sp False r0 evsel
        by (intro exI [of _ m0] exI [of _ ?cs] exI [of _ "- 1"])
          (simp add: lu_evmap_signal_add_def with_sig_map)
    next
      case (Some p)
      obtain m c where mc: "GET_SLOT_AND_CTOR (slot_alloc_ok v) m0 sig lu_evmap_signal_init = Some (m, c)"
        using Some by (cases p) auto
      note ct = ctor_ok [OF m0(1) s0 lt sig_slot_init mc]
      let ?c = "c\<lparr>sig_events := e # sig_events c\<rparr>"
      let ?ret = "op_add evsel ?cs (ev_fd (ev_of w e)) 0 LU_EV_SIGNAL"
      let ?cs' = "if sig_events c = [] then ?cs @ [Backend_add (ev_fd (ev_of w e)) 0 LU_EV_SIGNAL ?ret] else ?cs"
      have eq: "lu_evmap_signal_add v w sig e =
         (if sig_events c = [] \<and> ?ret = - 1 then Inr (with_sig w m ?cs', - 1)
          else Inr (with_sig w (put_slot m sig ?c) ?cs', 1))"
        using False sp r0 mc evsel
        by (simp add: lu_evmap_signal_add_def Let_def with_sig_def upd_base_def)
      have put: "slots_ok (S(sig := insert e (S sig))) sig_slot_ok (put_slot m sig ?c)"
        using put_slot_ok [of S sig_slot_ok m sig ?c "insert e (S sig)"] ct s0 lt sig_slot_add [OF ct(2) new] by simp
      show ?thesis
      proof (cases "sig_events c = [] \<and> ?ret = - 1")
        case True
        then show ?thesis using eq ct(1)
          by (intro exI [of _ m] exI [of _ ?cs'] exI [of _ "- 1"]) simp
      next
        case False
        then have "lu_evmap_signal_add v w sig e = Inr (with_sig w (put_slot m sig ?c) ?cs', 1)"
          unfolding eq by (simp only: if_False)
        then show ?thesis using put s0
          by (intro exI [of _ "put_slot m sig ?c"] exI [of _ ?cs'] exI [of _ 1]) simp
      qed
    qed
  qed
qed

lemma signal_del_effect:
  assumes inv: "slots_ok S sig_slot_ok (sigmap (w_base w))"
    and sel: "evsigsel_op (w_base w) \<noteq> None" and old: "e \<in> S sig" and s0: "0 \<le> sig"
  shows "\<exists>m cs r. lu_evmap_signal_del v w sig e = Inr (with_sig w m cs, r) \<and> r \<in> {- 1, 1} \<and>
           slots_ok (S(sig := S sig - {e})) sig_slot_ok m"
proof -
  let ?m = "sigmap (w_base w)"
  let ?cs = "sig_calls (w_base w)"
  obtain evsel where evsel: "evsigsel_op (w_base w) = Some evsel" using sel by auto
  have lt: "sig < nentries ?m" using slots_ok_less [OF inv old] .
  obtain c where c: "map_entries ?m ! nat sig = Some c"
    using slots_okD(2) [OF inv s0 lt] old by (cases "map_entries ?m ! nat sig") auto
  have ok: "sig_slot_ok c (S sig)" using slots_okD(3) [OF inv s0 lt c] .
  let ?c = "c\<lparr>sig_events := remove1 e (sig_events c)\<rparr>"
  let ?ret = "op_del evsel ?cs (ev_fd (ev_of w e)) 0 LU_EV_SIGNAL"
  let ?cs' = "if sig_events ?c = [] then ?cs @ [Backend_del (ev_fd (ev_of w e)) 0 LU_EV_SIGNAL ?ret] else ?cs"
  have "lu_evmap_signal_del v w sig e =
      Inr (with_sig w (put_slot ?m sig ?c) ?cs', if sig_events ?c = [] \<and> ?ret = - 1 then - 1 else 1)"
    using s0 lt c evsel by (simp add: lu_evmap_signal_del_def Let_def with_sig_def upd_base_def)
  then show ?thesis
    using put_slot_ok [OF inv s0 lt, of ?c "S sig - {e}"] sig_slot_del [OF ok]
    by (intro exI [of _ "put_slot ?m sig ?c"] exI [of _ ?cs']
        exI [of _ "if sig_events ?c = [] \<and> ?ret = - 1 then - 1 else 1"]) simp
qed

end
