(* ===== verification/LuEventInv.thy ===== *)
theory LuEventInv
  imports LuEvent LuEvMapInv
begin

text \<open>
  What the event core keeps true between operations. \<open>D\<close> is the finite set of events of the
  program. The active queues hold exactly the events whose \<open>LU_EVLIST_ACTIVE\<close> flag is set,
  each once and at its own priority; the later queue those with \<open>LU_EVLIST_ACTIVE_LATER\<close>;
  a slot of the I/O or signal map exactly the inserted events of that descriptor or signal;
  the counters are what the flags say.
\<close>

section \<open>The active queues\<close>

definition queues_ok ::
    "evptr set \<Rightarrow> (evptr \<Rightarrow> c_short) \<Rightarrow> (evptr \<Rightarrow> nat) \<Rightarrow> evptr list list \<Rightarrow> evptr list \<Rightarrow> bool" where
  "queues_ok D f pr qs lt \<longleftrightarrow>
     (\<forall>p<length qs. distinct (qs ! p) \<and>
        (\<forall>e. e \<in> set (qs ! p) \<longleftrightarrow> e \<in> D \<and> has_flag (f e) LU_EVLIST_ACTIVE \<and> pr e = p)) \<and>
     distinct lt \<and> (\<forall>e. e \<in> set lt \<longleftrightarrow> e \<in> D \<and> has_flag (f e) LU_EVLIST_ACTIVE_LATER) \<and>
     (\<forall>e\<in>D. pr e < length qs) \<and>
     (\<forall>e\<in>D. \<not> (has_flag (f e) LU_EVLIST_ACTIVE \<and> has_flag (f e) LU_EVLIST_ACTIVE_LATER))"

lemma queues_ok_cong:
  assumes "queues_ok D f pr qs lt"
    and "\<And>e. e \<in> D \<Longrightarrow> has_flag (g e) LU_EVLIST_ACTIVE = has_flag (f e) LU_EVLIST_ACTIVE"
    and "\<And>e. e \<in> D \<Longrightarrow> has_flag (g e) LU_EVLIST_ACTIVE_LATER = has_flag (f e) LU_EVLIST_ACTIVE_LATER"
    and "\<And>e. e \<in> D \<Longrightarrow> pr' e = pr e"
  shows "queues_ok D g pr' qs lt"
proof -
  have "x \<in> D \<and> has_flag (g x) LU_EVLIST_ACTIVE \<and> pr' x = p \<longleftrightarrow> x \<in> D \<and> has_flag (f x) LU_EVLIST_ACTIVE \<and> pr x = p"
    "x \<in> D \<and> has_flag (g x) LU_EVLIST_ACTIVE_LATER \<longleftrightarrow> x \<in> D \<and> has_flag (f x) LU_EVLIST_ACTIVE_LATER" for x p
    using assms(2-4) by auto
  moreover have "\<forall>e\<in>D. pr' e < length qs"
      "\<forall>e\<in>D. \<not> (has_flag (g e) LU_EVLIST_ACTIVE \<and> has_flag (g e) LU_EVLIST_ACTIVE_LATER)"
    using assms by (auto simp: queues_ok_def)
  ultimately show ?thesis using assms(1) unfolding queues_ok_def by (simp only: simp_thms) blast
qed

lemma queues_ok_remove:
  assumes q: "queues_ok D f pr qs lt" and e: "e \<in> D" "has_flag (f e) LU_EVLIST_ACTIVE"
    and g: "\<not> has_flag (g e) LU_EVLIST_ACTIVE"
      "has_flag (g e) LU_EVLIST_ACTIVE_LATER = has_flag (f e) LU_EVLIST_ACTIVE_LATER" "\<And>x. x \<noteq> e \<Longrightarrow> g x = f x"
  shows "queues_ok D g pr (qs[pr e := remove1 e (qs ! pr e)]) lt"
    and "length (concat (qs[pr e := remove1 e (qs ! pr e)])) + 1 = length (concat qs)"
proof -
  have p: "pr e < length qs" "distinct (qs ! pr e)" "e \<in> set (qs ! pr e)"
    using q e by (auto simp: queues_ok_def)
  let ?qs = "qs[pr e := remove1 e (qs ! pr e)]"
  have nth: "?qs ! i = (if i = pr e then remove1 e (qs ! i) else qs ! i)" if "i < length qs" for i
    using that p(1) by simp
  have "distinct (?qs ! i) \<and> (\<forall>x. x \<in> set (?qs ! i) \<longleftrightarrow> x \<in> D \<and> has_flag (g x) LU_EVLIST_ACTIVE \<and> pr x = i)"
    if i: "i < length qs" for i
  proof -
    have "distinct (qs ! i)" "\<And>x. x \<in> set (qs ! i) \<longleftrightarrow> x \<in> D \<and> has_flag (f x) LU_EVLIST_ACTIVE \<and> pr x = i"
      using q i by (simp_all add: queues_ok_def)
    then show ?thesis unfolding nth [OF i] using e g(1,3) by (cases "i = pr e") (auto, metis+)
  qed
  moreover have "has_flag (g x) LU_EVLIST_ACTIVE_LATER = has_flag (f x) LU_EVLIST_ACTIVE_LATER" for x
    using g(2,3) by (cases "x = e") auto
  moreover have "has_flag (g x) LU_EVLIST_ACTIVE \<Longrightarrow> has_flag (f x) LU_EVLIST_ACTIVE" for x
    using g(1,3) by (cases "x = e") auto
  ultimately show "queues_ok D g pr ?qs lt"
    using q by (auto simp: queues_ok_def)
  show "length (concat ?qs) + 1 = length (concat qs)"
    using length_concat_update [OF p(1), of "remove1 e (qs ! pr e)"] length_remove1_in [OF p(3)] by simp
qed

lemma queues_ok_remove_later:
  assumes q: "queues_ok D f pr qs lt" and e: "e \<in> D" "has_flag (f e) LU_EVLIST_ACTIVE_LATER"
    and g: "\<not> has_flag (g e) LU_EVLIST_ACTIVE_LATER"
      "has_flag (g e) LU_EVLIST_ACTIVE = has_flag (f e) LU_EVLIST_ACTIVE" "\<And>x. x \<noteq> e \<Longrightarrow> g x = f x"
  shows "queues_ok D g pr qs (remove1 e lt)" and "length (remove1 e lt) + 1 = length lt"
proof -
  have lt: "distinct lt" "e \<in> set lt" using q e by (auto simp: queues_ok_def)
  have a: "has_flag (g x) LU_EVLIST_ACTIVE = has_flag (f x) LU_EVLIST_ACTIVE" for x
    using g(2,3) by (cases "x = e") auto
  have l: "has_flag (g x) LU_EVLIST_ACTIVE_LATER \<longleftrightarrow> x \<noteq> e \<and> has_flag (f x) LU_EVLIST_ACTIVE_LATER" for x
    using g(1,3) by (cases "x = e") auto
  show "queues_ok D g pr qs (remove1 e lt)"
    using q lt unfolding queues_ok_def a l by auto
  show "length (remove1 e lt) + 1 = length lt" using length_remove1_in [OF lt(2)] by simp
qed

lemma queues_ok_insert:
  assumes q: "queues_ok D f pr qs lt" and e: "e \<in> D" "\<not> has_flag (f e) LU_EVLIST_ACTIVE"
      "\<not> has_flag (f e) LU_EVLIST_ACTIVE_LATER"
    and g: "has_flag (g e) LU_EVLIST_ACTIVE" "\<not> has_flag (g e) LU_EVLIST_ACTIVE_LATER" "\<And>x. x \<noteq> e \<Longrightarrow> g x = f x"
  shows "queues_ok D g pr (qs[pr e := qs ! pr e @ [e]]) lt"
    and "length (concat (qs[pr e := qs ! pr e @ [e]])) = length (concat qs) + 1"
proof -
  have p: "pr e < length qs" "distinct (qs ! pr e)" "e \<notin> set (qs ! pr e)"
    using q e by (auto simp: queues_ok_def)
  have a: "has_flag (g x) LU_EVLIST_ACTIVE \<longleftrightarrow> x = e \<or> has_flag (f x) LU_EVLIST_ACTIVE" for x
    using g(1,3) by (cases "x = e") auto
  have l: "has_flag (g x) LU_EVLIST_ACTIVE_LATER = has_flag (f x) LU_EVLIST_ACTIVE_LATER" for x
    using g(2,3) e(3) by (cases "x = e") auto
  let ?qs = "qs[pr e := qs ! pr e @ [e]]"
  have nth: "?qs ! i = (if i = pr e then qs ! i @ [e] else qs ! i)" if "i < length qs" for i
    using that p(1) by simp
  have "distinct (?qs ! i) \<and> (\<forall>x. x \<in> set (?qs ! i) \<longleftrightarrow> x \<in> D \<and> (x = e \<or> has_flag (f x) LU_EVLIST_ACTIVE) \<and> pr x = i)"
    if i: "i < length qs" for i
  proof -
    have "distinct (qs ! i)" "\<And>x. x \<in> set (qs ! i) \<longleftrightarrow> x \<in> D \<and> has_flag (f x) LU_EVLIST_ACTIVE \<and> pr x = i"
      using q i by (simp_all add: queues_ok_def)
    then show ?thesis unfolding nth [OF i] using e p(3) by auto
  qed
  then show "queues_ok D g pr ?qs lt"
    using q e unfolding queues_ok_def a l by (auto simp only: length_list_update)
  show "length (concat ?qs) = length (concat qs) + 1"
    using length_concat_update [OF p(1), of "qs ! pr e @ [e]"] by simp
qed

section \<open>The event count\<close>

text \<open>How often an event is counted: once per list it is on, unless it is internal.\<close>

definition flag_weight :: "c_short \<Rightarrow> int" where
  "flag_weight f = counted f *
     (of_bool (has_flag f LU_EVLIST_TIMEOUT) + of_bool (has_flag f LU_EVLIST_INSERTED) +
      of_bool (has_flag f LU_EVLIST_ACTIVE) + of_bool (has_flag f LU_EVLIST_ACTIVE_LATER))"

lemma counted_flags [simp]:
  "counted (set_flag f LU_EVLIST_INSERTED) = counted f" "counted (set_flag f LU_EVLIST_ACTIVE) = counted f"
  "counted (clr_flag f LU_EVLIST_INSERTED) = counted f" "counted (clr_flag f LU_EVLIST_ACTIVE) = counted f"
  "counted (clr_flag f LU_EVLIST_ACTIVE_LATER) = counted f" "counted (clr_flag f LU_EVLIST_TIMEOUT) = counted f"
  by (simp_all add: counted_def lu_flags)

lemma flag_weight_clr:
  "has_flag f LU_EVLIST_INSERTED \<Longrightarrow> flag_weight (clr_flag f LU_EVLIST_INSERTED) = flag_weight f - counted f"
  "has_flag f LU_EVLIST_ACTIVE \<Longrightarrow> flag_weight (clr_flag f LU_EVLIST_ACTIVE) = flag_weight f - counted f"
  "has_flag f LU_EVLIST_ACTIVE_LATER \<Longrightarrow> flag_weight (clr_flag f LU_EVLIST_ACTIVE_LATER) = flag_weight f - counted f"
  "has_flag f LU_EVLIST_TIMEOUT \<Longrightarrow> flag_weight (clr_flag f LU_EVLIST_TIMEOUT) = flag_weight f - counted f"
  by (simp_all add: flag_weight_def lu_flags algebra_simps)

lemma flag_weight_set:
  "\<not> has_flag f LU_EVLIST_INSERTED \<Longrightarrow> flag_weight (set_flag f LU_EVLIST_INSERTED) = flag_weight f + counted f"
  "\<not> has_flag f LU_EVLIST_ACTIVE \<Longrightarrow> flag_weight (set_flag f LU_EVLIST_ACTIVE) = flag_weight f + counted f"
  by (simp_all add: flag_weight_def lu_flags algebra_simps)

lemma flag_weight_nonneg: "0 \<le> flag_weight f"
  by (simp add: flag_weight_def counted_def)

section \<open>The invariant\<close>

definition is_io :: "lu_event_t \<Rightarrow> bool" where
  "is_io ev \<longleftrightarrow> has_flag (ev_events ev) IO_EVENTS"

definition io_set :: "evptr set \<Rightarrow> world \<Rightarrow> int \<Rightarrow> evptr set" where
  "io_set D w fd = {e \<in> D. has_flag (fl w e) LU_EVLIST_INSERTED \<and> is_io (ev_of w e) \<and> ev_fd (ev_of w e) = fd}"

definition sig_set :: "evptr set \<Rightarrow> world \<Rightarrow> int \<Rightarrow> evptr set" where
  "sig_set D w s = {e \<in> D. has_flag (fl w e) LU_EVLIST_INSERTED \<and> \<not> is_io (ev_of w e) \<and> ev_fd (ev_of w e) = s}"

text \<open>\<open>static_inv\<close>: what no operation changes, given that no timeout is ever queued.\<close>

definition static_inv :: "evptr set \<Rightarrow> world \<Rightarrow> bool" where
  "static_inv D w \<longleftrightarrow> finite D \<and> evsel_op (w_base w) \<noteq> None \<and> evsigsel_op (w_base w) \<noteq> None \<and>
     n_common_timeouts (w_base w) = 0 \<and> hn (time_heap (w_base w)) = 0 \<and>
     0 < nactivequeues (w_base w) \<and> nactivequeues (w_base w) \<le> 256 \<and>
     (\<forall>e\<in>D. ev_base (ev_of w e) \<noteq> None \<and> clr_flag (fl w e) LU_EVLIST_ALL = 0 \<and>
        \<not> has_flag (fl w e) LU_EVLIST_TIMEOUT)"

definition queue_inv :: "evptr set \<Rightarrow> world \<Rightarrow> bool" where
  "queue_inv D w \<longleftrightarrow>
     queues_ok D (fl w) (\<lambda>e. unat (ev_pri (ev_of w e))) (activequeues (w_base w)) (active_later_queue (w_base w)) \<and>
     nactivequeues (w_base w) = int (length (activequeues (w_base w))) \<and>
     event_count_active (w_base w) =
       int (length (concat (activequeues (w_base w)))) + int (length (active_later_queue (w_base w)))"

definition count_inv :: "evptr set \<Rightarrow> world \<Rightarrow> bool" where
  "count_inv D w \<longleftrightarrow> event_count (w_base w) = (\<Sum>e\<in>D. flag_weight (fl w e))"

definition map_inv :: "evptr set \<Rightarrow> world \<Rightarrow> bool" where
  "map_inv D w \<longleftrightarrow>
     io_inv (io_set D w) (\<lambda>e. ev_events (ev_of w e)) (io (w_base w)) (io_calls (w_base w)) \<and>
     slots_ok (sig_set D w) sig_slot_ok (sigmap (w_base w)) \<and>
     (\<forall>e\<in>D. has_flag (fl w e) LU_EVLIST_INSERTED \<and> \<not> is_io (ev_of w e) \<longrightarrow> 0 \<le> ev_fd (ev_of w e))"

definition core_inv :: "evptr set \<Rightarrow> world \<Rightarrow> bool" where
  "core_inv D w \<longleftrightarrow> static_inv D w \<and> queue_inv D w \<and> count_inv D w \<and> map_inv D w"

text \<open>Everything the invariant looks at. A step that leaves the view alone keeps the invariant.\<close>

definition ev_view :: "lu_event_t \<Rightarrow> c_short \<times> c_uint8 \<times> c_short \<times> int \<times> nat option" where
  "ev_view ev = (ev_flags ev, ev_pri ev, ev_events ev, ev_fd ev, ev_base ev)"

definition core_view where
  "core_view w = ((\<lambda>e. ev_view (ev_of w e)),
     (evsel_op (w_base w), evsigsel_op (w_base w), n_common_timeouts (w_base w), hn (time_heap (w_base w))),
     (activequeues (w_base w), nactivequeues (w_base w), active_later_queue (w_base w)),
     (event_count_active (w_base w), event_count (w_base w)),
     (io (w_base w), io_calls (w_base w), sigmap (w_base w)))"

lemma core_view_ev: "core_view w' = core_view w \<Longrightarrow> ev_view (ev_of w' e) = ev_view (ev_of w e)"
  by (simp add: core_view_def fun_eq_iff)

lemma core_inv_view:
  assumes "core_view w' = core_view w"
  shows "core_inv D w' = core_inv D w"
proof -
  have ev: "fl w' e = fl w e" "ev_pri (ev_of w' e) = ev_pri (ev_of w e)" "ev_events (ev_of w' e) = ev_events (ev_of w e)"
    "ev_fd (ev_of w' e) = ev_fd (ev_of w e)" "ev_base (ev_of w' e) = ev_base (ev_of w e)" for e
    using core_view_ev [OF assms, of e] by (simp_all add: ev_view_def)
  have f: "fl w' = fl w" using ev by (simp add: fun_eq_iff)
  have s: "static_inv D w' = static_inv D w"
    using assms by (simp add: static_inv_def ev core_view_def)
  have q: "queue_inv D w' = queue_inv D w"
    using assms by (simp add: queue_inv_def ev f core_view_def)
  have c: "count_inv D w' = count_inv D w"
    using assms by (simp add: count_inv_def ev core_view_def)
  have i: "io_set D w' = io_set D w" "sig_set D w' = sig_set D w"
    by (simp_all add: fun_eq_iff io_set_def sig_set_def is_io_def ev)
  have m: "map_inv D w' = map_inv D w"
    using assms by (simp add: map_inv_def ev i is_io_def core_view_def)
  show ?thesis by (simp add: core_inv_def s q c m)
qed

lemma view_upd_ev:
  "ev_view (f (ev_of w e)) = ev_view (ev_of w e) \<Longrightarrow> core_view (upd_ev f e w) = core_view w"
  by (auto simp: core_view_def fun_eq_iff)

lemma view_abort [simp]: "core_view (abort_signal_loop e w) = core_view w"
  by (simp add: core_view_def abort_signal_loop_def split: option.splits)

lemma view_wait [simp]: "core_view (wait_current_event w) = core_view w"
  by (simp add: core_view_def wait_current_event_def)

lemma view_notify [simp]: "core_view (fst (lu_evthread_notify_base w)) = core_view w"
  by (simp add: core_view_def lu_evthread_notify_base_def split: option.splits)

lemma view_lock [simp]:
  "core_view (LU_EVBASE_ACQUIRE_LOCK w) = core_view w" "core_view (LU_EVBASE_RELEASE_LOCK w) = core_view w"
  by (simp_all add: core_view_def LU_EVBASE_ACQUIRE_LOCK_def LU_EVBASE_RELEASE_LOCK_def)

lemma view_gettime [simp]: "gettime v w = (w', t, r) \<Longrightarrow> core_view w' = core_view w"
  by (auto simp: gettime_def core_view_def split: if_splits prod.splits)

lemma reserve_hn: "lu_min_heap_reserve ok h n = (h', r) \<Longrightarrow> hn h' = hn h"
  by (auto simp: lu_min_heap_reserve_def Let_def split: if_splits)

lemma view_reserve: "reserve_timeout v w ev tvo = (w', r) \<Longrightarrow> core_view w' = core_view w"
  by (auto simp: reserve_timeout_def core_view_def dest: reserve_hn split: if_splits prod.splits)

section \<open>Changing the flags of one event\<close>

definition same_static :: "world \<Rightarrow> world \<Rightarrow> bool" where
  "same_static w w' \<longleftrightarrow> evsel_op (w_base w') = evsel_op (w_base w) \<and>
     evsigsel_op (w_base w') = evsigsel_op (w_base w) \<and>
     n_common_timeouts (w_base w') = n_common_timeouts (w_base w) \<and> hn (time_heap (w_base w')) = hn (time_heap (w_base w)) \<and>
     nactivequeues (w_base w') = nactivequeues (w_base w)"

definition same_maps :: "world \<Rightarrow> world \<Rightarrow> bool" where
  "same_maps w w' \<longleftrightarrow> io (w_base w') = io (w_base w) \<and> io_calls (w_base w') = io_calls (w_base w) \<and>
     sigmap (w_base w') = sigmap (w_base w)"

lemma all_flags:
  "clr_flag x LU_EVLIST_ALL = 0 \<Longrightarrow> clr_flag (clr_flag x f) LU_EVLIST_ALL = 0"
  "clr_flag x LU_EVLIST_ALL = 0 \<Longrightarrow> f AND NOT LU_EVLIST_ALL = 0 \<Longrightarrow> clr_flag (set_flag x f) LU_EVLIST_ALL = 0"
proof -
  have 1: "(x AND NOT f) AND NOT LU_EVLIST_ALL = (x AND NOT LU_EVLIST_ALL) AND NOT f"
    by (rule bit_word_eqI) (auto simp: bit_simps)
  have 2: "(x OR f) AND NOT LU_EVLIST_ALL = (x AND NOT LU_EVLIST_ALL) OR (f AND NOT LU_EVLIST_ALL)"
    by (rule bit_word_eqI) (auto simp: bit_simps)
  show "clr_flag x LU_EVLIST_ALL = 0 \<Longrightarrow> clr_flag (clr_flag x f) LU_EVLIST_ALL = 0"
    unfolding clr_flag_def 1 by simp
  show "clr_flag x LU_EVLIST_ALL = 0 \<Longrightarrow> f AND NOT LU_EVLIST_ALL = 0 \<Longrightarrow> clr_flag (set_flag x f) LU_EVLIST_ALL = 0"
    unfolding clr_flag_def set_flag_def 2 by simp
qed

lemma evlist_in_all: "LU_EVLIST_ACTIVE AND NOT LU_EVLIST_ALL = 0" "LU_EVLIST_INSERTED AND NOT LU_EVLIST_ALL = 0"
  by (simp_all add: lu_consts)

lemma flag_step_static:
  assumes "static_inv D w" "same_static w w'" "w_evs w' = (w_evs w)(e := upd_flags h (w_evs w e))"
    and "e \<in> D \<Longrightarrow> clr_flag (fl w e) LU_EVLIST_ALL = 0 \<Longrightarrow> clr_flag (h (fl w e)) LU_EVLIST_ALL = 0"
    and "has_flag (h (fl w e)) LU_EVLIST_TIMEOUT = has_flag (fl w e) LU_EVLIST_TIMEOUT"
  shows "static_inv D w'"
  using assms by (auto simp: static_inv_def same_static_def)

lemma flag_step_count:
  assumes "count_inv D w" "static_inv D w" "e \<in> D" "w_evs w' = (w_evs w)(e := upd_flags h (w_evs w e))"
    and "event_count (w_base w') = event_count (w_base w) + flag_weight (h (fl w e)) - flag_weight (fl w e)"
  shows "count_inv D w'"
proof -
  have "finite D" using assms(2) by (simp add: static_inv_def)
  moreover have "(\<Sum>x\<in>D. flag_weight (fl w' x)) = (\<Sum>x\<in>D. flag_weight (if x = e then h (fl w e) else fl w x))"
    unfolding assms(4) by (intro sum.cong) auto
  ultimately show ?thesis
    using sum_fun_upd_int [of D e flag_weight "h (fl w e)" "fl w"] assms(1,3,5) by (simp add: count_inv_def)
qed

lemma flag_step_sets:
  assumes "w_evs w' = (w_evs w)(e := upd_flags h (w_evs w e))"
    and "has_flag (h (fl w e)) LU_EVLIST_INSERTED = has_flag (fl w e) LU_EVLIST_INSERTED"
  shows "io_set D w' = io_set D w" "sig_set D w' = sig_set D w"
  using assms by (auto simp: fun_eq_iff io_set_def sig_set_def is_io_def)

lemma flag_step_maps:
  assumes "map_inv D w" "same_maps w w'" and step: "w_evs w' = (w_evs w)(e := upd_flags h (w_evs w e))"
    and ins: "has_flag (h (fl w e)) LU_EVLIST_INSERTED = has_flag (fl w e) LU_EVLIST_INSERTED"
  shows "map_inv D w'"
proof -
  have ev: "(\<lambda>x. ev_events (ev_of w' x)) = (\<lambda>x. ev_events (ev_of w x))"
    unfolding step by (auto simp: fun_eq_iff)
  have f: "has_flag (fl w' x) LU_EVLIST_INSERTED = has_flag (fl w x) LU_EVLIST_INSERTED"
    "ev_fd (ev_of w' x) = ev_fd (ev_of w x)" "is_io (ev_of w' x) = is_io (ev_of w x)" for x
    unfolding step using ins by (auto simp: is_io_def)
  show ?thesis using assms(1,2) unfolding map_inv_def same_maps_def ev f flag_step_sets [OF step ins] by simp
qed

section \<open>The queue operations keep the invariant\<close>

lemma remove_active_inv:
  assumes inv: "core_inv D w" and e: "e \<in> D" "has_flag (fl w e) LU_EVLIST_ACTIVE"
  shows "\<exists>w'. lu_event_queue_remove_active w e = Inr w' \<and> core_inv D w' \<and> same_static w w' \<and> same_maps w w' \<and>
           w_evs w' = (w_evs w)(e := upd_flags (\<lambda>f. clr_flag f LU_EVLIST_ACTIVE) (w_evs w e))"
proof -
  let ?b = "w_base w"
  let ?p = "unat (ev_pri (ev_of w e))"
  let ?h = "\<lambda>f. clr_flag f LU_EVLIST_ACTIVE"
  have q: "queues_ok D (fl w) (\<lambda>e. unat (ev_pri (ev_of w e))) (activequeues ?b) (active_later_queue ?b)"
    using inv by (simp add: core_inv_def queue_inv_def)
  have p: "?p < length (activequeues ?b)" using q e by (simp add: queues_ok_def)
  define w' where "w' = upd_base (\<lambda>b. b\<lparr>activequeues := (activequeues b)[?p := remove1 e (activequeues b ! ?p)]\<rparr>)
    (upd_base (\<lambda>b. b\<lparr>event_count_active := event_count_active b - 1\<rparr>)
      (ev_clr_flag LU_EVLIST_ACTIVE e (LU_DECR_EVENT_COUNT (fl w e) w)))"
  have r: "lu_event_queue_remove_active w e = Inr w'"
    using e p by (simp add: lu_event_queue_remove_active_def Let_def upd_queue_def w'_def ev_clr_flag_def
        LU_DECR_EVENT_COUNT_def)
  have evs: "w_evs w' = (w_evs w)(e := upd_flags ?h (w_evs w e))"
    by (simp add: w'_def ev_clr_flag_def LU_DECR_EVENT_COUNT_def)
  have base: "same_static w w'" "same_maps w w'"
    by (simp_all add: same_static_def same_maps_def w'_def ev_clr_flag_def LU_DECR_EVENT_COUNT_def)
  have fl': "fl w' x = (if x = e then ?h (fl w e) else fl w x)" for x
    unfolding evs by auto
  have pri': "(\<lambda>x. unat (ev_pri (ev_of w' x))) = (\<lambda>x. unat (ev_pri (ev_of w x)))"
    unfolding evs by (auto simp: fun_eq_iff)
  have b: "activequeues (w_base w') = (activequeues ?b)[?p := remove1 e (activequeues ?b ! ?p)]"
    "nactivequeues (w_base w') = nactivequeues ?b" "active_later_queue (w_base w') = active_later_queue ?b"
    "event_count_active (w_base w') = event_count_active ?b - 1"
    by (simp_all add: w'_def ev_clr_flag_def LU_DECR_EVENT_COUNT_def)
  have g: "\<not> has_flag (fl w' e) LU_EVLIST_ACTIVE"
    "has_flag (fl w' e) LU_EVLIST_ACTIVE_LATER = has_flag (fl w e) LU_EVLIST_ACTIVE_LATER"
    "\<And>x. x \<noteq> e \<Longrightarrow> fl w' x = fl w x"
    by (simp_all add: fl' lu_flags)
  note rem = queues_ok_remove [OF q e g]
  have "queue_inv D w'"
    using rem inv unfolding queue_inv_def pri' core_inv_def b by simp
  moreover have "static_inv D w'"
    by (rule flag_step_static [OF _ base(1) evs]) (use inv in \<open>simp_all add: core_inv_def all_flags lu_flags\<close>)
  moreover have "count_inv D w'"
    by (rule flag_step_count [OF _ _ e(1) evs])
      (use inv e in \<open>simp_all add: core_inv_def flag_weight_clr w'_def ev_clr_flag_def LU_DECR_EVENT_COUNT_def\<close>)
  moreover have "map_inv D w'"
    by (rule flag_step_maps [OF _ base(2) evs]) (use inv in \<open>simp_all add: core_inv_def lu_flags\<close>)
  ultimately show ?thesis using r evs base by (auto simp: core_inv_def)
qed

lemma remove_later_inv:
  assumes inv: "core_inv D w" and e: "e \<in> D" "has_flag (fl w e) LU_EVLIST_ACTIVE_LATER"
  shows "\<exists>w'. lu_event_queue_remove_active_later w e = Inr w' \<and> core_inv D w' \<and> same_static w w' \<and> same_maps w w' \<and>
           w_evs w' = (w_evs w)(e := upd_flags (\<lambda>f. clr_flag f LU_EVLIST_ACTIVE_LATER) (w_evs w e))"
proof -
  let ?b = "w_base w"
  let ?h = "\<lambda>f. clr_flag f LU_EVLIST_ACTIVE_LATER"
  have q: "queues_ok D (fl w) (\<lambda>e. unat (ev_pri (ev_of w e))) (activequeues ?b) (active_later_queue ?b)"
    using inv by (simp add: core_inv_def queue_inv_def)
  define w' where "w' = upd_base (\<lambda>b. b\<lparr>event_count_active := event_count_active b - 1,
      active_later_queue := remove1 e (active_later_queue b)\<rparr>)
      (ev_clr_flag LU_EVLIST_ACTIVE_LATER e (LU_DECR_EVENT_COUNT (fl w e) w))"
  have r: "lu_event_queue_remove_active_later w e = Inr w'"
    using e by (simp add: lu_event_queue_remove_active_later_def Let_def w'_def)
  have evs: "w_evs w' = (w_evs w)(e := upd_flags ?h (w_evs w e))"
    by (simp add: w'_def ev_clr_flag_def LU_DECR_EVENT_COUNT_def)
  have base: "same_static w w'" "same_maps w w'"
    by (simp_all add: same_static_def same_maps_def w'_def ev_clr_flag_def LU_DECR_EVENT_COUNT_def)
  have fl': "fl w' x = (if x = e then ?h (fl w e) else fl w x)" for x
    unfolding evs by auto
  have pri': "(\<lambda>x. unat (ev_pri (ev_of w' x))) = (\<lambda>x. unat (ev_pri (ev_of w x)))"
    unfolding evs by (auto simp: fun_eq_iff)
  have b: "activequeues (w_base w') = activequeues ?b"
    "nactivequeues (w_base w') = nactivequeues ?b" "active_later_queue (w_base w') = remove1 e (active_later_queue ?b)"
    "event_count_active (w_base w') = event_count_active ?b - 1"
    by (simp_all add: w'_def ev_clr_flag_def LU_DECR_EVENT_COUNT_def)
  have g: "\<not> has_flag (fl w' e) LU_EVLIST_ACTIVE_LATER"
    "has_flag (fl w' e) LU_EVLIST_ACTIVE = has_flag (fl w e) LU_EVLIST_ACTIVE"
    "\<And>x. x \<noteq> e \<Longrightarrow> fl w' x = fl w x"
    by (simp_all add: fl' lu_flags)
  note rem = queues_ok_remove_later [OF q e g]
  have "queue_inv D w'"
    using rem inv unfolding queue_inv_def pri' core_inv_def b by simp
  moreover have "static_inv D w'"
    by (rule flag_step_static [OF _ base(1) evs]) (use inv in \<open>simp_all add: core_inv_def all_flags lu_flags\<close>)
  moreover have "count_inv D w'"
    by (rule flag_step_count [OF _ _ e(1) evs])
      (use inv e in \<open>simp_all add: core_inv_def flag_weight_clr w'_def ev_clr_flag_def LU_DECR_EVENT_COUNT_def\<close>)
  moreover have "map_inv D w'"
    by (rule flag_step_maps [OF _ base(2) evs]) (use inv in \<open>simp_all add: core_inv_def lu_flags\<close>)
  ultimately show ?thesis using r evs base by (auto simp: core_inv_def)
qed

lemma insert_active_inv:
  assumes inv: "core_inv D w" and e: "e \<in> D" "\<not> has_flag (fl w e) LU_EVLIST_ACTIVE"
    "\<not> has_flag (fl w e) LU_EVLIST_ACTIVE_LATER"
  shows "\<exists>w'. lu_event_queue_insert_active w e = Inr w' \<and> core_inv D w' \<and> same_static w w' \<and> same_maps w w' \<and>
           w_evs w' = (w_evs w)(e := upd_flags (\<lambda>f. set_flag f LU_EVLIST_ACTIVE) (w_evs w e)) \<and>
           activequeues (w_base w') = (activequeues (w_base w))[unat (ev_pri (ev_of w e)) :=
             activequeues (w_base w) ! unat (ev_pri (ev_of w e)) @ [e]]"
proof -
  let ?b = "w_base w"
  let ?p = "unat (ev_pri (ev_of w e))"
  let ?h = "\<lambda>f. set_flag f LU_EVLIST_ACTIVE"
  have q: "queues_ok D (fl w) (\<lambda>e. unat (ev_pri (ev_of w e))) (activequeues ?b) (active_later_queue ?b)"
    and nq: "nactivequeues ?b = int (length (activequeues ?b))"
    using inv by (simp_all add: core_inv_def queue_inv_def)
  have p: "?p < length (activequeues ?b)" using q e by (simp add: queues_ok_def)
  then have "int ?p < nactivequeues ?b" unfolding nq by (simp only: of_nat_less_iff)
  then have pn: "uint (ev_pri (ev_of w e)) < nactivequeues ?b" by simp
  define w' where "w' = upd_base (\<lambda>b. b\<lparr>activequeues := (activequeues b)[?p := activequeues b ! ?p @ [e]]\<rparr>)
    (upd_base (\<lambda>b. b\<lparr>event_count_active := event_count_active b + 1,
        event_count_active_max := max (event_count_active_max b) (event_count_active b + 1)\<rparr>)
      (ev_set_flag LU_EVLIST_ACTIVE e (LU_INCR_EVENT_COUNT (fl w e) w)))"
  have r: "lu_event_queue_insert_active w e = Inr w'"
    using e p pn by (simp add: lu_event_queue_insert_active_def Let_def upd_queue_def w'_def ev_set_flag_def
        LU_INCR_EVENT_COUNT_def lu_assert_def)
  have evs: "w_evs w' = (w_evs w)(e := upd_flags ?h (w_evs w e))"
    by (simp add: w'_def ev_set_flag_def LU_INCR_EVENT_COUNT_def)
  have base: "same_static w w'" "same_maps w w'"
    by (simp_all add: same_static_def same_maps_def w'_def ev_set_flag_def LU_INCR_EVENT_COUNT_def)
  have fl': "fl w' x = (if x = e then ?h (fl w e) else fl w x)" for x
    unfolding evs by auto
  have pri': "(\<lambda>x. unat (ev_pri (ev_of w' x))) = (\<lambda>x. unat (ev_pri (ev_of w x)))"
    unfolding evs by (auto simp: fun_eq_iff)
  have b: "activequeues (w_base w') = (activequeues ?b)[?p := activequeues ?b ! ?p @ [e]]"
    "nactivequeues (w_base w') = nactivequeues ?b" "active_later_queue (w_base w') = active_later_queue ?b"
    "event_count_active (w_base w') = event_count_active ?b + 1"
    by (simp_all add: w'_def ev_set_flag_def LU_INCR_EVENT_COUNT_def)
  have g: "has_flag (fl w' e) LU_EVLIST_ACTIVE" "\<not> has_flag (fl w' e) LU_EVLIST_ACTIVE_LATER"
    "\<And>x. x \<noteq> e \<Longrightarrow> fl w' x = fl w x"
    using e(3) by (simp_all add: fl' lu_flags)
  note ins = queues_ok_insert [OF q e g]
  have "queue_inv D w'"
    using ins inv unfolding queue_inv_def pri' core_inv_def b by simp
  moreover have "static_inv D w'"
    by (rule flag_step_static [OF _ base(1) evs])
      (use inv in \<open>simp_all add: core_inv_def all_flags lu_flags evlist_in_all\<close>)
  moreover have "count_inv D w'"
    by (rule flag_step_count [OF _ _ e(1) evs])
      (use inv e in \<open>simp_all add: core_inv_def flag_weight_set w'_def ev_set_flag_def LU_INCR_EVENT_COUNT_def\<close>)
  moreover have "map_inv D w'"
    by (rule flag_step_maps [OF _ base(2) evs]) (use inv in \<open>simp_all add: core_inv_def lu_flags\<close>)
  ultimately show ?thesis using r evs base b(1) by (auto simp: core_inv_def)
qed

section \<open>Leaving and entering the event map\<close>

lemma with_io_simps [simp]:
  "w_evs (with_io w m cs) = w_evs w" "io (w_base (with_io w m cs)) = m" "io_calls (w_base (with_io w m cs)) = cs"
  "sigmap (w_base (with_io w m cs)) = sigmap (w_base w)" "evsel_op (w_base (with_io w m cs)) = evsel_op (w_base w)"
  "evsigsel_op (w_base (with_io w m cs)) = evsigsel_op (w_base w)"
  by (simp_all add: with_io_def)

lemma with_sig_simps [simp]:
  "w_evs (with_sig w m cs) = w_evs w" "sigmap (w_base (with_sig w m cs)) = m"
  "io (w_base (with_sig w m cs)) = io (w_base w)" "io_calls (w_base (with_sig w m cs)) = io_calls (w_base w)"
  by (simp_all add: with_sig_def)

lemma with_sets [simp]:
  "io_set D (with_io w m cs) = io_set D w" "sig_set D (with_io w m cs) = sig_set D w"
  "io_set D (with_sig w m2 cs) = io_set D w" "sig_set D (with_sig w m2 cs) = sig_set D w"
  by (simp_all add: io_set_def sig_set_def fun_eq_iff)

lemma with_io_keeps:
  "same_static w (with_io w m cs)" "queue_inv D (with_io w m cs) = queue_inv D w" "count_inv D (with_io w m cs) = count_inv D w"
  "static_inv D (with_io w m cs) = static_inv D w"
  by (simp_all add: same_static_def queue_inv_def count_inv_def static_inv_def with_io_def)

lemma with_sig_keeps:
  "same_static w (with_sig w m cs)" "queue_inv D (with_sig w m cs) = queue_inv D w" "count_inv D (with_sig w m cs) = count_inv D w"
  "static_inv D (with_sig w m cs) = static_inv D w"
  by (simp_all add: same_static_def queue_inv_def count_inv_def static_inv_def with_sig_def)

text \<open>The flag and the count move; the queues look at neither.\<close>

lemma inserted_step:
  assumes inv: "core_inv D w" and e: "e \<in> D"
    and w': "w' = ev_clr_flag LU_EVLIST_INSERTED e (LU_DECR_EVENT_COUNT (fl w e) w) \<and> has_flag (fl w e) LU_EVLIST_INSERTED \<or>
             w' = ev_set_flag LU_EVLIST_INSERTED e (LU_INCR_EVENT_COUNT (fl w e) w) \<and> \<not> has_flag (fl w e) LU_EVLIST_INSERTED"
  shows "static_inv D w'" "queue_inv D w'" "count_inv D w'" "same_static w w'" "same_maps w w'"
proof -
  define h where "h = (if has_flag (fl w e) LU_EVLIST_INSERTED then (\<lambda>f. clr_flag f LU_EVLIST_INSERTED)
      else (\<lambda>f. set_flag f LU_EVLIST_INSERTED))"
  have evs: "w_evs w' = (w_evs w)(e := upd_flags h (w_evs w e))"
    using w' by (auto simp: h_def ev_clr_flag_def ev_set_flag_def LU_DECR_EVENT_COUNT_def LU_INCR_EVENT_COUNT_def)
  show base: "same_static w w'" "same_maps w w'"
    using w' by (auto simp: same_static_def same_maps_def ev_clr_flag_def ev_set_flag_def LU_DECR_EVENT_COUNT_def
        LU_INCR_EVENT_COUNT_def)
  have fl': "fl w' x = (if x = e then h (fl w e) else fl w x)" for x unfolding evs by auto
  have b: "activequeues (w_base w') = activequeues (w_base w)" "nactivequeues (w_base w') = nactivequeues (w_base w)"
    "active_later_queue (w_base w') = active_later_queue (w_base w)"
    "event_count_active (w_base w') = event_count_active (w_base w)"
    using w' by (auto simp: ev_clr_flag_def ev_set_flag_def LU_DECR_EVENT_COUNT_def LU_INCR_EVENT_COUNT_def)
  have q: "queues_ok D (fl w) (\<lambda>e. unat (ev_pri (ev_of w e))) (activequeues (w_base w)) (active_later_queue (w_base w))"
    using inv by (simp add: core_inv_def queue_inv_def)
  have "queues_ok D (fl w') (\<lambda>e. unat (ev_pri (ev_of w' e))) (activequeues (w_base w)) (active_later_queue (w_base w))"
    by (rule queues_ok_cong [OF q]) (auto simp: evs h_def lu_flags)
  then show "queue_inv D w'" using inv by (simp add: core_inv_def queue_inv_def b)
  show "static_inv D w'"
    by (rule flag_step_static [OF _ base(1) evs])
      (use inv in \<open>simp_all add: core_inv_def h_def all_flags evlist_in_all lu_flags\<close>)
  show "count_inv D w'"
    by (rule flag_step_count [OF _ _ e evs])
      (use inv w' in \<open>auto simp: core_inv_def h_def flag_weight_clr flag_weight_set ev_clr_flag_def ev_set_flag_def
         LU_DECR_EVENT_COUNT_def LU_INCR_EVENT_COUNT_def\<close>)
qed

lemma sets_step:
  assumes evs: "w_evs w' = (w_evs w)(e := upd_flags h (w_evs w e))"
  shows "\<not> has_flag (h (fl w e)) LU_EVLIST_INSERTED \<Longrightarrow> io_set D w' fd = io_set D w fd - {e}"
    and "\<not> has_flag (h (fl w e)) LU_EVLIST_INSERTED \<Longrightarrow> sig_set D w' fd = sig_set D w fd - {e}"
    and "has_flag (h (fl w e)) LU_EVLIST_INSERTED \<Longrightarrow> e \<in> D \<Longrightarrow>
           io_set D w' fd = (if is_io (ev_of w e) \<and> ev_fd (ev_of w e) = fd then insert e (io_set D w fd) else io_set D w fd)"
    and "has_flag (h (fl w e)) LU_EVLIST_INSERTED \<Longrightarrow> e \<in> D \<Longrightarrow>
           sig_set D w' fd = (if \<not> is_io (ev_of w e) \<and> ev_fd (ev_of w e) = fd then insert e (sig_set D w fd) else sig_set D w fd)"
  unfolding io_set_def sig_set_def evs is_io_def by auto

lemma del_inserted_inv:
  assumes inv: "core_inv D w" and e: "e \<in> D" "has_flag (fl w e) LU_EVLIST_INSERTED"
  shows "\<exists>w' r. bind_res (lu_event_queue_remove_inserted w e)
             (\<lambda>w4. if has_flag (ev_events (ev_of w4 e)) IO_EVENTS then lu_evmap_io_del v w4 (ev_fd (ev_of w4 e)) e
                else lu_evmap_signal_del v w4 (ev_fd (ev_of w4 e)) e) = Inr (w', r) \<and>
           core_inv D w' \<and> r \<in> {- 1, 0, 1} \<and>
           w_evs w' = (w_evs w)(e := upd_flags (\<lambda>f. clr_flag f LU_EVLIST_INSERTED) (w_evs w e))"
proof -
  define w4 where "w4 = ev_clr_flag LU_EVLIST_INSERTED e (LU_DECR_EVENT_COUNT (fl w e) w)"
  have r4: "lu_event_queue_remove_inserted w e = Inr w4"
    using e by (simp add: lu_event_queue_remove_inserted_def w4_def)
  have evs: "w_evs w4 = (w_evs w)(e := upd_flags (\<lambda>f. clr_flag f LU_EVLIST_INSERTED) (w_evs w e))"
    by (simp add: w4_def ev_clr_flag_def LU_DECR_EVENT_COUNT_def)
  note st = inserted_step [OF inv e(1), of w4]
  have st: "static_inv D w4" "queue_inv D w4" "count_inv D w4" "same_static w w4" "same_maps w w4"
    using st e(2) w4_def by auto
  have ev: "ev_fd (ev_of w4 e) = ev_fd (ev_of w e)" "ev_events (ev_of w4 x) = ev_events (ev_of w x)" for x
    unfolding evs by auto
  have nin: "\<not> has_flag ((\<lambda>f. clr_flag f LU_EVLIST_INSERTED) (fl w e)) LU_EVLIST_INSERTED" by (simp add: lu_flags)
  note sets = sets_step(1,2) [OF evs nin]
  have m: "map_inv D w" and s: "static_inv D w" using inv by (simp_all add: core_inv_def)
  have sel: "evsel_op (w_base w4) \<noteq> None" "evsigsel_op (w_base w4) \<noteq> None"
    using st(1) by (simp_all add: static_inv_def)
  have io4: "io_inv (io_set D w) (\<lambda>x. ev_events (ev_of w4 x)) (io (w_base w4)) (io_calls (w_base w4))"
    and sig4: "slots_ok (sig_set D w) sig_slot_ok (sigmap (w_base w4))"
    using m st(5) unfolding map_inv_def same_maps_def ev(2) by auto
  have neg: "\<forall>x\<in>D. has_flag (fl w4 x) LU_EVLIST_INSERTED \<and> \<not> is_io (ev_of w4 x) \<longrightarrow> 0 \<le> ev_fd (ev_of w4 x)"
    using m by (auto simp: map_inv_def evs is_io_def lu_flags)
  show ?thesis
  proof (cases "is_io (ev_of w e)")
    case True
    let ?fd = "ev_fd (ev_of w e)"
    have mem: "e \<in> io_set D w ?fd" using e True by (simp add: io_set_def)
    obtain m' cs r where d: "lu_evmap_io_del v w4 ?fd e = Inr (with_io w4 m' cs, r)" "r \<in> {- 1, 0, 1}"
      "io_inv (if 0 \<le> ?fd then (io_set D w)(?fd := io_set D w ?fd - {e}) else io_set D w)
         (\<lambda>x. ev_events (ev_of w4 x)) m' cs"
      using io_del_effect [OF io4 ev(1) sel(1), where v = v] mem by auto
    have same: "io_set D w4 fd = (if 0 \<le> ?fd then (io_set D w)(?fd := io_set D w ?fd - {e}) else io_set D w) fd"
      if "0 \<le> fd" for fd
      using that unfolding sets by (auto simp: io_set_def)
    have "io_inv (io_set D w4) (\<lambda>x. ev_events (ev_of w4 x)) m' cs"
      using d(3) slots_ok_cong [where S' = "io_set D w4" and m = m', OF _ same] unfolding io_inv_def by blast
    moreover have "sig_set D w4 = sig_set D w" unfolding fun_eq_iff sets using True by (auto simp: sig_set_def)
    ultimately have "map_inv D (with_io w4 m' cs)"
      using sig4 neg unfolding map_inv_def by simp
    then have "core_inv D (with_io w4 m' cs)"
      using st by (simp add: core_inv_def with_io_keeps)
    then show ?thesis using d r4 True ev evs by (auto simp: is_io_def)
  next
    case False
    let ?fd = "ev_fd (ev_of w e)"
    have mem: "e \<in> sig_set D w ?fd" using e False by (simp add: sig_set_def)
    have s0: "0 \<le> ?fd" using m e False by (simp add: map_inv_def)
    obtain m' cs r where d: "lu_evmap_signal_del v w4 ?fd e = Inr (with_sig w4 m' cs, r)" "r \<in> {- 1, 1}"
      "slots_ok ((sig_set D w)(?fd := sig_set D w ?fd - {e})) sig_slot_ok m'"
      using signal_del_effect [OF sig4 sel(2) mem s0, of v] by auto
    have "sig_set D w4 = (sig_set D w)(?fd := sig_set D w ?fd - {e})"
      unfolding fun_eq_iff sets by (auto simp: sig_set_def)
    moreover have "io_set D w4 = io_set D w" unfolding fun_eq_iff sets using False by (auto simp: io_set_def)
    ultimately have "map_inv D (with_sig w4 m' cs)"
      using io4 d(3) neg unfolding map_inv_def by simp
    then have "core_inv D (with_sig w4 m' cs)"
      using st by (simp add: core_inv_def with_sig_keeps)
    then show ?thesis using d r4 False ev evs by (auto simp: is_io_def)
  qed
qed

end
