(* ===== verification/LuEventOps.thy ===== *)
theory LuEventOps
  imports LuEventInv
begin

text \<open>
  The operations of the event core keep the invariant of \<open>LuEventInv\<close>, stop at no fault and
  do what their callers rely on; the states a program can reach through them.
\<close>

section \<open>Adding to the event map\<close>

lemma add_to_map_inv:
  assumes inv: "core_inv D w" and e: "e \<in> D"
  shows "\<exists>w' r n. add_to_map v w e = Inr (w', r, n) \<and> core_inv D w' \<and> r \<in> {- 1, 0} \<and>
           (w_evs w' = w_evs w \<or> r = 0 \<and> \<not> has_flag (fl w e) LU_EVLIST_INSERTED \<and>
              w_evs w' = (w_evs w)(e := upd_flags (\<lambda>f. set_flag f LU_EVLIST_INSERTED) (w_evs w e))) \<and>
           (r = 0 \<and> has_flag (ev_events (ev_of w e)) (IO_EVENTS OR LU_EV_SIGNAL) \<and>
              \<not> has_flag (fl w e) LU_EVLIST_ACTIVE \<and> \<not> has_flag (fl w e) LU_EVLIST_ACTIVE_LATER \<longrightarrow>
              has_flag (fl w' e) LU_EVLIST_INSERTED)"
proof -
  note or = has_flag_or
  let ?evts = "ev_events (ev_of w e)"
  let ?go = "has_flag ?evts (IO_EVENTS OR LU_EV_SIGNAL) \<and>
         \<not> has_flag (fl w e) (LU_EVLIST_INSERTED OR LU_EVLIST_ACTIVE OR LU_EVLIST_ACTIVE_LATER)"
  show ?thesis
  proof (cases ?go)
    case False
    then show ?thesis using inv by (auto simp: add_to_map_def or)
  next
    case go: True
    have nins: "\<not> has_flag (fl w e) LU_EVLIST_INSERTED" using go by (simp add: or)
    have m: "map_inv D w" and s: "static_inv D w" using inv by (simp_all add: core_inv_def)
    have sel: "evsel_op (w_base w) \<noteq> None" "evsigsel_op (w_base w) \<noteq> None" using s by (simp_all add: static_inv_def)
    define ins where "ins = (\<lambda>w1. ev_set_flag LU_EVLIST_INSERTED e (LU_INCR_EVENT_COUNT (fl w1 e) w1))"
    have evs: "w_evs (ins w1) = (w_evs w1)(e := upd_flags (\<lambda>f. set_flag f LU_EVLIST_INSERTED) (w_evs w1 e))" for w1
      by (simp add: ins_def ev_set_flag_def LU_INCR_EVENT_COUNT_def)
    have hins: "has_flag ((\<lambda>f. set_flag f LU_EVLIST_INSERTED) f) LU_EVLIST_INSERTED" for f by (simp add: lu_flags)
    show ?thesis
    proof (cases "is_io (ev_of w e)")
      case io: True
      let ?fd = "ev_fd (ev_of w e)"
      have new: "e \<notin> io_set D w ?fd" using nins by (simp add: io_set_def)
      obtain m' cs r where a: "lu_evmap_io_add v w ?fd e = Inr (with_io w m' cs, r)" "r \<in> {- 1, 0, 1}"
        "io_inv (if r \<noteq> - 1 \<and> 0 \<le> ?fd then (io_set D w)(?fd := insert e (io_set D w ?fd)) else io_set D w)
           (\<lambda>x. ev_events (ev_of w x)) m' cs"
        using io_add_effect [where S = "io_set D w" and w = w and e = e and v = v, OF _ refl sel(1) new] m
        unfolding map_inv_def by blast
      let ?w1 = "with_io w m' cs"
      have eq: "add_to_map v w e = Inr (if r \<noteq> - 1 then ins ?w1 else ?w1, if r = 1 then 0 else r, r = 1)"
        using go io a(1) nins
        by (auto simp: add_to_map_def is_io_def Let_def lu_event_queue_insert_inserted_def ins_def)
      show ?thesis
      proof (cases "r = - 1")
        case True
        then have "map_inv D ?w1" using a(3) m by (simp add: map_inv_def)
        then have "core_inv D ?w1" using inv by (simp add: core_inv_def with_io_keeps)
        then show ?thesis using eq True by (intro exI [of _ ?w1] exI [of _ "- 1"] exI [of _ False]) simp
      next
        case r: False
        note st = inserted_step [OF inv e, of "ins w"]
        have st: "static_inv D (ins w)" "queue_inv D (ins w)" "count_inv D (ins w)"
          using st nins by (auto simp: ins_def)
        have ws: "ins ?w1 = with_io (ins w) m' cs"
          by (simp add: ins_def with_io_def ev_set_flag_def LU_INCR_EVENT_COUNT_def upd_ev_def upd_base_def)
        note sets = sets_step(3,4) [OF evs hins e]
        have same: "io_set D (ins w) fd = (if r \<noteq> - 1 \<and> 0 \<le> ?fd then (io_set D w)(?fd := insert e (io_set D w ?fd)) else io_set D w) fd"
          if "0 \<le> fd" for fd
          using that r io unfolding sets by auto
        have "io_inv (io_set D (ins w)) (\<lambda>x. ev_events (ev_of w x)) m' cs"
          using a(3) slots_ok_cong [where S' = "io_set D (ins w)" and m = m', OF _ same] unfolding io_inv_def by blast
        moreover have "sig_set D (ins w) = sig_set D w" unfolding fun_eq_iff sets using io by auto
        moreover have "(\<lambda>x. ev_events (ev_of (ins w) x)) = (\<lambda>x. ev_events (ev_of w x))"
          unfolding evs by (auto simp: fun_eq_iff)
        moreover have "sigmap (w_base (ins w)) = sigmap (w_base w)"
          by (simp add: ins_def ev_set_flag_def LU_INCR_EVENT_COUNT_def)
        moreover have "\<forall>x\<in>D. has_flag (fl (ins w) x) LU_EVLIST_INSERTED \<and> \<not> is_io (ev_of (ins w) x) \<longrightarrow>
            0 \<le> ev_fd (ev_of (ins w) x)"
          using m io unfolding evs map_inv_def is_io_def by auto
        ultimately have "map_inv D (with_io (ins w) m' cs)"
          using m unfolding map_inv_def by simp
        then have "core_inv D (ins ?w1)" using st unfolding ws by (simp add: core_inv_def with_io_keeps)
        moreover have "add_to_map v w e = Inr (ins ?w1, 0, r = 1)" using eq r a(2) by auto
        moreover have "w_evs (ins ?w1) = (w_evs w)(e := upd_flags (\<lambda>f. set_flag f LU_EVLIST_INSERTED) (w_evs w e))"
          unfolding evs by simp
        ultimately show ?thesis using nins hins by (intro exI [of _ "ins ?w1"] exI [of _ 0] exI [of _ "r = 1"]) simp
      qed
    next
      case sg: False
      have evt: "has_flag ?evts LU_EV_SIGNAL" using go sg by (simp add: or is_io_def)
      let ?fd = "ev_fd (ev_of w e)"
      have new: "e \<notin> sig_set D w ?fd" using nins by (simp add: sig_set_def)
      obtain m' cs r where a: "lu_evmap_signal_add v w ?fd e = Inr (with_sig w m' cs, r)" "r \<in> {- 1, 1}"
        "slots_ok (if r \<noteq> - 1 then (sig_set D w)(?fd := insert e (sig_set D w ?fd)) else sig_set D w) sig_slot_ok m'"
        "r \<noteq> - 1 \<longrightarrow> 0 \<le> ?fd"
        using signal_add_effect [where S = "sig_set D w" and w = w and e = e and v = v, OF _ sel(2) new] m
        unfolding map_inv_def by blast
      let ?w1 = "with_sig w m' cs"
      have eq: "add_to_map v w e = Inr (if r \<noteq> - 1 then ins ?w1 else ?w1, if r = 1 then 0 else r, r = 1)"
        using go sg evt a(1) nins
        by (auto simp: add_to_map_def is_io_def Let_def lu_event_queue_insert_inserted_def ins_def)
      show ?thesis
      proof (cases "r = - 1")
        case True
        then have "map_inv D ?w1" using a(3) m by (simp add: map_inv_def)
        then have "core_inv D ?w1" using inv by (simp add: core_inv_def with_sig_keeps)
        then show ?thesis using eq True by (intro exI [of _ ?w1] exI [of _ "- 1"] exI [of _ False]) simp
      next
        case r: False
        note st = inserted_step [OF inv e, of "ins w"]
        have st: "static_inv D (ins w)" "queue_inv D (ins w)" "count_inv D (ins w)"
          using st nins by (auto simp: ins_def)
        have ws: "ins ?w1 = with_sig (ins w) m' cs"
          by (simp add: ins_def with_sig_def ev_set_flag_def LU_INCR_EVENT_COUNT_def upd_ev_def upd_base_def)
        note sets = sets_step(3,4) [OF evs hins e]
        have "sig_set D (ins w) = (sig_set D w)(?fd := insert e (sig_set D w ?fd))"
          unfolding fun_eq_iff sets using sg by auto
        moreover have "io_set D (ins w) = io_set D w" unfolding fun_eq_iff sets using sg by auto
        moreover have "(\<lambda>x. ev_events (ev_of (ins w) x)) = (\<lambda>x. ev_events (ev_of w x))"
          unfolding evs by (auto simp: fun_eq_iff)
        moreover have "io (w_base (ins w)) = io (w_base w)" "io_calls (w_base (ins w)) = io_calls (w_base w)"
          by (simp_all add: ins_def ev_set_flag_def LU_INCR_EVENT_COUNT_def)
        moreover have "\<forall>x\<in>D. has_flag (fl (ins w) x) LU_EVLIST_INSERTED \<and> \<not> is_io (ev_of (ins w) x) \<longrightarrow>
            0 \<le> ev_fd (ev_of (ins w) x)"
          using m a(4) r unfolding evs map_inv_def is_io_def by auto
        ultimately have "map_inv D (with_sig (ins w) m' cs)"
          using m a(3) r unfolding map_inv_def by simp
        then have "core_inv D (ins ?w1)" using st unfolding ws by (simp add: core_inv_def with_sig_keeps)
        moreover have "add_to_map v w e = Inr (ins ?w1, 0, r = 1)" using eq r a(2) by auto
        moreover have "w_evs (ins ?w1) = (w_evs w)(e := upd_flags (\<lambda>f. set_flag f LU_EVLIST_INSERTED) (w_evs w e))"
          unfolding evs by simp
        ultimately show ?thesis using nins hins by (intro exI [of _ "ins ?w1"] exI [of _ 0] exI [of _ "r = 1"]) simp
      qed
    qed
  qed
qed

section \<open>Activating\<close>

lemma finish_view:
  "core_view (if c then fst (lu_evthread_notify_base w) else w) = core_view w"
  by simp

lemma notify_evs [simp]: "w_evs (fst (lu_evthread_notify_base w)) = w_evs w"
  "activequeues (w_base (fst (lu_evthread_notify_base w))) = activequeues (w_base w)"
  by (simp_all add: lu_evthread_notify_base_def split: option.splits)

text \<open>The event goes to the back of the queue of its priority, unless it is already active.\<close>

lemma callback_activate_inv:
  assumes inv: "core_inv D w" and e: "e \<in> D" "\<not> has_flag (fl w e) LU_EVLIST_FINALIZING"
  shows "\<exists>w' r. lu_event_callback_activate_nolock v w e = Inr (w', r) \<and> core_inv D w' \<and>
           has_flag (fl w' e) LU_EVLIST_ACTIVE \<and> (\<forall>x. x \<noteq> e \<longrightarrow> ev_of w' x = ev_of w x) \<and>
           activequeues (w_base w') = (if has_flag (fl w e) LU_EVLIST_ACTIVE then activequeues (w_base w)
             else (activequeues (w_base w))[unat (ev_pri (ev_of w e)) :=
                    activequeues (w_base w) ! unat (ev_pri (ev_of w e)) @ [e]])"
proof -
  let ?a = "has_flag (fl w e) LU_EVLIST_ACTIVE" and ?l = "has_flag (fl w e) LU_EVLIST_ACTIVE_LATER"
  let ?note = "\<lambda>w. if LU_EVBASE_NEED_NOTIFY v (w_base w) then fst (lu_evthread_notify_base w) else w"
  have ex: "\<not> (?a \<and> ?l)" using inv e by (auto simp: core_inv_def queue_inv_def queues_ok_def)
  consider (a) "?a" "\<not> ?l" | (l) "\<not> ?a" "?l" | (n) "\<not> ?a" "\<not> ?l" using ex by blast
  then show ?thesis
  proof cases
    case a
    then show ?thesis using inv e
      by (intro exI [of _ w] exI [of _ 0]) (simp add: lu_event_callback_activate_nolock_def)
  next
    case l
    obtain w1 where w1: "lu_event_queue_remove_active_later w e = Inr w1" "core_inv D w1"
      "w_evs w1 = (w_evs w)(e := upd_flags (\<lambda>f. clr_flag f LU_EVLIST_ACTIVE_LATER) (w_evs w e))"
      using remove_later_inv [OF inv e(1) l(2)] by blast
    have q1: "activequeues (w_base w1) = activequeues (w_base w)"
      using w1(1) l by (auto simp: lu_event_queue_remove_active_later_def Let_def ev_clr_flag_def LU_DECR_EVENT_COUNT_def)
    have "\<not> has_flag (fl w1 e) LU_EVLIST_ACTIVE" "\<not> has_flag (fl w1 e) LU_EVLIST_ACTIVE_LATER"
      unfolding w1(3) using l(1) by (simp_all add: lu_flags)
    from insert_active_inv [OF w1(2) e(1) this] obtain w2 where w2:
      "lu_event_queue_insert_active w1 e = Inr w2" "core_inv D w2"
      "w_evs w2 = (w_evs w1)(e := upd_flags (\<lambda>f. set_flag f LU_EVLIST_ACTIVE) (w_evs w1 e))"
      "activequeues (w_base w2) = (activequeues (w_base w1))[unat (ev_pri (ev_of w1 e)) :=
             activequeues (w_base w1) ! unat (ev_pri (ev_of w1 e)) @ [e]]" by blast
    have "lu_event_callback_activate_nolock v w e = Inr (?note w2, 0)"
      using e(2) l w1(1) w2(1) by (simp add: lu_event_callback_activate_nolock_def Let_def)
    moreover have "core_inv D (?note w2)" using w2(2) core_inv_view [OF finish_view] by blast
    ultimately show ?thesis using w1(3) w2(3,4) q1 l
      by (intro exI [of _ "?note w2"] exI [of _ 0]) (simp add: lu_flags)
  next
    case n
    from insert_active_inv [OF inv e(1) n] obtain w2 where w2:
      "lu_event_queue_insert_active w e = Inr w2" "core_inv D w2"
      "w_evs w2 = (w_evs w)(e := upd_flags (\<lambda>f. set_flag f LU_EVLIST_ACTIVE) (w_evs w e))"
      "activequeues (w_base w2) = (activequeues (w_base w))[unat (ev_pri (ev_of w e)) :=
             activequeues (w_base w) ! unat (ev_pri (ev_of w e)) @ [e]]" by blast
    have "lu_event_callback_activate_nolock v w e = Inr (?note w2, 1)"
      using e(2) n w2(1) by (simp add: lu_event_callback_activate_nolock_def Let_def)
    moreover have "core_inv D (?note w2)" using w2(2) core_inv_view [OF finish_view] by blast
    ultimately show ?thesis using w2(3,4) n
      by (intro exI [of _ "?note w2"] exI [of _ 1]) (simp add: lu_flags)
  qed
qed

lemma active_inv:
  assumes inv: "core_inv D w" and e: "e \<in> D" "\<not> has_flag (fl w e) LU_EVLIST_FINALIZING"
  shows "\<exists>w'. lu_event_active_nolock v w e res n = Inr w' \<and> core_inv D w' \<and>
           has_flag (fl w' e) LU_EVLIST_ACTIVE \<and> (\<forall>x. x \<noteq> e \<longrightarrow> ev_of w' x = ev_of w x) \<and>
           activequeues (w_base w') = (if has_flag (fl w e) LU_EVLIST_ACTIVE then activequeues (w_base w)
             else (activequeues (w_base w))[unat (ev_pri (ev_of w e)) :=
                    activequeues (w_base w) ! unat (ev_pri (ev_of w e)) @ [e]])"
proof -
  let ?a = "has_flag (fl w e) LU_EVLIST_ACTIVE" and ?l = "has_flag (fl w e) LU_EVLIST_ACTIVE_LATER"
  have ex: "\<not> (?a \<and> ?l)" using inv e by (auto simp: core_inv_def queue_inv_def queues_ok_def)
  have base: "ev_base (ev_of w e) \<noteq> None" using inv e by (simp add: core_inv_def static_inv_def)
  show ?thesis
  proof (cases ?a)
    case True
    let ?w = "upd_ev (\<lambda>x. x\<lparr>ev_res := ev_res x OR res\<rparr>) e w"
    have "core_view ?w = core_view w" by (rule view_upd_ev) (simp add: ev_view_def)
    then have "core_inv D ?w" using inv core_inv_view by blast
    moreover have "lu_event_active_nolock v w e res n = Inr ?w"
      using True ex base e by (simp add: lu_event_active_nolock_def)
    ultimately show ?thesis using True by simp
  next
    case False
    define w1 where "w1 = upd_ev (\<lambda>x. x\<lparr>ev_res := (if ?l then ev_res x OR res else res)\<rparr>) e w"
    define w2 where "w2 = (if int (unat (ev_pri (ev_of w1 e))) < event_running_priority (w_base w1)
                      then upd_base (\<lambda>b. b\<lparr>event_continue := 1\<rparr>) w1 else w1)"
    define w3 where "w3 = (if has_flag (ev_events (ev_of w2 e)) LU_EV_SIGNAL
                      then upd_ev (\<lambda>x. x\<lparr>ev_ncalls := n, ev_pncalls := None\<rparr>) e
                             (if current_event (w_base w2) = Some e \<and> \<not> LU_EVBASE_IN_THREAD v (w_base w2)
                              then wait_current_event w2 else w2)
                      else w2)"
    have v1: "core_view w1 = core_view w" unfolding w1_def by (rule view_upd_ev) (simp add: ev_view_def)
    have v2: "core_view w2 = core_view w1" by (simp add: w2_def core_view_def)
    have v3: "core_view w3 = core_view w2" unfolding w3_def
      by (simp add: view_upd_ev ev_view_def)
    have view: "core_view w3 = core_view w" using v1 v2 v3 by simp
    have inv3: "core_inv D w3" using inv core_inv_view [OF view] by simp
    have fl3: "fl w3 e = fl w e" "ev_pri (ev_of w3 e) = ev_pri (ev_of w e)"
      using core_view_ev [OF view, of e] by (simp_all add: ev_view_def)
    have q3: "activequeues (w_base w3) = activequeues (w_base w)" using view by (simp add: core_view_def)
    have o3: "\<forall>x. x \<noteq> e \<longrightarrow> ev_of w3 x = ev_of w x"
      by (simp add: w3_def w2_def w1_def wait_current_event_def)
    have nf: "\<not> has_flag (fl w3 e) LU_EVLIST_FINALIZING" using e(2) fl3 by simp
    obtain w' r where c: "lu_event_callback_activate_nolock v w3 e = Inr (w', r)" "core_inv D w'"
      "has_flag (fl w' e) LU_EVLIST_ACTIVE" "\<forall>x. x \<noteq> e \<longrightarrow> ev_of w' x = ev_of w3 x"
      "activequeues (w_base w') = (if has_flag (fl w3 e) LU_EVLIST_ACTIVE then activequeues (w_base w3)
             else (activequeues (w_base w3))[unat (ev_pri (ev_of w3 e)) :=
                    activequeues (w_base w3) ! unat (ev_pri (ev_of w3 e)) @ [e]])"
      using callback_activate_inv [OF inv3 e(1) nf, of v] by blast
    have "lu_event_active_nolock v w e res n = Inr w'"
      using False base e c(1)
      unfolding lu_event_active_nolock_def Let_def w1_def [symmetric] w2_def [symmetric] w3_def [symmetric]
      by simp
    then show ?thesis using c o3 fl3 q3 by auto
  qed
qed

section \<open>Deleting\<close>

text \<open>The part of a delete that takes the event off the active or the later queue.\<close>

lemma del_queues_inv:
  assumes inv: "core_inv D w" and e: "e \<in> D"
  shows "\<exists>w'. (if has_flag (fl w e) LU_EVLIST_ACTIVE then lu_event_queue_remove_active w e
               else if has_flag (fl w e) LU_EVLIST_ACTIVE_LATER then lu_event_queue_remove_active_later w e
               else Inr w) = Inr w' \<and> core_inv D w' \<and>
           \<not> has_flag (fl w' e) LU_EVLIST_ACTIVE \<and> \<not> has_flag (fl w' e) LU_EVLIST_ACTIVE_LATER \<and>
           (\<forall>x. x \<noteq> e \<longrightarrow> ev_of w' x = ev_of w x)"
proof -
  have ex: "\<not> (has_flag (fl w e) LU_EVLIST_ACTIVE \<and> has_flag (fl w e) LU_EVLIST_ACTIVE_LATER)"
    using inv e by (auto simp: core_inv_def queue_inv_def queues_ok_def)
  consider (a) "has_flag (fl w e) LU_EVLIST_ACTIVE" "\<not> has_flag (fl w e) LU_EVLIST_ACTIVE_LATER"
    | (l) "\<not> has_flag (fl w e) LU_EVLIST_ACTIVE" "has_flag (fl w e) LU_EVLIST_ACTIVE_LATER"
    | (n) "\<not> has_flag (fl w e) LU_EVLIST_ACTIVE" "\<not> has_flag (fl w e) LU_EVLIST_ACTIVE_LATER"
    using ex by blast
  then show ?thesis
  proof cases
    case a
    from remove_active_inv [OF inv e a(1)] show ?thesis using a by (auto simp: lu_flags)
  next
    case l
    from remove_later_inv [OF inv e l(2)] show ?thesis using l by (auto simp: lu_flags)
  next
    case n
    then show ?thesis using inv by simp
  qed
qed

lemma del_inv:
  assumes inv: "core_inv D w" and e: "e \<in> D"
    and b: "blocking = LU_EVENT_DEL_EVEN_IF_FINALIZING \<or> \<not> has_flag (fl w e) LU_EVLIST_FINALIZING"
  shows "\<exists>w' r. lu_event_del_nolock v w e blocking = Inr (w', r) \<and> core_inv D w' \<and> r \<in> {- 1, 0} \<and>
           flag_weight (fl w' e) = 0 \<and> \<not> has_flag (fl w' e) LU_EVLIST_INSERTED \<and>
           \<not> has_flag (fl w' e) LU_EVLIST_ACTIVE \<and> \<not> has_flag (fl w' e) LU_EVLIST_ACTIVE_LATER \<and>
           (\<forall>x. x \<noteq> e \<longrightarrow> ev_of w' x = ev_of w x)"
proof -
  have st: "ev_base (ev_of w e) \<noteq> None" "clr_flag (fl w e) LU_EVLIST_ALL = 0" "\<not> has_flag (fl w e) LU_EVLIST_TIMEOUT"
    using inv e by (simp_all add: core_inv_def static_inv_def)
  define w1 where "w1 = (if has_flag (ev_events (ev_of w e)) LU_EV_SIGNAL then abort_signal_loop e w else w)"
  have v1: "core_view w1 = core_view w" by (simp add: w1_def)
  have evs1: "w_evs w1 = w_evs w" by (simp add: w1_def abort_signal_loop_def split: option.splits)
  have inv1: "core_inv D w1" using inv core_inv_view [OF v1] by simp
  obtain w3 where w3: "(if has_flag (fl w1 e) LU_EVLIST_ACTIVE then lu_event_queue_remove_active w1 e
               else if has_flag (fl w1 e) LU_EVLIST_ACTIVE_LATER then lu_event_queue_remove_active_later w1 e
               else Inr w1) = Inr w3" "core_inv D w3"
    "\<not> has_flag (fl w3 e) LU_EVLIST_ACTIVE" "\<not> has_flag (fl w3 e) LU_EVLIST_ACTIVE_LATER"
    "\<forall>x. x \<noteq> e \<longrightarrow> ev_of w3 x = ev_of w1 x"
    using del_queues_inv [OF inv1 e] by blast
  define map_part where "map_part = (if has_flag (fl w3 e) LU_EVLIST_INSERTED
               then bind_res
                 (bind_res (lu_event_queue_remove_inserted w3 e)
                  (\<lambda>w4. if has_flag (ev_events (ev_of w4 e)) IO_EVENTS
                     then lu_evmap_io_del v w4 (ev_fd (ev_of w4 e)) e
                     else lu_evmap_signal_del v w4 (ev_fd (ev_of w4 e)) e))
                 (\<lambda>(w5, r). Inr (w5, if r = 1 then 0 else r,
                    r = 1 \<or> False \<or> (\<not> lu_event_haveevents w5 \<and> N_ACTIVE_CALLBACKS w5 = 0)))
               else Inr (w3, 0 :: int, False))"
  have "\<exists>w6 r n. map_part = Inr (w6, r, n) \<and> core_inv D w6 \<and> r \<in> {- 1, 0} \<and>
      \<not> has_flag (fl w6 e) LU_EVLIST_INSERTED \<and> \<not> has_flag (fl w6 e) LU_EVLIST_ACTIVE \<and>
      \<not> has_flag (fl w6 e) LU_EVLIST_ACTIVE_LATER \<and> (\<forall>x. x \<noteq> e \<longrightarrow> ev_of w6 x = ev_of w3 x)"
  proof (cases "has_flag (fl w3 e) LU_EVLIST_INSERTED")
    case True
    from del_inserted_inv [OF w3(2) e True, of v] obtain w5 r where
      d: "bind_res (lu_event_queue_remove_inserted w3 e)
             (\<lambda>w4. if has_flag (ev_events (ev_of w4 e)) IO_EVENTS then lu_evmap_io_del v w4 (ev_fd (ev_of w4 e)) e
                else lu_evmap_signal_del v w4 (ev_fd (ev_of w4 e)) e) = Inr (w5, r)"
        "core_inv D w5" "r \<in> {- 1, 0, 1}"
        "w_evs w5 = (w_evs w3)(e := upd_flags (\<lambda>f. clr_flag f LU_EVLIST_INSERTED) (w_evs w3 e))" by blast
    show ?thesis using True d(2-4) w3(3,4) unfolding map_part_def d(1) by (auto simp: lu_flags)
  next
    case False
    then show ?thesis using w3
      by (intro exI [of _ w3] exI [of _ 0] exI [of _ False]) (simp add: map_part_def)
  qed
  then obtain w6 r n where w6: "map_part = Inr (w6, r, n)" "core_inv D w6" "r \<in> {- 1, 0}"
      "\<not> has_flag (fl w6 e) LU_EVLIST_INSERTED" "\<not> has_flag (fl w6 e) LU_EVLIST_ACTIVE"
      "\<not> has_flag (fl w6 e) LU_EVLIST_ACTIVE_LATER" "\<forall>x. x \<noteq> e \<longrightarrow> ev_of w6 x = ev_of w3 x" by blast
  define w7 where "w7 = (if r \<noteq> - 1 \<and> n \<and> LU_EVBASE_NEED_NOTIFY v (w_base w6)
                        then fst (lu_evthread_notify_base w6) else w6)"
  define w8 where "w8 = (if blocking \<noteq> LU_EVENT_DEL_NOBLOCK \<and> current_event (w_base w7) = Some e \<and>
                           \<not> LU_EVBASE_IN_THREAD v (w_base w7) \<and>
                           (blocking = LU_EVENT_DEL_BLOCK \<or> \<not> has_flag (ev_events (ev_of w7 e)) LU_EV_FINALIZE)
                        then wait_current_event w7 else w7)"
  have "core_view w7 = core_view w6" by (simp add: w7_def)
  moreover have "core_view w8 = core_view w7" by (simp add: w8_def)
  ultimately have v8: "core_view w8 = core_view w6" by simp
  have evs8: "w_evs w8 = w_evs w6" by (simp add: w8_def w7_def wait_current_event_def)
  have inv8: "core_inv D w8" using w6(2) core_inv_view [OF v8] by simp
  have nb: "\<not> (blocking \<noteq> LU_EVENT_DEL_EVEN_IF_FINALIZING \<and> has_flag (fl w e) LU_EVLIST_FINALIZING)" using b by blast
  have nt: "\<not> has_flag (fl w1 e) LU_EVLIST_TIMEOUT" using st(3) evs1 by simp
  have "lu_event_del_nolock v w e blocking = Inr (w8, r)"
    by (simp only: lu_event_del_nolock_def w1_def [symmetric] Let_def lu_assert_def st(1,2) nb nt
        if_False if_True refl prod.case w3(1) bind_res.simps w6(1) [unfolded map_part_def Let_def] w8_def w7_def)
  moreover have "\<not> has_flag (fl w8 e) LU_EVLIST_TIMEOUT"
    using inv8 e by (simp add: core_inv_def static_inv_def)
  ultimately show ?thesis
    using inv8 w6 w3(5) evs1 evs8
    by (intro exI [of _ w8] exI [of _ r]) (simp add: flag_weight_def)
qed

section \<open>Adding\<close>

lemma not_common_inv: "core_inv D w \<Longrightarrow> \<not> lu_is_common_timeout tv (w_base w)"
  by (simp add: core_inv_def static_inv_def lu_is_common_timeout_def)

text \<open>The timeout part: the event may leave the active queue, and its time is stored.\<close>

lemma set_timeout_inv:
  assumes inv: "core_inv D w" and e: "e \<in> D"
  shows "\<exists>w' n'. set_timeout s v w e tv a n = Inr (w', n') \<and> core_inv D w' \<and>
           has_flag (fl w' e) LU_EVLIST_INSERTED = has_flag (fl w e) LU_EVLIST_INSERTED"
proof -
  define w4 where "w4 = (if ev_closure (ev_of w e) = LU_EV_CLOSURE_EVENT_PERSIST \<and> \<not> a
                then upd_ev (\<lambda>x. x\<lparr>ev_io_timeout := tv\<rparr>) e w else w)"
  have v4: "core_view w4 = core_view w" by (simp add: w4_def view_upd_ev ev_view_def)
  have inv4: "core_inv D w4" using inv core_inv_view [OF v4] by simp
  have nt: "\<not> has_flag (fl w4 e) LU_EVLIST_TIMEOUT" using inv4 e by (simp add: core_inv_def static_inv_def)
  define rem where "rem = (if has_flag (fl w4 e) LU_EVLIST_ACTIVE \<and> has_flag (ev_res (ev_of w4 e)) LU_EV_TIMEOUT
         then lu_event_queue_remove_active
                (if has_flag (ev_events (ev_of w4 e)) LU_EV_SIGNAL
                 then abort_signal_loop e w4 else w4) e
         else Inr w4)"
  have "\<exists>w6. rem = Inr w6 \<and> core_inv D w6 \<and>
      has_flag (fl w6 e) LU_EVLIST_INSERTED = has_flag (fl w4 e) LU_EVLIST_INSERTED"
  proof (cases "has_flag (fl w4 e) LU_EVLIST_ACTIVE \<and> has_flag (ev_res (ev_of w4 e)) LU_EV_TIMEOUT")
    case True
    define w5 where "w5 = (if has_flag (ev_events (ev_of w4 e)) LU_EV_SIGNAL then abort_signal_loop e w4 else w4)"
    have v5: "core_view w5 = core_view w4" by (simp add: w5_def)
    have inv5: "core_inv D w5" using inv4 core_inv_view [OF v5] by simp
    have f5: "fl w5 e = fl w4 e" using core_view_ev [OF v5, of e] by (simp add: ev_view_def)
    have a5: "has_flag (fl w5 e) LU_EVLIST_ACTIVE" using True f5 by simp
    from remove_active_inv [OF inv5 e a5] obtain w6 where
      w6: "lu_event_queue_remove_active w5 e = Inr w6" "core_inv D w6"
      "w_evs w6 = (w_evs w5)(e := upd_flags (\<lambda>f. clr_flag f LU_EVLIST_ACTIVE) (w_evs w5 e))" by blast
    have "rem = lu_event_queue_remove_active w5 e" using True by (simp add: rem_def w5_def)
    then show ?thesis using w6 f5 by (simp add: lu_flags)
  next
    case False
    then show ?thesis using inv4 by (auto simp: rem_def)
  qed
  then obtain w6 where w6: "rem = Inr w6" "core_inv D w6"
    "has_flag (fl w6 e) LU_EVLIST_INSERTED = has_flag (fl w4 e) LU_EVLIST_INSERTED" by blast
  obtain w7 t r where g: "gettime v w6 = (w7, t, r)" by (metis prod_cases3)
  have v7: "core_view w7 = core_view w6" using view_gettime [OF g] .
  have inv7: "core_inv D w7" using w6(2) core_inv_view [OF v7] by simp
  note nc = not_common_inv [OF inv7, of tv]
  define w8 where "w8 = upd_ev (\<lambda>x. x\<lparr>ev_timeout := new_timeout (case t of Some x \<Rightarrow> x | None \<Rightarrow> stack_time v) tv a False\<rparr>) e w7"
  have v8: "core_view w8 = core_view w7" unfolding w8_def by (rule view_upd_ev) (simp add: ev_view_def)
  have inv8: "core_inv D w8" using inv7 core_inv_view [OF v8] by simp
  have "\<exists>n'. set_timeout s v w e tv a n = Inr (w8, n')"
    by (simp only: set_timeout_def w4_def [symmetric] Let_def nt if_False w6(1) [unfolded rem_def]
        bind_res.simps g prod.case nc w8_def) (auto split: option.splits)
  moreover have "fl w8 e = fl w6 e" "fl w4 e = fl w e"
    using core_view_ev [OF v8, of e] core_view_ev [OF v7, of e] core_view_ev [OF v4, of e] by (simp_all add: ev_view_def)
  ultimately show ?thesis using inv8 w6(3) by auto
qed

lemma add_inv:
  assumes inv: "core_inv D w" and e: "e \<in> D" "\<not> has_flag (fl w e) LU_EVLIST_FINALIZING"
  shows "\<exists>w' r. lu_event_add_nolock (Suc k) v w e tvo a = Inr (w', r) \<and> core_inv D w' \<and> r \<in> {- 1, 0} \<and>
           (r = 0 \<and> has_flag (ev_events (ev_of w e)) (IO_EVENTS OR LU_EV_SIGNAL) \<and>
              \<not> has_flag (fl w e) LU_EVLIST_ACTIVE \<and> \<not> has_flag (fl w e) LU_EVLIST_ACTIVE_LATER \<longrightarrow>
              has_flag (fl w' e) LU_EVLIST_INSERTED)"
proof -
  have st: "ev_base (ev_of w e) \<noteq> None" "clr_flag (fl w e) LU_EVLIST_ALL = 0"
    using inv e by (simp_all add: core_inv_def static_inv_def)
  obtain w1 r1 where res: "reserve_timeout v w e tvo = (w1, r1)" by fastforce
  have v1: "core_view w1 = core_view w" using view_reserve [OF res] .
  have inv1: "core_inv D w1" using inv core_inv_view [OF v1] by simp
  show ?thesis
  proof (cases "r1 = - 1")
    case True
    then show ?thesis using st e res inv1
      by (intro exI [of _ w1] exI [of _ "- 1"]) (simp add: lu_event_add_nolock.simps lu_assert_def)
  next
    case r1: False
    define w2 where "w2 = (if current_event (w_base w1) = Some e \<and> has_flag (ev_events (ev_of w1 e)) LU_EV_SIGNAL \<and>
                            \<not> LU_EVBASE_IN_THREAD v (w_base w1)
                         then wait_current_event w1 else w1)"
    have v2: "core_view w2 = core_view w" using v1 by (simp add: w2_def)
    have inv2: "core_inv D w2" using inv core_inv_view [OF v2] by simp
    have f2: "fl w2 e = fl w e" "ev_events (ev_of w2 e) = ev_events (ev_of w e)"
      using core_view_ev [OF v2, of e] by (simp_all add: ev_view_def)
    obtain w3 r n where a: "add_to_map v w2 e = Inr (w3, r, n)" "core_inv D w3" "r \<in> {- 1, 0}"
      "r = 0 \<and> has_flag (ev_events (ev_of w2 e)) (IO_EVENTS OR LU_EV_SIGNAL) \<and>
              \<not> has_flag (fl w2 e) LU_EVLIST_ACTIVE \<and> \<not> has_flag (fl w2 e) LU_EVLIST_ACTIVE_LATER \<longrightarrow>
              has_flag (fl w3 e) LU_EVLIST_INSERTED"
      using add_to_map_inv [OF inv2 e(1), of v] by blast
    define tpart where "tpart = (case tvo of
                 None \<Rightarrow> Inr (w3, n)
               | Some tv \<Rightarrow>
                   if r = - 1 then Inr (w3, n)
                   else set_timeout
                          (lu_common_timeout_schedule (\<lambda>w e t. lu_event_add_nolock k v w e (Some t) True))
                          v w3 e tv a n)"
    have "\<exists>w' n'. tpart = Inr (w', n') \<and> core_inv D w' \<and>
        has_flag (fl w' e) LU_EVLIST_INSERTED = has_flag (fl w3 e) LU_EVLIST_INSERTED"
      using set_timeout_inv [OF a(2) e(1)] a(2) by (auto simp: tpart_def split: option.splits)
    then obtain w10 n' where t: "tpart = Inr (w10, n')" "core_inv D w10"
        "has_flag (fl w10 e) LU_EVLIST_INSERTED = has_flag (fl w3 e) LU_EVLIST_INSERTED" by blast
    let ?w = "if r \<noteq> - 1 \<and> n' \<and> LU_EVBASE_NEED_NOTIFY v (w_base w10)
              then fst (lu_evthread_notify_base w10) else w10"
    have "lu_event_add_nolock (Suc k) v w e tvo a = Inr (?w, r)"
      by (simp only: lu_event_add_nolock.simps lu_assert_def st e(2) refl if_True if_False res prod.case r1 Let_def
          w2_def [symmetric] a(1) bind_res.simps t(1) [unfolded tpart_def])
    moreover have "core_inv D ?w" using t(2) core_inv_view [OF finish_view] by blast
    ultimately show ?thesis using a(3,4) t(3) f2 by (intro exI [of _ ?w] exI [of _ r]) simp
  qed
qed

section \<open>Assigning and setting the priority\<close>

lemma io_slot_ok_cong: "io_slot_ok evs c X \<Longrightarrow> (\<And>x. x \<in> X \<Longrightarrow> evs' x = evs x) \<Longrightarrow> io_slot_ok evs' c X"
proof -
  assume ok: "io_slot_ok evs c X" and same: "\<And>x. x \<in> X \<Longrightarrow> evs' x = evs x"
  have "count_of f evs' (io_events c) = count_of f evs (io_events c)" for f
    unfolding count_of_def using ok same by (intro arg_cong [where f = length] filter_cong) (auto simp: io_slot_ok_def)
  then show ?thesis using ok by (simp add: io_slot_ok_def)
qed

lemma slots_ok_evs:
  assumes "slots_ok S (io_slot_ok evs) m" "\<And>fd x. 0 \<le> fd \<Longrightarrow> x \<in> S fd \<Longrightarrow> evs' x = evs x"
  shows "slots_ok S (io_slot_ok evs') m"
  using assms io_slot_ok_cong [of evs _ _ evs'] unfolding slots_ok_def by (auto split: option.splits)

text \<open>
  An event that is on no list may be replaced by any event that is on no list either, has a
  base and a priority in range: no other event of the base notices.
\<close>

definition off_lists :: "c_short \<Rightarrow> bool" where
  "off_lists f \<longleftrightarrow> \<not> has_flag f LU_EVLIST_INSERTED \<and> \<not> has_flag f LU_EVLIST_ACTIVE \<and>
     \<not> has_flag f LU_EVLIST_ACTIVE_LATER \<and> \<not> has_flag f LU_EVLIST_TIMEOUT"

lemma off_lists_weight: "off_lists f \<Longrightarrow> flag_weight f = 0"
  by (simp add: off_lists_def flag_weight_def)

lemma replace_event_inv:
  assumes inv: "core_inv D w" and e: "e \<in> D" "off_lists (fl w e)"
    and x: "off_lists (ev_flags x)" "clr_flag (ev_flags x) LU_EVLIST_ALL = 0" "ev_base x \<noteq> None"
      "int (unat (ev_pri x)) < nactivequeues (w_base w)"
  shows "core_inv D (upd_ev (\<lambda>_. x) e w)"
proof -
  let ?w = "upd_ev (\<lambda>_. x) e w"
  have evs: "ev_of ?w y = (if y = e then x else ev_of w y)" for y by simp
  have "static_inv D ?w" using inv x(1-3) unfolding core_inv_def static_inv_def evs by (simp add: off_lists_def)
  moreover have "queue_inv D ?w"
  proof -
    have q: "queues_ok D (fl w) (\<lambda>e. unat (ev_pri (ev_of w e))) (activequeues (w_base w)) (active_later_queue (w_base w))"
      and nq: "nactivequeues (w_base w) = int (length (activequeues (w_base w)))"
      using inv by (simp_all add: core_inv_def queue_inv_def)
    have pr: "unat (ev_pri x) < length (activequeues (w_base w))"
      using x(4) unfolding nq by (simp only: of_nat_less_iff)
    have act: "has_flag (fl ?w y) LU_EVLIST_ACTIVE = has_flag (fl w y) LU_EVLIST_ACTIVE"
      "has_flag (fl ?w y) LU_EVLIST_ACTIVE_LATER = has_flag (fl w y) LU_EVLIST_ACTIVE_LATER" for y
      unfolding evs using e(2) x(1) by (auto simp: off_lists_def)
    have "y \<in> D \<and> has_flag (fl w y) LU_EVLIST_ACTIVE \<and> unat (ev_pri (ev_of ?w y)) = p \<longleftrightarrow>
        y \<in> D \<and> has_flag (fl w y) LU_EVLIST_ACTIVE \<and> unat (ev_pri (ev_of w y)) = p" for y p
      using e(2) by (cases "y = e") (auto simp: off_lists_def)
    moreover have "\<forall>y\<in>D. unat (ev_pri (ev_of ?w y)) < length (activequeues (w_base w))"
      unfolding evs using q pr by (auto simp: queues_ok_def)
    ultimately have "queues_ok D (fl ?w) (\<lambda>e. unat (ev_pri (ev_of ?w e))) (activequeues (w_base w)) (active_later_queue (w_base w))"
      using q unfolding queues_ok_def act by (simp only: simp_thms) blast
    then show ?thesis using inv by (simp add: core_inv_def queue_inv_def)
  qed
  moreover have "count_inv D ?w"
  proof -
    have "flag_weight (fl ?w y) = flag_weight (fl w y)" for y
      unfolding evs using e(2) x(1) by (simp add: off_lists_weight)
    then show ?thesis using inv unfolding core_inv_def count_inv_def by simp
  qed
  moreover have "map_inv D ?w"
  proof -
    have m: "map_inv D w" using inv by (simp add: core_inv_def)
    have s: "io_set D ?w = io_set D w" "sig_set D ?w = sig_set D w"
      using e(2) x(1) by (auto simp: fun_eq_iff io_set_def sig_set_def off_lists_def)
    have "slots_ok (io_set D w) (io_slot_ok (\<lambda>y. ev_events (ev_of ?w y))) (io (w_base w))"
      using m e(2) unfolding map_inv_def io_inv_def
      by (elim conjE slots_ok_evs) (auto simp: io_set_def off_lists_def)
    moreover have "\<forall>y\<in>D. has_flag (fl ?w y) LU_EVLIST_INSERTED \<and> \<not> is_io (ev_of ?w y) \<longrightarrow> 0 \<le> ev_fd (ev_of ?w y)"
      using m e(2) x(1) unfolding evs map_inv_def by (auto simp: off_lists_def)
    ultimately show ?thesis
      using m unfolding map_inv_def io_inv_def s by simp
  qed
  ultimately show ?thesis by (simp add: core_inv_def)
qed

lemma unat_of_int: "0 \<le> n \<Longrightarrow> n < 256 \<Longrightarrow> int (unat (of_int n :: c_uint8)) = n"
  by (simp add: unat_eq_nat_uint uint_word_of_int)

text \<open>What an event looks like once it has been set up.\<close>

lemma assign_effect:
  assumes "lu_event_assign v fc cb w e base fd events cbk arg self = Inr (w', 0)"
    and b: "base \<noteq> None \<or> cb \<noteq> None"
  obtains x where "w' = upd_ev (\<lambda>_. x) e w" "ev_flags x = LU_EVLIST_INIT" "ev_events x = events"
    "ev_base x \<noteq> None" "min_heap_idx x = LU_SIZE_MAX" "ev_pri x = of_int (nactivequeues (w_base w) div 2)"
    "ev_fd x = ev_fd (ev_of w e)"
    "ev_closure x = (if has_flag events LU_EV_SIGNAL then LU_EV_CLOSURE_EVENT_SIGNAL
       else if has_flag events LU_EV_PERSIST then LU_EV_CLOSURE_EVENT_PERSIST else LU_EV_CLOSURE_EVENT)"
    "\<not> (has_flag events LU_EV_SIGNAL \<and> has_flag events IO_EVENTS)"
proof -
  have run: "lu_event_debug_assert_socket_nonblocking v fc fd k = Inr y \<Longrightarrow> k = Inr y" for k :: "(world \<times> int) res" and y
    by (auto simp: lu_event_debug_assert_socket_nonblocking_def split: if_splits option.splits)
  have "\<exists>x. w' = upd_ev (\<lambda>_. x) e w \<and> ev_flags x = LU_EVLIST_INIT \<and> ev_events x = events \<and>
    ev_base x \<noteq> None \<and> min_heap_idx x = LU_SIZE_MAX \<and> ev_pri x = of_int (nactivequeues (w_base w) div 2) \<and>
    ev_fd x = ev_fd (ev_of w e) \<and>
    ev_closure x = (if has_flag events LU_EV_SIGNAL then LU_EV_CLOSURE_EVENT_SIGNAL
       else if has_flag events LU_EV_PERSIST then LU_EV_CLOSURE_EVENT_PERSIST else LU_EV_CLOSURE_EVENT) \<and>
    \<not> (has_flag events LU_EV_SIGNAL \<and> has_flag events IO_EVENTS)"
    using assms unfolding lu_event_assign_def Let_def
    by (auto split: if_splits dest!: run)
  then show ?thesis using that by blast
qed

lemma init_off_lists: "off_lists LU_EVLIST_INIT" "clr_flag LU_EVLIST_INIT LU_EVLIST_ALL = 0"
  by (simp_all add: off_lists_def has_flag_def clr_flag_def lu_consts)

lemma priority_set_inv:
  assumes inv: "core_inv D w" and e: "e \<in> D" and r: "lu_event_priority_set w e p = Inr (w', r)"
  shows "core_inv D w'"
proof (cases "w' = w")
  case False
  let ?x = "(ev_of w e)\<lparr>ev_evcallback := (ev_evcallback (ev_of w e))\<lparr>evcb_pri := of_int p\<rparr>\<rparr>"
  have n: "nactivequeues (w_base w) \<le> 256" using inv by (simp add: core_inv_def static_inv_def)
  have f: "\<not> has_flag (fl w e) LU_EVLIST_ACTIVE" "0 \<le> p" "p < nactivequeues (w_base w)"
    and w': "w' = upd_ev (\<lambda>_. ?x) e w"
    using r False by (auto simp: lu_event_priority_set_def upd_ev_def split: if_splits)
  have evs: "ev_of w' y = (if y = e then ?x else ev_of w y)" for y unfolding w' by simp
  have fl': "fl w' y = fl w y" "ev_events (ev_of w' y) = ev_events (ev_of w y)" "ev_fd (ev_of w' y) = ev_fd (ev_of w y)"
    "ev_base (ev_of w' y) = ev_base (ev_of w y)" for y unfolding evs by auto
  have b: "w_base w' = w_base w" unfolding w' by simp
  have fl'': "fl w' = fl w" using fl' by (simp add: fun_eq_iff)
  have sets: "io_set D w' = io_set D w" "sig_set D w' = sig_set D w"
    by (simp_all add: fun_eq_iff io_set_def sig_set_def is_io_def fl')
  have q: "queues_ok D (fl w) (\<lambda>e. unat (ev_pri (ev_of w e))) (activequeues (w_base w)) (active_later_queue (w_base w))"
    and nq: "nactivequeues (w_base w) = int (length (activequeues (w_base w)))"
    using inv by (simp_all add: core_inv_def queue_inv_def)
  have "int (unat (of_int p :: c_uint8)) = p" using unat_of_int [OF f(2)] f(3) n by simp
  then have pr: "unat (of_int p :: c_uint8) < length (activequeues (w_base w))"
    using f(3) unfolding nq by (metis of_nat_less_iff)
  have "y \<in> D \<and> has_flag (fl w y) LU_EVLIST_ACTIVE \<and> unat (ev_pri (ev_of w' y)) = i \<longleftrightarrow>
      y \<in> D \<and> has_flag (fl w y) LU_EVLIST_ACTIVE \<and> unat (ev_pri (ev_of w y)) = i" for y i
    unfolding evs using f(1) by (cases "y = e") auto
  moreover have "\<forall>y\<in>D. unat (ev_pri (ev_of w' y)) < length (activequeues (w_base w))"
    unfolding evs using q pr by (auto simp: queues_ok_def)
  ultimately have "queues_ok D (fl w) (\<lambda>e. unat (ev_pri (ev_of w' e))) (activequeues (w_base w)) (active_later_queue (w_base w))"
    using q unfolding queues_ok_def by (simp only: simp_thms) blast
  then have "queue_inv D w'" using inv unfolding core_inv_def queue_inv_def b fl'' by simp
  moreover have "static_inv D w'" "count_inv D w'" "map_inv D w'"
    using inv unfolding core_inv_def static_inv_def count_inv_def map_inv_def b sets is_io_def fl' by simp_all
  ultimately show ?thesis by (simp add: core_inv_def)
qed (use inv in simp)

section \<open>Reachable states\<close>

text \<open>
  One call of the public interface on an event of the program. The caller keeps the contract
  of the interface: an event is set up again only while it is on no list.
\<close>

inductive core_step :: "evptr set \<Rightarrow> world \<Rightarrow> world \<Rightarrow> bool" for D where
  add: "e \<in> D \<Longrightarrow> lu_event_add_nolock 2 v w e tvo False = Inr (w', r) \<Longrightarrow> core_step D w w'"
| del: "e \<in> D \<Longrightarrow> lu_event_del v w e = Inr (w', r) \<Longrightarrow> core_step D w w'"
| del_noblock: "e \<in> D \<Longrightarrow> lu_event_del_noblock v w e = Inr (w', r) \<Longrightarrow> core_step D w w'"
| active: "e \<in> D \<Longrightarrow> lu_event_active_nolock v w e res n = Inr w' \<Longrightarrow> core_step D w w'"
| assign: "e \<in> D \<Longrightarrow> off_lists (fl w e) \<Longrightarrow> base \<noteq> None \<Longrightarrow>
    lu_event_assign v fc cb w e base fd events cbk arg self = Inr (w', 0) \<Longrightarrow> core_step D w w'"
| priority: "e \<in> D \<Longrightarrow> lu_event_priority_set w e p = Inr (w', r) \<Longrightarrow> core_step D w w'"

inductive_cases core_stepE: "core_step D w w'"

lemma add_inv_any:
  assumes "core_inv D w" "e \<in> D" "lu_event_add_nolock (Suc k) v w e tvo a = Inr (w', r)"
  shows "core_inv D w'"
proof (cases "has_flag (fl w e) LU_EVLIST_FINALIZING")
  case True
  have st: "ev_base (ev_of w e) \<noteq> None" "clr_flag (fl w e) LU_EVLIST_ALL = 0"
    using assms(1,2) by (simp_all add: core_inv_def static_inv_def)
  have "lu_event_add_nolock (Suc k) v w e tvo a = Inr (w, - 1)"
    by (simp only: lu_event_add_nolock.simps lu_assert_def st True refl if_True if_False)
  then have "w' = w" using assms(3) by simp
  then show ?thesis using assms(1) by simp
next
  case False
  then show ?thesis using add_inv [OF assms(1,2) False, of k v tvo a] assms(3) by auto
qed

lemma del_inv_any:
  assumes "core_inv D w" "e \<in> D" "lu_event_del_nolock v w e b = Inr (w', r)"
  shows "core_inv D w'"
proof (cases "b = LU_EVENT_DEL_EVEN_IF_FINALIZING \<or> \<not> has_flag (fl w e) LU_EVLIST_FINALIZING")
  case True
  then show ?thesis using del_inv [OF assms(1,2) True, of v] assms(3) by auto
next
  case False
  have st: "ev_base (ev_of w e) \<noteq> None" using assms(1,2) by (simp add: core_inv_def static_inv_def)
  have b: "b \<noteq> LU_EVENT_DEL_EVEN_IF_FINALIZING \<and> has_flag (fl w e) LU_EVLIST_FINALIZING" using False by blast
  have "lu_event_del_nolock v w e b = Inr (w, 0)"
    unfolding lu_event_del_nolock_def if_not_P [OF st] if_P [OF b] ..
  then have "w' = w" using assms(3) by simp
  then show ?thesis using assms(1) by simp
qed

lemma del_locked_inv:
  assumes "core_inv D w" "e \<in> D" "lu_event_del_locked v w e b = Inr (w', r)"
  shows "core_inv D w'"
proof -
  have "ev_base (ev_of w e) \<noteq> None" using assms(1,2) by (simp add: core_inv_def static_inv_def)
  then obtain w1 where w1: "lu_event_del_nolock v (LU_EVBASE_ACQUIRE_LOCK w) e b = Inr (w1, r)"
      "w' = LU_EVBASE_RELEASE_LOCK w1"
    using assms(3) by (auto simp: lu_event_del_locked_def)
  have "core_inv D (LU_EVBASE_ACQUIRE_LOCK w)" using assms(1) core_inv_view [OF view_lock(1)] by blast
  from del_inv_any [OF this assms(2) w1(1)] show ?thesis using w1(2) core_inv_view [OF view_lock(2)] by blast
qed

lemma active_inv_any:
  assumes "core_inv D w" "e \<in> D" "lu_event_active_nolock v w e res n = Inr w'"
  shows "core_inv D w'"
proof (cases "has_flag (fl w e) LU_EVLIST_FINALIZING")
  case True
  have st: "ev_base (ev_of w e) \<noteq> None" using assms(1,2) by (simp add: core_inv_def static_inv_def)
  have "lu_event_active_nolock v w e res n = Inr w"
    unfolding lu_event_active_nolock_def Let_def if_not_P [OF st] if_P [OF True] ..
  then have "w' = w" using assms(3) by simp
  then show ?thesis using assms(1) by simp
next
  case False
  then show ?thesis using active_inv [OF assms(1,2) False, of v res n] assms(3) by auto
qed

theorem core_step_inv:
  assumes "core_step D w w'" "core_inv D w"
  shows "core_inv D w'"
  using assms(1)
proof cases
  case (add e v tvo r)
  then show ?thesis using add_inv_any assms(2) numeral_2_eq_2 by metis
next
  case (del e v r)
  then show ?thesis using del_locked_inv assms(2) unfolding lu_event_del_def by blast
next
  case (del_noblock e v r)
  then show ?thesis using del_locked_inv assms(2) unfolding lu_event_del_noblock_def by blast
next
  case (active e v res n)
  then show ?thesis using active_inv_any assms(2) by blast
next
  case (assign e base v fc cb fd events cbk arg self)
  have n: "0 < nactivequeues (w_base w)" "nactivequeues (w_base w) \<le> 256"
    using assms(2) by (simp_all add: core_inv_def static_inv_def)
  obtain x where x: "w' = upd_ev (\<lambda>_. x) e w" "ev_flags x = LU_EVLIST_INIT" "ev_base x \<noteq> None"
    "ev_pri x = of_int (nactivequeues (w_base w) div 2)"
    using assign_effect [OF assign(4)] assign(3) by metis
  have "int (unat (of_int (nactivequeues (w_base w) div 2) :: c_uint8)) = nactivequeues (w_base w) div 2"
    by (rule unat_of_int) (use n in auto)
  then have "int (unat (ev_pri x)) < nactivequeues (w_base w)"
    unfolding x(4) using n by linarith
  with replace_event_inv [OF assms(2) assign(1,2), of x] x show ?thesis by (simp add: init_off_lists)
next
  case (priority e p r)
  then show ?thesis using priority_set_inv assms(2) by blast
qed

lemma reachable_inv: "(core_step D)\<^sup>*\<^sup>* w w' \<Longrightarrow> core_inv D w \<Longrightarrow> core_inv D w'"
  by (induction rule: rtranclp_induct) (auto intro: core_step_inv)

section \<open>A base that has just been set up\<close>

definition fresh_world :: "evptr set \<Rightarrow> world \<Rightarrow> bool" where
  "fresh_world D w \<longleftrightarrow> finite D \<and> evsel_op (w_base w) \<noteq> None \<and> evsigsel_op (w_base w) \<noteq> None \<and>
     n_common_timeouts (w_base w) = 0 \<and> time_heap (w_base w) = lu_min_heap_constructor \<and>
     0 < nactivequeues (w_base w) \<and> nactivequeues (w_base w) \<le> 256 \<and>
     activequeues (w_base w) = replicate (nat (nactivequeues (w_base w))) [] \<and> active_later_queue (w_base w) = [] \<and>
     event_count (w_base w) = 0 \<and> event_count_active (w_base w) = 0 \<and>
     io (w_base w) = lu_evmap_io_initmap \<and> sigmap (w_base w) = lu_evmap_siganl_initmap \<and>
     io_calls (w_base w) = [] \<and>
     (\<forall>e\<in>D. ev_base (ev_of w e) \<noteq> None \<and> off_lists (fl w e) \<and> clr_flag (fl w e) LU_EVLIST_ALL = 0 \<and>
        int (unat (ev_pri (ev_of w e))) < nactivequeues (w_base w))"

lemma fresh_inv:
  assumes f: "fresh_world D w"
  shows "core_inv D w"
proof -
  have n: "0 < nactivequeues (w_base w)" using f by (simp add: fresh_world_def)
  have pr: "unat (ev_pri (ev_of w e)) < nat (nactivequeues (w_base w))" if "e \<in> D" for e
    using f that n by (auto simp: fresh_world_def zless_nat_eq_int_zless)
  have "static_inv D w" using f by (auto simp: fresh_world_def static_inv_def lu_min_heap_constructor_def off_lists_def)
  moreover have "queue_inv D w"
    using f n pr by (auto simp: fresh_world_def queue_inv_def queues_ok_def off_lists_def)
  moreover have "count_inv D w"
    using f by (auto simp: fresh_world_def count_inv_def off_lists_weight)
  moreover have "map_inv D w"
  proof -
    have s: "io_set D w = (\<lambda>_. {})" "sig_set D w = (\<lambda>_. {})"
      using f by (auto simp: fresh_world_def io_set_def sig_set_def off_lists_def fun_eq_iff)
    show ?thesis
      using f unfolding map_inv_def s
      by (auto simp: fresh_world_def io_inv_def slots_ok_def lu_evmap_io_initmap_def lu_evmap_siganl_initmap_def
          calls_ok_def interest_def slot_flags_def fun_eq_iff off_lists_def)
  qed
  ultimately show ?thesis by (simp add: core_inv_def)
qed

end
