(* ===== verification/LuErrorCodes.thy ===== *)
theory LuErrorCodes
  imports LuPrelude
begin

text \<open>
  The error codes of \<open>include/lu_erron.h\<close>, which the hash table, the pool, the allocation wrappers and the
  error strings use.
\<close>

section \<open>The codes\<close>

definition LU_ERROR_OPERATION_NOT_PERMITTED :: int where "LU_ERROR_OPERATION_NOT_PERMITTED = 0x100"
definition LU_ERROR_NO_SUCH_FILE_OR_DIRECTORY :: int where "LU_ERROR_NO_SUCH_FILE_OR_DIRECTORY = 0x101"
definition LU_ERROR_NO_SUCH_PROCESS :: int where "LU_ERROR_NO_SUCH_PROCESS = 0x102"
definition LU_ERROR_INTERRUPTED_SYSTEM_CALL :: int where "LU_ERROR_INTERRUPTED_SYSTEM_CALL = 0x103"
definition LU_ERROR_INPUT_OUTPUT_ERROR :: int where "LU_ERROR_INPUT_OUTPUT_ERROR = 0x104"
definition LU_ERROR_NO_SUCH_DEVICE_OR_ADDRESS :: int where "LU_ERROR_NO_SUCH_DEVICE_OR_ADDRESS = 0x105"
definition LU_ERROR_ARGUMENT_LIST_TOO_LONG :: int where "LU_ERROR_ARGUMENT_LIST_TOO_LONG = 0x106"
definition LU_ERROR_EXEC_FORMAT_ERROR :: int where "LU_ERROR_EXEC_FORMAT_ERROR = 0x107"
definition LU_ERROR_BAD_FILE_DESCRIPTOR :: int where "LU_ERROR_BAD_FILE_DESCRIPTOR = 0x108"
definition LU_ERROR_NO_CHILD_PROCESSES :: int where "LU_ERROR_NO_CHILD_PROCESSES = 0x109"
definition LU_ERROR_TRY_AGAIN :: int where "LU_ERROR_TRY_AGAIN = 0x10A"
definition LU_ERROR_OUT_OF_MEMORY :: int where "LU_ERROR_OUT_OF_MEMORY = 0x10B"
definition LU_ERROR_PERMISSION_DENIED :: int where "LU_ERROR_PERMISSION_DENIED = 0x10C"
definition LU_ERROR_BAD_ADDRESS :: int where "LU_ERROR_BAD_ADDRESS = 0x10D"
definition LU_ERROR_BLOCK_DEVICE_REQUIRED :: int where "LU_ERROR_BLOCK_DEVICE_REQUIRED = 0x10E"
definition LU_ERROR_DEVICE_OR_RESOURCE_BUSY :: int where "LU_ERROR_DEVICE_OR_RESOURCE_BUSY = 0x10F"
definition LU_ERROR_FILE_EXISTS :: int where "LU_ERROR_FILE_EXISTS = 0x110"
definition LU_ERROR_CROSS_DEVICE_LINK :: int where "LU_ERROR_CROSS_DEVICE_LINK = 0x111"
definition LU_ERROR_NO_SUCH_DEVICE :: int where "LU_ERROR_NO_SUCH_DEVICE = 0x112"
definition LU_ERROR_NOT_A_DIRECTORY :: int where "LU_ERROR_NOT_A_DIRECTORY = 0x113"
definition LU_ERROR_IS_A_DIRECTORY :: int where "LU_ERROR_IS_A_DIRECTORY = 0x114"
definition LU_ERROR_INVALID_ARGUMENT :: int where "LU_ERROR_INVALID_ARGUMENT = 0x115"
definition LU_ERROR_FILE_TABLE_OVERFLOW :: int where "LU_ERROR_FILE_TABLE_OVERFLOW = 0x116"
definition LU_ERROR_TOO_MANY_OPEN_FILES :: int where "LU_ERROR_TOO_MANY_OPEN_FILES = 0x117"
definition LU_ERROR_NOT_A_TYPEWRITER :: int where "LU_ERROR_NOT_A_TYPEWRITER = 0x118"
definition LU_ERROR_TEXT_FILE_BUSY :: int where "LU_ERROR_TEXT_FILE_BUSY = 0x119"
definition LU_ERROR_FILE_TOO_LARGE :: int where "LU_ERROR_FILE_TOO_LARGE = 0x11A"
definition LU_ERROR_NO_SPACE_LEFT_ON_DEVICE :: int where "LU_ERROR_NO_SPACE_LEFT_ON_DEVICE = 0x11B"
definition LU_ERROR_ILLEGAL_SEEK :: int where "LU_ERROR_ILLEGAL_SEEK = 0x11C"
definition LU_ERROR_READ_ONLY_FILE_SYSTEM :: int where "LU_ERROR_READ_ONLY_FILE_SYSTEM = 0x11D"
definition LU_ERROR_TOO_MANY_LINKS :: int where "LU_ERROR_TOO_MANY_LINKS = 0x11E"
definition LU_ERROR_BROKEN_PIPE :: int where "LU_ERROR_BROKEN_PIPE = 0x11F"
definition LU_ERROR_MATH_ARGUMENT_OUT_OF_DOMAIN_OF_FUNCTION :: int where "LU_ERROR_MATH_ARGUMENT_OUT_OF_DOMAIN_OF_FUNCTION = 0x120"
definition LU_ERROR_RESULT_TOO_REPRESENTABLE :: int where "LU_ERROR_RESULT_TOO_REPRESENTABLE = 0x121"
definition LU_ERROR_LUEVENT_MEMORY_POOL_OK :: int where "LU_ERROR_LUEVENT_MEMORY_POOL_OK = 0x122"
definition LU_ERROR_LUEVENT_MEMORY_POOL_ERROR :: int where "LU_ERROR_LUEVENT_MEMORY_POOL_ERROR = 0x123"
definition LU_ERROR_LUEVENT_MEMORY_POOL_AGAGIN :: int where "LU_ERROR_LUEVENT_MEMORY_POOL_AGAGIN = 0x124"
definition LU_ERROR_LUEVENT_MEMORY_POOL_BUSY :: int where "LU_ERROR_LUEVENT_MEMORY_POOL_BUSY = 0x125"
definition LU_ERROR_LUEVENT_MEMORY_POOL_DONE :: int where "LU_ERROR_LUEVENT_MEMORY_POOL_DONE = 0x126"
definition LU_ERROR_LUEVENT_MEMORY_POOL_DECLINED :: int where "LU_ERROR_LUEVENT_MEMORY_POOL_DECLINED = 0x127"
definition LU_ERROR_LUEVENT_MEMORY_POOL_ABORT :: int where "LU_ERROR_LUEVENT_MEMORY_POOL_ABORT = 0x128"
definition LU_ERROR_INVALID_PATH :: int where "LU_ERROR_INVALID_PATH = 0x129"

lemmas lu_error_codes = LU_ERROR_OPERATION_NOT_PERMITTED_def LU_ERROR_NO_SUCH_FILE_OR_DIRECTORY_def LU_ERROR_NO_SUCH_PROCESS_def
  LU_ERROR_INTERRUPTED_SYSTEM_CALL_def LU_ERROR_INPUT_OUTPUT_ERROR_def LU_ERROR_NO_SUCH_DEVICE_OR_ADDRESS_def
  LU_ERROR_ARGUMENT_LIST_TOO_LONG_def LU_ERROR_EXEC_FORMAT_ERROR_def LU_ERROR_BAD_FILE_DESCRIPTOR_def
  LU_ERROR_NO_CHILD_PROCESSES_def LU_ERROR_TRY_AGAIN_def LU_ERROR_OUT_OF_MEMORY_def LU_ERROR_PERMISSION_DENIED_def
  LU_ERROR_BAD_ADDRESS_def LU_ERROR_BLOCK_DEVICE_REQUIRED_def LU_ERROR_DEVICE_OR_RESOURCE_BUSY_def LU_ERROR_FILE_EXISTS_def
  LU_ERROR_CROSS_DEVICE_LINK_def LU_ERROR_NO_SUCH_DEVICE_def LU_ERROR_NOT_A_DIRECTORY_def LU_ERROR_IS_A_DIRECTORY_def
  LU_ERROR_INVALID_ARGUMENT_def LU_ERROR_FILE_TABLE_OVERFLOW_def LU_ERROR_TOO_MANY_OPEN_FILES_def LU_ERROR_NOT_A_TYPEWRITER_def
  LU_ERROR_TEXT_FILE_BUSY_def LU_ERROR_FILE_TOO_LARGE_def LU_ERROR_NO_SPACE_LEFT_ON_DEVICE_def LU_ERROR_ILLEGAL_SEEK_def
  LU_ERROR_READ_ONLY_FILE_SYSTEM_def LU_ERROR_TOO_MANY_LINKS_def LU_ERROR_BROKEN_PIPE_def
  LU_ERROR_MATH_ARGUMENT_OUT_OF_DOMAIN_OF_FUNCTION_def LU_ERROR_RESULT_TOO_REPRESENTABLE_def LU_ERROR_LUEVENT_MEMORY_POOL_OK_def
  LU_ERROR_LUEVENT_MEMORY_POOL_ERROR_def LU_ERROR_LUEVENT_MEMORY_POOL_AGAGIN_def LU_ERROR_LUEVENT_MEMORY_POOL_BUSY_def
  LU_ERROR_LUEVENT_MEMORY_POOL_DONE_def LU_ERROR_LUEVENT_MEMORY_POOL_DECLINED_def LU_ERROR_LUEVENT_MEMORY_POOL_ABORT_def
  LU_ERROR_INVALID_PATH_def

end
