(* ===== verification/LuUtil.thy ===== *)
theory LuUtil
  imports LuEventBase LuErrorCodes
begin

text \<open>
  The portability helpers of \<open>src/lu_util.c\<close>: formatted output, socket errors, environment
  variables, the case tables, paths and descriptors. A C string is the list of its characters
  without the final 0; a null pointer is \<open>None\<close>. What the C library and the kernel answer
  is an argument.
\<close>

section \<open>Formatted output\<close>

text \<open>\<open>txt\<close> is the whole formatted text, \<open>None\<close> for a null format; the result is what the
  buffer holds afterwards and the return code.\<close>

definition lu_evutil_vsnprintf :: "bool \<Rightarrow> nat \<Rightarrow> string option \<Rightarrow> string \<times> int" where
  "lu_evutil_vsnprintf str_ok sz txt =
     (case txt of
        None \<Rightarrow> ([], - 1)
      | Some s \<Rightarrow> if \<not> str_ok \<or> sz = 0 then ([], - 1) else (take (sz - 1) s, int (length s)))"

definition lu_evutil_snprintf :: "bool \<Rightarrow> nat \<Rightarrow> string option \<Rightarrow> string \<times> int" where
  "lu_evutil_snprintf str_ok sz txt = lu_evutil_vsnprintf str_ok sz txt"

text \<open>The conversion \<open>%d\<close>.\<close>

fun dec_nat :: "nat \<Rightarrow> string" where
  "dec_nat n = (if n < 10 then [''0123456789'' ! n] else dec_nat (n div 10) @ [''0123456789'' ! (n mod 10)])"

declare dec_nat.simps [simp del]

definition dec_int :: "int \<Rightarrow> string" where
  "dec_int i = (if i < 0 then ''-'' @ dec_nat (nat (- i)) else dec_nat (nat i))"

section \<open>Socket errors\<close>

definition EAGAIN :: int where "EAGAIN = 11"
definition EWOULDBLOCK :: int where "EWOULDBLOCK = 11"
definition EINTR :: int where "EINTR = 4"
definition ENOENT :: int where "ENOENT = 2"

text \<open>\<open>sockopt\<close> is what \<open>getsockopt(SO_ERROR)\<close> gives: \<open>Inl\<close> the new \<open>errno\<close>, or \<open>Inr\<close> the option.\<close>

definition lu_evutil_socket_geterror :: "int \<Rightarrow> (int \<Rightarrow> int + int) \<Rightarrow> int \<Rightarrow> int" where
  "lu_evutil_socket_geterror errno sockopt sock_t =
     (if (errno = EAGAIN \<or> errno = EWOULDBLOCK) \<and> sock_t \<ge> 0
      then (case sockopt sock_t of Inl e \<Rightarrow> e | Inr optval \<Rightarrow> if optval \<noteq> 0 then optval else errno)
      else errno)"

definition LU_EVUTIL_ERR_RW_RETRIABLE :: "int \<Rightarrow> bool" where
  "LU_EVUTIL_ERR_RW_RETRIABLE e \<longleftrightarrow> e = EINTR \<or> e = EAGAIN"

section \<open>The environment\<close>

record process_ids =
  uid :: nat
  euid :: nat
  gid :: nat
  egid :: nat

definition lu_evutil_issetugid :: "process_ids \<Rightarrow> bool" where
  "lu_evutil_issetugid p \<longleftrightarrow> uid p \<noteq> euid p \<or> gid p \<noteq> egid p"

definition lu_evutil_getenv :: "process_ids \<Rightarrow> (string \<Rightarrow> string option) \<Rightarrow> string \<Rightarrow> string option" where
  "lu_evutil_getenv p getenv varname =
     (if lu_evutil_issetugid p then None
      else (case getenv varname of None \<Rightarrow> None | Some v \<Rightarrow> Some v))"

section \<open>Case tables\<close>

definition LU_EVUTIL_TOUPPER_TABLE :: "nat list" where
  "LU_EVUTIL_TOUPPER_TABLE =
  [0, 1, 2, 3, 4, 5, 6, 7, 8, 9, 10, 11, 12, 13, 14, 15,
   16, 17, 18, 19, 20, 21, 22, 23, 24, 25, 26, 27, 28, 29, 30, 31,
   32, 33, 34, 35, 36, 37, 38, 39, 40, 41, 42, 43, 44, 45, 46, 47,
   48, 49, 50, 51, 52, 53, 54, 55, 56, 57, 58, 59, 60, 61, 62, 63,
   64, 65, 66, 67, 68, 69, 70, 71, 72, 73, 74, 75, 76, 77, 78, 79,
   80, 81, 82, 83, 84, 85, 86, 87, 88, 89, 90, 91, 92, 93, 94, 95,
   96, 65, 66, 67, 68, 69, 70, 71, 72, 73, 74, 75, 76, 77, 78, 79,
   80, 81, 82, 83, 84, 85, 86, 87, 88, 89, 90, 123, 124, 125, 126, 127,
   128, 129, 130, 131, 132, 133, 134, 135, 136, 137, 138, 139, 140, 141, 142, 143,
   144, 145, 146, 147, 148, 149, 150, 151, 152, 153, 154, 155, 156, 157, 158, 159,
   160, 161, 162, 163, 164, 165, 166, 167, 168, 169, 170, 171, 172, 173, 174, 175,
   176, 177, 178, 179, 180, 181, 182, 183, 184, 185, 186, 187, 188, 189, 190, 191,
   192, 193, 194, 195, 196, 197, 198, 199, 200, 201, 202, 203, 204, 205, 206, 207,
   208, 209, 210, 211, 212, 213, 214, 215, 216, 217, 218, 219, 220, 221, 222, 223,
   224, 225, 226, 227, 228, 229, 230, 231, 232, 233, 234, 235, 236, 237, 238, 239,
   240, 241, 242, 243, 244, 245, 246, 247, 248, 249, 250, 251, 252, 253, 254, 255]"

definition LU_EVUTIL_TOLOWER_TABLE :: "nat list" where
  "LU_EVUTIL_TOLOWER_TABLE =
  [0, 1, 2, 3, 4, 5, 6, 7, 8, 9, 10, 11, 12, 13, 14, 15,
   16, 17, 18, 19, 20, 21, 22, 23, 24, 25, 26, 27, 28, 29, 30, 31,
   32, 33, 34, 35, 36, 37, 38, 39, 40, 41, 42, 43, 44, 45, 46, 47,
   48, 49, 50, 51, 52, 53, 54, 55, 56, 57, 58, 59, 60, 61, 62, 63,
   64, 97, 98, 99, 100, 101, 102, 103, 104, 105, 106, 107, 108, 109, 110, 111,
   112, 113, 114, 115, 116, 117, 118, 119, 120, 121, 122, 91, 92, 93, 94, 95,
   96, 97, 98, 99, 100, 101, 102, 103, 104, 105, 106, 107, 108, 109, 110, 111,
   112, 113, 114, 115, 116, 117, 118, 119, 120, 121, 122, 123, 124, 125, 126, 127,
   128, 129, 130, 131, 132, 133, 134, 135, 136, 137, 138, 139, 140, 141, 142, 143,
   144, 145, 146, 147, 148, 149, 150, 151, 152, 153, 154, 155, 156, 157, 158, 159,
   160, 161, 162, 163, 164, 165, 166, 167, 168, 169, 170, 171, 172, 173, 174, 175,
   176, 177, 178, 179, 180, 181, 182, 183, 184, 185, 186, 187, 188, 189, 190, 191,
   192, 193, 194, 195, 196, 197, 198, 199, 200, 201, 202, 203, 204, 205, 206, 207,
   208, 209, 210, 211, 212, 213, 214, 215, 216, 217, 218, 219, 220, 221, 222, 223,
   224, 225, 226, 227, 228, 229, 230, 231, 232, 233, 234, 235, 236, 237, 238, 239,
   240, 241, 242, 243, 244, 245, 246, 247, 248, 249, 250, 251, 252, 253, 254, 255]"

definition LU_EVUTIL_TOLOWER :: "char \<Rightarrow> char" where
  "LU_EVUTIL_TOLOWER c = char_of (LU_EVUTIL_TOLOWER_TABLE ! of_char c)"

definition LU_EVUTIL_TOUPPER :: "char \<Rightarrow> char" where
  "LU_EVUTIL_TOUPPER c = char_of (LU_EVUTIL_TOUPPER_TABLE ! of_char c)"

section \<open>Paths\<close>

definition is_slash :: "char \<Rightarrow> bool" where
  "is_slash c \<longleftrightarrow> c = CHR ''/'' \<or> c = CHR 0x5C"

definition lu_evutil_check_dict_file_exist :: "(string \<Rightarrow> bool) \<Rightarrow> string option \<Rightarrow> int" where
  "lu_evutil_check_dict_file_exist stat_ok path =
     (case path of
        None \<Rightarrow> LU_ERROR_INVALID_PATH
      | Some p \<Rightarrow> if length p = 0 then LU_ERROR_INVALID_PATH else if stat_ok p then 0 else - 1)"

fun has_slash :: "string \<Rightarrow> bool" where
  "has_slash [] = False"
| "has_slash (c # cs) = (if is_slash c then True else has_slash cs)"

definition lu_evutil_check_contain_directory :: "string option \<Rightarrow> int" where
  "lu_evutil_check_contain_directory filename =
     (case filename of
        None \<Rightarrow> LU_ERROR_INVALID_PATH
      | Some f \<Rightarrow> if length f = 0 then LU_ERROR_INVALID_PATH else if has_slash f then 1 else 0)"

text \<open>The scan for the last slash: \<open>i\<close> is the offset of the rest, \<open>found\<close> the last slash seen.\<close>

fun last_slash_pos :: "string \<Rightarrow> nat \<Rightarrow> nat option \<Rightarrow> nat option" where
  "last_slash_pos [] i found = found"
| "last_slash_pos (c # cs) i found = last_slash_pos cs (i + 1) (if is_slash c then Some i else found)"

definition lu_evutil_get_directory :: "string \<Rightarrow> nat \<Rightarrow> string option" where
  "lu_evutil_get_directory filename out_buffer_size =
     (case last_slash_pos filename 0 None of
        None \<Rightarrow> Some filename
      | Some dir_len \<Rightarrow> if dir_len \<ge> out_buffer_size then None else Some (take dir_len filename))"

text \<open>
  Creating a directory with its parents. \<open>'fs\<close> is the file system, \<open>stat_ok\<close> whether a path
  exists in it, \<open>mkdir\<close> the system call (\<open>None\<close>: success, otherwise the \<open>errno\<close>).
  \<open>cut_last\<close> is \<open>strrchr\<close> followed by the cut at the character found.
\<close>

definition cut_last :: "char \<Rightarrow> string \<Rightarrow> string option" where
  "cut_last c s = (if c \<in> set s then Some (rev (tl (dropWhile (\<lambda>x. x \<noteq> c) (rev s)))) else None)"

lemma cut_last_less: "cut_last c s = Some p \<Longrightarrow> length p < length s"
proof -
  assume a: "cut_last c s = Some p"
  have "length (dropWhile (\<lambda>x. x \<noteq> c) (rev s)) \<le> length s" by (metis length_dropWhile_le length_rev)
  moreover have "dropWhile (\<lambda>x. x \<noteq> c) (rev s) \<noteq> []" using a by (auto simp: cut_last_def split: if_splits)
  ultimately show ?thesis
    using a by (cases "dropWhile (\<lambda>x. x \<noteq> c) (rev s)") (auto simp: cut_last_def split: if_splits)
qed

definition temp_dir_path :: "string \<Rightarrow> string" where
  "temp_dir_path path =
     (let t = take 1023 path in if t \<noteq> [] \<and> last t = CHR ''/'' then butlast t else t)"

lemma temp_dir_path_length: "length (temp_dir_path path) \<le> length path"
  unfolding temp_dir_path_def Let_def by (simp split: if_splits) linarith

function lu_evutil_create_dictionay ::
    "('fs \<Rightarrow> string \<Rightarrow> bool) \<Rightarrow> ('fs \<Rightarrow> string \<Rightarrow> 'fs \<times> int option) \<Rightarrow> 'fs \<Rightarrow> string \<Rightarrow> 'fs \<times> int" where
  "lu_evutil_create_dictionay stat_ok mkdir fs path =
     (if lu_evutil_check_dict_file_exist (stat_ok fs) (Some path) = 0 then (fs, 0)
      else if length path = 0 then (fs, LU_ERROR_INVALID_PATH)
      else (case mkdir fs (temp_dir_path path) of
              (fs1, None) \<Rightarrow> (fs1, 0)
            | (fs1, Some errno) \<Rightarrow>
                if errno = ENOENT then
                  (case cut_last CHR ''/'' (temp_dir_path path) of
                     None \<Rightarrow> (fs1, - 1)
                   | Some parent \<Rightarrow>
                       (case lu_evutil_create_dictionay stat_ok mkdir fs1 parent of
                          (fs2, r) \<Rightarrow>
                            if r = 0 then
                              (case mkdir fs2 path of (fs3, None) \<Rightarrow> (fs3, 0) | (fs3, Some _) \<Rightarrow> (fs3, - 1))
                            else (fs2, - 1)))
                else (fs1, - 1)))"
  by pat_completeness auto
termination
  by (relation "measure (\<lambda>(stat_ok, mkdir, fs, path). length path)")
    (auto dest!: cut_last_less intro: less_le_trans [OF _ temp_dir_path_length])

declare lu_evutil_create_dictionay.simps [simp del]

section \<open>Descriptors\<close>

text \<open>\<open>getfd\<close> is what \<open>fcntl(F_GETFD)\<close> returns; the first result is the flags set, when they are.\<close>

definition FD_CLOEXEC :: int where "FD_CLOEXEC = 1"

definition lu_evutil_make_socket_closeonexec :: "(int \<Rightarrow> int) \<Rightarrow> (int \<Rightarrow> bool) \<Rightarrow> int \<Rightarrow> int option \<times> int" where
  "lu_evutil_make_socket_closeonexec getfd setfd_ok fd =
     (if getfd fd < 0 then (None, - 1)
      else if getfd fd AND FD_CLOEXEC = 0 then
        (if \<not> setfd_ok fd then (None, - 1) else (Some (getfd fd OR FD_CLOEXEC), 0))
      else (None, 0))"

definition lu_evutil_fast_socket_nonblocking :: "(int \<Rightarrow> bool) \<Rightarrow> int \<Rightarrow> int" where
  "lu_evutil_fast_socket_nonblocking setfl_ok fd = (if setfl_ok fd then 0 else - 1)"

definition lu_evutil_fast_socket_closeonexec :: "(int \<Rightarrow> bool) \<Rightarrow> int \<Rightarrow> int" where
  "lu_evutil_fast_socket_closeonexec setfd_ok fd = (if setfd_ok fd then 0 else - 1)"

text \<open>\<open>pipe_fds\<close> is what \<open>pipe\<close> returns. The result: the pair stored, the descriptors closed
  again, the return code.\<close>

definition lu_evutil_make_internal_pipe ::
    "(int \<times> int) option \<Rightarrow> (int \<Rightarrow> bool) \<Rightarrow> (int \<Rightarrow> bool) \<Rightarrow> (int \<times> int) option \<times> int list \<times> int" where
  "lu_evutil_make_internal_pipe pipe_fds setfl_ok setfd_ok =
     (case pipe_fds of
        None \<Rightarrow> (None, [], - 1)
      | Some (a, b) \<Rightarrow>
          if lu_evutil_fast_socket_nonblocking setfl_ok a < 0 \<or> lu_evutil_fast_socket_nonblocking setfl_ok b < 0 \<or>
             lu_evutil_fast_socket_closeonexec setfd_ok a < 0 \<or> lu_evutil_fast_socket_closeonexec setfd_ok b < 0
          then (Some (a, b), [a, b], - 1)
          else (Some (a, b), [], 0))"

section \<open>Properties\<close>

definition ascii_upper :: "nat \<Rightarrow> nat" where
  "ascii_upper n = (if 97 \<le> n \<and> n \<le> 122 then n - 32 else n)"

definition ascii_lower :: "nat \<Rightarrow> nat" where
  "ascii_lower n = (if 65 \<le> n \<and> n \<le> 90 then n + 32 else n)"

lemma upper_table: "LU_EVUTIL_TOUPPER_TABLE = List.map ascii_upper [0..<256]"
  by (simp add: LU_EVUTIL_TOUPPER_TABLE_def ascii_upper_def upt_conv_Cons)

lemma lower_table: "LU_EVUTIL_TOLOWER_TABLE = List.map ascii_lower [0..<256]"
  by (simp add: LU_EVUTIL_TOLOWER_TABLE_def ascii_lower_def upt_conv_Cons)

lemmas case_tables = upper_table lower_table

lemma of_char_less: "(of_char c :: nat) < 256"
  by (metis of_char_of nat_of_char_less_256)

lemma upper_at: "of_char (LU_EVUTIL_TOUPPER c) = ascii_upper (of_char c)"
proof -
  have "ascii_upper (of_char c) < 256" using of_char_less [of c] by (auto simp: ascii_upper_def)
  then show ?thesis
    using of_char_less [of c] by (simp add: LU_EVUTIL_TOUPPER_def case_tables)
qed

lemma lower_at: "of_char (LU_EVUTIL_TOLOWER c) = ascii_lower (of_char c)"
proof -
  have "ascii_lower (of_char c) < 256" using of_char_less [of c] by (auto simp: ascii_lower_def)
  then show ?thesis
    using of_char_less [of c] by (simp add: LU_EVUTIL_TOLOWER_def case_tables)
qed

text \<open>The two 256-entry tables are ASCII case conversion: a lower-case (upper-case) letter moves by
  32 and every other byte stays; converting up and then down again gives what converting down
  alone gives.\<close>

theorem case_tables_ascii:
  "of_char (LU_EVUTIL_TOUPPER c) = ascii_upper (of_char c) \<and>
   of_char (LU_EVUTIL_TOLOWER c) = ascii_lower (of_char c) \<and>
   LU_EVUTIL_TOLOWER (LU_EVUTIL_TOUPPER c) = LU_EVUTIL_TOLOWER c"
proof -
  have "(of_char (LU_EVUTIL_TOLOWER (LU_EVUTIL_TOUPPER c)) :: nat) = of_char (LU_EVUTIL_TOLOWER c)"
    by (auto simp: upper_at lower_at ascii_upper_def ascii_lower_def)
  then have "LU_EVUTIL_TOLOWER (LU_EVUTIL_TOUPPER c) = LU_EVUTIL_TOLOWER c" by (metis char_of_char)
  then show ?thesis using upper_at lower_at by simp
qed

text \<open>The directory of a path.\<close>

lemma last_slash_pos_split:
  "last_slash_pos s i found = Some k \<Longrightarrow>
     (found = Some k \<and> \<not> has_slash s) \<or>
     (\<exists>d c rest. is_slash c \<and> k = i + length d \<and> s = d @ c # rest \<and> \<not> has_slash rest)"
proof (induction s arbitrary: i found)
  case (Cons a s)
  from Cons.prems have "last_slash_pos s (i + 1) (if is_slash a then Some i else found) = Some k" by simp
  from Cons.IH [OF this] consider
    (none) "(if is_slash a then Some i else found) = Some k" "\<not> has_slash s"
    | (some) d c rest where "is_slash c" "k = i + 1 + length d" "s = d @ c # rest" "\<not> has_slash rest"
    by blast
  then show ?case
  proof cases
    case none
    show ?thesis
    proof (cases "is_slash a")
      case True
      then have "is_slash a \<and> k = i + length [] \<and> a # s = [] @ a # s \<and> \<not> has_slash s" using none by simp
      then show ?thesis by blast
    qed (use none in simp)
  next
    case some
    then have "is_slash c \<and> k = i + length (a # d) \<and> a # s = (a # d) @ c # rest \<and> \<not> has_slash rest" by simp
    then show ?thesis by blast
  qed
qed simp

lemma last_slash_pos_none: "last_slash_pos s i found = None \<longleftrightarrow> found = None \<and> \<not> has_slash s"
  by (induction s arbitrary: i found) auto

text \<open>The directory of a path is the part before its last slash: a path with a slash is that part,
  the slash and a name without slashes, and the part fits the buffer with its final 0; a path
  without a slash is returned whole.\<close>

theorem get_directory_split:
  assumes "lu_evutil_get_directory f n = Some d"
  shows "if lu_evutil_check_contain_directory (Some f) = 1
         then length d < n \<and> (\<exists>c name. is_slash c \<and> f = d @ c # name \<and> \<not> has_slash name)
         else d = f"
proof (cases "last_slash_pos f 0 None")
  case None
  then show ?thesis using assms last_slash_pos_none [of f 0 None]
    by (auto simp: lu_evutil_get_directory_def lu_evutil_check_contain_directory_def LU_ERROR_INVALID_PATH_def)
next
  case (Some k)
  then have h: "has_slash f" "f \<noteq> []" using last_slash_pos_none [of f 0 None] by auto
  from last_slash_pos_split [OF Some] obtain e c rest where e: "is_slash c" "k = length e" "f = e @ c # rest" "\<not> has_slash rest" by auto
  have d: "d = e" "length e < n"
    using assms Some e by (auto simp: lu_evutil_get_directory_def split: if_splits)
  have "length d < n \<and> (\<exists>c name. is_slash c \<and> f = d @ c # name \<and> \<not> has_slash name)" using e d by blast
  moreover have "lu_evutil_check_contain_directory (Some f) = 1" using h by (simp add: lu_evutil_check_contain_directory_def)
  ultimately show ?thesis by simp
qed

theorem get_directory_split_witness:
  "lu_evutil_get_directory ''a/b/log.txt'' 16 = Some ''a/b'' \<and> length ''a/b'' < (16 :: nat)"
proof -
  have d: "lu_evutil_get_directory ''a/b/log.txt'' 16 = Some ''a/b''" by code_simp
  moreover have "lu_evutil_check_contain_directory (Some ''a/b/log.txt'') = 1" by code_simp
  ultimately show ?thesis using get_directory_split [OF d] by simp
qed

end
