(* ===== verification/LuBackend.thy ===== *)
theory LuBackend
  imports LuEvent LuUtil
begin

text \<open>
  The backends that an event base is built on: the epoll backend of \<open>src/lu_epool.c\<close> with its
  tables in \<open>include/lu_epoll.h\<close>, the signal set-up and signal callback of
  \<open>src/lu_evsignal.c\<close> with the tables in \<open>include/lu_evsignalfd.h\<close>, and the lock check of
  \<open>src/lu_evthread.c\<close>. The operations that the tables name but the sources do not define
  (the change-list and the signal operations) are arguments, and so is what the system calls
  answer.
\<close>

section \<open>System calls\<close>

text \<open>
  What one call of \<open>lu_epoll_init\<close> is answered. A descriptor below 0 is a failure;
  \<open>alloc_op\<close> and \<open>alloc_events\<close> say whether the two allocations succeed, \<open>ids\<close> and
  \<open>environ\<close> give the process identity and its environment.
\<close>

record sysenv =
  epoll_create1 :: int
  epoll_create :: int
  alloc_op :: bool
  alloc_events :: bool
  timerfd_create :: int
  epoll_ctl_ok :: bool
  ids :: process_ids
  environ :: "string \<Rightarrow> string option"
  fcntl_getfd :: "int \<Rightarrow> int"
  fcntl_setfd_ok :: "int \<Rightarrow> bool"
  fcntl_setfl_ok :: "int \<Rightarrow> bool"
  pipe_fds :: "(int \<times> int) option"
  fcntl_nonblock :: "int \<Rightarrow> bool option"

section \<open>Operation tables\<close>

definition lu_epoll_nochangelist_add :: "backend_call list \<Rightarrow> int \<Rightarrow> c_short \<Rightarrow> c_short \<Rightarrow> int" where
  "lu_epoll_nochangelist_add base fd old events = 0"

definition lu_epollnochangelist_del :: "backend_call list \<Rightarrow> int \<Rightarrow> c_short \<Rightarrow> c_short \<Rightarrow> int" where
  "lu_epollnochangelist_del base fd old events = 0"

definition lu_epoll_dispatch :: "world \<Rightarrow> timeval \<Rightarrow> world \<times> int" where
  "lu_epoll_dispatch base tv = (base, 0)"

definition lu_epoll_dealloc :: "world \<Rightarrow> world" where
  "lu_epoll_dealloc base = base"

text \<open>\<open>op_init\<close> is the function pointer of the table, \<open>Some 0\<close> standing for \<open>lu_epoll_init\<close>.\<close>

definition epool_ops :: lu_event_op_t where
  "epool_ops = \<lparr>op_name = ''epoll'', op_init = Some 0,
     op_add = lu_epoll_nochangelist_add, op_del = lu_epollnochangelist_del, op_dealloc = True,
     need_reinit = 1,
     features = LU_EVENT_FEATURE_ET OR LU_EVENT_FEATURE_O1 OR LU_EVENT_FEATURE_EARLY_CLOSE,
     fdinfo_len = 0\<rparr>"

definition LU_EVENT_CHANGELIST_FDINFO_SIZE :: nat where "LU_EVENT_CHANGELIST_FDINFO_SIZE = 4"

type_synonym op_fun = "backend_call list \<Rightarrow> int \<Rightarrow> c_short \<Rightarrow> c_short \<Rightarrow> int"

definition epollops_changelist :: "op_fun \<Rightarrow> op_fun \<Rightarrow> lu_event_op_t" where
  "epollops_changelist lu_event_changelist_add lu_event_changelist_del =
     \<lparr>op_name = ''epoll (with changelist)'', op_init = Some 0,
      op_add = lu_event_changelist_add, op_del = lu_event_changelist_del, op_dealloc = True,
      need_reinit = 1,
      features = LU_EVENT_FEATURE_ET OR LU_EVENT_FEATURE_O1 OR LU_EVENT_FEATURE_EARLY_CLOSE,
      fdinfo_len = LU_EVENT_CHANGELIST_FDINFO_SIZE\<rparr>"

definition sigfdops :: "op_fun \<Rightarrow> op_fun \<Rightarrow> lu_event_op_t" where
  "sigfdops sigfd_add sigfd_del =
     \<lparr>op_name = ''signalfd_signal'', op_init = None, op_add = sigfd_add, op_del = sigfd_del,
      op_dealloc = False, need_reinit = 0, features = 0, fdinfo_len = 0\<rparr>"

definition evsigops :: "op_fun \<Rightarrow> op_fun \<Rightarrow> lu_event_op_t" where
  "evsigops evsig_add evsig_del =
     \<lparr>op_name = ''signal'', op_init = None, op_add = evsig_add, op_del = evsig_del,
      op_dealloc = False, need_reinit = 0, features = 0, fdinfo_len = 0\<rparr>"

section \<open>Signals\<close>

text \<open>The assignment to \<open>evsigsel_op\<close> in \<open>sigfd_init_\<close> stands after the return and never runs.\<close>

definition sigfd_init :: "sysenv \<Rightarrow> world \<Rightarrow> world \<times> int" where
  "sigfd_init s w =
     (if \<not> has_flag (base_flags (w_base w)) LU_EVENT_BASE_FLAG_USE_SIGNALFD \<and>
         environ s ''EVENT_USE_SIGNALFD'' = None
      then (w, - 1) else (w, 0))"

text \<open>\<open>lu_evsig_cb\<close> as a callback pointer.\<close>

definition lu_evsig_cb_ptr :: nat where "lu_evsig_cb_ptr = 1"

text \<open>
  \<open>lu_evsig_init_\<close>: the pipe, the event on its reading end, the operations. \<open>pipe\<close> stores the
  descriptors before the flags are set, so they are stored also when that fails.
\<close>

definition lu_evsig_init :: "sysenv \<Rightarrow> env \<Rightarrow> lu_event_op_t \<Rightarrow> nat option \<Rightarrow> world \<Rightarrow> (world \<times> int) res" where
  "lu_evsig_init s v sig_ops current_base w =
     (let (fds, closed, r) = lu_evutil_make_internal_pipe (pipe_fds s) (fcntl_setfl_ok s) (fcntl_setfd_ok s);
          w1 = (case fds of
                  None \<Rightarrow> w
                | Some p \<Rightarrow> upd_base (\<lambda>b. b\<lparr>sig_info := (sig_info b)\<lparr>ev_signal_pair := p\<rparr>\<rparr>) w)
      in if r = - 1 then Inr (w1, - 1)
         else
           (let w2 = upd_base (\<lambda>b. b\<lparr>sig_info := (sig_info b)\<lparr>sh_old := None, sh_old_max := 0\<rparr>\<rparr>) w1;
                sig_ev = ev_signal (sig_info (w_base w2))
            in bind_res (lu_event_assign v (fcntl_nonblock s) current_base w2 sig_ev (Some (w_self w2))
                   (fst (ev_signal_pair (sig_info (w_base w2)))) (LU_EV_READ OR LU_EV_PERSIST)
                   lu_evsig_cb_ptr (w_self w2) False)
            (\<lambda>(w3, _). bind_res (lu_event_priority_set (ev_set_flag LU_EVLIST_INTERNAL sig_ev w3) sig_ev 0)
            (\<lambda>(w4, _). Inr (upd_base (\<lambda>b. b\<lparr>evsigsel_op := Some sig_ops\<rparr>) w4, 0)))))"

text \<open>
  \<open>lu_evsig_cb\<close>: read what the handler wrote until there is no more, count every signal,
  activate the events of those caught, in the order of their numbers. \<open>reads\<close> is what the
  successive calls of \<open>read\<close> give: the bytes (at most 1024), or the error; a list that runs
  out stands for a pipe at its end. The second component of the loop's result is the error to
  report. \<open>lu_evmap_signal_active_\<close> and \<open>event_sock_err\<close> are defined nowhere in the sources:
  \<open>activate\<close> and \<open>sock_err\<close>.
\<close>

definition caught :: "c_uint8 \<Rightarrow> nat list \<Rightarrow> nat list" where
  "caught sig ncaught =
     (if unat sig < nat NSIG then ncaught[unat sig := ncaught ! unat sig + 1] else ncaught)"

fun evsig_read_loop :: "(int + c_uint8 list) list \<Rightarrow> nat list \<Rightarrow> nat list \<times> int option" where
  "evsig_read_loop [] ncaught = (ncaught, None)"
| "evsig_read_loop (Inl err # reads) ncaught =
     (ncaught, if LU_EVUTIL_ERR_RW_RETRIABLE err then None else Some err)"
| "evsig_read_loop (Inr signals # reads) ncaught =
     (if signals = [] then (ncaught, None) else evsig_read_loop reads (fold caught signals ncaught))"

fun activate_caught :: "(nat \<Rightarrow> nat \<Rightarrow> world \<Rightarrow> world res) \<Rightarrow> nat list \<Rightarrow> nat \<Rightarrow> world \<Rightarrow> world res" where
  "activate_caught activate [] i w = Inr w"
| "activate_caught activate (n # ns) i w =
     bind_res (if n \<noteq> 0 then activate i n w else Inr w) (activate_caught activate ns (i + 1))"

definition lu_evsig_cb ::
    "(nat \<Rightarrow> nat \<Rightarrow> world \<Rightarrow> world res) \<Rightarrow> (int \<Rightarrow> world \<Rightarrow> world res) \<Rightarrow> (int + c_uint8 list) list \<Rightarrow> world \<Rightarrow> world res" where
  "lu_evsig_cb activate sock_err reads w =
     (let (ncaught, err) = evsig_read_loop reads (replicate (nat NSIG) 0)
      in bind_res (case err of None \<Rightarrow> Inr w | Some e \<Rightarrow> sock_err e w)
           (\<lambda>w1. bind_res (activate_caught activate ncaught 0 (LU_EVBASE_ACQUIRE_LOCK w1))
              (\<lambda>w2. Inr (LU_EVBASE_RELEASE_LOCK w2))))"

section \<open>The epoll backend\<close>

definition INVALID_EPOLL_HANDLE :: int where "INVALID_EPOLL_HANDLE = - 1"
definition INITIAL_NEVENT :: int where "INITIAL_NEVENT = 32"

record epool_op =
  eo_events :: nat
  eo_nevents :: int
  eo_epoll_fd :: int
  eo_timerfd :: int

text \<open>
  \<open>lu_epoll_init\<close>. The result: the world, the handle (\<open>None\<close>: a null pointer) and the
  descriptors that were opened and closed again.
\<close>

definition epoll_use_changelist :: "sysenv \<Rightarrow> world \<Rightarrow> bool" where
  "epoll_use_changelist s w \<longleftrightarrow>
     has_flag (base_flags (w_base w)) LU_EVENT_BASE_FLAG_EPOLL_USE_CHANGELIST \<or>
     (\<not> has_flag (base_flags (w_base w)) LU_EVENT_BASE_FLAG_IGNORE_ENV \<and>
      lu_evutil_getenv (ids s) (environ s) ''EVENT_EPOLL_USE_CHANGELIST'' \<noteq> None)"

definition epoll_timerfd :: "sysenv \<Rightarrow> world \<Rightarrow> int \<times> int list" where
  "epoll_timerfd s w =
     (if has_flag (base_flags (w_base w)) LU_EVENT_BASE_FLAG_PRECISE_TIMER \<and>
         \<not> has_flag (base_flags (w_base w)) LU_EVENT_BASE_FLAG_EPOLL_DISALLOW_TIMERFD \<and>
         monotonic_clock (monotonic_timer (w_base w)) = CLOCK_MONOTONIC
      then (if timerfd_create s \<ge> 0
            then (if epoll_ctl_ok s then (timerfd_create s, []) else (- 1, [timerfd_create s]))
            else (- 1, []))
      else (- 1, []))"

definition lu_epoll_init ::
    "lu_event_op_t \<Rightarrow> lu_event_op_t \<Rightarrow> sysenv \<Rightarrow> env \<Rightarrow> nat option \<Rightarrow> world \<Rightarrow> (world \<times> epool_op option \<times> int list) res" where
  "lu_epoll_init changelist_ops sig_ops s v current_base w =
     (let epoll_fd = (if epoll_create1 s = INVALID_EPOLL_HANDLE then epoll_create s else epoll_create1 s)
      in if epoll_fd = INVALID_EPOLL_HANDLE then Inr (w, None, [])
         else if \<not> alloc_op s then Inr (w, None, [epoll_fd])
         else if \<not> alloc_events s then Inr (w, None, [epoll_fd])
         else
           (let w1 = (if epoll_use_changelist s w
                      then upd_base (\<lambda>b. b\<lparr>evsel_op := Some changelist_ops\<rparr>) w else w);
                (tfd, closed) = epoll_timerfd s w1;
                epoll_op = \<lparr>eo_events = nat INITIAL_NEVENT, eo_nevents = INITIAL_NEVENT,
                            eo_epoll_fd = epoll_fd, eo_timerfd = tfd\<rparr>;
                (w2, r) = sigfd_init s w1
            in if r < 0
               then bind_res (lu_evsig_init s v sig_ops current_base w2)
                      (\<lambda>(w3, _). Inr (w3, Some epoll_op, closed))
               else Inr (w2, Some epoll_op, closed)))"

section \<open>Lock debugging\<close>

record debug_lock =
  dl_signature :: nat
  dl_locktype :: nat
  dl_held_by :: nat
  dl_count :: int

definition lu_evthread_is_debug_lock_held :: "(nat option) \<Rightarrow> debug_lock \<Rightarrow> int" where
  "lu_evthread_is_debug_lock_held me lock =
     (if dl_count lock = 0 then 0
      else (case me of Some t \<Rightarrow> if dl_held_by lock \<noteq> t then 0 else 1 | None \<Rightarrow> 1))"

text \<open>The globals: the identity callback and the two callback tables, as pointers.\<close>

record 'tbl evthread_globals =
  lock_debugging_enabled :: bool
  evthread_id_fn :: "nat option"
  evthread_lock_fns :: 'tbl
  original_lock_fns :: 'tbl

definition lu_evthread_set_id_callback :: "nat option \<Rightarrow> 'tbl evthread_globals \<Rightarrow> 'tbl evthread_globals" where
  "lu_evthread_set_id_callback id_fn g = g\<lparr>evthread_id_fn := id_fn\<rparr>"

definition evthread_get_lock_callbacks :: "'tbl evthread_globals \<Rightarrow> 'tbl" where
  "evthread_get_lock_callbacks g =
     (if lock_debugging_enabled g then original_lock_fns g else evthread_lock_fns g)"

section \<open>Reading the signal pipe\<close>

text \<open>The bytes that \<open>lu_evsig_cb\<close> gets to read: those before the first empty or failing read.\<close>

fun bytes_read :: "(int + c_uint8 list) list \<Rightarrow> c_uint8 list" where
  "bytes_read [] = []"
| "bytes_read (Inl err # reads) = []"
| "bytes_read (Inr signals # reads) = (if signals = [] then [] else signals @ bytes_read reads)"

lemma length_caught [simp]: "length (fold caught signals nc) = length nc"
  by (induction signals arbitrary: nc) (auto simp: caught_def)

lemma count_fold:
  "length nc = nat NSIG \<Longrightarrow> i < nat NSIG \<Longrightarrow>
   fold caught signals nc ! i = nc ! i + length (filter (\<lambda>s. unat s = i) signals)"
proof (induction signals arbitrary: nc)
  case (Cons a signals)
  have "length (caught a nc) = nat NSIG" using Cons.prems by (simp add: caught_def)
  from Cons.IH [OF this Cons.prems(2)] show ?case using Cons.prems by (auto simp: nth_list_update caught_def)
qed simp

lemma read_loop_counts:
  "length nc = nat NSIG \<Longrightarrow> i < nat NSIG \<Longrightarrow>
   fst (evsig_read_loop reads nc) ! i = nc ! i + length (filter (\<lambda>s. unat s = i) (bytes_read reads)) \<and>
   length (fst (evsig_read_loop reads nc)) = nat NSIG"
proof (induction reads nc rule: evsig_read_loop.induct)
  case (3 signals reads ncaught)
  then show ?case by (auto simp: count_fold)
qed auto


end
