(* ===== verification/LuEvBase.thy ===== *)
theory LuEvBase
  imports LuBackend
begin

text \<open>
  The life of an event base (\<open>src/lu_event.c\<close>): the configuration, creating a base, freeing
  it with the events still in it, and one-shot events. What the allocator, the environment and
  the thread layer answer are arguments.
\<close>

section \<open>Configuration\<close>

definition lu_event_config_new :: "bool \<Rightarrow> lu_event_config_t option" where
  "lu_event_config_new calloc_ok =
     (if \<not> calloc_ok then None
      else Some \<lparr>cfg_entries = [], n_cpus_hint = 0, max_dispatch_interval = Timeval (- 1) (- 1),
                 cfg_max_dispatch_callbacks = INT_MAX, cfg_limit_callbacks_after_priority = 1,
                 required_features = 0, cfg_flags = 0\<rparr>)"

text \<open>What is freed: the string of an entry when it has one, then the entry; last the configuration.\<close>

datatype freed = Free_method string | Free_entry | Free_config

definition lu_event_config_entry_free :: "string option \<Rightarrow> freed list" where
  "lu_event_config_entry_free entry = (case entry of None \<Rightarrow> [] | Some m \<Rightarrow> [Free_method m]) @ [Free_entry]"

fun free_entries :: "string option list \<Rightarrow> freed list" where
  "free_entries [] = []"
| "free_entries (e # es) = lu_event_config_entry_free e @ free_entries es"

definition lu_event_config_free :: "lu_event_config_t \<Rightarrow> freed list" where
  "lu_event_config_free cfg = free_entries (cfg_entries cfg) @ [Free_config]"

fun avoided :: "string option list \<Rightarrow> string \<Rightarrow> int" where
  "avoided [] method_name = 0"
| "avoided (e # es) method_name = (if e = Some method_name then 1 else avoided es method_name)"

definition lu_event_config_is_avoided_method :: "lu_event_config_t \<Rightarrow> string \<Rightarrow> int" where
  "lu_event_config_is_avoided_method cfg method_name = avoided (cfg_entries cfg) method_name"

text \<open>The variable \<open>EVENT_NO<METHOD>\<close>, in a buffer of 64 characters.\<close>

definition method_variable :: "string \<Rightarrow> string" where
  "method_variable method_name =
     (let environment = fst (lu_evutil_snprintf True 64 (Some (''EVENT_NO'' @ method_name)))
      in take 8 environment @ List.map LU_EVUTIL_TOUPPER (drop 8 environment))"

definition lu_event_is_method_disabled :: "sysenv \<Rightarrow> string \<Rightarrow> bool" where
  "lu_event_is_method_disabled s method_name =
     (lu_evutil_getenv (ids s) (environ s) (method_variable method_name) \<noteq> None)"

section \<open>Freeing a base\<close>

text \<open>
  The loops of freeing run until a list is empty; \<open>fuel\<close> bounds the rounds of each
  (\<open>Out_of_fuel\<close> when it is reached). \<open>dlist\<close> reads the list in the current world.
\<close>

fun lu_event_delete_all_in_dlist :: "nat \<Rightarrow> (world \<Rightarrow> evptr list) \<Rightarrow> env \<Rightarrow> world \<Rightarrow> (world \<times> int) res" where
  "lu_event_delete_all_in_dlist fuel dlist v w =
     (case dlist w of
        [] \<Rightarrow> Inr (w, 0)
      | ev # _ \<Rightarrow>
          (case fuel of
             0 \<Rightarrow> Inl Out_of_fuel
           | Suc n \<Rightarrow> bind_res (lu_event_del v w ev) (\<lambda>(w', _). lu_event_delete_all_in_dlist n dlist v w')))"

declare lu_event_delete_all_in_dlist.simps [simp del]

definition io_dlist :: "int \<Rightarrow> world \<Rightarrow> evptr list" where
  "io_dlist fd w = (case map_entries (io (w_base w)) ! nat fd of None \<Rightarrow> [] | Some c \<Rightarrow> io_events c)"

definition sig_dlist :: "int \<Rightarrow> world \<Rightarrow> evptr list" where
  "sig_dlist signum w = (case map_entries (sigmap (w_base w)) ! nat signum of None \<Rightarrow> [] | Some c \<Rightarrow> sig_events c)"

definition lu_evmap_signal_delete_all_iter_fn :: "nat \<Rightarrow> env \<Rightarrow> world \<Rightarrow> int \<Rightarrow> (world \<times> int) res" where
  "lu_evmap_signal_delete_all_iter_fn fuel v w signum = lu_event_delete_all_in_dlist fuel (sig_dlist signum) v w"

definition lu_evmap_io_delete_all_iter_fn :: "nat \<Rightarrow> env \<Rightarrow> world \<Rightarrow> int \<Rightarrow> (world \<times> int) res" where
  "lu_evmap_io_delete_all_iter_fn fuel v w fd = lu_event_delete_all_in_dlist fuel (io_dlist fd) v w"

definition lu_evmap_delete_all :: "nat \<Rightarrow> env \<Rightarrow> world \<Rightarrow> world res" where
  "lu_evmap_delete_all fuel v w =
     bind_res (lu_evmap_signal_foreach_signal (lu_evmap_signal_delete_all_iter_fn fuel v) w)
       (\<lambda>(w1, _). bind_res (lu_evmap_io_foreach_fd (lu_evmap_io_delete_all_iter_fn fuel v) w1) (\<lambda>(w2, _). Inr w2))"

text \<open>\<open>while ((ev = lu_min_heap_top_(...)))\<close>; the number counts the events deleted.\<close>

fun free_heap_events :: "nat \<Rightarrow> env \<Rightarrow> world \<Rightarrow> nat \<Rightarrow> (world \<times> nat) res" where
  "free_heap_events fuel v w n_deleted =
     (case lu_min_heap_top (time_heap (w_base w)) of
        None \<Rightarrow> Inr (w, n_deleted)
      | Some ev \<Rightarrow>
          (case fuel of
             0 \<Rightarrow> Inl Out_of_fuel
           | Suc n \<Rightarrow> bind_res (lu_event_del v w ev) (\<lambda>(w', _). free_heap_events n v w' (n_deleted + 1))))"

declare free_heap_events.simps [simp del]

text \<open>\<open>TAILQ_NEXT\<close>: the element after the current one; it is read before the current one goes.\<close>

definition tailq_next :: "evptr list \<Rightarrow> evptr \<Rightarrow> evptr option" where
  "tailq_next q e = (case dropWhile (\<lambda>x. x \<noteq> e) q of _ # y # _ \<Rightarrow> Some y | _ \<Rightarrow> None)"

definition tailq_first :: "evptr list \<Rightarrow> evptr option" where
  "tailq_first q = (case q of [] \<Rightarrow> None | e # _ \<Rightarrow> Some e)"

fun free_ctl_events :: "nat \<Rightarrow> env \<Rightarrow> nat \<Rightarrow> evptr option \<Rightarrow> world \<Rightarrow> nat \<Rightarrow> (world \<times> nat) res" where
  "free_ctl_events fuel v i None w n_deleted = Inr (w, n_deleted)"
| "free_ctl_events 0 v i (Some ev) w n_deleted = Inl Out_of_fuel"
| "free_ctl_events (Suc fuel) v i (Some ev) w n_deleted =
     (let nx = tailq_next (ctl_events (common_timeout_queues (w_base w) ! i)) ev
      in if has_flag (fl w ev) LU_EVLIST_INTERNAL then free_ctl_events fuel v i nx w n_deleted
         else bind_res (lu_event_del v w ev) (\<lambda>(w', _). free_ctl_events fuel v i nx w' (n_deleted + 1)))"

text \<open>\<open>k\<close> counts down the queues that are left, \<open>i\<close> is the index.\<close>

fun free_common_timeouts :: "nat \<Rightarrow> env \<Rightarrow> nat \<Rightarrow> nat \<Rightarrow> world \<Rightarrow> nat \<Rightarrow> (world \<times> nat) res" where
  "free_common_timeouts fuel v 0 i w n_deleted = Inr (w, n_deleted)"
| "free_common_timeouts fuel v (Suc k) i w n_deleted =
     (let timer = ctl_timeout_event (common_timeout_queues (w_base w) ! i)
      in bind_res (lu_event_del v w timer)
           (\<lambda>(w1, _). let w2 = lu_event_debug_unassign w1 timer
              in bind_res (free_ctl_events fuel v i (tailq_first (ctl_events (common_timeout_queues (w_base w2) ! i))) w2 n_deleted)
                   (\<lambda>(w3, n). free_common_timeouts fuel v k (i + 1) w3 n)))"

fun free_active_queue ::
    "nat \<Rightarrow> env \<Rightarrow> (evptr \<Rightarrow> world \<Rightarrow> world) \<Rightarrow> bool \<Rightarrow> nat \<Rightarrow> evptr option \<Rightarrow> world \<Rightarrow> int \<Rightarrow> (world \<times> int) res" where
  "free_active_queue fuel v finalizer rf i None w deleted = Inr (w, deleted)"
| "free_active_queue 0 v finalizer rf i (Some evcb) w deleted = Inl Out_of_fuel"
| "free_active_queue (Suc fuel) v finalizer rf i (Some evcb) w deleted =
     (let nx = tailq_next (activequeues (w_base w) ! i) evcb
      in bind_res (lu_event_base_cancel_single_callback v finalizer w evcb rf)
           (\<lambda>(w', r, _). free_active_queue fuel v finalizer rf i nx w' (deleted + r)))"

fun free_active_queues ::
    "nat \<Rightarrow> env \<Rightarrow> (evptr \<Rightarrow> world \<Rightarrow> world) \<Rightarrow> bool \<Rightarrow> nat \<Rightarrow> nat \<Rightarrow> world \<Rightarrow> int \<Rightarrow> (world \<times> int) res" where
  "free_active_queues fuel v finalizer rf 0 i w deleted = Inr (w, deleted)"
| "free_active_queues fuel v finalizer rf (Suc k) i w deleted =
     bind_res (free_active_queue fuel v finalizer rf i (tailq_first (activequeues (w_base w) ! i)) w deleted)
       (\<lambda>(w', n). free_active_queues fuel v finalizer rf k (i + 1) w' n)"

fun free_later_queue :: "nat \<Rightarrow> env \<Rightarrow> (evptr \<Rightarrow> world \<Rightarrow> world) \<Rightarrow> bool \<Rightarrow> world \<Rightarrow> int \<Rightarrow> (world \<times> int) res" where
  "free_later_queue fuel v finalizer rf w deleted =
     (case active_later_queue (w_base w) of
        [] \<Rightarrow> Inr (w, deleted)
      | evcb # _ \<Rightarrow>
          (case fuel of
             0 \<Rightarrow> Inl Out_of_fuel
           | Suc n \<Rightarrow> bind_res (lu_event_base_cancel_single_callback v finalizer w evcb rf)
                       (\<lambda>(w', r, _). free_later_queue n v finalizer rf w' (deleted + r))))"

declare free_later_queue.simps [simp del]

definition lu_event_base_free_queues ::
    "nat \<Rightarrow> env \<Rightarrow> (evptr \<Rightarrow> world \<Rightarrow> world) \<Rightarrow> world \<Rightarrow> bool \<Rightarrow> (world \<times> int) res" where
  "lu_event_base_free_queues fuel v finalizer w run_finalizers =
     bind_res (free_active_queues fuel v finalizer run_finalizers (nat (nactivequeues (w_base w))) 0 w 0)
       (\<lambda>(w1, deleted). free_later_queue fuel v finalizer run_finalizers w1 deleted)"

fun free_queues_loop :: "nat \<Rightarrow> nat \<Rightarrow> env \<Rightarrow> (evptr \<Rightarrow> world \<Rightarrow> world) \<Rightarrow> bool \<Rightarrow> world \<Rightarrow> world res" where
  "free_queues_loop 0 fuel v finalizer rf w = Inl Out_of_fuel"
| "free_queues_loop (Suc rounds) fuel v finalizer rf w =
     bind_res (lu_event_base_free_queues fuel v finalizer w rf)
       (\<lambda>(w', i). if i = 0 then Inr w' else free_queues_loop rounds fuel v finalizer rf w')"

text \<open>The descriptors of the notification pipe are closed; the second component lists them.\<close>

definition free_notify_fds :: "env \<Rightarrow> world \<Rightarrow> (world \<times> int list) res" where
  "free_notify_fds v w =
     (let (a, b) = th_notify_fd (w_base w)
      in if a \<noteq> - 1
         then bind_res (lu_event_del v w (th_notify (w_base w)))
                (\<lambda>(w1, _). Inr (lu_event_debug_unassign (upd_base (\<lambda>b. b\<lparr>th_notify_fd := (- 1, - 1)\<rparr>) w1) (th_notify (w_base w1)),
                                a # (if b \<noteq> - 1 then [b] else [])))
         else Inr (w, []))"

text \<open>
  \<open>lu_event_base_free_\<close>: the result is the base as it is when its memory is released, the
  new \<open>current_base\<close>, the descriptors closed, and what the maps, the heap and the change list
  release. \<open>base\<close> is the pointer passed; the model has one base, at \<open>w_self\<close>. Without a
  base to free (\<open>None\<close>) nothing happens.
\<close>

record base_freed =
  fr_world :: world
  fr_current_base :: "nat option"
  fr_closed :: "int list"
  fr_io_slots :: "lu_evmap_io_t list"
  fr_sig_slots :: "lu_evmap_signal_t list"
  fr_heap :: "evptr list option"
  fr_changes :: "lu_event_change_t list option"

definition free_fields :: "nat option \<Rightarrow> int list \<Rightarrow> world \<Rightarrow> base_freed" where
  "free_fields current_base closed w =
     (let b = w_base w;
          (io', io_slots) = lu_evmap_io_clear (io b);
          (sig', sig_slots) = lu_evmap_signal_clear (sigmap b);
          (cl', chs) = lu_event_changelist_freemem (changelist b)
      in \<lparr>fr_world = upd_base (\<lambda>b. b\<lparr>activequeues := [], io := io', sigmap := sig', changelist := cl',
                       watchers := replicate EVWATCH_MAX []\<rparr>) w,
          fr_current_base = (if current_base = Some (w_self w) then None else current_base),
          fr_closed = closed, fr_io_slots = io_slots, fr_sig_slots = sig_slots,
          fr_heap = lu_min_heap_destructor (time_heap b), fr_changes = chs\<rparr>)"

definition lu_event_base_free_ptr ::
    "nat \<Rightarrow> env \<Rightarrow> (evptr \<Rightarrow> world \<Rightarrow> world) \<Rightarrow> nat option \<Rightarrow> world \<Rightarrow> nat option \<Rightarrow> bool \<Rightarrow> base_freed option res" where
  "lu_event_base_free_ptr fuel v finalizer current_base w base run_finalizers =
     (if base = None \<and> current_base = None then Inr None
      else bind_res (free_notify_fds v w)
        (\<lambda>(w1, closed). bind_res (lu_evmap_delete_all fuel v w1)
        (\<lambda>w2. bind_res (free_heap_events fuel v w2 0)
        (\<lambda>(w3, n3). bind_res (free_common_timeouts fuel v (nat (n_common_timeouts (w_base w3))) 0 w3 n3)
        (\<lambda>(w4, n4). bind_res (free_queues_loop fuel fuel v finalizer run_finalizers w4)
        (\<lambda>w5. let w6 = upd_base (\<lambda>b. b\<lparr>once_events := []\<rparr>) w5;
                  w7 = (case evsel_op (w_base w6) of
                          Some evsel \<Rightarrow> if op_dealloc evsel then lu_epoll_dealloc w6 else w6 | None \<Rightarrow> w6)
              in lu_assert (\<forall>q \<in> set (take (nat (nactivequeues (w_base w7))) (activequeues (w_base w7))). q = [])
                (lu_assert (lu_min_heap_empty (time_heap (w_base w7)))
                  (Inr (Some (free_fields current_base closed w7))))))))))"

definition lu_event_base_free ::
    "nat \<Rightarrow> env \<Rightarrow> (evptr \<Rightarrow> world \<Rightarrow> world) \<Rightarrow> nat option \<Rightarrow> world \<Rightarrow> nat option \<Rightarrow> base_freed option res" where
  "lu_event_base_free fuel v finalizer current_base w base =
     lu_event_base_free_ptr fuel v finalizer current_base w base True"

section \<open>Creating a base\<close>

text \<open>
  The thread layer: whether locking functions are set, what the allocators of locks and
  conditions return (\<open>False\<close>: null). \<open>make_base_notifiable_nolock\<close> is declared in the sources and
  defined nowhere.
\<close>

record threads =
  locking_enabled :: bool
  alloc_lock :: bool
  alloc_cond :: bool
  make_base_notifiable_nolock :: "world \<Rightarrow> (world \<times> int) res"

definition lu_evthread_make_base_notifiable :: "threads \<Rightarrow> world \<Rightarrow> (world \<times> int) res" where
  "lu_evthread_make_base_notifiable t w =
     bind_res (make_base_notifiable_nolock t (LU_EVBASE_ACQUIRE_LOCK w)) (\<lambda>(w', r). Inr (LU_EVBASE_RELEASE_LOCK w', r))"

text \<open>\<open>mm_calloc\<close> of a base: \<open>self\<close> is its address, \<open>sig_addr\<close> and \<open>notify_addr\<close> those of the
  two events it embeds.\<close>

definition zero_base :: "evptr \<Rightarrow> evptr \<Rightarrow> lu_event_base_t" where
  "zero_base sig_addr notify_addr =
     \<lparr>evsel_op = None, evbase = None, changelist = lu_event_changelist_init, evsigsel_op = None,
      sig_info = \<lparr>ev_signal = sig_addr, ev_signal_pair = (0, 0), ev_signal_added = 0, ev_n_signals_added = 0,
                  sh_old = None, sh_old_max = 0\<rparr>,
      virtual_event_count = 0, virtual_event_count_max = 0, event_count = 0, event_count_max = 0,
      event_count_active = 0, event_count_active_max = 0, event_continue = 0, event_running_priority = 0,
      running_loop = 0, activequeues = [], nactivequeues = 0, active_later_queue = [],
      common_timeout_queues = [], n_common_timeouts = 0, io = \<lparr>map_entries = [], nentries = 0\<rparr>,
      sigmap = \<lparr>map_entries = [], nentries = 0\<rparr>, time_heap = \<lparr>elements = [], hn = 0, capacity = 0\<rparr>,
      tv_cache = Timeval 0 0, monotonic_timer = zero_timer, th_owner_id = 0, th_base_lock = None,
      current_event_cond = None, current_event_waiters = 0, current_event = None, base_flags = 0,
      max_dispatch_time = Timeval 0 0, max_dispatch_callbacks = 0, limit_callbacks_after_priority = 0,
      is_notify_pending = 0, th_notify_fd = (0, 0), th_notify = notify_addr, th_notify_fn = None,
      once_events = [], watchers = replicate EVWATCH_MAX [], io_calls = [], sig_calls = []\<rparr>"

definition zero_world :: "nat \<Rightarrow> evptr \<Rightarrow> evptr \<Rightarrow> estore \<Rightarrow> (nat \<Rightarrow> c_short) \<Rightarrow> world" where
  "zero_world self sig_addr notify_addr evs cells =
     \<lparr>w_evs = evs(sig_addr := zero_event, notify_addr := zero_event), w_base = zero_base sig_addr notify_addr,
      w_self = self, w_cells = cells\<rparr>"

text \<open>The clock: the flag of the base, the monotonic timer, a first look at the time.\<close>

definition base_new_clock :: "sysenv \<Rightarrow> env \<Rightarrow> bool \<Rightarrow> lu_event_config_t option \<Rightarrow> world \<Rightarrow> world" where
  "base_new_clock s v should_check_environment cfg w =
     (let precise_time = (case cfg of None \<Rightarrow> False | Some c \<Rightarrow> has_flag (cfg_flags c) LU_EVENT_BASE_FLAG_PRECISE_TIMER);
          env_time = (should_check_environment \<and> \<not> precise_time \<and>
                      lu_evutil_getenv (ids s) (environ s) ''LU_EVENT_PRECISE_TIMER'' \<noteq> None);
          w1 = (if env_time then upd_base (\<lambda>b. b\<lparr>base_flags := base_flags b OR LU_EVENT_BASE_FLAG_PRECISE_TIMER\<rparr>) w else w);
          flags = (if precise_time \<or> env_time then LU_EVENT_MONOT_PRECISE else 0);
          (m, _) = lu_evutil_configure_monotonic_time (\<lambda>c. clock_gettime v c \<noteq> None) flags
      in fst (gettime v (upd_base (\<lambda>b. b\<lparr>monotonic_timer := m\<rparr>) w1)))"

definition base_new_fields :: "lu_event_config_t option \<Rightarrow> world \<Rightarrow> world" where
  "base_new_fields cfg = upd_base (\<lambda>b.
     let limit = (case cfg of None \<Rightarrow> 1 | Some c \<Rightarrow> cfg_limit_callbacks_after_priority c);
         dispatch_time = (case cfg of None \<Rightarrow> Timeval (- 1) (tv_usec (max_dispatch_time b)) | Some c \<Rightarrow> max_dispatch_interval c);
         callbacks = (case cfg of None \<Rightarrow> INT_MAX
                      | Some c \<Rightarrow> if cfg_max_dispatch_callbacks c \<ge> 0 then cfg_max_dispatch_callbacks c else INT_MAX)
     in b\<lparr>time_heap := lu_min_heap_constructor, sig_info := (sig_info b)\<lparr>ev_signal_pair := (- 1, - 1)\<rparr>,
          th_notify_fd := (- 1, - 1), active_later_queue := [], io := lu_evmap_io_initmap,
          sigmap := lu_evmap_siganl_initmap, changelist := lu_event_changelist_init, evbase := None,
          max_dispatch_time := dispatch_time, max_dispatch_callbacks := callbacks,
          limit_callbacks_after_priority :=
            (if callbacks = INT_MAX \<and> tv_sec dispatch_time = - 1 then INT_MAX else limit)\<rparr>)"

text \<open>
  The choice of the backend. \<open>eventops\<close> pairs every table with its \<open>init\<close>, which leaves the new
  world and the \<open>evbase\<close> pointer; the array has no null at its end. Reading the slot after the last
  one is a fault when the loop still depends on it, that is when no backend was found.
\<close>

type_synonym backend = "lu_event_op_t \<times> (world \<Rightarrow> (world \<times> nat option) res)"

definition backend_allowed :: "sysenv \<Rightarrow> bool \<Rightarrow> lu_event_config_t option \<Rightarrow> lu_event_op_t \<Rightarrow> bool" where
  "backend_allowed s should_check_environment cfg evop \<longleftrightarrow>
     (case cfg of None \<Rightarrow> True
      | Some c \<Rightarrow> lu_event_config_is_avoided_method c (op_name evop) = 0 \<and>
                 features evop AND required_features c = required_features c) \<and>
     \<not> (should_check_environment \<and> lu_event_is_method_disabled s (op_name evop))"

fun select_backend :: "backend list \<Rightarrow> sysenv \<Rightarrow> bool \<Rightarrow> lu_event_config_t option \<Rightarrow> world \<Rightarrow> world res" where
  "select_backend [] s check cfg w = (if evbase (w_base w) \<noteq> None then Inr w else Inl Out_of_bounds)"
| "select_backend ((evop, init) # ops) s check cfg w =
     (if evbase (w_base w) \<noteq> None then Inr w
      else if \<not> backend_allowed s check cfg evop then select_backend ops s check cfg w
      else bind_res (init (upd_base (\<lambda>b. b\<lparr>evsel_op := Some evop\<rparr>) w))
             (\<lambda>(w', p). select_backend ops s check cfg (upd_base (\<lambda>b. b\<lparr>evbase := p\<rparr>) w')))"

text \<open>The steps after the choice: priorities, thread support, watchers. \<open>None\<close>: the base was freed again.\<close>

definition base_new_finish ::
    "nat \<Rightarrow> env \<Rightarrow> threads \<Rightarrow> bool \<Rightarrow> (evptr \<Rightarrow> world \<Rightarrow> world) \<Rightarrow> nat option \<Rightarrow> lu_event_config_t option \<Rightarrow> world \<Rightarrow> world option res" where
  "base_new_finish fuel v t calloc_queues_ok finalizer current_base cfg w =
     (let give_up = (\<lambda>w. bind_res (lu_event_base_free fuel v finalizer current_base w (Some (w_self w))) (\<lambda>_. Inr None));
          (w1, r1) = lu_event_base_priority_init calloc_queues_ok w 1
      in if r1 < 0 then give_up w1
         else if locking_enabled t \<and>
                 \<not> (case cfg of None \<Rightarrow> False | Some c \<Rightarrow> has_flag (cfg_flags c) LU_EVENT_BASE_FLAG_NOLOCK)
         then bind_res (lu_evthread_make_base_notifiable t
                  (upd_base (\<lambda>b. b\<lparr>th_base_lock := (if alloc_lock t then Some 0 else None),
                                   current_event_cond := (if alloc_cond t then Some 0 else None)\<rparr>) w1))
                (\<lambda>(w2, r2). if r2 < 0 then give_up w2
                   else Inr (Some (upd_base (\<lambda>b. b\<lparr>watchers := replicate EVWATCH_MAX []\<rparr>) w2)))
         else Inr (Some (upd_base (\<lambda>b. b\<lparr>watchers := replicate EVWATCH_MAX []\<rparr>) w1)))"

text \<open>
  \<open>lu_event_base_new_with_config\<close>, from the zeroed base on (\<open>calloc_ok\<close> says whether there is one).
  The code writes the flags of the new base into the configuration, not the other way round.
\<close>

definition lu_event_base_new_with_config ::
    "nat \<Rightarrow> sysenv \<Rightarrow> env \<Rightarrow> threads \<Rightarrow> backend list \<Rightarrow> bool \<Rightarrow> bool \<Rightarrow> (evptr \<Rightarrow> world \<Rightarrow> world) \<Rightarrow> nat option \<Rightarrow>
       lu_event_config_t option \<Rightarrow> world \<Rightarrow> (world option \<times> lu_event_config_t option) res" where
  "lu_event_base_new_with_config fuel s v t ops calloc_ok calloc_queues_ok finalizer current_base cfg0 w =
     (if \<not> calloc_ok then Inr (None, cfg0)
      else
        (let cfg = map_option (\<lambda>c. c\<lparr>cfg_flags := base_flags (w_base w)\<rparr>) cfg0;
             check = \<not> (case cfg of None \<Rightarrow> False | Some c \<Rightarrow> has_flag (cfg_flags c) LU_EVENT_BASE_FLAG_IGNORE_ENV);
             w1 = base_new_fields cfg (base_new_clock s v check cfg w)
         in bind_res (select_backend ops s check cfg w1)
              (\<lambda>w2. if evbase (w_base w2) = None
                 then bind_res (lu_event_base_free fuel v finalizer current_base
                        (upd_base (\<lambda>b. b\<lparr>evsel_op := None\<rparr>) w2) (Some (w_self w2))) (\<lambda>_. Inr (None, cfg))
                 else bind_res (base_new_finish fuel v t calloc_queues_ok finalizer current_base cfg w2)
                        (\<lambda>r. Inr (r, cfg)))))"

text \<open>The one entry of \<open>eventops\<close>; \<open>handle\<close> is the address of the epoll handle when it is allocated.\<close>

definition eventops :: "lu_event_op_t \<Rightarrow> lu_event_op_t \<Rightarrow> sysenv \<Rightarrow> env \<Rightarrow> nat option \<Rightarrow> nat \<Rightarrow> backend list" where
  "eventops changelist_ops sig_ops s v current_base handle =
     [(epool_ops, \<lambda>w. bind_res (lu_epoll_init changelist_ops sig_ops s v current_base w)
                        (\<lambda>(w', op, _). Inr (w', map_option (\<lambda>_. handle) op)))]"

definition lu_event_base_new ::
    "nat \<Rightarrow> sysenv \<Rightarrow> env \<Rightarrow> threads \<Rightarrow> backend list \<Rightarrow> bool \<Rightarrow> bool \<Rightarrow> bool \<Rightarrow> (evptr \<Rightarrow> world \<Rightarrow> world) \<Rightarrow> nat option \<Rightarrow>
       world \<Rightarrow> (world option \<times> freed list) res" where
  "lu_event_base_new fuel s v t ops cfg_calloc_ok calloc_ok calloc_queues_ok finalizer current_base w =
     (case lu_event_config_new cfg_calloc_ok of
        None \<Rightarrow> Inr (None, [])
      | Some cfg \<Rightarrow>
          bind_res (lu_event_base_new_with_config fuel s v t ops calloc_ok calloc_queues_ok finalizer current_base (Some cfg) w)
            (\<lambda>(r, cfg'). Inr (r, case cfg' of None \<Rightarrow> [] | Some c \<Rightarrow> lu_event_config_free c)))"

section \<open>One-shot events\<close>

text \<open>\<open>struct lu_event_once_s\<close>: the callback and its argument; the event it embeds is the event at the
  same address of the store. \<open>once\<close> is the memory of these structures.\<close>

record lu_event_once_t =
  once_cb :: nat
  once_arg :: nat

definition lu_event_once_cb_ptr :: nat where "lu_event_once_cb_ptr = 2"

definition ONCE_IO :: c_short where "ONCE_IO = LU_EV_READ OR LU_EV_WRITE OR LU_EV_CLOSED"

text \<open>\<open>eonce\<close> is the address \<open>mm_calloc\<close> gives (\<open>None\<close>: it fails).\<close>

definition lu_event_base_once ::
    "env \<Rightarrow> (int \<Rightarrow> bool option) \<Rightarrow> nat option \<Rightarrow> evptr option \<Rightarrow> (evptr \<rightharpoonup> lu_event_once_t) \<Rightarrow> world \<Rightarrow> nat option \<Rightarrow>
       int \<Rightarrow> c_short \<Rightarrow> nat \<Rightarrow> nat \<Rightarrow> timeval option \<Rightarrow> (world \<times> (evptr \<rightharpoonup> lu_event_once_t) \<times> int) res" where
  "lu_event_base_once v fcntl_nb current_base alloc once w base fd events callback arg tv =
     (if base = None then Inr (w, once, - 1)
      else if has_flag events (LU_EV_SIGNAL OR LU_EV_PERSIST) then Inr (w, once, - 1)
      else (case alloc of
        None \<Rightarrow> Inr (w, once, - 1)
      | Some eonce \<Rightarrow>
          let w1 = upd_ev (\<lambda>_. zero_event) eonce w;
              once1 = once(eonce \<mapsto> \<lparr>once_cb = callback, once_arg = arg\<rparr>);
              timer = (events AND (LU_EV_TIMEOUT OR LU_EV_SIGNAL OR LU_EV_READ OR LU_EV_WRITE OR LU_EV_CLOSED) = LU_EV_TIMEOUT);
              activate = (timer \<and> (case tv of None \<Rightarrow> True | Some t \<Rightarrow> \<not> lu_evutil_timerisset t))
          in if \<not> timer \<and> \<not> has_flag events ONCE_IO then Inr (w1, once, - 1)
             else bind_res
               (if timer then lu_event_assign v fcntl_nb current_base w1 eonce base (- 1) 0 lu_event_once_cb_ptr eonce False
                else lu_event_assign v fcntl_nb current_base w1 eonce base fd (events AND ONCE_IO) lu_event_once_cb_ptr eonce False)
               (\<lambda>(w2, _). bind_res
                 (let w3 = LU_EVBASE_ACQUIRE_LOCK w2
                  in if activate then bind_res (lu_event_active_nolock v w3 eonce LU_EV_TIMEOUT 1) (\<lambda>w4. Inr (w4, 0))
                     else lu_event_add_nolock 2 v w3 eonce tv False)
                 (\<lambda>(w5, res). if res \<noteq> 0 then Inr (w5, once, res)
                    else Inr (LU_EVBASE_RELEASE_LOCK
                           (upd_base (\<lambda>b. b\<lparr>once_events := eonce # once_events b\<rparr>) w5), once1, 0)))))"

definition lu_event_once ::
    "env \<Rightarrow> (int \<Rightarrow> bool option) \<Rightarrow> nat option \<Rightarrow> evptr option \<Rightarrow> (evptr \<rightharpoonup> lu_event_once_t) \<Rightarrow> world \<Rightarrow>
       int \<Rightarrow> c_short \<Rightarrow> nat \<Rightarrow> nat \<Rightarrow> timeval option \<Rightarrow> (world \<times> (evptr \<rightharpoonup> lu_event_once_t) \<times> int) res" where
  "lu_event_once v fcntl_nb current_base alloc once w fd events callback arg tv =
     lu_event_base_once v fcntl_nb current_base alloc once w current_base fd events callback arg tv"

text \<open>\<open>run\<close> is the user's callback: it gets the callback, the descriptor, the events and the argument.\<close>

definition lu_event_once_cb ::
    "(nat \<Rightarrow> int \<Rightarrow> c_short \<Rightarrow> nat \<Rightarrow> world \<Rightarrow> world) \<Rightarrow> (evptr \<rightharpoonup> lu_event_once_t) \<Rightarrow> world \<Rightarrow> int \<Rightarrow> c_short \<Rightarrow> evptr \<Rightarrow>
       (world \<times> (evptr \<rightharpoonup> lu_event_once_t)) res" where
  "lu_event_once_cb run once w fd events eonce =
     (case once eonce of
        None \<Rightarrow> Inl Null_dereference
      | Some o1 \<Rightarrow>
          let w1 = run (once_cb o1) fd events (once_arg o1) w;
              w2 = LU_EVBASE_RELEASE_LOCK (upd_base (\<lambda>b. b\<lparr>once_events := remove1 eonce (once_events b)\<rparr>)
                     (LU_EVBASE_ACQUIRE_LOCK w1))
          in Inr (lu_event_debug_unassign w2 eonce, once(eonce := None)))"

end
