(* ===== verification/LuEventSys.thy ===== *)
theory LuEventSys
  imports LuEventOps LuEvBase
begin

text \<open>
  The event system as a whole: from a base that \<open>lu_event_base_new\<close> has just made, a program
  assigns events and then adds, deletes, activates and prioritises them in any order. The
  invariant of the event core holds in every state reached this way; the laws that a client
  of the library relies on follow from it.
\<close>

section \<open>Assigning a new event\<close>

lemma create_event_inv:
  assumes inv: "core_inv D w" and e: "e \<notin> D"
    and x: "off_lists (ev_flags x)" "clr_flag (ev_flags x) LU_EVLIST_ALL = 0" "ev_base x \<noteq> None"
      "int (unat (ev_pri x)) < nactivequeues (w_base w)"
  shows "core_inv (insert e D) (upd_ev (\<lambda>_. x) e w)"
proof -
  let ?w = "upd_ev (\<lambda>_. x) e w" and ?D = "insert e D"
  have evs: "ev_of ?w y = (if y = e then x else ev_of w y)" for y by simp
  have fin: "finite D" using inv by (simp add: core_inv_def static_inv_def)
  have st: "static_inv ?D ?w"
    using inv x(1-3) e unfolding core_inv_def static_inv_def evs by (auto simp: off_lists_def)
  have qu: "queue_inv ?D ?w"
  proof -
    have q: "queues_ok D (fl w) (\<lambda>e. unat (ev_pri (ev_of w e))) (activequeues (w_base w)) (active_later_queue (w_base w))"
      and nq: "nactivequeues (w_base w) = int (length (activequeues (w_base w)))"
      using inv by (simp_all add: core_inv_def queue_inv_def)
    have pr: "unat (ev_pri x) < length (activequeues (w_base w))"
      using x(4) unfolding nq by (simp only: of_nat_less_iff)
    have a: "y \<in> ?D \<and> has_flag (fl ?w y) LU_EVLIST_ACTIVE \<and> unat (ev_pri (ev_of ?w y)) = p \<longleftrightarrow>
        y \<in> D \<and> has_flag (fl w y) LU_EVLIST_ACTIVE \<and> unat (ev_pri (ev_of w y)) = p"
      "y \<in> ?D \<and> has_flag (fl ?w y) LU_EVLIST_ACTIVE_LATER \<longleftrightarrow> y \<in> D \<and> has_flag (fl w y) LU_EVLIST_ACTIVE_LATER" for y p
      unfolding evs using x(1) e by (auto simp: off_lists_def)
    have b: "\<forall>y\<in>?D. unat (ev_pri (ev_of ?w y)) < length (activequeues (w_base w))"
      "\<forall>y\<in>?D. \<not> (has_flag (fl ?w y) LU_EVLIST_ACTIVE \<and> has_flag (fl ?w y) LU_EVLIST_ACTIVE_LATER)"
      unfolding evs using q pr x(1) by (auto simp: queues_ok_def off_lists_def)
    have "queues_ok ?D (fl ?w) (\<lambda>e. unat (ev_pri (ev_of ?w e))) (activequeues (w_base w)) (active_later_queue (w_base w))"
      unfolding queues_ok_def a using q b unfolding queues_ok_def by blast
    then show ?thesis using inv by (simp add: core_inv_def queue_inv_def)
  qed
  have co: "count_inv ?D ?w"
  proof -
    have "(\<Sum>y\<in>?D. flag_weight (fl ?w y)) = flag_weight (fl ?w e) + (\<Sum>y\<in>D. flag_weight (fl ?w y))"
      using fin e by (simp del: upd_ev_simps)
    also have "flag_weight (fl ?w e) = 0" unfolding evs using x(1) by (simp add: off_lists_weight)
    also have "(\<Sum>y\<in>D. flag_weight (fl ?w y)) = (\<Sum>y\<in>D. flag_weight (fl w y))"
      unfolding evs using e by (intro sum.cong) auto
    finally show ?thesis using inv by (simp add: core_inv_def count_inv_def)
  qed
  have ma: "map_inv ?D ?w"
  proof -
    have m: "map_inv D w" using inv by (simp add: core_inv_def)
    have s: "io_set ?D ?w = io_set D w" "sig_set ?D ?w = sig_set D w"
      using e x(1) by (auto simp: fun_eq_iff io_set_def sig_set_def off_lists_def)
    have "slots_ok (io_set D w) (io_slot_ok (\<lambda>y. ev_events (ev_of ?w y))) (io (w_base w))"
      using m e unfolding map_inv_def io_inv_def
      by (elim conjE slots_ok_evs) (auto simp: io_set_def)
    moreover have "\<forall>y\<in>?D. has_flag (fl ?w y) LU_EVLIST_INSERTED \<and> \<not> is_io (ev_of ?w y) \<longrightarrow> 0 \<le> ev_fd (ev_of ?w y)"
      using m x(1) unfolding evs map_inv_def by (auto simp: off_lists_def)
    ultimately show ?thesis using m unfolding map_inv_def io_inv_def s by simp
  qed
  show ?thesis using st qu co ma by (simp add: core_inv_def)
qed

text \<open>A state of the system: the events assigned so far, and the world.\<close>

inductive sys_step :: "evptr set \<times> world \<Rightarrow> evptr set \<times> world \<Rightarrow> bool" where
  create: "e \<notin> D \<Longrightarrow> base \<noteq> None \<Longrightarrow>
    lu_event_assign v fc cb w e base fd events cbk arg self = Inr (w', 0) \<Longrightarrow> sys_step (D, w) (insert e D, w')"
| operate: "core_step D w w' \<Longrightarrow> sys_step (D, w) (D, w')"

inductive_cases sys_stepE: "sys_step (D, w) s"

lemma assign_pri:
  assumes "core_inv D w" "ev_pri x = of_int (nactivequeues (w_base w) div 2)"
  shows "int (unat (ev_pri x)) < nactivequeues (w_base w)"
proof -
  have n: "0 < nactivequeues (w_base w)" "nactivequeues (w_base w) \<le> 256"
    using assms(1) by (simp_all add: core_inv_def static_inv_def)
  have "int (unat (of_int (nactivequeues (w_base w) div 2) :: c_uint8)) = nactivequeues (w_base w) div 2"
    by (rule unat_of_int) (use n in auto)
  then show ?thesis unfolding assms(2) using n by linarith
qed

lemma sys_step_inv: "sys_step s s' \<Longrightarrow> core_inv (fst s) (snd s) \<Longrightarrow> core_inv (fst s') (snd s')"
proof (induction rule: sys_step.induct)
  case (create e D base v fc cb w fd events cbk arg self w')
  obtain x where x: "w' = upd_ev (\<lambda>_. x) e w" "ev_flags x = LU_EVLIST_INIT" "ev_base x \<noteq> None"
    "ev_pri x = of_int (nactivequeues (w_base w) div 2)"
    using assign_effect [OF create(3)] create(2) by metis
  have "core_inv D w" using create.prems by simp
  from create_event_inv [OF this create(1), of x] assign_pri [OF this x(4)] x
  show ?case by (simp add: init_off_lists)
next
  case (operate D w w')
  then show ?case using core_step_inv by simp
qed

lemma sys_reach_inv: "sys_step\<^sup>*\<^sup>* s s' \<Longrightarrow> core_inv (fst s) (snd s) \<Longrightarrow> core_inv (fst s') (snd s')"
  by (induction rule: rtranclp_induct) (auto intro: sys_step_inv)

text \<open>Everything below is about the states that a program reaches from a new base.\<close>

definition sys_reachable :: "world \<Rightarrow> evptr set \<Rightarrow> world \<Rightarrow> bool" where
  "sys_reachable w0 D w \<longleftrightarrow> fresh_world {} w0 \<and> sys_step\<^sup>*\<^sup>* ({}, w0) (D, w)"

lemma sys_reachable_inv: "sys_reachable w0 D w \<Longrightarrow> core_inv D w"
  using sys_reach_inv [of "({}, w0)" "(D, w)"] fresh_inv by (auto simp: sys_reachable_def)

lemma sys_reachable_step: "sys_reachable w0 D w \<Longrightarrow> sys_step (D, w) (D', w') \<Longrightarrow> sys_reachable w0 D' w'"
  unfolding sys_reachable_def by (meson rtranclp.rtrancl_into_rtrancl)

end
