(* ===== verification/LuBaseNew.thy ===== *)
theory LuBaseNew
  imports LuEventSys
begin

text \<open>
  What \<open>lu_event_base_new\<close> does when something fails: an allocation, the epoll descriptor, the signal pipe
  (\<open>lu_event.c\<close>, \<open>lu_epool.c\<close>, \<open>lu_evsignal.c\<close>). The environment has no variable that the library looks at.
\<close>

lemma bind_res_assoc: "bind_res (bind_res r f) g = bind_res r (\<lambda>x. bind_res (f x) g)"
  by (cases r) simp_all

section \<open>Up to the choice of the backend\<close>

definition plain_env :: "sysenv \<Rightarrow> bool" where
  "plain_env s \<longleftrightarrow> environ s = (\<lambda>_. None)"

lemma getenv_plain: "plain_env s \<Longrightarrow> lu_evutil_getenv (ids s) (environ s) x = None"
  by (simp add: plain_env_def lu_evutil_getenv_def)

text \<open>The base before the backend is chosen; \<open>m\<close> is its monotonic timer.\<close>

definition prepared_base :: "evptr \<Rightarrow> evptr \<Rightarrow> lu_evutil_monotonic_timer_t \<Rightarrow> lu_event_base_t" where
  "prepared_base sa na m =
     (zero_base sa na)\<lparr>monotonic_timer := m, sig_info := (sig_info (zero_base sa na))\<lparr>ev_signal_pair := (- 1, - 1)\<rparr>,
        th_notify_fd := (- 1, - 1), max_dispatch_time := Timeval (- 1) (- 1), max_dispatch_callbacks := INT_MAX,
        limit_callbacks_after_priority := INT_MAX\<rparr>"

lemma base_new_prepared:
  assumes s: "plain_env s" and b: "w_base w = zero_base sa na"
  obtains c w1 m where "cfg_entries c = []" "required_features c = 0" "cfg_flags c = 0"
    "w_base w1 = prepared_base sa na m" "w_self w1 = w_self w"
    "\<And>ops q. lu_event_base_new fuel s v t ops True True q fin cb w =
       bind_res (select_backend ops s True (Some c) w1)
         (\<lambda>w2. if evbase (w_base w2) = None
               then bind_res (lu_event_base_free fuel v fin cb (upd_base (\<lambda>b. b\<lparr>evsel_op := None\<rparr>) w2) (Some (w_self w2)))
                      (\<lambda>_. Inr (None, [Free_config]))
               else bind_res (base_new_finish fuel v t q fin cb (Some c) w2) (\<lambda>r. Inr (r, [Free_config])))"
proof -
  obtain c where c: "lu_event_config_new True = Some c" "cfg_entries c = []" "required_features c = 0" "cfg_flags c = 0"
    "max_dispatch_interval c = Timeval (- 1) (- 1)" "cfg_max_dispatch_callbacks c = INT_MAX"
    by (simp add: lu_event_config_new_def)
  then have k: "c\<lparr>cfg_flags := 0\<rparr> = c" by simp
  obtain m where clock: "w_base (base_new_clock s v True (Some c) w) = (zero_base sa na)\<lparr>monotonic_timer := m\<rparr>"
    "w_self (base_new_clock s v True (Some c) w) = w_self w"
    using getenv_plain [OF s] b c(4)
    by (simp add: base_new_clock_def gettime_def has_flag_def Let_def case_prod_unfold zero_base_def)
  let ?w1 = "base_new_fields (Some c) (base_new_clock s v True (Some c) w)"
  have w1: "w_base ?w1 = prepared_base sa na m" "w_self ?w1 = w_self w"
    using clock c by (simp_all add: base_new_fields_def prepared_base_def Let_def INT_MAX_def zero_base_def lu_min_heap_constructor_def
        lu_evmap_io_initmap_def lu_evmap_siganl_initmap_def lu_event_changelist_init_def)
  have f: "free_entries (cfg_entries c) = []" using c(2) by simp
  have "lu_event_base_new fuel s v t ops True True q fin cb w =
       bind_res (select_backend ops s True (Some c) ?w1)
         (\<lambda>w2. if evbase (w_base w2) = None
               then bind_res (lu_event_base_free fuel v fin cb (upd_base (\<lambda>b. b\<lparr>evsel_op := None\<rparr>) w2) (Some (w_self w2)))
                      (\<lambda>_. Inr (None, [Free_config]))
               else bind_res (base_new_finish fuel v t q fin cb (Some c) w2) (\<lambda>r. Inr (r, [Free_config])))" for ops q
  proof -
    have "base_flags (w_base w) = 0" using b by (simp add: zero_base_def)
    then have "map_option (\<lambda>c. c\<lparr>cfg_flags := base_flags (w_base w)\<rparr>) (Some c) = Some c" using k by simp
    then have "lu_event_base_new fuel s v t ops True True q fin cb w =
      bind_res (bind_res (select_backend ops s True (Some c) ?w1)
        (\<lambda>w2. if evbase (w_base w2) = None
               then bind_res (lu_event_base_free fuel v fin cb (upd_base (\<lambda>b. b\<lparr>evsel_op := None\<rparr>) w2) (Some (w_self w2)))
                      (\<lambda>_. Inr (None, Some c))
               else bind_res (base_new_finish fuel v t q fin cb (Some c) w2) (\<lambda>r. Inr (r, Some c))))
        (\<lambda>(r, cfg'). Inr (r, case cfg' of None \<Rightarrow> [] | Some c \<Rightarrow> lu_event_config_free c))"
      using c(1,4) by (simp add: lu_event_base_new_def lu_event_base_new_with_config_def has_flag_def Let_def)
    moreover have "lu_event_config_free c = [Free_config]" using f by (simp add: lu_event_config_free_def)
    ultimately show ?thesis by (simp add: bind_res_assoc if_distrib [of "\<lambda>r. bind_res r _"] cong: if_cong)
  qed
  then show thesis using that c(2,3,4) w1 by blast
qed

section \<open>The epoll backend\<close>

definition epoll_refused :: "sysenv \<Rightarrow> bool" where
  "epoll_refused s \<longleftrightarrow>
     (epoll_create1 s = INVALID_EPOLL_HANDLE \<and> epoll_create s = INVALID_EPOLL_HANDLE) \<or> \<not> alloc_op s \<or> \<not> alloc_events s"

lemma epoll_init_refused:
  "epoll_refused s \<Longrightarrow> \<exists>closed. lu_epoll_init ch sig_ops s v cb w = Inr (w, None, closed)"
  by (auto simp: epoll_refused_def lu_epoll_init_def Let_def)

text \<open>Whether the signal pipe can be set up.\<close>

definition pipe_works :: "sysenv \<Rightarrow> bool" where
  "pipe_works s \<longleftrightarrow> snd (snd (lu_evutil_make_internal_pipe (pipe_fds s) (fcntl_setfl_ok s) (fcntl_setfd_ok s))) \<noteq> - 1"

lemma evsig_init_outcome:
  assumes "\<not> event_debug_mode_on v"
  shows "\<exists>w' si r. lu_evsig_init s v sig_ops cb w = Inr (w', r) \<and> w_self w' = w_self w \<and>
    w_base w' = (w_base w)\<lparr>sig_info := si, evsigsel_op := (if pipe_works s then Some sig_ops else evsigsel_op (w_base w))\<rparr>"
proof -
  obtain fds closed r where p: "lu_evutil_make_internal_pipe (pipe_fds s) (fcntl_setfl_ok s) (fcntl_setfd_ok s) = (fds, closed, r)"
    by (metis prod_cases3)
  have u: "b = b\<lparr>sig_info := sig_info b, evsigsel_op := evsigsel_op b\<rparr>" for b :: lu_event_base_t by simp
  have d: "lu_event_debug_assert_socket_nonblocking v f fd k = k" for f fd and k :: "(world \<times> int) res"
    using assms by (simp add: lu_event_debug_assert_socket_nonblocking_def)
  show ?thesis
  proof (cases "r = - 1")
    case True
    then have n: "\<not> pipe_works s" using p by (simp add: pipe_works_def)
    show ?thesis using True p n by (cases fds) (auto simp: lu_evsig_init_def Let_def intro: exI [of _ "sig_info (w_base w)"])
  next
    case False
    then have y: "pipe_works s" using p by (simp add: pipe_works_def)
    show ?thesis using False p y d
      by (cases fds) (auto simp: lu_evsig_init_def lu_event_assign_def lu_event_priority_set_def Let_def lu_consts ev_set_flag_def has_flag_def)
  qed
qed

lemma epoll_init_outcome:
  assumes s: "plain_env s" "\<not> epoll_refused s" and d: "\<not> event_debug_mode_on v" and f: "base_flags (w_base w) = 0"
  shows "\<exists>w' si op closed. lu_epoll_init ch sig_ops s v cb w = Inr (w', Some op, closed) \<and> w_self w' = w_self w \<and>
    w_base w' = (w_base w)\<lparr>sig_info := si, evsigsel_op := (if pipe_works s then Some sig_ops else evsigsel_op (w_base w))\<rparr>"
proof -
  have c: "\<not> epoll_use_changelist s w"
    using getenv_plain [OF s(1)] f by (simp add: epoll_use_changelist_def has_flag_def)
  have t: "epoll_timerfd s w = (- 1, [])" using f by (simp add: epoll_timerfd_def has_flag_def)
  have g: "sigfd_init s w = (w, - 1)" using f s(1) by (simp add: sigfd_init_def has_flag_def plain_env_def)
  show ?thesis
    using evsig_init_outcome [OF d, of s sig_ops cb w] s(2) c t g by (auto simp: lu_epoll_init_def epoll_refused_def Let_def)
qed

lemma select_outcome:
  assumes s: "plain_env s" and d: "\<not> event_debug_mode_on v" and f: "base_flags (w_base w) = 0"
    and w: "evbase (w_base w) = None" and cfg: "cfg_entries c = []" "required_features c = 0"
  shows "epoll_refused s \<Longrightarrow> select_backend (eventops ch sig_ops s v cb handle) s True (Some c) w = Inl Out_of_bounds"
    and "\<not> epoll_refused s \<Longrightarrow>
      \<exists>w' si. select_backend (eventops ch sig_ops s v cb handle) s True (Some c) w = Inr w' \<and> w_self w' = w_self w \<and>
        w_base w' = (w_base w)\<lparr>evsel_op := Some epool_ops, sig_info := si,
          evsigsel_op := (if pipe_works s then Some sig_ops else evsigsel_op (w_base w)), evbase := Some handle\<rparr>"
proof -
  let ?w = "upd_base (\<lambda>b. b\<lparr>evsel_op := Some epool_ops\<rparr>) w"
  have a: "backend_allowed s True (Some c) epool_ops"
    using cfg getenv_plain [OF s]
    by (simp add: backend_allowed_def lu_event_config_is_avoided_method_def lu_event_is_method_disabled_def)
  show "select_backend (eventops ch sig_ops s v cb handle) s True (Some c) w = Inl Out_of_bounds" if "epoll_refused s"
    using epoll_init_refused [OF that, of ch sig_ops v cb ?w] a w by (auto simp: eventops_def)
  show "\<exists>w' si. select_backend (eventops ch sig_ops s v cb handle) s True (Some c) w = Inr w' \<and> w_self w' = w_self w \<and>
        w_base w' = (w_base w)\<lparr>evsel_op := Some epool_ops, sig_info := si,
          evsigsel_op := (if pipe_works s then Some sig_ops else evsigsel_op (w_base w)), evbase := Some handle\<rparr>" if n: "\<not> epoll_refused s"
  proof -
    obtain w' si op closed where e: "lu_epoll_init ch sig_ops s v cb ?w = Inr (w', Some op, closed)" "w_self w' = w_self w"
      "w_base w' = (w_base ?w)\<lparr>sig_info := si, evsigsel_op := (if pipe_works s then Some sig_ops else evsigsel_op (w_base ?w))\<rparr>"
      using epoll_init_outcome [OF s n d, of ?w ch sig_ops cb] f by auto
    have "select_backend (eventops ch sig_ops s v cb handle) s True (Some c) w = Inr (upd_base (\<lambda>b. b\<lparr>evbase := Some handle\<rparr>) w')"
      using a w e(1) by (simp add: eventops_def)
    then show ?thesis using e(2,3) by (cases "pipe_works s") auto
  qed
qed

section \<open>The priorities\<close>

lemma prepared_fields:
  assumes "w_base w = (prepared_base sa na m)\<lparr>evsel_op := x, sig_info := si, evsigsel_op := y, evbase := z\<rparr>"
  shows "th_base_lock (w_base w) = None" "event_count_active (w_base w) = 0" "nactivequeues (w_base w) = 0"
    "io (w_base w) = lu_evmap_io_initmap" "sigmap (w_base w) = lu_evmap_siganl_initmap" "time_heap (w_base w) = lu_min_heap_constructor"
    "n_common_timeouts (w_base w) = 0" "th_notify_fd (w_base w) = (- 1, - 1)" "active_later_queue (w_base w) = []"
  using assms by (simp_all add: prepared_base_def zero_base_def lu_evmap_io_initmap_def lu_evmap_siganl_initmap_def lu_min_heap_constructor_def)

text \<open>Without memory for the queue the base is freed again, which finishes.\<close>

lemma finish_without_queue:
  assumes "w_base w = (prepared_base sa na m)\<lparr>evsel_op := x, sig_info := si, evsigsel_op := y, evbase := z\<rparr>" "0 < fuel"
  shows "base_new_finish fuel v t False fin cb cfg w = Inr None"
proof -
  note f = prepared_fields [OF assms(1)]
  obtain n where n: "fuel = Suc n" using assms(2) by (cases fuel) auto
  have p: "lu_event_base_priority_init False w 1 = (w, - 1)"
    using f by (simp add: lu_event_base_priority_init_def N_ACTIVE_CALLBACKS_def LU_EVBASE_ACQUIRE_LOCK_def LU_EVBASE_RELEASE_LOCK_def
        LU_EVENT_MAX_PRIORITIES_def Let_def)
  have m: "lu_evmap_delete_all fuel v w = Inr w"
    using f by (simp add: lu_evmap_delete_all_def lu_evmap_signal_foreach_signal_def lu_evmap_io_foreach_fd_def
        lu_evmap_io_initmap_def lu_evmap_siganl_initmap_def)
  have h: "free_heap_events fuel v w 0 = Inr (w, 0)"
    using f by (simp add: free_heap_events.simps [of fuel] lu_min_heap_top_def lu_min_heap_constructor_def)
  have q: "free_queues_loop fuel fuel v fin True w = Inr w"
    using f by (simp add: n lu_event_base_free_queues_def free_later_queue.simps)
  have "\<exists>r. lu_event_base_free fuel v fin cb w (Some (w_self w)) = Inr (Some r)"
    using f m h q
    by (auto simp: lu_event_base_free_def lu_event_base_free_ptr_def free_notify_fds_def lu_epoll_dealloc_def lu_assert_def
        lu_min_heap_empty_def lu_min_heap_constructor_def Let_def split: option.splits)
  then show ?thesis using p by (auto simp: base_new_finish_def Let_def)
qed

lemma finish_with_queue:
  assumes "w_base w = (prepared_base sa na m)\<lparr>evsel_op := x, sig_info := si, evsigsel_op := y, evbase := z\<rparr>" "\<not> locking_enabled t"
  shows "\<exists>w'. base_new_finish fuel v t True fin cb cfg w = Inr (Some w') \<and> w_self w' = w_self w \<and>
    w_base w' = (w_base w)\<lparr>activequeues := [[]], nactivequeues := 1, watchers := replicate EVWATCH_MAX []\<rparr>"
  using prepared_fields [OF assms(1)] assms(2)
  by (simp add: base_new_finish_def lu_event_base_priority_init_def N_ACTIVE_CALLBACKS_def LU_EVBASE_ACQUIRE_LOCK_def
      LU_EVBASE_RELEASE_LOCK_def LU_EVENT_MAX_PRIORITIES_def Let_def)

section \<open>Every outcome\<close>

text \<open>Without signal operations the first event of a signal ends in a null pointer.\<close>

lemma signal_add_null:
  assumes "sigmap (w_base w) = lu_evmap_siganl_initmap" "evsigsel_op (w_base w) = None" "0 \<le> sig" "sig < NSIG" "map_alloc_ok v"
  shows "lu_evmap_signal_add v w sig ev = Inl Null_dereference"
proof -
  have n: "nentries (lu_evmap_siganl_initmap :: lu_evmap_signal_t lu_event_signal_map_t) = 0" by (simp add: lu_evmap_siganl_initmap_def)
  have d: "double_until 32 sig \<le> 128" "sig < double_until 32 sig"
    using double_until_bound [of 32 sig] double_until_gt [of 32 sig] assms(3,4) by (auto simp: NSIG_def)
  let ?m = "lu_evmap_siganl_initmap\<lparr>map_entries := replicate (nat (double_until 32 sig)) None, nentries := double_until 32 sig\<rparr>"
  have "lu_evmap_make_space True lu_evmap_siganl_initmap sig ptr_size = (?m, 0)"
    using assms(3,4) d by (simp add: lu_evmap_make_space_def n Let_def INT_MAX_def ptr_size_def NSIG_def lu_evmap_siganl_initmap_def)
  then show ?thesis using assms d n by (simp add: lu_evmap_signal_add_def Let_def)
qed

lemma base_new_outcome:
  assumes "plain_env s" "\<not> event_debug_mode_on v" "\<not> locking_enabled t" "w_base w = zero_base sa na"
  shows "\<exists>w' m si. (\<forall>cfg_ok base_ok queues_ok. queues_ok \<or> 0 < fuel \<longrightarrow>
      lu_event_base_new fuel s v t (eventops ch sig_ops s v cb handle) cfg_ok base_ok queues_ok fin cb w =
        (if \<not> cfg_ok then Inr (None, [])
         else if \<not> base_ok then Inr (None, [Free_config])
         else if epoll_refused s then Inl Out_of_bounds
         else if \<not> queues_ok then Inr (None, [Free_config])
         else Inr (Some w', [Free_config]))) \<and>
    (\<not> epoll_refused s \<longrightarrow> w_self w' = w_self w \<and>
      w_base w' = (prepared_base sa na m)\<lparr>evsel_op := Some epool_ops, sig_info := si,
        evsigsel_op := (if pipe_works s then Some sig_ops else None), evbase := Some handle,
        activequeues := [[]], nactivequeues := 1\<rparr>)"
proof -
  obtain c w1 m where c: "cfg_entries c = []" "required_features c = 0" and w1: "w_base w1 = prepared_base sa na m" "w_self w1 = w_self w"
    and new: "\<And>ops q. lu_event_base_new fuel s v t ops True True q fin cb w =
       bind_res (select_backend ops s True (Some c) w1)
         (\<lambda>w2. if evbase (w_base w2) = None
               then bind_res (lu_event_base_free fuel v fin cb (upd_base (\<lambda>b. b\<lparr>evsel_op := None\<rparr>) w2) (Some (w_self w2)))
                      (\<lambda>_. Inr (None, [Free_config]))
               else bind_res (base_new_finish fuel v t q fin cb (Some c) w2) (\<lambda>r. Inr (r, [Free_config])))"
    by (rule base_new_prepared [OF assms(1,4)]) (rule that, assumption+)
  have i: "base_flags (w_base w1) = 0" "evbase (w_base w1) = None" "evsigsel_op (prepared_base sa na m) = None"
    unfolding w1 by (simp_all add: prepared_base_def zero_base_def)
  note sel = select_outcome [OF assms(1,2) i(1,2) c, of ch sig_ops cb handle]
  have cfg: "lu_event_base_new fuel s v t ops False b q fin cb w = Inr (None, [])"
    "lu_event_base_new fuel s v t ops True False q fin cb w = Inr (None, [Free_config])" for ops b q
    by (simp_all add: lu_event_base_new_def lu_event_config_new_def lu_event_base_new_with_config_def lu_event_config_free_def)
  show ?thesis
  proof (cases "epoll_refused s")
    case True
    then show ?thesis using cfg new [of "eventops ch sig_ops s v cb handle"] sel(1) by auto
  next
    case False
    obtain w2 si where w2: "select_backend (eventops ch sig_ops s v cb handle) s True (Some c) w1 = Inr w2"
      "w_base w2 = (prepared_base sa na m)\<lparr>evsel_op := Some epool_ops, sig_info := si,
        evsigsel_op := (if pipe_works s then Some sig_ops else None), evbase := Some handle\<rparr>" "w_self w2 = w_self w1"
      using sel(2) [OF False] unfolding i(3) w1(1) by blast
    obtain w' where w': "base_new_finish fuel v t True fin cb (Some c) w2 = Inr (Some w')"
      "w_base w' = (w_base w2)\<lparr>activequeues := [[]], nactivequeues := 1, watchers := replicate EVWATCH_MAX []\<rparr>" "w_self w' = w_self w2"
      using finish_with_queue [OF w2(2) assms(3)] by blast
    have n: "lu_event_base_new fuel s v t (eventops ch sig_ops s v cb handle) True True q fin cb w =
        (if q then Inr (Some w', [Free_config]) else Inr (None, [Free_config]))" if "q \<or> 0 < fuel" for q
      using that w'(1) finish_without_queue [OF w2(2), of fuel v t fin cb "Some c"] w2(2) by (cases q) (simp_all add: new w2(1))
    show ?thesis
      using False w'(2,3) w2(2,3) w1(2)
      by (intro exI [of _ w'] exI [of _ m] exI [of _ si] conjI allI) (auto simp: cfg n prepared_base_def zero_base_def)
  qed
qed

end
