(* ===== verification/LuEventProps.thy ===== *)
theory LuEventProps
  imports LuBaseNew
begin

text \<open>
  What the event library promises, from the creation of a base on: each statement is about the
  operations of \<open>LuEvent\<close>, \<open>LuEvBase\<close> and \<open>LuBackend\<close> in any state that a program reaches
  (\<open>sys_reachable\<close>), with a small running system on which it is applied.
\<close>

section \<open>A new base\<close>

text \<open>An environment in which creating a base succeeds: no environment variables, every call works.\<close>

definition sysenv_ok :: "sysenv \<Rightarrow> bool" where
  "sysenv_ok s \<longleftrightarrow> epoll_create1 s \<ge> 0 \<and> alloc_op s \<and> alloc_events s \<and> environ s = (\<lambda>_. None) \<and>
     pipe_fds s \<noteq> None \<and> (\<forall>fd. fcntl_setfl_ok s fd) \<and> (\<forall>fd. fcntl_setfd_ok s fd)"

lemma sysenv_ok_works:
  assumes "sysenv_ok s"
  shows "plain_env s" "\<not> epoll_refused s" "pipe_works s"
  using assms
  by (auto simp: sysenv_ok_def plain_env_def epoll_refused_def INVALID_EPOLL_HANDLE_def pipe_works_def lu_evutil_make_internal_pipe_def
      lu_evutil_fast_socket_nonblocking_def lu_evutil_fast_socket_closeonexec_def split: option.splits)

lemma base_new_ok_aux:
  assumes s: "sysenv_ok s" and d: "\<not> event_debug_mode_on v" and t: "\<not> locking_enabled t"
    and b: "w_base w = zero_base sa na"
  shows "\<exists>w' m si. lu_event_base_new fuel s v t (eventops ch sig_ops s v cb handle) True True True fin cb w =
      Inr (Some w', [Free_config]) \<and> w_self w' = w_self w \<and>
      w_base w' = (zero_base sa na)\<lparr>evsel_op := Some epool_ops, sig_info := si, evsigsel_op := Some sig_ops, evbase := Some handle,
         monotonic_timer := m, th_notify_fd := (- 1, - 1), max_dispatch_time := Timeval (- 1) (- 1),
         max_dispatch_callbacks := INT_MAX, limit_callbacks_after_priority := INT_MAX,
         activequeues := [[]], nactivequeues := 1\<rparr>"
proof -
  note k = sysenv_ok_works [OF s]
  obtain w' m si where w': "lu_event_base_new fuel s v t (eventops ch sig_ops s v cb handle) True True True fin cb w = Inr (Some w', [Free_config])"
    "w_self w' = w_self w"
    "w_base w' = (prepared_base sa na m)\<lparr>evsel_op := Some epool_ops, sig_info := si, evsigsel_op := Some sig_ops, evbase := Some handle,
       activequeues := [[]], nactivequeues := 1\<rparr>"
    using base_new_outcome [OF k(1) d t b, of fuel ch sig_ops cb handle fin] k(2,3) by (elim exE conjE) (simp del: upd_base_simps)
  show ?thesis using w'(1,2) unfolding w'(3) by (intro exI [of _ w'] exI [of _ m] exI [of _ si]) (simp add: w'(3) prepared_base_def)
qed

section \<open>A system to look at\<close>

definition demo_env :: env where
  "demo_env = \<lparr>heap_alloc_ok = True, map_alloc_ok = True, slot_alloc_ok = True,
     clock_gettime = (\<lambda>_. Some (Timespec 5 0)), gettimeofday = None, stack_time = Timeval 0 0,
     thread_id = None, event_debug_mode_on = False\<rparr>"

definition demo_sysenv :: sysenv where
  "demo_sysenv = \<lparr>epoll_create1 = 3, epoll_create = - 1, alloc_op = True, alloc_events = True,
     timerfd_create = - 1, epoll_ctl_ok = True, ids = \<lparr>uid = 0, euid = 0, gid = 0, egid = 0\<rparr>,
     environ = (\<lambda>_. None), fcntl_getfd = (\<lambda>_. 0), fcntl_setfd_ok = (\<lambda>_. True), fcntl_setfl_ok = (\<lambda>_. True),
     pipe_fds = Some (4, 5), fcntl_nonblock = (\<lambda>_. None)\<rparr>"

definition demo_threads :: threads where
  "demo_threads = \<lparr>locking_enabled = False, alloc_lock = False, alloc_cond = False,
     make_base_notifiable_nolock = (\<lambda>w. Inr (w, 0))\<rparr>"

definition demo_op :: op_fun where "demo_op calls fd old events = 0"

definition res_world :: "(world \<times> 'a) res \<Rightarrow> world \<Rightarrow> world" where
  "res_world r w = (case r of Inl _ \<Rightarrow> w | Inr (w', _) \<Rightarrow> w')"

text \<open>A base like a new one; an event for reading is assigned at address 10, added, activated.\<close>

definition demo_w0 :: world where
  "demo_w0 = (zero_world 0 1 2 (\<lambda>_. zero_event) (\<lambda>_. 0))
     \<lparr>w_base := (zero_base 1 2)\<lparr>evsel_op := Some epool_ops, evsigsel_op := Some (evsigops demo_op demo_op),
        activequeues := [[]], nactivequeues := 1, time_heap := lu_min_heap_constructor, th_notify_fd := (- 1, - 1)\<rparr>\<rparr>"

definition demo_w1 :: world where
  "demo_w1 = res_world (lu_event_assign demo_env (\<lambda>_. None) None demo_w0 10 (Some 0) 7 LU_EV_READ 0 0 False) demo_w0"

definition demo_w2 :: world where
  "demo_w2 = res_world (lu_event_add_nolock 2 demo_env demo_w1 10 None False) demo_w1"

definition demo_w3 :: world where
  "demo_w3 = (case lu_event_active_nolock demo_env demo_w2 10 LU_EV_READ 1 of Inl _ \<Rightarrow> demo_w2 | Inr w \<Rightarrow> w)"

lemma demo_assign: "lu_event_assign demo_env (\<lambda>_. None) None demo_w0 10 (Some 0) 7 LU_EV_READ 0 0 False = Inr (demo_w1, 0)"
  by (simp add: demo_w1_def lu_event_assign_def res_world_def Let_def lu_event_debug_assert_socket_nonblocking_def
      demo_env_def demo_w0_def IO_EVENTS_def lu_consts has_flag_def)

lemma demo_ev: "w_base demo_w1 = w_base demo_w0"
  "ev_of demo_w1 10 = \<lparr>ev_evcallback = \<lparr>evcb_flags = LU_EVLIST_INIT, evcb_pri = 0, evcb_closure = 0, evcb_cb_union = 0, evcb_arg = 0\<rparr>, min_heap_idx = LU_SIZE_MAX, ev_fd = 0,
     ev_events = LU_EV_READ, ev_res = 0, ev_base = Some 0, ev_io_timeout = Timeval 0 0, ev_ncalls = 0, ev_pncalls = None, ev_timeout = Timeval 0 0\<rparr>"
  by (simp_all add: demo_w1_def lu_event_assign_def res_world_def Let_def lu_event_debug_assert_socket_nonblocking_def
      demo_env_def demo_w0_def IO_EVENTS_def lu_consts has_flag_def zero_world_def zero_event_def zero_event_callback_def zero_base_def LU_EV_CLOSURE_EVENT_def)

definition demo_slots :: lu_event_io_map_t where
  "demo_slots = \<lparr>map_entries = (replicate 32 None)[0 := Some \<lparr>io_events = [10], nread = 1, nwrite = 0, nclose = 0\<rparr>], nentries = 32\<rparr>"

lemma demo_space: "lu_evmap_make_space True lu_evmap_io_initmap 0 ptr_size = (\<lparr>map_entries = replicate 32 None, nentries = 32\<rparr>, 0)"
  by (simp add: lu_evmap_make_space_def lu_evmap_io_initmap_def ptr_size_def INT_MAX_def double_until.simps [of 32])

lemma demo_base: "io (w_base demo_w0) = lu_evmap_io_initmap" "evsel_op (w_base demo_w0) = Some epool_ops"
  "io_calls (w_base demo_w0) = []" "current_event (w_base demo_w0) = None" "running_loop (w_base demo_w0) = 0"
  "activequeues (w_base demo_w0) = [[]]" "nactivequeues (w_base demo_w0) = 1" "event_count (w_base demo_w0) = 0"
  "event_count_active (w_base demo_w0) = 0" "event_running_priority (w_base demo_w0) = 0"
  by (simp_all add: demo_w0_def zero_base_def lu_evmap_io_initmap_def)

lemma demo_nentries: "nentries lu_evmap_io_initmap = 0"
  by (simp add: lu_evmap_io_initmap_def)

lemma demo_map_add: "lu_evmap_io_add demo_env demo_w1 0 10 =
   Inr (upd_base (\<lambda>b. b\<lparr>io_calls := [Backend_add 0 0 LU_EV_READ 0], io := demo_slots\<rparr>) demo_w1, 1)"
  by (simp add: lu_evmap_io_add_def demo_ev demo_base demo_space demo_env_def GET_SLOT_AND_CTOR_def lu_evmap_io_init_def
     Let_def epool_ops_def lu_epoll_nochangelist_add_def lu_consts has_flag_def count_flags_def select_flags_def put_slot_def demo_slots_def
     upd_base_def lu_assert_def demo_nentries)

lemma demo_thread: "thread_id demo_env = None" "event_debug_mode_on demo_env = False"
  by (simp_all add: demo_env_def)

lemma demo_add: "lu_event_add_nolock 2 demo_env demo_w1 10 None False = Inr (demo_w2, 0)"
  "w_base demo_w2 = (w_base demo_w0)\<lparr>io_calls := [Backend_add 0 0 LU_EV_READ 0], io := demo_slots, event_count := 1,
     event_count_max := max (event_count_max (w_base demo_w0)) 1\<rparr>"
  "ev_of demo_w2 10 = upd_flags (\<lambda>x. set_flag x LU_EVLIST_INSERTED) (ev_of demo_w1 10)"
proof -
  let ?m = "upd_base (\<lambda>b. b\<lparr>io_calls := [Backend_add 0 0 LU_EV_READ 0], io := demo_slots\<rparr>) demo_w1"
  define w where "w = ev_set_flag LU_EVLIST_INSERTED 10 (LU_INCR_EVENT_COUNT (fl ?m 10) ?m)"
  have ins: "lu_event_queue_insert_inserted ?m 10 = Inr w"
  proof -
    have "\<not> has_flag (fl ?m 10) LU_EVLIST_INSERTED" by (simp add: demo_ev lu_consts has_flag_def)
    then show ?thesis unfolding lu_event_queue_insert_inserted_def w_def by (simp only: if_False)
  qed
  have "add_to_map demo_env demo_w1 10 = Inr (w, 0, True)"
    by (simp add: add_to_map_def demo_ev demo_map_add ins [unfolded lu_consts] IO_EVENTS_def lu_consts has_flag_def)
  moreover have "running_loop (w_base w) = 0"
    by (simp add: w_def LU_INCR_EVENT_COUNT_def ev_set_flag_def demo_base demo_ev)
  moreover have "reserve_timeout demo_env demo_w1 10 None = (demo_w1, 0)" by (simp add: reserve_timeout_def upd_base_def)
  ultimately have r: "lu_event_add_nolock 2 demo_env demo_w1 10 None False = Inr (w, 0)"
    by (simp add: numeral_2_eq_2 lu_event_add_nolock.simps lu_assert_def demo_ev demo_base
        LU_EVBASE_NEED_NOTIFY_def demo_thread lu_consts clr_flag_def has_flag_def)
  then have w: "demo_w2 = w" by (simp add: demo_w2_def res_world_def)
  then show "lu_event_add_nolock 2 demo_env demo_w1 10 None False = Inr (demo_w2, 0)" using r by simp
  show "w_base demo_w2 = (w_base demo_w0)\<lparr>io_calls := [Backend_add 0 0 LU_EV_READ 0], io := demo_slots, event_count := 1,
     event_count_max := max (event_count_max (w_base demo_w0)) 1\<rparr>"
    "ev_of demo_w2 10 = upd_flags (\<lambda>x. set_flag x LU_EVLIST_INSERTED) (ev_of demo_w1 10)"
    unfolding w w_def
    by (simp_all add: LU_INCR_EVENT_COUNT_def ev_set_flag_def demo_base demo_ev counted_def
        lu_consts has_flag_def)
qed

lemma demo_active: "lu_event_active_nolock demo_env demo_w2 10 LU_EV_READ 1 = Inr demo_w3"
  "activequeues (w_base demo_w3) = [[10]]"
proof -
  have "\<exists>w. lu_event_active_nolock demo_env demo_w2 10 LU_EV_READ 1 = Inr w \<and> activequeues (w_base w) = [[10]]"
    by (simp add: lu_event_active_nolock_def demo_add demo_ev demo_base lu_consts has_flag_def set_flag_def Let_def
        lu_event_callback_activate_nolock_def lu_event_queue_insert_active_def LU_INCR_EVENT_COUNT_def ev_set_flag_def
        upd_queue_def LU_EVBASE_NEED_NOTIFY_def demo_env_def)
  then show "lu_event_active_nolock demo_env demo_w2 10 LU_EV_READ 1 = Inr demo_w3" "activequeues (w_base demo_w3) = [[10]]"
    by (auto simp: demo_w3_def)
qed

lemma demo_fresh: "fresh_world {} demo_w0"
  by (simp add: fresh_world_def demo_w0_def zero_base_def zero_world_def lu_evmap_io_initmap_def lu_evmap_siganl_initmap_def)

lemma demo_reachable: "sys_reachable demo_w0 {10} demo_w1" "sys_reachable demo_w0 {10} demo_w2" "sys_reachable demo_w0 {10} demo_w3"
proof -
  have "sys_reachable demo_w0 {} demo_w0" using demo_fresh by (simp add: sys_reachable_def)
  moreover have "sys_step ({}, demo_w0) ({10}, demo_w1)" using sys_step.create [OF _ _ demo_assign] by simp
  ultimately show 1: "sys_reachable demo_w0 {10} demo_w1" by (rule sys_reachable_step)
  have "core_step {10} demo_w1 demo_w2" by (rule core_step.add [OF _ demo_add(1)]) simp
  then show 2: "sys_reachable demo_w0 {10} demo_w2" using sys_reachable_step [OF 1] sys_step.operate by blast
  have "core_step {10} demo_w2 demo_w3" by (rule core_step.active [OF _ demo_active(1)]) simp
  then show "sys_reachable demo_w0 {10} demo_w3" using sys_reachable_step [OF 2] sys_step.operate by blast
qed

lemma new_base_fresh:
  "w_base w' = (zero_base sa na)\<lparr>evsel_op := Some epool_ops, sig_info := si, evsigsel_op := Some sig_ops, evbase := Some handle,
         monotonic_timer := m, th_notify_fd := (- 1, - 1), max_dispatch_time := Timeval (- 1) (- 1),
         max_dispatch_callbacks := INT_MAX, limit_callbacks_after_priority := INT_MAX,
         activequeues := [[]], nactivequeues := 1\<rparr> \<Longrightarrow> fresh_world {} w'"
  by (simp add: fresh_world_def zero_base_def lu_evmap_io_initmap_def lu_evmap_siganl_initmap_def lu_min_heap_constructor_def)

section \<open>Properties of a new base\<close>

text \<open>C16: When every system call works and no environment variable is set, \<open>lu_event_base_new\<close>
  makes a base that uses the plain epoll operations, has one empty active queue, empty event maps
  and an empty heap, no limit on callbacks, and frees the configuration it made.\<close>

theorem base_new_fresh:
  assumes "sysenv_ok s" "\<not> event_debug_mode_on v" "\<not> locking_enabled t" "w_base w = zero_base sa na"
  shows "\<exists>w'. lu_event_base_new fuel s v t (eventops ch sig_ops s v cb handle) True True True fin cb w =
      Inr (Some w', [Free_config]) \<and> fresh_world {} w' \<and> evsel_op (w_base w') = Some epool_ops \<and>
      evsigsel_op (w_base w') = Some sig_ops \<and> evbase (w_base w') = Some handle \<and>
      activequeues (w_base w') = [[]] \<and> limit_callbacks_after_priority (w_base w') = INT_MAX"
proof -
  obtain w' m si where w': "lu_event_base_new fuel s v t (eventops ch sig_ops s v cb handle) True True True fin cb w =
      Inr (Some w', [Free_config])"
    "w_base w' = (zero_base sa na)\<lparr>evsel_op := Some epool_ops, sig_info := si, evsigsel_op := Some sig_ops, evbase := Some handle,
         monotonic_timer := m, th_notify_fd := (- 1, - 1), max_dispatch_time := Timeval (- 1) (- 1),
         max_dispatch_callbacks := INT_MAX, limit_callbacks_after_priority := INT_MAX,
         activequeues := [[]], nactivequeues := 1\<rparr>"
    using base_new_ok_aux [OF assms, where fuel = fuel and ch = ch and sig_ops = sig_ops and cb = cb and handle = handle and fin = fin]
    by blast
  show ?thesis using w' new_base_fresh [OF w'(2)] by (auto simp: zero_base_def)
qed

theorem base_new_fresh_witness:
  "\<exists>w'. lu_event_base_new 1 demo_sysenv demo_env demo_threads (eventops epool_ops (evsigops demo_op demo_op) demo_sysenv demo_env None 1)
     True True True (\<lambda>_ w. w) None (zero_world 0 1 2 (\<lambda>_. zero_event) (\<lambda>_. 0)) = Inr (Some w', [Free_config]) \<and>
   activequeues (w_base w') = [[]]"
  using base_new_fresh [of demo_sysenv demo_env demo_threads "zero_world 0 1 2 (\<lambda>_. zero_event) (\<lambda>_. 0)" 1 2 1 epool_ops
      "evsigops demo_op demo_op" None 1 "\<lambda>_ w. w"]
  by (auto simp: sysenv_ok_def demo_sysenv_def demo_env_def demo_threads_def zero_world_def)



text \<open>The flags of a configuration have no effect: the code copies the flags of the new base, which
  are 0, over them before it looks at any. Two configurations that differ in their flags give the
  same base, lock and clock included.\<close>

theorem base_new_ignores_flags:
  "lu_event_base_new_with_config fuel s v t ops True calloc_queues_ok fin cb (Some (c\<lparr>cfg_flags := f\<rparr>)) w =
   lu_event_base_new_with_config fuel s v t ops True calloc_queues_ok fin cb (Some (c\<lparr>cfg_flags := 0\<rparr>)) w"
  by (simp add: lu_event_base_new_with_config_def)

text \<open>When the only backend is switched off by its environment variable, the loop that chooses a
  backend reads past the end of \<open>eventops\<close>, which has no null at its end: it does not report
  that there is no event mechanism.\<close>

theorem no_backend_overrun:
  assumes "\<not> lu_evutil_issetugid (ids s)" "environ s ''EVENT_NOEPOLL'' \<noteq> None" "base_flags (w_base w) = 0"
  shows "lu_event_base_new_with_config fuel s v t (eventops ch sig_ops s v cb handle) True q fin cb cfg w = Inl Out_of_bounds"
proof -
  have m: "method_variable ''epoll'' = ''EVENT_NOEPOLL''" by code_simp
  have "lu_event_is_method_disabled s (op_name epool_ops)"
    using assms(1,2) m by (auto simp: lu_event_is_method_disabled_def lu_evutil_getenv_def epool_ops_def split: option.splits)
  then have a: "\<not> backend_allowed s True c epool_ops" for c by (simp add: backend_allowed_def)
  have e: "evbase (w_base (base_new_fields c x)) = None" for c x by (simp add: base_new_fields_def Let_def)
  show ?thesis
    using a e assms(3)
    by (cases cfg) (simp_all add: lu_event_base_new_with_config_def eventops_def has_flag_def)
qed

theorem no_backend_overrun_witness:
  "lu_event_base_new_with_config 1 (demo_sysenv\<lparr>environ := (\<lambda>x. if x = ''EVENT_NOEPOLL'' then Some ''1'' else None)\<rparr>)
     demo_env demo_threads
     (eventops epool_ops epool_ops (demo_sysenv\<lparr>environ := (\<lambda>x. if x = ''EVENT_NOEPOLL'' then Some ''1'' else None)\<rparr>) demo_env None 1)
     True True (\<lambda>_ w. w) None None (zero_world 0 1 2 (\<lambda>_. zero_event) (\<lambda>_. 0)) = Inl Out_of_bounds"
  by (rule no_backend_overrun)
    (simp_all add: demo_sysenv_def lu_evutil_issetugid_def zero_world_def zero_base_def)

section \<open>Properties of every reachable state\<close>

text \<open>C5: In every state that a program reaches from a new base, the active queue of a priority holds
  exactly the events of that priority whose active flag is set, each once, and
  \<open>event_count_active\<close> is the number of all that are queued.\<close>

theorem reachable_queues:
  assumes "sys_reachable w0 D w" "p < length (activequeues (w_base w))"
  shows "distinct (activequeues (w_base w) ! p) \<and>
    set (activequeues (w_base w) ! p) = {e \<in> D. has_flag (fl w e) LU_EVLIST_ACTIVE \<and> unat (ev_pri (ev_of w e)) = p} \<and>
    event_count_active (w_base w) = int (length (concat (activequeues (w_base w)))) + int (length (active_later_queue (w_base w)))"
  using sys_reachable_inv [OF assms(1)] assms(2) by (auto simp: core_inv_def queue_inv_def queues_ok_def)

theorem reachable_queues_witness:
  "sys_reachable demo_w0 {10} demo_w3 \<and> activequeues (w_base demo_w3) = [[10]] \<and> has_flag (fl demo_w3 10) LU_EVLIST_ACTIVE"
proof -
  have p: "0 < length (activequeues (w_base demo_w3))" by (simp add: demo_active(2))
  have "10 \<in> set (activequeues (w_base demo_w3) ! 0)" by (simp add: demo_active(2))
  then have "10 \<in> {e \<in> {10}. has_flag (fl demo_w3 e) LU_EVLIST_ACTIVE \<and> unat (ev_pri (ev_of demo_w3 e)) = 0}"
    unfolding reachable_queues [OF demo_reachable(3) p, THEN conjunct2, THEN conjunct1] .
  then have "has_flag (fl demo_w3 10) LU_EVLIST_ACTIVE" by blast
  then show ?thesis using demo_reachable(3) demo_active(2) by blast
qed

text \<open>C6: \<open>event_count\<close>, by which the loop decides whether there is anything left to wait for, is
  never negative, and it is positive exactly when some event that is not internal is inserted or
  queued.\<close>

theorem reachable_event_count:
  assumes "sys_reachable w0 D w"
  shows "0 \<le> event_count (w_base w) \<and>
    (0 < event_count (w_base w) \<longleftrightarrow>
     (\<exists>e\<in>D. \<not> has_flag (fl w e) LU_EVLIST_INTERNAL \<and>
        (has_flag (fl w e) LU_EVLIST_INSERTED \<or> has_flag (fl w e) LU_EVLIST_ACTIVE \<or> has_flag (fl w e) LU_EVLIST_ACTIVE_LATER)))"
proof -
  have i: "event_count (w_base w) = (\<Sum>e\<in>D. flag_weight (fl w e))" "finite D"
    and t: "\<And>e. e \<in> D \<Longrightarrow> \<not> has_flag (fl w e) LU_EVLIST_TIMEOUT"
    using sys_reachable_inv [OF assms] by (simp_all add: core_inv_def count_inv_def static_inv_def)
  have pos: "0 < flag_weight (fl w e) \<longleftrightarrow> \<not> has_flag (fl w e) LU_EVLIST_INTERNAL \<and>
        (has_flag (fl w e) LU_EVLIST_INSERTED \<or> has_flag (fl w e) LU_EVLIST_ACTIVE \<or> has_flag (fl w e) LU_EVLIST_ACTIVE_LATER)"
    if "e \<in> D" for e using t [OF that] by (simp add: flag_weight_def counted_def)
  have "0 < (\<Sum>e\<in>D. flag_weight (fl w e)) \<longleftrightarrow> (\<exists>e\<in>D. 0 < flag_weight (fl w e))"
  proof
    assume "0 < (\<Sum>e\<in>D. flag_weight (fl w e))"
    then show "\<exists>e\<in>D. 0 < flag_weight (fl w e)" by (metis not_less sum_nonpos)
  next
    assume "\<exists>e\<in>D. 0 < flag_weight (fl w e)"
    then show "0 < (\<Sum>e\<in>D. flag_weight (fl w e))" using i(2) flag_weight_nonneg by (metis sum_pos2)
  qed
  then show ?thesis using i(1) pos by (auto simp: flag_weight_nonneg sum_nonneg)
qed

theorem reachable_event_count_witness: "0 < event_count (w_base demo_w2)"
proof -
  have "has_flag (fl demo_w2 10) LU_EVLIST_INSERTED" "\<not> has_flag (fl demo_w2 10) LU_EVLIST_INTERNAL"
    unfolding demo_add(3) by (simp_all add: demo_ev has_flag_def set_flag_def lu_consts)
  then show ?thesis using reachable_event_count [OF demo_reachable(2)] by blast
qed

end
