(* ===== verification/LuEventOpProps.thy ===== *)
theory LuEventOpProps
  imports LuEventProps
begin

text \<open>
  The operations of the event core on a reachable state: adding, deleting and activating an
  event, what the backend is told, what happens to timeouts, and the set-up operations
  (assigning, priorities, growing a map, one-shot events).
\<close>

section \<open>What the backend is told\<close>

lemma has_count_flags:
  "has_flag (count_flags r w c) LU_EV_READ \<longleftrightarrow> r \<noteq> 0" "has_flag (count_flags r w c) LU_EV_WRITE \<longleftrightarrow> w \<noteq> 0"
  "has_flag (count_flags r w c) LU_EV_CLOSED \<longleftrightarrow> c \<noteq> 0"
  by (simp_all add: count_flags_def has_flag_def lu_consts)

lemma count_of_pos: "count_of f evs es \<noteq> 0 \<longleftrightarrow> (\<exists>e\<in>set es. has_flag (evs e) f)"
  by (induction es) auto

lemma slot_flags_events:
  assumes "slots_ok S (io_slot_ok evs) m" "0 \<le> fd" "f = LU_EV_READ \<or> f = LU_EV_WRITE \<or> f = LU_EV_CLOSED"
  shows "has_flag (slot_flags m fd) f \<longleftrightarrow> (\<exists>e\<in>S fd. has_flag (evs e) f)"
proof (cases "fd < nentries m")
  case False
  then show ?thesis using assms by (auto simp: slots_ok_def slot_flags_def has_flag_def)
next
  case True
  show ?thesis
  proof (cases "map_entries m ! nat fd")
    case None
    then show ?thesis using True assms(1,2) by (auto simp: slots_ok_def slot_flags_def has_flag_def split: option.splits)
  next
    case (Some c)
    then have c: "io_slot_ok evs c (S fd)" using True assms(1,2) by (auto simp: slots_ok_def)
    then have s: "S fd = set (io_events c)" by (simp add: io_slot_ok_def)
    have g: "slot_flags m fd = count_flags (nread c) (nwrite c) (nclose c)"
      using Some True assms(2) by (simp add: slot_flags_def)
    have n: "nread c = count_of LU_EV_READ evs (io_events c)" "nwrite c = count_of LU_EV_WRITE evs (io_events c)"
      "nclose c = count_of LU_EV_CLOSED evs (io_events c)" using c by (simp_all add: io_slot_ok_def)
    show ?thesis
      using assms(3) by (elim disjE) (simp_all only: g s has_count_flags n count_of_pos)
  qed
qed

text \<open>C1: In every reachable state the calls made to the backend so far leave it watching a descriptor
  for reading, writing or closing exactly when some event inserted for that descriptor asks for
  it, and every call passed as \<open>old\<close> exactly what was being watched at that moment.\<close>

theorem reachable_interest:
  assumes "sys_reachable w0 D w" "0 \<le> fd" "f = LU_EV_READ \<or> f = LU_EV_WRITE \<or> f = LU_EV_CLOSED"
  shows "(has_flag (interest (io_calls (w_base w)) fd) f \<longleftrightarrow>
     (\<exists>e\<in>D. has_flag (fl w e) LU_EVLIST_INSERTED \<and> ev_fd (ev_of w e) = fd \<and> has_flag (ev_events (ev_of w e)) f)) \<and>
    calls_old_ok (\<lambda>_. 0) (io_calls (w_base w))"
proof -
  have m: "slots_ok (io_set D w) (io_slot_ok (\<lambda>e. ev_events (ev_of w e))) (io (w_base w))"
    and c: "calls_ok (io_calls (w_base w)) (io (w_base w))"
    using sys_reachable_inv [OF assms(1)] by (simp_all add: core_inv_def map_inv_def io_inv_def)
  have io: "has_flag (ev_events e) f \<Longrightarrow> is_io e" for e
    using assms(3) by (auto simp: is_io_def IO_EVENTS_def has_flag_or)
  show ?thesis
    using slot_flags_events [OF m assms(2,3)] c io by (auto simp: calls_ok_def io_set_def)
qed

theorem reachable_interest_witness:
  "has_flag (interest (io_calls (w_base demo_w2)) 0) LU_EV_READ \<and> \<not> has_flag (interest (io_calls (w_base demo_w2)) 0) LU_EV_WRITE"
proof -
  have f: "has_flag (fl demo_w2 10) LU_EVLIST_INSERTED" unfolding demo_add(3) by (simp add: lu_flags)
  have e: "ev_fd (ev_of demo_w2 10) = 0" "ev_events (ev_of demo_w2 10) = LU_EV_READ"
    unfolding demo_add(3) demo_ev by (simp_all add: upd_flags_def)
  have r: "has_flag LU_EV_READ LU_EV_READ" "\<not> has_flag LU_EV_READ LU_EV_WRITE" by (simp_all add: has_flag_def lu_consts)
  show ?thesis
    using reachable_interest [OF demo_reachable(2), of 0 LU_EV_READ] reachable_interest [OF demo_reachable(2), of 0 LU_EV_WRITE] f e r
    by auto
qed

text \<open>C20: No timeout is ever queued: whatever timeouts the events were added with, the heap is empty and
  no event carries the timeout flag, so no event can time out. The code that would insert it is
  commented out.\<close>

theorem reachable_no_timeout:
  assumes "sys_reachable w0 D w"
  shows "lu_min_heap_top (time_heap (w_base w)) = None \<and> (\<nexists>e. e \<in> D \<and> has_flag (fl w e) LU_EVLIST_TIMEOUT)"
  using sys_reachable_inv [OF assms] by (auto simp: core_inv_def static_inv_def lu_min_heap_top_def)

definition demo_timer :: world where
  "demo_timer = res_world (lu_event_add_nolock 2 demo_env demo_w1 10 (Some (Timeval 3 0)) False) demo_w1"

lemma demo_add_any:
  "\<not> has_flag (fl demo_w1 10) LU_EVLIST_FINALIZING"
  by (simp add: demo_ev has_flag_def lu_consts)

lemma demo_timer_reachable: "sys_reachable demo_w0 {10} demo_timer"
proof -
  obtain w' r where "lu_event_add_nolock 2 demo_env demo_w1 10 (Some (Timeval 3 0)) False = Inr (w', r)"
    using add_inv [OF sys_reachable_inv [OF demo_reachable(1)] _ demo_add_any, of "Suc 0"] unfolding numeral_2_eq_2 by blast
  then have a: "lu_event_add_nolock 2 demo_env demo_w1 10 (Some (Timeval 3 0)) False = Inr (demo_timer, r)"
    by (simp add: demo_timer_def res_world_def)
  have "core_step {10} demo_w1 demo_timer" by (rule core_step.add [OF _ a]) simp
  then show ?thesis using sys_reachable_step [OF demo_reachable(1)] sys_step.operate by blast
qed

theorem reachable_no_timeout_witness: "\<not> has_flag (fl demo_timer 10) LU_EVLIST_TIMEOUT"
  using reachable_no_timeout [OF demo_timer_reachable] by blast

section \<open>Adding, deleting, activating\<close>



lemma not_in_slot:
  assumes "slots_ok S (io_slot_ok evs) m" "\<And>fd. e \<notin> S fd" "Some c \<in> set (map_entries m)"
  shows "e \<notin> set (io_events c)"
proof -
  obtain i where i: "i < length (map_entries m)" "map_entries m ! i = Some c" using assms(3) by (metis in_set_conv_nth)
  then have "int i < nentries m" "0 \<le> int i" using assms(1) by (auto simp: slots_ok_def)
  then have "io_slot_ok evs c (S (int i))" using slots_okD(3) [OF assms(1), of "int i" c] i(2) by simp
  then show ?thesis using assms(2) [of "int i"] by (simp add: io_slot_ok_def)
qed

lemma inactive_not_queued:
  "queues_ok D f pr qs lt \<Longrightarrow> \<not> has_flag (f e) LU_EVLIST_ACTIVE \<Longrightarrow> e \<notin> \<Union> (set ` set qs)"
  "queues_ok D f pr qs lt \<Longrightarrow> \<not> has_flag (f e) LU_EVLIST_ACTIVE_LATER \<Longrightarrow> e \<notin> set lt"
proof -
  assume q: "queues_ok D f pr qs lt" and n: "\<not> has_flag (f e) LU_EVLIST_ACTIVE"
  show "e \<notin> \<Union> (set ` set qs)"
  proof
    assume "e \<in> \<Union> (set ` set qs)"
    then obtain p where "p < length qs" "e \<in> set (qs ! p)" by (auto simp: in_set_conv_nth [of _ qs])
    then show False using q n by (auto simp: queues_ok_def)
  qed
qed (simp add: queues_ok_def)


lemma demo_not_finalizing: "\<not> has_flag (fl demo_w2 10) LU_EVLIST_FINALIZING"
  unfolding demo_add(3) by (simp add: demo_ev has_flag_def set_flag_def lu_consts)


text \<open>C4: Activating an event that is not being finalized never faults in a reachable state: it goes to
  the end of the queue of its own priority, behind all that were activated before it, unless it is
  already active; the other queues and the other events stay as they are.\<close>

theorem event_active_ok:
  assumes "sys_reachable w0 D w" "e \<in> D" "\<not> has_flag (fl w e) LU_EVLIST_FINALIZING"
  shows "\<exists>w'. lu_event_active_nolock v w e res n = Inr w' \<and> sys_reachable w0 D w' \<and> has_flag (fl w' e) LU_EVLIST_ACTIVE \<and>
     (\<nexists>x. x \<noteq> e \<and> ev_of w' x \<noteq> ev_of w x) \<and>
     activequeues (w_base w') = (if has_flag (fl w e) LU_EVLIST_ACTIVE then activequeues (w_base w)
       else (activequeues (w_base w))[unat (ev_pri (ev_of w e)) := activequeues (w_base w) ! unat (ev_pri (ev_of w e)) @ [e]])"
proof -
  obtain w' where a: "lu_event_active_nolock v w e res n = Inr w'" "has_flag (fl w' e) LU_EVLIST_ACTIVE"
     "\<forall>x. x \<noteq> e \<longrightarrow> ev_of w' x = ev_of w x"
     "activequeues (w_base w') = (if has_flag (fl w e) LU_EVLIST_ACTIVE then activequeues (w_base w)
       else (activequeues (w_base w))[unat (ev_pri (ev_of w e)) := activequeues (w_base w) ! unat (ev_pri (ev_of w e)) @ [e]])"
    using active_inv [OF sys_reachable_inv [OF assms(1)] assms(2,3), of v res n] by blast
  have "sys_reachable w0 D w'"
    by (rule sys_reachable_step [OF assms(1)], rule sys_step.operate, rule core_step.active [OF assms(2) a(1)])
  then show ?thesis using a by blast
qed

theorem event_active_ok_witness:
  "\<exists>w'. lu_event_active_nolock demo_env demo_w2 10 LU_EV_READ 1 = Inr w' \<and> has_flag (fl w' 10) LU_EVLIST_ACTIVE"
  using event_active_ok [OF demo_reachable(2) _ demo_not_finalizing] by blast

section \<open>Setting up\<close>

text \<open>A successful \<open>lu_event_assign\<close> leaves the event on no list, with the events it was given, the
  closure that they call for, the middle priority of the base and no place in the heap. It does not
  store the descriptor: \<open>ev_fd\<close> keeps whatever the memory held before. No other event changes.\<close>

theorem assign_fields:
  assumes "lu_event_assign v fc cb w e (Some b) fd events cbk arg self = Inr (w', 0)"
  shows "off_lists (fl w' e) \<and> has_flag (fl w' e) LU_EVLIST_INIT \<and> ev_events (ev_of w' e) = events \<and>
    min_heap_idx (ev_of w' e) = LU_SIZE_MAX \<and> ev_pri (ev_of w' e) = of_int (nactivequeues (w_base w) div 2) \<and>
    ev_closure (ev_of w' e) = (if has_flag events LU_EV_SIGNAL then LU_EV_CLOSURE_EVENT_SIGNAL
      else if has_flag events LU_EV_PERSIST then LU_EV_CLOSURE_EVENT_PERSIST else LU_EV_CLOSURE_EVENT) \<and>
    ev_fd (ev_of w' e) = ev_fd (ev_of w e) \<and> w_base w' = w_base w \<and> (\<nexists>x. x \<noteq> e \<and> ev_of w' x \<noteq> ev_of w x)"
proof -
  obtain x where x: "w' = upd_ev (\<lambda>_. x) e w" "ev_flags x = LU_EVLIST_INIT" "ev_events x = events"
    "ev_base x \<noteq> None" "min_heap_idx x = LU_SIZE_MAX" "ev_pri x = of_int (nactivequeues (w_base w) div 2)"
    "ev_fd x = ev_fd (ev_of w e)"
    "ev_closure x = (if has_flag events LU_EV_SIGNAL then LU_EV_CLOSURE_EVENT_SIGNAL
       else if has_flag events LU_EV_PERSIST then LU_EV_CLOSURE_EVENT_PERSIST else LU_EV_CLOSURE_EVENT)"
    by (rule assign_effect [OF assms]) simp_all
  then show ?thesis using init_off_lists by (simp add: has_flag_def lu_consts)
qed

theorem assign_fields_witness:
  "lu_event_assign demo_env (\<lambda>_. None) None demo_w0 10 (Some 0) 7 LU_EV_READ 0 0 False = Inr (demo_w1, 0) \<and>
   ev_fd (ev_of demo_w1 10) = ev_fd (ev_of demo_w0 10) \<and> off_lists (fl demo_w1 10)"
  using assign_fields [OF demo_assign] demo_assign by blast

text \<open>Setting the number of priorities, between 1 and 255, on a base without active callbacks makes
  exactly that many empty queues, unless there are that many already; anything else is refused
  without a change. The lock is released on every path.\<close>

theorem priority_init_ok:
  assumes "th_base_lock (w_base w) = Some d"
  shows "th_base_lock (w_base (fst (lu_event_base_priority_init c w n))) = Some d \<and>
    (if event_count_active (w_base w) \<noteq> 0 \<or> n < 1 \<or> n > 255
     then lu_event_base_priority_init c w n = (w, - 1)
     else if n = nactivequeues (w_base w) then lu_event_base_priority_init c w n = (w, 0)
     else if c then snd (lu_event_base_priority_init c w n) = 0 \<and>
       nactivequeues (w_base (fst (lu_event_base_priority_init c w n))) = n \<and>
       activequeues (w_base (fst (lu_event_base_priority_init c w n))) = replicate (nat n) []
     else snd (lu_event_base_priority_init c w n) = - 1)"
proof -
  have "LU_EVBASE_RELEASE_LOCK (LU_EVBASE_ACQUIRE_LOCK w) = w"
    using assms by (simp add: LU_EVBASE_RELEASE_LOCK_def LU_EVBASE_ACQUIRE_LOCK_def upd_base_def)
  then show ?thesis
    using assms
    by (auto simp: lu_event_base_priority_init_def N_ACTIVE_CALLBACKS_def Let_def LU_EVENT_MAX_PRIORITIES_def
        LU_EVBASE_ACQUIRE_LOCK_def LU_EVBASE_RELEASE_LOCK_def)
qed

theorem priority_init_ok_witness:
  "activequeues (w_base (fst (lu_event_base_priority_init True (upd_base (\<lambda>b. b\<lparr>th_base_lock := Some 0\<rparr>) demo_w0) 3))) = [[], [], []]"
  using priority_init_ok [of "upd_base (\<lambda>b. b\<lparr>th_base_lock := Some 0\<rparr>) demo_w0" 0 True 3]
  by (simp add: demo_base numeral_3_eq_3)

text \<open>C18: Growing a slot map for a slot: on success the slot is inside, every old entry is where it
  was, the new ones are null and the map is never more than twice what is needed; on failure nothing
  changes. A map that is large enough is left alone.\<close>

theorem make_space_ok_spec:
  assumes "lu_evmap_make_space ok m slot ptr_size = (m', r)" "0 \<le> slot" "0 \<le> nentries m"
    "length (map_entries m) = nat (nentries m)"
  shows "(r = 0 \<and> slot < nentries m' \<and> length (map_entries m') = nat (nentries m') \<and>
      take (nat (nentries m)) (map_entries m') = map_entries m \<and>
      set (drop (nat (nentries m)) (map_entries m')) \<subseteq> {None} \<and> nentries m' \<le> max (nentries m) (max 32 (2 * slot)))
    \<or> (r = - 1 \<and> m' = m)"
proof (cases "r = - 1")
  case True
  then show ?thesis using assms(1) by (auto simp: lu_evmap_make_space_def Let_def split: if_splits)
next
  case False
  let ?n = "double_until (if nentries m \<noteq> 0 then nentries m else 32) slot"
  show ?thesis
  proof (cases "nentries m \<le> slot")
    case True
    then have m': "m' = m\<lparr>map_entries := map_entries m @ replicate (nat (?n - nentries m)) None, nentries := ?n\<rparr>" "r = 0"
      using assms(1) False by (auto simp: lu_evmap_make_space_def Let_def split: if_splits)
    have "slot < ?n" using assms(3) by (intro double_until_gt) auto
    moreover have "?n \<le> max (if nentries m \<noteq> 0 then nentries m else 32) (2 * slot)"
      using assms(3) by (intro double_until_bound) auto
    ultimately show ?thesis using m' assms True by (auto split: if_splits)
  next
    case False
    then show ?thesis using assms by (auto simp: lu_evmap_make_space_def split: if_splits)
  qed
qed

theorem make_space_ok_witness:
  "nentries (fst (lu_evmap_make_space True lu_evmap_io_initmap 0 ptr_size)) = 32"
proof -
  have "0 \<le> nentries lu_evmap_io_initmap" "length (map_entries lu_evmap_io_initmap) = nat (nentries lu_evmap_io_initmap)"
    by (simp_all add: lu_evmap_io_initmap_def)
  then show ?thesis using make_space_ok_spec [OF demo_space] demo_space by simp
qed

section \<open>One-shot events\<close>

text \<open>One-shot events refuse signals and persistent events, a missing base, and a set of events that
  asks for nothing: -1, with no event assigned and the lock untouched.\<close>

theorem once_refuses:
  assumes "base = None \<or> has_flag events (LU_EV_SIGNAL OR LU_EV_PERSIST) \<or>
    \<not> has_flag events (LU_EV_TIMEOUT OR LU_EV_READ OR LU_EV_WRITE OR LU_EV_CLOSED)"
  shows "\<exists>w'. lu_event_base_once v fc cb alloc once w base fd events callback arg tv = Inr (w', once, - 1) \<and>
    w_base w' = w_base w \<and> (\<nexists>x. Some x \<noteq> alloc \<and> ev_of w' x \<noteq> ev_of w x)"
proof (cases "base = None \<or> has_flag events (LU_EV_SIGNAL OR LU_EV_PERSIST) \<or> alloc = None")
  case True
  then show ?thesis by (auto simp: lu_event_base_once_def)
next
  case False
  then obtain e where e: "alloc = Some e" by blast
  have n: "\<not> has_flag events (LU_EV_TIMEOUT OR LU_EV_READ OR LU_EV_WRITE OR LU_EV_CLOSED)" using assms False by blast
  then have io: "\<not> has_flag events ONCE_IO" by (simp add: ONCE_IO_def has_flag_or)
  have "events AND (LU_EV_TIMEOUT OR LU_EV_SIGNAL OR LU_EV_READ OR LU_EV_WRITE OR LU_EV_CLOSED) \<noteq> LU_EV_TIMEOUT"
  proof
    assume "events AND (LU_EV_TIMEOUT OR LU_EV_SIGNAL OR LU_EV_READ OR LU_EV_WRITE OR LU_EV_CLOSED) = LU_EV_TIMEOUT"
    then have "(events AND (LU_EV_TIMEOUT OR LU_EV_SIGNAL OR LU_EV_READ OR LU_EV_WRITE OR LU_EV_CLOSED)) AND LU_EV_TIMEOUT = LU_EV_TIMEOUT"
      by simp
    then have "events AND LU_EV_TIMEOUT = LU_EV_TIMEOUT" by (simp add: lu_consts and.assoc)
    then have "has_flag events LU_EV_TIMEOUT" by (simp add: has_flag_def lu_consts)
    then show False using n by (simp add: has_flag_or)
  qed
  then have "lu_event_base_once v fc cb alloc once w base fd events callback arg tv = Inr (upd_ev (\<lambda>_. zero_event) e w, once, - 1)"
    using False e io by (auto simp: lu_event_base_once_def Let_def)
  then show ?thesis using e by auto
qed

theorem once_refuses_witness:
  "\<exists>w'. lu_event_base_once demo_env (\<lambda>_. None) None (Some 20) Map.empty demo_w0 (Some 0) 7 LU_EV_SIGNAL 0 0 None = Inr (w', Map.empty, - 1)"
proof -
  have "has_flag LU_EV_SIGNAL (LU_EV_SIGNAL OR LU_EV_PERSIST)" by (simp add: has_flag_def lu_consts)
  then show ?thesis using once_refuses [of "Some 0" LU_EV_SIGNAL demo_env "\<lambda>_. None" None "Some 20" Map.empty demo_w0 7 0 0 None] by blast
qed

text \<open>A backend that refuses every addition, on a base with a lock that nobody holds.\<close>

definition refusing_op :: lu_event_op_t where
  "refusing_op = epool_ops\<lparr>op_add := (\<lambda>_ _ _ _. - 1)\<rparr>"

definition locked_w :: world where
  "locked_w = upd_base (\<lambda>b. b\<lparr>th_base_lock := Some 0, evsel_op := Some refusing_op\<rparr>) demo_w0"

lemma locked_once:
  "\<exists>w'. lu_event_base_once demo_env (\<lambda>_. None) None (Some 20) Map.empty locked_w (Some 0) 7 LU_EV_READ 0 0 None = Inr (w', Map.empty, - 1) \<and>
     th_base_lock (w_base w') = Some 1"
proof -
  define e where "e = \<lparr>ev_evcallback = \<lparr>evcb_flags = LU_EVLIST_INIT, evcb_pri = 0, evcb_closure = 0, evcb_cb_union = lu_event_once_cb_ptr, evcb_arg = 20\<rparr>,
     min_heap_idx = LU_SIZE_MAX, ev_fd = 0, ev_events = LU_EV_READ, ev_res = 0, ev_base = Some 0, ev_io_timeout = Timeval 0 0, ev_ncalls = 0,
     ev_pncalls = None, ev_timeout = Timeval 0 0\<rparr>"
  let ?w1 = "upd_ev (\<lambda>_. zero_event) 20 locked_w"
  have a: "lu_event_assign demo_env (\<lambda>_. None) None ?w1 20 (Some 0) 7 LU_EV_READ lu_event_once_cb_ptr 20 False = Inr (upd_ev (\<lambda>_. e) 20 ?w1, 0)"
    by (simp add: lu_event_assign_def Let_def lu_event_debug_assert_socket_nonblocking_def demo_thread e_def
        IO_EVENTS_def lu_consts has_flag_def zero_event_def zero_event_callback_def LU_EV_CLOSURE_EVENT_def upd_ev_def locked_w_def demo_base)
  define w3 where "w3 = LU_EVBASE_ACQUIRE_LOCK (upd_ev (\<lambda>_. e) 20 ?w1)"
  have ev: "ev_fd (ev_of w3 20) = 0" "ev_events (ev_of w3 20) = LU_EV_READ" "ev_base (ev_of w3 20) \<noteq> None"
    "fl w3 20 = LU_EVLIST_INIT" "th_base_lock (w_base w3) = Some 1" "io (w_base w3) = lu_evmap_io_initmap"
    "evsel_op (w_base w3) = Some refusing_op" "current_event (w_base w3) = None"
    by (simp_all add: w3_def LU_EVBASE_ACQUIRE_LOCK_def locked_w_def demo_base e_def)
  have en: "map_alloc_ok demo_env" "slot_alloc_ok demo_env" by (simp_all add: demo_env_def)
  obtain w4 where m: "lu_evmap_io_add demo_env w3 0 20 = Inr (w4, - 1)" "th_base_lock (w_base w4) = Some 1"
    using ev
    by (simp add: lu_evmap_io_add_def demo_space demo_nentries en demo_thread GET_SLOT_AND_CTOR_def lu_evmap_io_init_def Let_def
        refusing_op_def lu_consts has_flag_def count_flags_def select_flags_def lu_assert_def)
  have rt: "reserve_timeout demo_env w3 20 None = (w3, 0)" by (simp add: reserve_timeout_def upd_base_def)
  have mm: "add_to_map demo_env w3 20 = Inr (w4, - 1, False)"
    using m(1) ev by (simp add: add_to_map_def IO_EVENTS_def lu_consts has_flag_def)
  have "clr_flag (fl w3 20) LU_EVLIST_ALL = 0" "\<not> has_flag (fl w3 20) LU_EVLIST_FINALIZING" "current_event (w_base w3) \<noteq> Some 20"
    using ev by (simp_all add: lu_consts clr_flag_def has_flag_def)
  then have add: "lu_event_add_nolock 2 demo_env w3 20 None False = Inr (w4, - 1)"
    using ev(3) unfolding numeral_2_eq_2 lu_event_add_nolock.simps rt Let_def prod.case by (auto simp: lu_assert_def mm)
  have "lu_event_base_once demo_env (\<lambda>_. None) None (Some 20) Map.empty locked_w (Some 0) 7 LU_EV_READ 0 0 None = Inr (w4, Map.empty, - 1)"
  proof -
    have c: "\<not> has_flag LU_EV_READ (LU_EV_SIGNAL OR LU_EV_PERSIST)" "has_flag LU_EV_READ ONCE_IO" "LU_EV_READ AND ONCE_IO = LU_EV_READ"
      "LU_EV_READ AND (LU_EV_TIMEOUT OR LU_EV_SIGNAL OR LU_EV_READ OR LU_EV_WRITE OR LU_EV_CLOSED) \<noteq> LU_EV_TIMEOUT"
      by (simp_all add: has_flag_def lu_consts ONCE_IO_def)
    show ?thesis unfolding lu_event_base_once_def Let_def by (simp add: c a w3_def [symmetric] add)
  qed
  then show ?thesis using m(2) by blast
qed

text \<open>When adding a one-shot event fails, \<open>lu_event_base_once\<close> frees it and returns -1 without
  releasing the lock that it took: a lock that nobody held is held once afterwards.\<close>

theorem once_keeps_lock:
  "th_base_lock (w_base locked_w) = Some 0 \<and>
   (\<exists>w'. lu_event_base_once demo_env (\<lambda>_. None) None (Some 20) Map.empty locked_w (Some 0) 7 LU_EV_READ 0 0 None = Inr (w', Map.empty, - 1) \<and>
     th_base_lock (w_base w') = Some 1)"
  using locked_once by (simp add: locked_w_def)

end
