(* ===== verification/LuEventView.thy ===== *)
theory LuEventView
  imports LuEventSys
begin

text \<open>
  What the operations on events leave alone. A part of the world that every queue, map, clock and
  timer operation leaves as it is, is left as it is by adding, deleting and activating: the
  locale \<open>op_view\<close> says so once for any such part. It is interpreted on the flags that no
  operation touches and on the settings of the base, its lock among them: whatever a program does,
  the operations give the lock back at the depth at which they got it.
\<close>

section \<open>Deleting\<close>

text \<open>What every step of a delete leaves alone, the delete leaves alone.\<close>

lemma del_nolock_view:
  assumes r: "lu_event_del_nolock v w e b = Inr (w', r)"
    and f: "\<And>w. f (abort_signal_loop e w) = f w" "\<And>w. f (wait_current_event w) = f w"
      "\<And>w. f (fst (lu_evthread_notify_base w)) = f w"
    and g: "\<And>w w'. lu_event_queue_remove_timeout w e = Inr w' \<Longrightarrow> f w' = f w"
      "\<And>w w'. lu_event_queue_remove_inserted w e = Inr w' \<Longrightarrow> f w' = f w"
      "\<And>w w'. lu_event_queue_remove_active w e = Inr w' \<Longrightarrow> f w' = f w"
      "\<And>w w'. lu_event_queue_remove_active_later w e = Inr w' \<Longrightarrow> f w' = f w"
      "\<And>w fd w' r. lu_evmap_io_del v w fd e = Inr (w', r) \<Longrightarrow> f w' = f w"
      "\<And>w fd w' r. lu_evmap_signal_del v w fd e = Inr (w', r) \<Longrightarrow> f w' = f w"
  shows "f w' = f w"
proof -
  define w1 where "w1 = (if has_flag (ev_events (ev_of w e)) LU_EV_SIGNAL then abort_signal_loop e w else w)"
  show ?thesis
  proof (cases "ev_base (ev_of w e) = None \<or> b \<noteq> LU_EVENT_DEL_EVEN_IF_FINALIZING \<and> has_flag (fl w e) LU_EVLIST_FINALIZING")
    case True
    then show ?thesis using r
      by (cases "ev_base (ev_of w e) = None") (simp_all add: lu_event_del_nolock_def)
  next
    case False
    then have c: "(ev_base (ev_of w e) = None) = False"
      "(b \<noteq> LU_EVENT_DEL_EVEN_IF_FINALIZING \<and> has_flag (fl w e) LU_EVLIST_FINALIZING) = False"
      by (blast, blast)
    have a: "(clr_flag (fl w e) LU_EVLIST_ALL = 0) = True"
      using r by (simp add: lu_event_del_nolock_def c lu_assert_def split: if_split_asm)
    note r0 = r [unfolded lu_event_del_nolock_def Let_def lu_assert_def c a if_False if_True w1_def [symmetric]]
    obtain w2 n2 where w2: "(if has_flag (fl w1 e) LU_EVLIST_TIMEOUT
        then bind_res (lu_event_queue_remove_timeout w1 e)
               (\<lambda>w2. Inr (w2, lu_min_heap_top (time_heap (w_base w1)) = Some e))
        else Inr (w1, False)) = Inr (w2, n2)"
      using r0 unfolding bind_res_Inr by fast
    have k2: "f w2 = f w" using w2 by (auto simp: w1_def f split: if_splits dest!: g)
    note r' = r0 [unfolded w2 bind_res.simps prod.case]
    obtain w3 where w3: "(if has_flag (fl w2 e) LU_EVLIST_ACTIVE then lu_event_queue_remove_active w2 e
        else if has_flag (fl w2 e) LU_EVLIST_ACTIVE_LATER then lu_event_queue_remove_active_later w2 e
        else Inr w2) = Inr w3"
      using r' unfolding bind_res_Inr by blast
    have k3: "f w3 = f w" using w3 k2 by (auto split: if_splits dest!: g)
    note r'' = r' [unfolded w3 bind_res.simps]
    obtain w6 r6 n where w6: "(if has_flag (fl w3 e) LU_EVLIST_INSERTED
        then bind_res
          (bind_res (lu_event_queue_remove_inserted w3 e)
            (\<lambda>w4. if has_flag (ev_events (ev_of w4 e)) IO_EVENTS
              then lu_evmap_io_del v w4 (ev_fd (ev_of w4 e)) e
              else lu_evmap_signal_del v w4 (ev_fd (ev_of w4 e)) e))
          (\<lambda>(w5, r). Inr (w5, if r = 1 then 0 else r,
             r = 1 \<or> n2 \<or> (\<not> lu_event_haveevents w5 \<and> N_ACTIVE_CALLBACKS w5 = 0)))
        else Inr (w3, 0, n2)) = Inr (w6, r6, n)"
      using r'' unfolding bind_res_Inr by fast
    have k6: "f w6 = f w" using w6 k3 by (auto split: if_split_asm dest!: g simp: f)
    show ?thesis using r'' [unfolded w6 bind_res.simps prod.case] k6 by (auto split: if_split_asm simp: f)
  qed
qed


section \<open>Views that the basic operations keep\<close>

locale op_view =
  fixes f :: "world \<Rightarrow> 'a"
  assumes fields: "(\<And>x. ev_flags (g x) = ev_flags x) \<Longrightarrow> f (upd_ev g e w) = f w"
    and continue: "f (upd_base (\<lambda>b. b\<lparr>event_continue := n\<rparr>) w) = f w"
    and abort: "f (abort_signal_loop e w) = f w"
    and wait: "f (wait_current_event w) = f w"
    and notify: "f (fst (lu_evthread_notify_base w)) = f w"
    and insert_inserted: "lu_event_queue_insert_inserted w e = Inr w' \<Longrightarrow> f w' = f w"
    and remove_inserted: "lu_event_queue_remove_inserted w e = Inr w' \<Longrightarrow> f w' = f w"
    and remove_timeout: "lu_event_queue_remove_timeout w e = Inr w' \<Longrightarrow> f w' = f w"
    and remove_active: "lu_event_queue_remove_active w e = Inr w' \<Longrightarrow> f w' = f w"
    and remove_later: "lu_event_queue_remove_active_later w e = Inr w' \<Longrightarrow> f w' = f w"
    and insert_active: "lu_event_queue_insert_active w e = Inr w' \<Longrightarrow> f w' = f w"
    and io_add: "lu_evmap_io_add v w fd e = Inr (w', r) \<Longrightarrow> f w' = f w"
    and io_del: "lu_evmap_io_del v w fd e = Inr (w', r) \<Longrightarrow> f w' = f w"
    and signal_add: "lu_evmap_signal_add v w fd e = Inr (w', r) \<Longrightarrow> f w' = f w"
    and signal_del: "lu_evmap_signal_del v w fd e = Inr (w', r) \<Longrightarrow> f w' = f w"
    and clock: "gettime v w = (w', t, r) \<Longrightarrow> f w' = f w"
    and reserve: "reserve_timeout v w e tvo = (w', r) \<Longrightarrow> f w' = f w"
begin

lemmas queues = remove_active remove_later insert_active

lemma view_add_to_map: "add_to_map v w e = Inr (w', r, n) \<Longrightarrow> f w' = f w"
  by (auto simp: add_to_map_def Let_def dest!: insert_inserted io_add signal_add split: if_splits)

lemma view_set_timeout:
  assumes s: "\<And>w c h w' r. sched w c h = Inr (w', r) \<Longrightarrow> f w' = f w"
    and r: "set_timeout sched v w e tv a n = Inr (w', n')"
  shows "f w' = f w"
proof -
  define w4 where "w4 = (if ev_closure (ev_of w e) = LU_EV_CLOSURE_EVENT_PERSIST \<and> \<not> a
                then upd_ev (\<lambda>x. x\<lparr>ev_io_timeout := tv\<rparr>) e w else w)"
  obtain w5 where w5: "(if has_flag (fl w4 e) LU_EVLIST_TIMEOUT then lu_event_queue_remove_timeout w4 e else Inr w4) = Inr w5"
    using r unfolding set_timeout_def Let_def w4_def [symmetric] bind_res_Inr by blast
  have k5: "f w5 = f w" using w5 by (auto simp: w4_def fields split: if_splits dest!: remove_timeout)
  obtain w6 where w6: "(if has_flag (fl w5 e) LU_EVLIST_ACTIVE \<and> has_flag (ev_res (ev_of w5 e)) LU_EV_TIMEOUT
         then lu_event_queue_remove_active
                (if has_flag (ev_events (ev_of w5 e)) LU_EV_SIGNAL then abort_signal_loop e w5 else w5) e
         else Inr w5) = Inr w6"
    using r unfolding set_timeout_def Let_def w4_def [symmetric] w5 bind_res.simps unfolding bind_res_Inr by blast
  have k6: "f w6 = f w" using w6 k5 by (auto split: if_splits simp: abort dest!: remove_active)
  obtain w7 t q where g: "gettime v w6 = (w7, t, q)" by (metis prod_cases3)
  have k7: "f w7 = f w" using clock [OF g] k6 by simp
  show ?thesis
    using r unfolding set_timeout_def Let_def w4_def [symmetric] w5 bind_res.simps w6 g prod.case
    by (auto split: if_splits option.splits simp: fields k7 dest!: s)
qed

lemma view_add: "lu_event_add_nolock k v w e tvo a = Inr (w', r) \<Longrightarrow> f w' = f w"
proof (induction k arbitrary: w e tvo a w' r)
  case (Suc k)
  let ?sched = "lu_common_timeout_schedule (\<lambda>w e t. lu_event_add_nolock k v w e (Some t) True)"
  have st: "f w' = f w" if "set_timeout ?sched v w e tv a n = Inr (w', n')" for w w' e tv a n n'
    using that by (rule view_set_timeout [rotated]) (simp add: lu_common_timeout_schedule_def Let_def Suc.IH)
  show ?case
    using Suc.prems unfolding lu_event_add_nolock.simps Let_def lu_assert_def
    by (auto split: if_splits prod.splits option.splits simp: notify wait dest!: reserve view_add_to_map st)
qed (simp add: lu_event_add_nolock.simps)

lemma view_activate: "lu_event_callback_activate_nolock v w e = Inr (w', r) \<Longrightarrow> f w' = f w"
  unfolding lu_event_callback_activate_nolock_def Let_def
  by (auto split: if_splits simp: notify dest!: queues)

lemma view_active:
  assumes r: "lu_event_active_nolock v w e res n = Inr w'"
  shows "f w' = f w"
proof -
  define w1 where "w1 = upd_ev (\<lambda>x. x\<lparr>ev_res := (if has_flag (fl w e) LU_EVLIST_ACTIVE_LATER then ev_res x OR res else res)\<rparr>) e w"
  define w2 where "w2 = (if int (unat (ev_pri (ev_of w1 e))) < event_running_priority (w_base w1)
                    then upd_base (\<lambda>b. b\<lparr>event_continue := 1\<rparr>) w1 else w1)"
  define w3 where "w3 = (if has_flag (ev_events (ev_of w2 e)) LU_EV_SIGNAL
                    then upd_ev (\<lambda>x. x\<lparr>ev_ncalls := n, ev_pncalls := None\<rparr>) e
                           (if current_event (w_base w2) = Some e \<and> \<not> LU_EVBASE_IN_THREAD v (w_base w2)
                            then wait_current_event w2 else w2)
                    else w2)"
  have k: "f w3 = f w" by (simp add: w3_def w2_def w1_def fields continue wait)
  show ?thesis
    using r unfolding lu_event_active_nolock_def Let_def w1_def [symmetric] w2_def [symmetric] w3_def [symmetric]
    by (auto simp: fields k split: if_splits dest!: view_activate)
qed

lemma view_del_nolock: "lu_event_del_nolock v w e b = Inr (w', r) \<Longrightarrow> f w' = f w"
  by (erule del_nolock_view)
    (simp_all add: abort wait notify remove_timeout remove_inserted queues io_del signal_del)

lemma view_del_locked:
  assumes "\<And>w. f (LU_EVBASE_ACQUIRE_LOCK w) = f w" "\<And>w. f (LU_EVBASE_RELEASE_LOCK w) = f w"
    and "lu_event_del_locked v w e b = Inr (w', r)"
  shows "f w' = f w"
  using assms(3) unfolding lu_event_del_locked_def by (auto split: if_splits simp: assms(1,2) dest!: view_del_nolock)

end

section \<open>The flags that no operation touches\<close>

definition KEPT :: c_short where
  "KEPT = LU_EVLIST_INIT OR LU_EVLIST_INTERNAL OR LU_EVLIST_FINALIZING"

definition kept :: "world \<Rightarrow> evptr \<Rightarrow> c_short" where
  "kept w e = fl w e AND KEPT"

lemma kept_base [simp]: "kept (upd_base f w) = kept w"
  by (simp add: kept_def fun_eq_iff)

lemma kept_evs: "w_evs w' = w_evs w \<Longrightarrow> kept w' = kept w"
  by (simp add: kept_def fun_eq_iff)

lemma kept_ev: "(\<And>x. ev_flags (f x) = ev_flags x) \<Longrightarrow> kept (upd_ev f e w) = kept w"
  by (simp add: kept_def fun_eq_iff)

lemma kept_flags:
  "f AND KEPT = 0 \<Longrightarrow> kept (ev_clr_flag f e w) = kept w"
  "f AND KEPT = 0 \<Longrightarrow> kept (ev_set_flag f e w) = kept w"
proof -
  have 1: "(x AND NOT f) AND KEPT = x AND KEPT" if "f AND KEPT = 0" for x
  proof -
    have "(x AND NOT f) AND KEPT = x AND (KEPT AND NOT (f AND KEPT))"
      by (rule bit_word_eqI) (auto simp: bit_simps)
    then show ?thesis using that by simp
  qed
  have 2: "(x OR f) AND KEPT = x AND KEPT" if "f AND KEPT = 0" for x
    using that by (simp add: bit.conj_disj_distrib2)
  show "f AND KEPT = 0 \<Longrightarrow> kept (ev_clr_flag f e w) = kept w"
    by (simp add: kept_def ev_clr_flag_def fun_eq_iff clr_flag_def 1)
  show "f AND KEPT = 0 \<Longrightarrow> kept (ev_set_flag f e w) = kept w"
    by (simp add: kept_def ev_set_flag_def fun_eq_iff set_flag_def 2)
qed

lemma kept_lists:
  "LU_EVLIST_ACTIVE AND KEPT = 0" "LU_EVLIST_ACTIVE_LATER AND KEPT = 0" "LU_EVLIST_INSERTED AND KEPT = 0"
  "LU_EVLIST_TIMEOUT AND KEPT = 0"
  by (simp_all add: KEPT_def lu_consts)

lemma kept_count [simp]: "kept (LU_INCR_EVENT_COUNT f w) = kept w" "kept (LU_DECR_EVENT_COUNT f w) = kept w"
  by (simp_all add: LU_INCR_EVENT_COUNT_def LU_DECR_EVENT_COUNT_def)

lemma kept_queue: "upd_queue p f w = Inr w' \<Longrightarrow> kept w' = kept w"
  by (auto simp: upd_queue_def split: if_splits)

lemma kept_queues:
  "lu_event_queue_remove_active w e = Inr w' \<Longrightarrow> kept w' = kept w"
  "lu_event_queue_remove_active_later w e = Inr w' \<Longrightarrow> kept w' = kept w"
  "lu_event_queue_insert_active w e = Inr w' \<Longrightarrow> kept w' = kept w"
  by (auto simp: lu_event_queue_remove_active_def lu_event_queue_remove_active_later_def
      lu_event_queue_insert_active_def Let_def kept_flags kept_lists lu_assert_def
      dest!: kept_queue split: if_splits)

lemma kept_inserted:
  "lu_event_queue_remove_inserted w e = Inr w' \<Longrightarrow> kept w' = kept w"
  "lu_event_queue_insert_inserted w e = Inr w' \<Longrightarrow> kept w' = kept w"
  by (auto simp: lu_event_queue_remove_inserted_def lu_event_queue_insert_inserted_def kept_flags kept_lists split: if_splits)

lemma kept_misc [simp]:
  "kept (abort_signal_loop e w) = kept w" "kept (wait_current_event w) = kept w"
  "kept (fst (lu_evthread_notify_base w)) = kept w"
  "kept (LU_EVBASE_ACQUIRE_LOCK w) = kept w" "kept (LU_EVBASE_RELEASE_LOCK w) = kept w"
  by (auto intro!: kept_evs simp: abort_signal_loop_def wait_current_event_def LU_EVBASE_ACQUIRE_LOCK_def
      LU_EVBASE_RELEASE_LOCK_def split: option.splits)

lemma kept_maps:
  "lu_evmap_io_add v w fd e = Inr (w', r) \<Longrightarrow> kept w' = kept w"
  "lu_evmap_io_del v w fd e = Inr (w', r) \<Longrightarrow> kept w' = kept w"
  "lu_evmap_signal_add v w fd e = Inr (w', r) \<Longrightarrow> kept w' = kept w"
  "lu_evmap_signal_del v w fd e = Inr (w', r) \<Longrightarrow> kept w' = kept w"
  by (auto simp: lu_evmap_io_add_def lu_evmap_io_del_def lu_evmap_signal_add_def lu_evmap_signal_del_def
      Let_def lu_assert_def split: if_splits option.splits prod.splits)

lemma kept_same_idx: "same_but_idx (w_evs w) es \<Longrightarrow> kept (w\<lparr>w_evs := es\<rparr>) = kept w"
proof -
  assume s: "same_but_idx (w_evs w) es"
  have "ev_flags (es x) = fl w x" for x
    using s unfolding same_but_idx_def by (metis lu_event_t.select_convs(1) lu_event_t.surjective lu_event_t.update_convs(2))
  then show ?thesis by (simp add: kept_def fun_eq_iff)
qed

lemma erase_frame: "same_but_idx es (fst (lu_min_heap_erase es h e))"
proof -
  have up: "same_but_idx es (fst (lu_min_heap_shift_up_unconditional (es, a) i l))" for a i l
    using shift_up_frame [of "place (es, a) i (a ! ((i - 1) div 2))"]
    by (auto simp: lu_min_heap_shift_up_unconditional_def Let_def place_def intro: same_but_idx_trans [OF same_but_idx_set])
  have down: "same_but_idx es (fst (lu_min_heap_shift_down (es, a) n i l))" for a n i l
    using shift_down_frame [of "(es, a)"] by (auto simp: lu_min_heap_shift_down_def Let_def intro: same_but_idx_trans [OF _ same_but_idx_set])
  define st where "st = (if min_heap_idx (es e) > 0 \<and>
        lu_min_heap_element_greater es (elements h ! ((min_heap_idx (es e) - 1) div 2)) (elements h ! (hn h - 1))
      then lu_min_heap_shift_up_unconditional (es, elements h) (min_heap_idx (es e)) (elements h ! (hn h - 1))
      else lu_min_heap_shift_down (es, elements h) (hn h - 1) (min_heap_idx (es e)) (elements h ! (hn h - 1)))"
  have st: "same_but_idx es (fst st)" using up down by (simp add: st_def)
  have "fst (lu_min_heap_erase es h e) =
      (if LU_SIZE_MAX \<noteq> min_heap_idx (es e) then set_heap_idx (fst st) e LU_SIZE_MAX else es)"
    unfolding lu_min_heap_erase_def Let_def st_def [symmetric] by (simp add: split_beta)
  then show ?thesis using same_but_idx_trans [OF st same_but_idx_set] by simp
qed

lemma kept_gettime: "gettime v w = (w', t, r) \<Longrightarrow> kept w' = kept w"
  by (auto simp: gettime_def Let_def split: if_splits prod.splits)

lemma kept_reserve: "reserve_timeout v w e tvo = (w', r) \<Longrightarrow> kept w' = kept w"
  by (auto simp: reserve_timeout_def Let_def split: if_splits prod.splits)

lemma kept_remove_timeout:
  assumes "lu_event_queue_remove_timeout w e = Inr w'"
  shows "kept w' = kept w"
proof -
  let ?w = "ev_clr_flag LU_EVLIST_TIMEOUT e (LU_DECR_EVENT_COUNT (fl w e) w)"
  obtain es h r where er: "lu_min_heap_erase (w_evs ?w) (time_heap (w_base ?w)) e = (es, h, r)" by (metis prod_cases3)
  have "same_but_idx (w_evs ?w) es" using erase_frame [of "w_evs ?w" "time_heap (w_base ?w)" e] er by simp
  then have "kept (?w\<lparr>w_evs := es\<rparr>) = kept w" by (simp add: kept_same_idx kept_flags kept_lists)
  then show ?thesis using assms
    by (auto simp: lu_event_queue_remove_timeout_def Let_def er kept_flags kept_lists split: if_splits)
qed

interpretation kept: op_view kept
  by unfold_locales
    (simp_all add: kept_ev kept_inserted kept_remove_timeout kept_queues kept_maps kept_gettime kept_reserve)

lemma kept_del_locked: "lu_event_del_locked v w e b = Inr (w', r) \<Longrightarrow> kept w' = kept w"
  by (erule kept.view_del_locked [rotated 2]) simp_all

section \<open>The settings of the base\<close>

text \<open>The base without what the operations on events count, queue, watch and time: its address, its
  backend and its state, its flags, priorities and limits, its lock and the identity of its owner, the
  event being run, the pipe of the notification, the signal machinery, the watchers.\<close>

definition settings :: "world \<Rightarrow> nat \<times> lu_event_base_t" where
  "settings w = (w_self w, (w_base w)\<lparr>event_count := 0, event_count_max := 0, event_count_active := 0,
     event_count_active_max := 0, event_continue := 0, activequeues := [], active_later_queue := [],
     common_timeout_queues := [], io := lu_evmap_io_initmap, sigmap := lu_evmap_siganl_initmap,
     time_heap := lu_min_heap_constructor, monotonic_timer := zero_timer, current_event_waiters := 0,
     is_notify_pending := 0, io_calls := [], sig_calls := []\<rparr>)"

lemma settings_ev [simp]: "settings (upd_ev g e w) = settings w" "settings (w\<lparr>w_evs := es\<rparr>) = settings w"
  "settings (ev_clr_flag f e w) = settings w" "settings (ev_set_flag f e w) = settings w"
  by (simp_all add: settings_def ev_clr_flag_def ev_set_flag_def)

lemma settings_misc [simp]:
  "settings (abort_signal_loop e w) = settings w" "settings (wait_current_event w) = settings w"
  "settings (fst (lu_evthread_notify_base w)) = settings w"
  "settings (LU_INCR_EVENT_COUNT f w) = settings w" "settings (LU_DECR_EVENT_COUNT f w) = settings w"
  by (simp_all add: settings_def abort_signal_loop_def wait_current_event_def lu_evthread_notify_base_def
      LU_INCR_EVENT_COUNT_def LU_DECR_EVENT_COUNT_def split: option.split)

lemma settings_inserted:
  "lu_event_queue_insert_inserted w e = Inr w' \<Longrightarrow> settings w' = settings w"
  "lu_event_queue_remove_inserted w e = Inr w' \<Longrightarrow> settings w' = settings w"
  by (auto simp: lu_event_queue_insert_inserted_def lu_event_queue_remove_inserted_def split: if_splits)

lemma settings_queue: "upd_queue p g w = Inr w' \<Longrightarrow> settings w' = settings w"
  by (auto simp: upd_queue_def settings_def split: if_splits)

lemma settings_active_count [simp]:
  "settings (upd_base (\<lambda>b. b\<lparr>event_count_active := n b\<rparr>) w) = settings w"
  "settings (upd_base (\<lambda>b. b\<lparr>event_count_active := n b, event_count_active_max := m b\<rparr>) w) = settings w"
  "settings (upd_base (\<lambda>b. b\<lparr>event_count_active := n b, active_later_queue := q b\<rparr>) w) = settings w"
  by (simp_all add: settings_def)

lemma settings_queues:
  "lu_event_queue_remove_active w e = Inr w' \<Longrightarrow> settings w' = settings w"
  "lu_event_queue_remove_active_later w e = Inr w' \<Longrightarrow> settings w' = settings w"
  "lu_event_queue_insert_active w e = Inr w' \<Longrightarrow> settings w' = settings w"
  by (auto simp: lu_event_queue_remove_active_def lu_event_queue_remove_active_later_def
      lu_event_queue_insert_active_def Let_def lu_assert_def dest!: settings_queue split: if_splits)

lemma settings_maps_base [simp]:
  "settings (upd_base (\<lambda>b. b\<lparr>io := m b\<rparr>) w) = settings w"
  "settings (upd_base (\<lambda>b. b\<lparr>sigmap := s b\<rparr>) w) = settings w"
  "settings (upd_base (\<lambda>b. b\<lparr>io_calls := c b\<rparr>) w) = settings w"
  "settings (upd_base (\<lambda>b. b\<lparr>io := m b, io_calls := c b\<rparr>) w) = settings w"
  "settings (upd_base (\<lambda>b. b\<lparr>sigmap := s b, sig_calls := c b\<rparr>) w) = settings w"
  "settings (upd_base (\<lambda>b. b\<lparr>sig_calls := c b\<rparr>) w) = settings w"
  "settings (upd_base (\<lambda>b. b\<lparr>monotonic_timer := t b\<rparr>) w) = settings w"
  "settings (upd_base (\<lambda>b. b\<lparr>time_heap := h b\<rparr>) w) = settings w"
  "settings (upd_base (\<lambda>b. b\<lparr>common_timeout_queues := q b\<rparr>) w) = settings w"
  "settings (upd_base (\<lambda>b. b\<lparr>event_continue := n b\<rparr>) w) = settings w"
  by (simp_all add: settings_def)

lemma settings_maps:
  "lu_evmap_io_add v w fd e = Inr (w', r) \<Longrightarrow> settings w' = settings w"
  "lu_evmap_io_del v w fd e = Inr (w', r) \<Longrightarrow> settings w' = settings w"
  "lu_evmap_signal_add v w fd e = Inr (w', r) \<Longrightarrow> settings w' = settings w"
  "lu_evmap_signal_del v w fd e = Inr (w', r) \<Longrightarrow> settings w' = settings w"
  by (auto simp: lu_evmap_io_add_def lu_evmap_io_del_def lu_evmap_signal_add_def lu_evmap_signal_del_def
      Let_def lu_assert_def split: if_splits option.splits prod.splits)

lemma settings_timer:
  "gettime v w = (w', t, r) \<Longrightarrow> settings w' = settings w"
  "reserve_timeout v w e tvo = (w', n) \<Longrightarrow> settings w' = settings w"
  by (auto simp: gettime_def reserve_timeout_def Let_def split: if_splits prod.splits)

lemma settings_remove_timeout: "lu_event_queue_remove_timeout w e = Inr w' \<Longrightarrow> settings w' = settings w"
  by (auto simp: lu_event_queue_remove_timeout_def Let_def split: if_splits prod.splits)

interpretation settings: op_view settings
  by unfold_locales (simp_all add: settings_inserted settings_remove_timeout settings_queues settings_maps settings_timer)

text \<open>Settings that differ in nothing but the lock are those of the two worlds around a critical section.\<close>

lemma settings_lock: "settings w = settings w' \<Longrightarrow> th_base_lock (w_base w) = th_base_lock (w_base w')"
proof -
  have "th_base_lock (snd (settings w)) = th_base_lock (w_base w)" for w by (simp add: settings_def)
  then show "settings w = settings w' \<Longrightarrow> th_base_lock (w_base w) = th_base_lock (w_base w')" by metis
qed

lemma settings_locked:
  "settings (LU_EVBASE_ACQUIRE_LOCK w) = map_prod id (\<lambda>b. b\<lparr>th_base_lock := map_option Suc (th_base_lock b)\<rparr>) (settings w)"
  "settings (LU_EVBASE_RELEASE_LOCK w) = map_prod id (\<lambda>b. b\<lparr>th_base_lock := map_option (\<lambda>d. d - 1) (th_base_lock b)\<rparr>) (settings w)"
  by (simp_all add: settings_def LU_EVBASE_ACQUIRE_LOCK_def LU_EVBASE_RELEASE_LOCK_def)

lemma settings_del_locked:
  assumes "lu_event_del_locked v w e b = Inr (w', r)"
  shows "settings w' = settings w"
proof (cases "ev_base (ev_of w e) = None")
  case False
  then obtain w1 where w1: "lu_event_del_nolock v (LU_EVBASE_ACQUIRE_LOCK w) e b = Inr (w1, r)" "w' = LU_EVBASE_RELEASE_LOCK w1"
    using assms by (auto simp: lu_event_del_locked_def)
  have u: "(\<lambda>d. d - 1) \<circ> Suc = id" by auto
  have "settings w1 = settings (LU_EVBASE_ACQUIRE_LOCK w)" using settings.view_del_nolock [OF w1(1)] .
  then show ?thesis unfolding w1(2) settings_locked
    by (simp add: prod.map_comp o_def option.map_comp option.map_ident prod.map_ident)
qed (use assms in \<open>simp add: lu_event_del_locked_def\<close>)

lemma settings_assign: "lu_event_assign v fc cb w e base fd events cbk arg self = Inr (w', r) \<Longrightarrow> settings w' = settings w"
  by (auto simp: lu_event_assign_def Let_def lu_event_debug_assert_socket_nonblocking_def lu_assert_def
      split: if_splits option.splits)

lemma settings_core_step: "core_step D w w' \<Longrightarrow> settings w' = settings w"
  by (induction rule: core_step.induct)
    (auto simp: lu_event_del_def lu_event_del_noblock_def lu_event_priority_set_def split: if_splits
      dest: settings.view_add settings_del_locked settings.view_active settings_assign)

lemma settings_sys_step: "sys_step s s' \<Longrightarrow> settings (snd s') = settings (snd s)"
  by (induction rule: sys_step.induct) (auto dest: settings_assign settings_core_step)

lemma sys_reachable_settings: "sys_reachable w0 D w \<Longrightarrow> settings w = settings w0"
proof -
  have "sys_step\<^sup>*\<^sup>* s s' \<Longrightarrow> settings (snd s') = settings (snd s)" for s s'
    by (induction rule: rtranclp_induct) (auto dest: settings_sys_step)
  from this [of "({}, w0)" "(D, w)"] show "sys_reachable w0 D w \<Longrightarrow> settings w = settings w0"
    by (simp add: sys_reachable_def)
qed

end
