(* ===== verification/LuBaseFree.thy ===== *)
theory LuBaseFree
  imports LuEventProps LuEventView
begin

text \<open>
  Freeing a base (\<open>lu_event_base_free\<close>) runs loops that delete every event the maps and the
  queues still hold: over the slots of the two maps, over the list of each slot until it is
  empty, over the active queues with the next element read before the current one goes, and
  over both kinds of queue again until a round removes nothing. Here: from every state a
  program reaches, with fuel for as many rounds as there are events, all of them end, none of
  the assertions fails, and what is released is empty. The flags that steer the loops
  (\<open>LU_EVLIST_INIT\<close>, \<open>LU_EVLIST_INTERNAL\<close>, \<open>LU_EVLIST_FINALIZING\<close>) are shown to be those of an
  assigned event in every state.
\<close>

section \<open>Assigned events\<close>

definition plain :: "evptr set \<Rightarrow> world \<Rightarrow> bool" where
  "plain D w \<longleftrightarrow> (\<forall>e\<in>D. kept w e = LU_EVLIST_INIT)"

lemma plainD:
  assumes "plain D w" "e \<in> D"
  shows "has_flag (fl w e) LU_EVLIST_INIT" "\<not> has_flag (fl w e) LU_EVLIST_INTERNAL"
    "\<not> has_flag (fl w e) LU_EVLIST_FINALIZING"
proof -
  have k: "fl w e AND KEPT = LU_EVLIST_INIT" using assms by (simp add: plain_def kept_def)
  have "has_flag (fl w e) f \<longleftrightarrow> has_flag (fl w e AND KEPT) f" if "KEPT AND f = f" for f
    using that by (simp add: has_flag_def and.assoc)
  then show "has_flag (fl w e) LU_EVLIST_INIT" "\<not> has_flag (fl w e) LU_EVLIST_INTERNAL"
    "\<not> has_flag (fl w e) LU_EVLIST_FINALIZING"
    unfolding k by (simp_all add: KEPT_def has_flag_def lu_consts)
qed

lemma plain_assign:
  assumes "lu_event_assign v fc cb w e base fd events cbk arg self = Inr (w', 0)" "base \<noteq> None"
    and "\<And>x. x \<in> D \<Longrightarrow> x \<noteq> e \<Longrightarrow> kept w x = LU_EVLIST_INIT"
  shows "plain D w'"
proof -
  obtain x where "w' = upd_ev (\<lambda>_. x) e w" "ev_flags x = LU_EVLIST_INIT"
    using assign_effect [OF assms(1)] assms(2) by metis
  then show ?thesis using assms(3) by (auto simp: plain_def kept_def KEPT_def lu_consts)
qed

lemma plain_core_step: "core_step D w w' \<Longrightarrow> plain D w \<Longrightarrow> plain D w'"
proof (induction rule: core_step.induct)
  case (assign e w base v fc cb fd events cbk arg self w')
  show ?case by (rule plain_assign [OF assign(4,3)]) (use assign in \<open>simp add: plain_def\<close>)
next
  case (priority e w p w' r)
  then show ?case by (auto simp: lu_event_priority_set_def plain_def kept_ev split: if_splits)
qed (auto simp: plain_def lu_event_del_def lu_event_del_noblock_def dest!: kept.view_add kept_del_locked kept.view_active)

lemma plain_step: "sys_step s s' \<Longrightarrow> plain (fst s) (snd s) \<Longrightarrow> plain (fst s') (snd s')"
proof (induction rule: sys_step.induct)
  case (create e D base v fc cb w fd events cbk arg self w')
  then show ?case using plain_assign [OF create(3,2), of "insert e D"] by (auto simp: plain_def)
qed (auto intro: plain_core_step)

lemma sys_reachable_plain: "sys_reachable w0 D w \<Longrightarrow> plain D w"
proof -
  have "sys_step\<^sup>*\<^sup>* s s' \<Longrightarrow> plain (fst s) (snd s) \<Longrightarrow> plain (fst s') (snd s')" for s s'
    by (induction rule: rtranclp_induct) (auto intro: plain_step)
  from this [of "({}, w0)" "(D, w)"] show "sys_reachable w0 D w \<Longrightarrow> plain D w"
    by (simp add: sys_reachable_def plain_def)
qed


section \<open>What the lists of a base hold\<close>

text \<open>The lists that freeing empties, and the same lists without a set of events.\<close>

record held =
  h_self :: nat
  h_npri :: int
  h_nio :: int
  h_nsig :: int
  h_io :: "evptr list option list"
  h_sig :: "evptr list option list"
  h_act :: "evptr list list"
  h_later :: "evptr list"

definition held :: "world \<Rightarrow> held" where
  "held w = \<lparr>h_self = w_self w, h_npri = nactivequeues (w_base w), h_nio = nentries (io (w_base w)),
     h_nsig = nentries (sigmap (w_base w)), h_io = map (map_option io_events) (map_entries (io (w_base w))),
     h_sig = map (map_option sig_events) (map_entries (sigmap (w_base w))),
     h_act = activequeues (w_base w), h_later = active_later_queue (w_base w)\<rparr>"

definition drop_in :: "evptr set \<Rightarrow> evptr list \<Rightarrow> evptr list" where
  "drop_in X = filter (\<lambda>x. x \<notin> X)"

definition without :: "evptr set \<Rightarrow> held \<Rightarrow> held" where
  "without X h = h\<lparr>h_io := map (map_option (drop_in X)) (h_io h), h_sig := map (map_option (drop_in X)) (h_sig h),
     h_act := map (drop_in X) (h_act h), h_later := drop_in X (h_later h)\<rparr>"

lemma drop_in_drop [simp]: "drop_in X (drop_in Y xs) = drop_in (X \<union> Y) xs"
  by (simp add: drop_in_def conj_commute)

lemma drop_in_nil [simp]: "drop_in X [] = []" "drop_in X xs = [] \<longleftrightarrow> set xs \<subseteq> X"
  by (auto simp: drop_in_def filter_empty_conv)

lemma drop_in_empty [simp]: "drop_in {} = (\<lambda>xs. xs)"
  by (simp add: drop_in_def fun_eq_iff)

lemma drop_in_remove: "e \<in> X \<Longrightarrow> drop_in X (remove1 e xs) = drop_in X xs"
  by (induction xs) (auto simp: drop_in_def)

lemma drop_in_notin: "set xs \<inter> X = {} \<Longrightarrow> drop_in X xs = xs"
  by (induction xs) (auto simp: drop_in_def)

lemma set_drop_in [simp]: "set (drop_in X xs) = set xs - X"
  by (auto simp: drop_in_def)

lemma map_option_id: "map_option (\<lambda>x. x) o1 = o1"
  by (cases o1) auto

lemma without_without: "without X (without Y h) = without (X \<union> Y) h"
  by (simp add: without_def comp_def option.map_comp)

lemma without_empty [simp]: "without {} h = h"
  by (simp add: without_def map_option_id [abs_def])

section \<open>Deleting an event takes it out of every list\<close>

lemma held_evs: "w_base w' = w_base w \<Longrightarrow> w_self w' = w_self w \<Longrightarrow> held w' = held w"
  by (simp add: held_def)

lemma held_misc [simp]:
  "held (abort_signal_loop e w) = held w" "held (wait_current_event w) = held w"
  "held (fst (lu_evthread_notify_base w)) = held w"
  "held (LU_EVBASE_ACQUIRE_LOCK w) = held w" "held (LU_EVBASE_RELEASE_LOCK w) = held w"
  "held (LU_DECR_EVENT_COUNT f w) = held w" "held (ev_clr_flag f e w) = held w"
  by (simp_all add: held_def abort_signal_loop_def wait_current_event_def LU_EVBASE_ACQUIRE_LOCK_def
      LU_EVBASE_RELEASE_LOCK_def lu_evthread_notify_base_def LU_DECR_EVENT_COUNT_def ev_clr_flag_def
      split: option.splits)

lemma held_remove_inserted: "lu_event_queue_remove_inserted w e = Inr w' \<Longrightarrow> held w' = held w"
  by (auto simp: lu_event_queue_remove_inserted_def split: if_splits)

lemma held_remove_timeout: "lu_event_queue_remove_timeout w e = Inr w' \<Longrightarrow> held w' = held w"
  by (auto simp: held_def lu_event_queue_remove_timeout_def Let_def LU_DECR_EVENT_COUNT_def ev_clr_flag_def
      split: if_splits prod.splits)

lemma map_drop_update:
  "n < length xs \<Longrightarrow> f y = f (xs ! n) \<Longrightarrow> map f (xs[n := y]) = map f xs"
  by (simp add: map_update) (metis length_map list_update_id nth_map)

lemma wiped_active:
  assumes "lu_event_queue_remove_active w e = Inr w'"
  shows "without {e} (held w') = without {e} (held w)"
  using assms
  by (auto simp: lu_event_queue_remove_active_def Let_def upd_queue_def held_def without_def
      LU_DECR_EVENT_COUNT_def ev_clr_flag_def map_drop_update drop_in_remove split: if_split_asm)

lemma wiped_later:
  assumes "lu_event_queue_remove_active_later w e = Inr w'"
  shows "without {e} (held w') = without {e} (held w)"
  using assms
  by (auto simp: lu_event_queue_remove_active_later_def Let_def held_def without_def
      LU_DECR_EVENT_COUNT_def ev_clr_flag_def drop_in_remove split: if_split_asm)

text \<open>Putting a slot whose list lost only the event.\<close>

lemma wiped_entries:
  assumes "es ! n = Some c" "f c' = remove1 e (f c)"
  shows "map (map_option (drop_in {e}) \<circ> map_option f) (es[n := Some c']) = map (map_option (drop_in {e}) \<circ> map_option f) es"
proof (cases "n < length es")
  case True
  then show ?thesis by (rule map_drop_update) (simp add: assms drop_in_remove)
qed (simp add: list_update_beyond not_less)

lemma wiped_io_slot:
  assumes "io (w_base w') = put_slot (io (w_base w)) fd c'" "io_events c' = remove1 e (io_events c)"
    "map_entries (io (w_base w)) ! nat fd = Some c"
    "sigmap (w_base w') = sigmap (w_base w)" "activequeues (w_base w') = activequeues (w_base w)"
    "active_later_queue (w_base w') = active_later_queue (w_base w)"
    "nactivequeues (w_base w') = nactivequeues (w_base w)" "w_self w' = w_self w"
  shows "without {e} (held w') = without {e} (held w)"
  using assms(4-8) wiped_entries [where f = io_events, OF assms(3,2)]
  by (simp add: held_def without_def assms(1) put_slot_def)

lemma wiped_sig_slot:
  assumes "sigmap (w_base w') = put_slot (sigmap (w_base w)) fd c'" "sig_events c' = remove1 e (sig_events c)"
    "map_entries (sigmap (w_base w)) ! nat fd = Some c"
    "io (w_base w') = io (w_base w)" "activequeues (w_base w') = activequeues (w_base w)"
    "active_later_queue (w_base w') = active_later_queue (w_base w)"
    "nactivequeues (w_base w') = nactivequeues (w_base w)" "w_self w' = w_self w"
  shows "without {e} (held w') = without {e} (held w)"
  using assms(4-8) wiped_entries [where f = sig_events, OF assms(3,2)]
  by (simp add: held_def without_def assms(1) put_slot_def)

lemma wiped_io_del:
  assumes "lu_evmap_io_del v w fd e = Inr (w', r)"
  shows "without {e} (held w') = without {e} (held w)"
proof (cases "w' = w")
  case False
  obtain c where c: "map_entries (io (w_base w)) ! nat fd = Some c"
    using assms False by (auto simp: lu_evmap_io_del_def lu_assert_def split: if_split_asm option.splits)
  have "\<exists>c'. io (w_base w') = put_slot (io (w_base w)) fd c' \<and> io_events c' = remove1 e (io_events c) \<and>
    sigmap (w_base w') = sigmap (w_base w) \<and> activequeues (w_base w') = activequeues (w_base w) \<and>
    active_later_queue (w_base w') = active_later_queue (w_base w) \<and>
    nactivequeues (w_base w') = nactivequeues (w_base w) \<and> w_self w' = w_self w"
  proof -
    define rd where "rd = int (nread c) - (if has_flag (ev_events (ev_of w e)) LU_EV_READ then 1 else 0)"
    define wr where "wr = int (nwrite c) - (if has_flag (ev_events (ev_of w e)) LU_EV_WRITE then 1 else 0)"
    define cl where "cl = int (nclose c) - (if has_flag (ev_events (ev_of w e)) LU_EV_CLOSED then 1 else 0)"
    define c' where "c' = c\<lparr>io_events := remove1 e (io_events c), nread := nat rd, nwrite := nat wr, nclose := nat cl\<rparr>"
    have "w' = upd_base (\<lambda>b. b\<lparr>io := put_slot (io b) fd c'\<rparr>) w \<or>
        (\<exists>cs. w' = upd_base (\<lambda>b. b\<lparr>io := put_slot (io b) fd c', io_calls := cs b\<rparr>) w)"
      using assms False unfolding lu_evmap_io_del_def lu_assert_def c Let_def option.case
        rd_def [symmetric] wr_def [symmetric] cl_def [symmetric] c'_def [symmetric]
      by (auto split: if_split_asm option.splits simp: upd_base_def)
    then show ?thesis by (auto simp: c'_def)
  qed
  then show ?thesis using wiped_io_slot c by blast
qed simp

lemma wiped_sig_del:
  assumes "lu_evmap_signal_del v w fd e = Inr (w', r)"
  shows "without {e} (held w') = without {e} (held w)"
proof (cases "w' = w")
  case False
  obtain c where c: "map_entries (sigmap (w_base w)) ! nat fd = Some c"
    using assms False by (auto simp: lu_evmap_signal_del_def split: if_split_asm option.splits)
  have "\<exists>c'. sigmap (w_base w') = put_slot (sigmap (w_base w)) fd c' \<and> sig_events c' = remove1 e (sig_events c) \<and>
    io (w_base w') = io (w_base w) \<and> activequeues (w_base w') = activequeues (w_base w) \<and>
    active_later_queue (w_base w') = active_later_queue (w_base w) \<and>
    nactivequeues (w_base w') = nactivequeues (w_base w) \<and> w_self w' = w_self w"
    using assms False c
    by (auto simp: lu_evmap_signal_del_def Let_def split: if_split_asm option.splits)
  then show ?thesis using wiped_sig_slot c by blast
qed simp

lemma wiped_del_nolock: "lu_event_del_nolock v w e b = Inr (w', r) \<Longrightarrow> without {e} (held w') = without {e} (held w)"
  by (erule del_nolock_view [where f = "\<lambda>w. without {e} (held w)"])
    (simp_all add: held_remove_inserted held_remove_timeout wiped_active wiped_later wiped_io_del wiped_sig_del)


section \<open>The loops of freeing\<close>

text \<open>\<open>at D w0 X w\<close>: freeing started at \<open>w0\<close>, and the events \<open>X\<close> have been deleted.\<close>

definition at :: "evptr set \<Rightarrow> world \<Rightarrow> evptr set \<Rightarrow> world \<Rightarrow> bool" where
  "at D w0 X w \<longleftrightarrow> core_inv D w \<and> plain D w \<and> held w = without X (held w0) \<and>
     (\<forall>x. x \<notin> D \<longrightarrow> ev_of w x = ev_of w0 x)"

lemma at_start: "core_inv D w \<Longrightarrow> plain D w \<Longrightarrow> at D w {} w"
  by (simp add: at_def)

lemma queue_members:
  assumes "core_inv D w"
  shows "i < length (activequeues (w_base w)) \<Longrightarrow> e \<in> set (activequeues (w_base w) ! i) \<Longrightarrow>
      e \<in> D \<and> has_flag (fl w e) LU_EVLIST_ACTIVE"
    and "e \<in> set (active_later_queue (w_base w)) \<Longrightarrow> e \<in> D \<and> has_flag (fl w e) LU_EVLIST_ACTIVE_LATER"
  using assms by (auto simp: core_inv_def queue_inv_def queues_ok_def)

lemma io_slot_members:
  assumes "core_inv D w" "i < length (map_entries (io (w_base w)))" "map_entries (io (w_base w)) ! i = Some c"
    "e \<in> set (io_events c)"
  shows "e \<in> D \<and> has_flag (fl w e) LU_EVLIST_INSERTED"
proof -
  have s: "slots_ok (io_set D w) (io_slot_ok (\<lambda>x. ev_events (ev_of w x))) (io (w_base w))"
    using assms(1) by (simp add: core_inv_def map_inv_def io_inv_def)
  then have "int i < nentries (io (w_base w))" using assms(2) by (simp add: slots_ok_def)
  with slots_okD(3) [OF s, of "int i" c] assms(3,4) show ?thesis by (auto simp: io_slot_ok_def io_set_def)
qed

lemma sig_slot_members:
  assumes "core_inv D w" "i < length (map_entries (sigmap (w_base w)))" "map_entries (sigmap (w_base w)) ! i = Some c"
    "e \<in> set (sig_events c)"
  shows "e \<in> D \<and> has_flag (fl w e) LU_EVLIST_INSERTED"
proof -
  have s: "slots_ok (sig_set D w) sig_slot_ok (sigmap (w_base w))"
    using assms(1) by (simp add: core_inv_def map_inv_def)
  then have "int i < nentries (sigmap (w_base w))" using assms(2) by (simp add: slots_ok_def)
  with slots_okD(3) [OF s, of "int i" c] assms(3,4) show ?thesis by (auto simp: sig_slot_ok_def sig_set_def)
qed

text \<open>An event on none of its lists does not occur in what the base holds.\<close>

lemma held_without:
  assumes inv: "core_inv D w" and e: "\<not> has_flag (fl w e) LU_EVLIST_INSERTED"
    "\<not> has_flag (fl w e) LU_EVLIST_ACTIVE" "\<not> has_flag (fl w e) LU_EVLIST_ACTIVE_LATER"
  shows "without {e} (held w) = held w"
proof -
  have 1: "drop_in {e} q = q" if q: "q \<in> set (activequeues (w_base w))" for q
  proof -
    obtain i where "i < length (activequeues (w_base w))" "activequeues (w_base w) ! i = q"
      using q by (auto simp: in_set_conv_nth)
    then have "e \<notin> set q" using queue_members(1) [OF inv, of i e] e(2) by auto
    then show ?thesis by (simp add: drop_in_notin)
  qed
  have 2: "drop_in {e} (active_later_queue (w_base w)) = active_later_queue (w_base w)"
    using queue_members(2) [OF inv] e(3) by (intro drop_in_notin) auto
  have 3: "map_option (drop_in {e}) (map_option io_events s) = map_option io_events s"
    if s: "s \<in> set (map_entries (io (w_base w)))" for s
  proof (cases s)
    case (Some c)
    then obtain i where "i < length (map_entries (io (w_base w)))" "map_entries (io (w_base w)) ! i = Some c"
      using s by (auto simp: in_set_conv_nth)
    then have "e \<notin> set (io_events c)" using io_slot_members [OF inv] e(1) by blast
    then show ?thesis using Some by (simp add: drop_in_notin)
  qed simp
  have 4: "map_option (drop_in {e}) (map_option sig_events s) = map_option sig_events s"
    if s: "s \<in> set (map_entries (sigmap (w_base w)))" for s
  proof (cases s)
    case (Some c)
    then obtain i where "i < length (map_entries (sigmap (w_base w)))" "map_entries (sigmap (w_base w)) ! i = Some c"
      using s by (auto simp: in_set_conv_nth)
    then have "e \<notin> set (sig_events c)" using sig_slot_members [OF inv] e(1) by blast
    then show ?thesis using Some by (simp add: drop_in_notin)
  qed simp
  have "map (drop_in {e}) (activequeues (w_base w)) = activequeues (w_base w)" using 1 by (simp add: map_idI)
  moreover have "map (map_option (drop_in {e})) (map (map_option io_events) (map_entries (io (w_base w)))) =
    map (map_option io_events) (map_entries (io (w_base w)))" using 3 by simp
  moreover have "map (map_option (drop_in {e})) (map (map_option sig_events) (map_entries (sigmap (w_base w)))) =
    map (map_option sig_events) (map_entries (sigmap (w_base w)))" using 4 by simp
  ultimately show ?thesis using 2 by (simp add: without_def held_def del: map_map)
qed

lemma del_at:
  assumes "at D w0 X w" "e \<in> D"
  shows "\<exists>w' r. lu_event_del v w e = Inr (w', r) \<and> at D w0 (insert e X) w'"
proof -
  let ?w = "LU_EVBASE_ACQUIRE_LOCK w"
  have a: "core_inv D w" "plain D w" "held w = without X (held w0)" "\<And>x. x \<notin> D \<Longrightarrow> ev_of w x = ev_of w0 x"
    using assms(1) by (auto simp: at_def)
  have inv: "core_inv D ?w" using a(1) core_inv_view [OF view_lock(1)] by blast
  have b: "ev_base (ev_of w e) \<noteq> None" using a(1) assms(2) by (simp add: core_inv_def static_inv_def)
  have evs: "w_evs ?w = w_evs w" by (simp add: LU_EVBASE_ACQUIRE_LOCK_def)
  have nf: "\<not> has_flag (fl ?w e) LU_EVLIST_FINALIZING" using plainD(3) [OF a(2) assms(2)] by (simp add: evs)
  obtain w1 r where d: "lu_event_del_nolock v ?w e LU_EVENT_DEL_AUTOBLOCK = Inr (w1, r)" "core_inv D w1"
    "\<not> has_flag (fl w1 e) LU_EVLIST_INSERTED" "\<not> has_flag (fl w1 e) LU_EVLIST_ACTIVE"
    "\<not> has_flag (fl w1 e) LU_EVLIST_ACTIVE_LATER" "\<forall>x. x \<noteq> e \<longrightarrow> ev_of w1 x = ev_of ?w x"
    using del_inv [OF inv assms(2), of LU_EVENT_DEL_AUTOBLOCK v] nf by blast
  let ?w' = "LU_EVBASE_RELEASE_LOCK w1"
  have r: "lu_event_del v w e = Inr (?w', r)"
    unfolding lu_event_del_def lu_event_del_locked_def if_not_P [OF b] d(1) bind_res.simps prod.case ..
  have evs': "w_evs ?w' = w_evs w1" by (simp add: LU_EVBASE_RELEASE_LOCK_def)
  have "core_inv D ?w'" using d(2) core_inv_view [OF view_lock(2)] by blast
  moreover have "plain D ?w'" using a(2) kept.view_del_nolock [OF d(1)] by (simp add: plain_def)
  moreover have "held ?w' = without (insert e X) (held w0)"
  proof -
    have "held w1 = without {e} (held w1)" using held_without [OF d(2-5)] by simp
    also have "\<dots> = without {e} (held w)" using wiped_del_nolock [OF d(1)] by simp
    finally show ?thesis by (simp add: a(3) without_without)
  qed
  moreover have "\<forall>x. x \<notin> D \<longrightarrow> ev_of ?w' x = ev_of w0 x" using d(6) a(4) evs evs' assms(2) by metis
  ultimately show ?thesis using r by (auto simp: at_def)
qed


text \<open>Emptying a list: \<open>dl\<close> reads it, and what is deleted disappears from it.\<close>

lemma delete_all_at:
  assumes dl: "\<And>X w. at D w0 X w \<Longrightarrow> dl w = drop_in X (dl w0)" and D: "set (dl w0) \<subseteq> D"
  shows "at D w0 X w \<Longrightarrow> length (dl w) \<le> fuel \<Longrightarrow>
    \<exists>w'. lu_event_delete_all_in_dlist fuel dl v w = Inr (w', 0) \<and> at D w0 (X \<union> set (dl w0)) w'"
proof (induction fuel arbitrary: X w)
  case 0
  then have "dl w = []" by simp
  moreover have "X \<union> set (dl w0) = X" using dl [OF 0(1)] calculation by (metis drop_in_nil(2) Un_absorb2)
  ultimately show ?case using 0 by (simp add: lu_event_delete_all_in_dlist.simps)
next
  case (Suc fuel)
  note l = dl [OF Suc.prems(1)]
  show ?case
  proof (cases "dl w")
    case Nil
    then have "X \<union> set (dl w0) = X" using l by (metis drop_in_nil(2) Un_absorb2)
    then show ?thesis using Nil Suc.prems by (simp add: lu_event_delete_all_in_dlist.simps)
  next
    case (Cons e es)
    have e: "e \<in> set (dl w0)" "e \<in> D" using l Cons D by (metis list.set_intros(1) set_drop_in DiffD1 subsetD)+
    obtain w1 r where d: "lu_event_del v w e = Inr (w1, r)" "at D w0 (insert e X) w1"
      using del_at [OF Suc.prems(1) e(2)] by blast
    have "dl w1 = drop_in {e} (dl w)" using dl [OF d(2)] l by simp
    then have "length (dl w1) \<le> fuel" using Suc.prems(2) Cons
      by (simp add: drop_in_def) (meson le_trans length_filter_le)
    from Suc.IH [OF d(2) this] obtain w' where
      w': "lu_event_delete_all_in_dlist fuel dl v w1 = Inr (w', 0)" "at D w0 (insert e X \<union> set (dl w0)) w'" by blast
    have "insert e X \<union> set (dl w0) = X \<union> set (dl w0)" using e(1) by auto
    then show ?thesis using w' d(1) Cons by (simp add: lu_event_delete_all_in_dlist.simps [of "Suc fuel"])
  qed
qed

text \<open>Running over the slots: what a slot held is deleted.\<close>

lemma foreach_at:
  assumes slot: "\<And>X w i. at D w0 X w \<Longrightarrow> 0 \<le> i \<Longrightarrow> i < n \<Longrightarrow> map_entries (mp_of w) ! nat i = None \<Longrightarrow> S i = {}"
    and fn: "\<And>X w i. at D w0 X w \<Longrightarrow> 0 \<le> i \<Longrightarrow> i < n \<Longrightarrow> \<exists>w'. fn w i = Inr (w', 0) \<and> at D w0 (X \<union> S i) w'"
  shows "at D w0 X w \<Longrightarrow> 0 \<le> i \<Longrightarrow> i + int k = n \<Longrightarrow>
    \<exists>w'. evmap_foreach mp_of fn k i w = Inr (w', 0) \<and> at D w0 (X \<union> (\<Union>j \<in> {i..<n}. S j)) w'"
proof (induction k arbitrary: X w i)
  case (Suc k)
  have i: "i < n" "i + 1 + int k = n" using Suc.prems by auto
  have u: "(\<Union>j \<in> {i..<n}. S j) = S i \<union> (\<Union>j \<in> {i + 1..<n}. S j)"
  proof -
    have "{i..<n} = insert i {i + 1..<n}" using i(1) by auto
    then show ?thesis by simp
  qed
  show ?case
  proof (cases "map_entries (mp_of w) ! nat i")
    case None
    then have "S i = {}" using slot [OF Suc.prems(1,2) i(1)] by blast
    with Suc.IH [OF Suc.prems(1) _ i(2)] Suc.prems(2) None show ?thesis by (simp add: u)
  next
    case (Some c)
    obtain w1 where w1: "fn w i = Inr (w1, 0)" "at D w0 (X \<union> S i) w1" using fn [OF Suc.prems(1,2) i(1)] by blast
    from Suc.IH [OF w1(2) _ i(2)] Suc.prems(2) Some w1(1) show ?thesis by (simp add: u Un_assoc)
  qed
qed simp

lemma slot_dropped:
  assumes "map (map_option f) es = map (map_option g) (map (map_option f) ds)" "n < length ds"
  shows "map_option f (es ! n) = map_option g (map_option f (ds ! n))"
proof -
  have "n < length es" using assms by (metis length_map)
  then show ?thesis using arg_cong [OF assms(1), of "\<lambda>xs. xs ! n"] assms(2) by simp
qed

lemma at_io_dlist:
  assumes "at D w0 X w" "0 \<le> fd" "fd < nentries (io (w_base w0))" "core_inv D w0"
  shows "io_dlist fd w = drop_in X (io_dlist fd w0)"
    "map_entries (io (w_base w)) ! nat fd = None \<Longrightarrow> set (io_dlist fd w0) = {}"
    "nentries (io (w_base w)) = nentries (io (w_base w0))" "set (io_dlist fd w0) \<subseteq> D"
proof -
  have h: "held w = without X (held w0)" using assms(1) by (simp add: at_def)
  have n0: "nat fd < length (map_entries (io (w_base w0)))"
    using assms(2-4) by (simp add: core_inv_def map_inv_def io_inv_def slots_ok_def)
  have "map (map_option io_events) (map_entries (io (w_base w))) =
      map (map_option (drop_in X)) (map (map_option io_events) (map_entries (io (w_base w0))))"
    using arg_cong [OF h, of h_io] by (simp add: held_def without_def)
  from slot_dropped [OF this n0]
  have "map_option io_events (map_entries (io (w_base w)) ! nat fd) =
      map_option (drop_in X) (map_option io_events (map_entries (io (w_base w0)) ! nat fd))" .
  then show "io_dlist fd w = drop_in X (io_dlist fd w0)"
    "map_entries (io (w_base w)) ! nat fd = None \<Longrightarrow> set (io_dlist fd w0) = {}"
    by (auto simp: io_dlist_def split: option.splits)
  show "nentries (io (w_base w)) = nentries (io (w_base w0))"
    using arg_cong [OF h, of h_nio] by (simp add: held_def without_def)
  show "set (io_dlist fd w0) \<subseteq> D"
    using io_slot_members [OF assms(4) n0]
    by (cases "map_entries (io (w_base w0)) ! nat fd") (auto simp: io_dlist_def)
qed

lemma at_sig_dlist:
  assumes "at D w0 X w" "0 \<le> fd" "fd < nentries (sigmap (w_base w0))" "core_inv D w0"
  shows "sig_dlist fd w = drop_in X (sig_dlist fd w0)"
    "map_entries (sigmap (w_base w)) ! nat fd = None \<Longrightarrow> set (sig_dlist fd w0) = {}"
    "nentries (sigmap (w_base w)) = nentries (sigmap (w_base w0))" "set (sig_dlist fd w0) \<subseteq> D"
proof -
  have h: "held w = without X (held w0)" using assms(1) by (simp add: at_def)
  have n0: "nat fd < length (map_entries (sigmap (w_base w0)))"
    using assms(2-4) by (simp add: core_inv_def map_inv_def slots_ok_def)
  have "map (map_option sig_events) (map_entries (sigmap (w_base w))) =
      map (map_option (drop_in X)) (map (map_option sig_events) (map_entries (sigmap (w_base w0))))"
    using arg_cong [OF h, of h_sig] by (simp add: held_def without_def)
  from slot_dropped [OF this n0]
  have "map_option sig_events (map_entries (sigmap (w_base w)) ! nat fd) =
      map_option (drop_in X) (map_option sig_events (map_entries (sigmap (w_base w0)) ! nat fd))" .
  then show "sig_dlist fd w = drop_in X (sig_dlist fd w0)"
    "map_entries (sigmap (w_base w)) ! nat fd = None \<Longrightarrow> set (sig_dlist fd w0) = {}"
    by (auto simp: sig_dlist_def split: option.splits)
  show "nentries (sigmap (w_base w)) = nentries (sigmap (w_base w0))"
    using arg_cong [OF h, of h_nsig] by (simp add: held_def without_def)
  show "set (sig_dlist fd w0) \<subseteq> D"
    using sig_slot_members [OF assms(4) n0]
    by (cases "map_entries (sigmap (w_base w0)) ! nat fd") (auto simp: sig_dlist_def)
qed


text \<open>
  The loop relies on no event being finalized: \<open>lu_event_del\<close> returns 0 for such an event and
  leaves it on its list, so one on a slot keeps the loop running for ever. No function of the
  library sets \<open>LU_EVLIST_FINALIZING\<close> (\<open>plain\<close> above); \<open>libevent\<close> deletes here with
  \<open>EVENT_DEL_EVEN_IF_FINALIZING\<close>.
\<close>

lemma release_acquire: "LU_EVBASE_RELEASE_LOCK (LU_EVBASE_ACQUIRE_LOCK w) = w"
  by (simp add: LU_EVBASE_RELEASE_LOCK_def LU_EVBASE_ACQUIRE_LOCK_def upd_base_def option.map_comp comp_def)
    (simp add: option.map_ident)

lemma delete_all_finalizing_loops:
  assumes e: "has_flag (fl w e) LU_EVLIST_FINALIZING" "ev_base (ev_of w e) \<noteq> None" and q: "io_dlist fd w = e # es"
  shows "lu_event_delete_all_in_dlist fuel (io_dlist fd) v w = Inl Out_of_fuel"
proof -
  have evs: "w_evs (LU_EVBASE_ACQUIRE_LOCK w) = w_evs w" by (simp add: LU_EVBASE_ACQUIRE_LOCK_def)
  have "lu_event_del v w e = Inr (w, 0)"
    using e by (simp add: lu_event_del_def lu_event_del_locked_def lu_event_del_nolock_def evs release_acquire)
  then show ?thesis
    by (induction fuel) (simp_all add: lu_event_delete_all_in_dlist.simps [of _ "io_dlist fd"] q)
qed

text \<open>What each part of freeing deletes.\<close>

definition io_events_of :: "world \<Rightarrow> evptr set" where
  "io_events_of w = (\<Union>fd \<in> {0..<nentries (io (w_base w))}. set (io_dlist fd w))"

definition sig_events_of :: "world \<Rightarrow> evptr set" where
  "sig_events_of w = (\<Union>s \<in> {0..<nentries (sigmap (w_base w))}. set (sig_dlist s w))"

lemma dlist_length:
  assumes "core_inv D w" "0 \<le> fd"
  shows "fd < nentries (io (w_base w)) \<Longrightarrow> length (io_dlist fd w) \<le> card D"
    and "fd < nentries (sigmap (w_base w)) \<Longrightarrow> length (sig_dlist fd w) \<le> card D"
proof -
  have fin: "finite D" using assms(1) by (simp add: core_inv_def static_inv_def)
  have bound: "length xs \<le> card D" if "distinct xs" "set xs \<subseteq> D" for xs
    using that fin by (metis card_mono distinct_card)
  have io: "slots_ok (io_set D w) (io_slot_ok (\<lambda>x. ev_events (ev_of w x))) (io (w_base w))"
    and sg: "slots_ok (sig_set D w) sig_slot_ok (sigmap (w_base w))"
    using assms(1) by (simp_all add: core_inv_def map_inv_def io_inv_def)
  {
    assume fd: "fd < nentries (io (w_base w))"
    have "distinct (io_dlist fd w)"
      using slots_okD(3) [OF io assms(2) fd]
      by (cases "map_entries (io (w_base w)) ! nat fd") (auto simp: io_dlist_def io_slot_ok_def)
    moreover have "set (io_dlist fd w) \<subseteq> D"
      using slots_okD(3) [OF io assms(2) fd]
      by (cases "map_entries (io (w_base w)) ! nat fd") (auto simp: io_dlist_def io_slot_ok_def io_set_def)
    ultimately show "length (io_dlist fd w) \<le> card D" by (rule bound)
  }
  assume fd: "fd < nentries (sigmap (w_base w))"
  have "distinct (sig_dlist fd w)"
    using slots_okD(3) [OF sg assms(2) fd]
    by (cases "map_entries (sigmap (w_base w)) ! nat fd") (auto simp: sig_dlist_def sig_slot_ok_def)
  moreover have "set (sig_dlist fd w) \<subseteq> D"
    using slots_okD(3) [OF sg assms(2) fd]
    by (cases "map_entries (sigmap (w_base w)) ! nat fd") (auto simp: sig_dlist_def sig_slot_ok_def sig_set_def)
  ultimately show "length (sig_dlist fd w) \<le> card D" by (rule bound)
qed

lemma at_inv: "at D w0 X w \<Longrightarrow> core_inv D w"
  by (simp add: at_def)

text \<open>A later stage of freeing seen from the state where an earlier one ended.\<close>

lemma at_trans: "at D w1 X w \<Longrightarrow> at D w0 Y w1 \<Longrightarrow> at D w0 (Y \<union> X) w"
  by (auto simp: at_def without_without Un_commute)

lemma evmap_delete_all_at:
  assumes w: "core_inv D w" "plain D w" and fuel: "card D \<le> fuel"
  shows "\<exists>w'. lu_evmap_delete_all fuel v w = Inr w' \<and> at D w (sig_events_of w \<union> io_events_of w) w'"
proof -
  have len: "length (drop_in X xs) \<le> fuel" if "length xs \<le> card D" for X xs
    unfolding drop_in_def using le_trans [OF length_filter_le le_trans [OF that fuel]] .
  let ?n = "nentries (sigmap (w_base w))"
  have n: "0 \<le> ?n" using w(1) by (simp add: core_inv_def map_inv_def slots_ok_def)
  have fn: "\<exists>w2. lu_evmap_signal_delete_all_iter_fn fuel v w1 i = Inr (w2, 0) \<and> at D w (X \<union> set (sig_dlist i w)) w2"
    if a: "at D w X w1" and i: "0 \<le> i" "i < ?n" for X w1 i
    unfolding lu_evmap_signal_delete_all_iter_fn_def
    by (rule delete_all_at [OF _ _ a])
      (use at_sig_dlist(1) [OF _ i w(1)] at_sig_dlist(4) [OF a i w(1)] at_sig_dlist(1) [OF a i w(1)]
        len [OF dlist_length(2) [OF w(1) i]] in auto)
  have "\<exists>w1. lu_evmap_signal_foreach_signal (lu_evmap_signal_delete_all_iter_fn fuel v) w = Inr (w1, 0) \<and>
      at D w ({} \<union> (\<Union>j \<in> {0..<?n}. set (sig_dlist j w))) w1"
    unfolding lu_evmap_signal_foreach_signal_def
    by (rule foreach_at [OF _ fn at_start [OF w]])
      (use at_sig_dlist(2) [OF _ _ _ w(1)] n in auto)
  then obtain w1 where w1: "lu_evmap_signal_foreach_signal (lu_evmap_signal_delete_all_iter_fn fuel v) w = Inr (w1, 0)"
    "at D w (sig_events_of w) w1" by (auto simp: sig_events_of_def)
  let ?m = "nentries (io (w_base w))"
  have m: "0 \<le> ?m" "nentries (io (w_base w1)) = ?m"
    using w(1) arg_cong [of "held w1" "without (sig_events_of w) (held w)" h_nio] w1(2)
    by (simp_all add: core_inv_def map_inv_def io_inv_def slots_ok_def at_def held_def without_def)
  have fn': "\<exists>w3. lu_evmap_io_delete_all_iter_fn fuel v w2 i = Inr (w3, 0) \<and> at D w (X \<union> set (io_dlist i w)) w3"
    if a: "at D w X w2" and i: "0 \<le> i" "i < ?m" for X w2 i
    unfolding lu_evmap_io_delete_all_iter_fn_def
    by (rule delete_all_at [OF _ _ a])
      (use at_io_dlist(1) [OF _ i w(1)] at_io_dlist(4) [OF a i w(1)] at_io_dlist(1) [OF a i w(1)]
        len [OF dlist_length(1) [OF w(1) i]] in auto)
  have "\<exists>w2. lu_evmap_io_foreach_fd (lu_evmap_io_delete_all_iter_fn fuel v) w1 = Inr (w2, 0) \<and>
      at D w (sig_events_of w \<union> (\<Union>j \<in> {0..<?m}. set (io_dlist j w))) w2"
    unfolding lu_evmap_io_foreach_fd_def m(2)
    by (rule foreach_at [OF _ fn' w1(2)])
      (use at_io_dlist(2) [OF _ _ _ w(1)] m in auto)
  then show ?thesis using w1(1) by (auto simp: lu_evmap_delete_all_def io_events_of_def)
qed


section \<open>The queues\<close>

lemma at_queues:
  assumes "at D w0 X w" "at D w0 (Y \<union> X) w'"
  shows "activequeues (w_base w') = map (drop_in Y) (activequeues (w_base w))"
    "active_later_queue (w_base w') = drop_in Y (active_later_queue (w_base w))"
    "nactivequeues (w_base w') = nactivequeues (w_base w)"
proof -
  have "held w' = without Y (held w)" using assms by (simp add: at_def without_without)
  then show "activequeues (w_base w') = map (drop_in Y) (activequeues (w_base w))"
    "active_later_queue (w_base w') = drop_in Y (active_later_queue (w_base w))"
    "nactivequeues (w_base w') = nactivequeues (w_base w)"
    by (simp_all add: held_def without_def)
qed

lemma cancel_at:
  assumes "at D w0 X w" "e \<in> D"
  shows "\<exists>w'. lu_event_base_cancel_single_callback v fin w e rf = Inr (w', 1, False) \<and> at D w0 (insert e X) w'"
proof -
  have p: "plain D w" using assms(1) by (simp add: at_def)
  obtain w' r where d: "lu_event_del v w e = Inr (w', r)" "at D w0 (insert e X) w'" using del_at [OF assms] by blast
  have "\<not> has_flag (fl w' e) LU_EVLIST_FINALIZING" using d(2) assms(2) by (auto simp: at_def dest: plainD(3))
  then show ?thesis using d plainD [OF p assms(2)] by (simp add: lu_event_base_cancel_single_callback_def lu_event_callback_to_event_def lu_assert_def)
qed

lemma tailq_next_first: "distinct (e # es) \<Longrightarrow> tailq_next (e # es) e = tailq_first es"
  by (cases es) (auto simp: tailq_next_def tailq_first_def)

lemma drop_in_head: "e \<notin> set es \<Longrightarrow> drop_in {e} (e # es) = es"
  using drop_in_notin [of es "{e}"] by (simp add: drop_in_def)

lemma queue_distinct:
  assumes "core_inv D w"
  shows "i < length (activequeues (w_base w)) \<Longrightarrow> distinct (activequeues (w_base w) ! i)"
    and "distinct (active_later_queue (w_base w))"
  using assms by (simp_all add: core_inv_def queue_inv_def queues_ok_def)

text \<open>The next element is read before the current one is deleted; it is then the first.\<close>

lemma free_active_queue_at:
  "at D w0 X w \<Longrightarrow> i < length (activequeues (w_base w)) \<Longrightarrow> activequeues (w_base w) ! i = q \<Longrightarrow> length q \<le> fuel \<Longrightarrow>
    \<exists>w'. free_active_queue fuel v fin rf i (tailq_first q) w d = Inr (w', d + int (length q)) \<and>
      at D w0 (set q \<union> X) w'"
proof (induction q arbitrary: fuel X w d)
  case Nil
  then show ?case by (simp add: tailq_first_def)
next
  case (Cons e es)
  obtain k where k: "fuel = Suc k" "length es \<le> k" using Cons.prems(4) by (cases fuel) auto
  have inv: "core_inv D w" using Cons.prems(1) by (rule at_inv)
  have dist: "distinct (e # es)"
    using queue_distinct(1) [OF inv Cons.prems(2)] Cons.prems(3) by simp
  have e: "e \<in> D" using queue_members(1) [OF inv Cons.prems(2), of e] Cons.prems(3) by simp
  obtain w1 where w1: "lu_event_base_cancel_single_callback v fin w e rf = Inr (w1, 1, False)" "at D w0 (insert e X) w1"
    using cancel_at [OF Cons.prems(1) e] by blast
  have q1: "activequeues (w_base w1) = map (drop_in {e}) (activequeues (w_base w))"
    using at_queues(1) [OF Cons.prems(1), of "{e}" w1] w1(2) by simp
  have "activequeues (w_base w1) ! i = es" "i < length (activequeues (w_base w1))"
    using Cons.prems(2,3) dist by (simp_all add: q1 drop_in_head)
  from Cons.IH [OF w1(2) this(2,1) k(2), of "d + 1"] obtain w' where
    w': "free_active_queue k v fin rf i (tailq_first es) w1 (d + 1) = Inr (w', d + 1 + int (length es))"
      "at D w0 (set es \<union> insert e X) w'" by blast
  have f: "tailq_first (e # es) = Some e" by (simp add: tailq_first_def)
  have u: "set es \<union> insert e X = set (e # es) \<union> X" by auto
  have n: "d + 1 + int (length es) = d + int (length (e # es))" by simp
  show ?case
    using w'(2) unfolding u f k(1) free_active_queue.simps Let_def Cons.prems(3) tailq_next_first [OF dist] w1(1)
      bind_res.simps prod.case w'(1) n
    by blast
qed

lemma free_active_queues_at:
  "at D w0 X w \<Longrightarrow> i + k = length (activequeues (w_base w)) \<Longrightarrow> card D \<le> fuel \<Longrightarrow>
    \<exists>w' n. free_active_queues fuel v fin rf k i w d = Inr (w', n) \<and>
      at D w0 ((\<Union>j \<in> {i..<i + k}. set (activequeues (w_base w) ! j)) \<union> X) w' \<and>
      ((\<forall>j. i \<le> j \<and> j < i + k \<longrightarrow> activequeues (w_base w) ! j = []) \<longrightarrow> n = d)"
proof (induction k arbitrary: i X w d)
  case (Suc k)
  let ?q = "activequeues (w_base w) ! i"
  have inv: "core_inv D w" using Suc.prems(1) by (rule at_inv)
  have i: "i < length (activequeues (w_base w))" using Suc.prems(2) by simp
  have "distinct ?q" "set ?q \<subseteq> D" "finite D"
    using inv i queue_members(1) [OF inv i] by (auto simp: core_inv_def queue_inv_def queues_ok_def static_inv_def)
  then have len: "length ?q \<le> fuel" using Suc.prems(3) by (metis card_mono distinct_card le_trans)
  obtain w1 where w1: "free_active_queue fuel v fin rf i (tailq_first ?q) w d = Inr (w1, d + int (length ?q))"
    "at D w0 (set ?q \<union> X) w1"
    using free_active_queue_at [OF Suc.prems(1) i refl len] by blast
  have q1: "activequeues (w_base w1) = map (drop_in (set ?q)) (activequeues (w_base w))"
    using at_queues(1) [OF Suc.prems(1) w1(2)] .
  have l1: "Suc i + k = length (activequeues (w_base w1))" using Suc.prems(2) q1 by simp
  from Suc.IH [OF w1(2) l1 Suc.prems(3), of "d + int (length ?q)"] obtain w' n where
    w': "free_active_queues fuel v fin rf k (Suc i) w1 (d + int (length ?q)) = Inr (w', n)"
      "at D w0 ((\<Union>j \<in> {Suc i..<Suc i + k}. set (activequeues (w_base w1) ! j)) \<union> (set ?q \<union> X)) w'"
      "(\<forall>j. Suc i \<le> j \<and> j < Suc i + k \<longrightarrow> activequeues (w_base w1) ! j = []) \<longrightarrow> n = d + int (length ?q)" by blast
  have nth: "activequeues (w_base w1) ! j = drop_in (set ?q) (activequeues (w_base w) ! j)" if "j < i + Suc k" for j
    using that Suc.prems(2) by (simp add: q1)
  have "(\<Union>j \<in> {Suc i..<Suc i + k}. set (activequeues (w_base w1) ! j)) \<union> (set ?q \<union> X) =
      (\<Union>j \<in> {i..<i + Suc k}. set (activequeues (w_base w) ! j)) \<union> X"
  proof -
    have "{i..<i + Suc k} = insert i {Suc i..<Suc i + k}" by auto
    then show ?thesis using nth by auto
  qed
  moreover have "n = d" if "\<forall>j. i \<le> j \<and> j < i + Suc k \<longrightarrow> activequeues (w_base w) ! j = []"
  proof -
    have "?q = []" using that by simp
    then show ?thesis using w'(3) nth that by auto
  qed
  ultimately show ?case using w1(1) w'(1,2) by (intro exI [of _ w'] exI [of _ n]) simp
qed simp

lemma free_later_queue_at:
  "at D w0 X w \<Longrightarrow> active_later_queue (w_base w) = q \<Longrightarrow> length q \<le> fuel \<Longrightarrow>
    \<exists>w'. free_later_queue fuel v fin rf w d = Inr (w', d + int (length q)) \<and> at D w0 (set q \<union> X) w'"
proof (induction q arbitrary: fuel X w d)
  case Nil
  then show ?case by (simp add: free_later_queue.simps)
next
  case (Cons e es)
  obtain k where k: "fuel = Suc k" "length es \<le> k" using Cons.prems(3) by (cases fuel) auto
  have inv: "core_inv D w" using Cons.prems(1) by (rule at_inv)
  have dist: "distinct (e # es)"
    using queue_distinct(2) [OF inv] Cons.prems(2) by simp
  have e: "e \<in> D" using queue_members(2) [OF inv, of e] Cons.prems(2) by simp
  obtain w1 where w1: "lu_event_base_cancel_single_callback v fin w e rf = Inr (w1, 1, False)" "at D w0 (insert e X) w1"
    using cancel_at [OF Cons.prems(1) e] by blast
  have "active_later_queue (w_base w1) = es"
    using at_queues(2) [OF Cons.prems(1), of "{e}" w1] w1(2) dist Cons.prems(2) by (simp add: drop_in_head)
  from Cons.IH [OF w1(2) this k(2), of "d + 1"] obtain w' where
    w': "free_later_queue k v fin rf w1 (d + 1) = Inr (w', d + 1 + int (length es))" "at D w0 (set es \<union> insert e X) w'"
    by blast
  have u: "set es \<union> insert e X = set (e # es) \<union> X" by auto
  have n: "d + 1 + int (length es) = d + int (length (e # es))" by simp
  show ?case
    using w'(2) unfolding u k(1) free_later_queue.simps [of "Suc k"] Cons.prems(2) list.case nat.case w1(1)
      bind_res.simps prod.case w'(1) n
    by blast
qed


text \<open>One round over the queues: all of them are empty afterwards, and an empty round counts nothing.\<close>

definition queued :: "world \<Rightarrow> evptr set" where
  "queued w = \<Union> (set ` set (activequeues (w_base w))) \<union> set (active_later_queue (w_base w))"

lemma free_queues_at:
  assumes a: "at D w0 X w" and fuel: "card D \<le> fuel"
  shows "\<exists>w' n. lu_event_base_free_queues fuel v fin w rf = Inr (w', n) \<and> at D w0 (queued w \<union> X) w' \<and>
    queued w' = {} \<and> (queued w = {} \<longrightarrow> n = 0)"
proof -
  have inv: "core_inv D w" using a by (rule at_inv)
  have k: "0 + nat (nactivequeues (w_base w)) = length (activequeues (w_base w))"
    using inv by (simp add: core_inv_def queue_inv_def)
  obtain w1 n1 where w1: "free_active_queues fuel v fin rf (nat (nactivequeues (w_base w))) 0 w 0 = Inr (w1, n1)"
    "at D w0 ((\<Union>j \<in> {0..<0 + nat (nactivequeues (w_base w))}. set (activequeues (w_base w) ! j)) \<union> X) w1"
    "(\<forall>j. 0 \<le> j \<and> j < 0 + nat (nactivequeues (w_base w)) \<longrightarrow> activequeues (w_base w) ! j = []) \<longrightarrow> n1 = 0"
    using free_active_queues_at [OF a k fuel] by blast
  define A where "A = \<Union> (set ` set (activequeues (w_base w)))"
  have A: "(\<Union>j \<in> {0..<0 + nat (nactivequeues (w_base w))}. set (activequeues (w_base w) ! j)) = A"
  proof -
    have "set (activequeues (w_base w)) = (!) (activequeues (w_base w)) ` {0..<length (activequeues (w_base w))}"
      using nth_image [of "length (activequeues (w_base w))" "activequeues (w_base w)"] by simp
    then show ?thesis unfolding k A_def by (simp only: image_image)
  qed
  have inv1: "core_inv D w1" using w1(2) by (rule at_inv)
  have "set (active_later_queue (w_base w1)) \<subseteq> D" "finite D"
    using queue_members(2) [OF inv1] inv1 by (auto simp: core_inv_def static_inv_def)
  then have len: "length (active_later_queue (w_base w1)) \<le> fuel"
    using queue_distinct(2) [OF inv1] fuel by (metis card_mono distinct_card le_trans)
  obtain w2 where w2: "free_later_queue fuel v fin rf w1 n1 = Inr (w2, n1 + int (length (active_later_queue (w_base w1))))"
    "at D w0 (set (active_later_queue (w_base w1)) \<union> (A \<union> X)) w2"
    using free_later_queue_at [OF w1(2) refl len] unfolding A by blast
  have l1: "active_later_queue (w_base w1) = drop_in A (active_later_queue (w_base w))"
    using at_queues(2) [OF a w1(2) [unfolded A]] .
  have u: "set (active_later_queue (w_base w1)) \<union> (A \<union> X) = queued w \<union> X" by (auto simp: l1 queued_def A_def)
  have w2': "at D w0 (queued w \<union> X) w2" using w2(2) by (simp add: u)
  have "queued w2 = {}"
    using at_queues(1,2) [OF a w2'] by (auto simp: queued_def)
  moreover have "n1 + int (length (active_later_queue (w_base w1))) = 0" if "queued w = {}"
  proof -
    have "activequeues (w_base w) ! j = []" if "j < length (activequeues (w_base w))" for j
      using that \<open>queued w = {}\<close> nth_mem [OF that] by (auto simp: queued_def)
    moreover have "active_later_queue (w_base w) = []" using that by (simp add: queued_def)
    ultimately show ?thesis using w1(3) k by (simp add: l1)
  qed
  ultimately show ?thesis using w1(1) w2(1) w2' by (auto simp: lu_event_base_free_queues_def)
qed

lemma free_queues_loop_at:
  assumes a: "at D w0 X w" and fuel: "card D \<le> fuel" and rounds: "2 \<le> rounds"
  shows "\<exists>w'. free_queues_loop rounds fuel v fin rf w = Inr w' \<and> at D w0 (queued w \<union> X) w' \<and> queued w' = {}"
proof -
  obtain r where r: "rounds = Suc (Suc r)" using rounds by (metis Suc_le_D Suc_le_mono numeral_2_eq_2)
  obtain w1 n1 where w1: "lu_event_base_free_queues fuel v fin w rf = Inr (w1, n1)" "at D w0 (queued w \<union> X) w1"
    "queued w1 = {}" using free_queues_at [OF a fuel] by blast
  obtain w2 n2 where w2: "lu_event_base_free_queues fuel v fin w1 rf = Inr (w2, n2)"
    "at D w0 (queued w1 \<union> (queued w \<union> X)) w2" "queued w2 = {}" "n2 = 0"
    using free_queues_at [OF w1(2) fuel] w1(3) by blast
  show ?thesis using w1 w2 unfolding r by (cases "n1 = 0") simp_all
qed


section \<open>Freeing a base ends\<close>

lemma quiet_flags:
  assumes a: "at D w X w'" and inv: "core_inv D w" and X: "io_events_of w \<subseteq> X" "sig_events_of w \<subseteq> X" "queued w' = {}"
    and e: "e \<in> D"
  shows "\<not> has_flag (fl w' e) LU_EVLIST_ACTIVE" "\<not> has_flag (fl w' e) LU_EVLIST_ACTIVE_LATER"
    "has_flag (fl w' e) LU_EVLIST_INSERTED \<Longrightarrow> is_io (ev_of w' e) \<and> ev_fd (ev_of w' e) < 0"
proof -
  have inv': "core_inv D w'" using a by (rule at_inv)
  have "activequeues (w_base w') ! p = []" if "p < length (activequeues (w_base w'))" for p
    using X(3) nth_mem [OF that] by (auto simp: queued_def)
  then show "\<not> has_flag (fl w' e) LU_EVLIST_ACTIVE" "\<not> has_flag (fl w' e) LU_EVLIST_ACTIVE_LATER"
    using inv' X(3) e by (auto simp: core_inv_def queue_inv_def queues_ok_def queued_def)
  assume i: "has_flag (fl w' e) LU_EVLIST_INSERTED"
  let ?fd = "ev_fd (ev_of w' e)"
  have m: "map_inv D w'" using inv' by (simp add: core_inv_def)
  show "is_io (ev_of w' e) \<and> ?fd < 0"
  proof (rule ccontr)
    assume c: "\<not> (is_io (ev_of w' e) \<and> ?fd < 0)"
    then have fd: "0 \<le> ?fd" using m i e by (auto simp: map_inv_def)
    show False
    proof (cases "is_io (ev_of w' e)")
      case True
      have s: "slots_ok (io_set D w') (io_slot_ok (\<lambda>x. ev_events (ev_of w' x))) (io (w_base w'))"
        using m by (simp add: map_inv_def io_inv_def)
      have mem: "e \<in> io_set D w' ?fd" using e i True by (simp add: io_set_def)
      have lt: "?fd < nentries (io (w_base w'))" using slots_ok_less [OF s mem] .
      have n: "nentries (io (w_base w')) = nentries (io (w_base w))"
        using a arg_cong [of "held w'" "without X (held w)" h_nio] by (simp add: at_def held_def without_def)
      have "e \<in> set (io_dlist ?fd w')"
        using slots_okD [OF s fd lt] mem
        by (cases "map_entries (io (w_base w')) ! nat ?fd") (auto simp: io_dlist_def io_slot_ok_def)
      then have "e \<in> set (io_dlist ?fd w) - X" using at_io_dlist(1) [OF a fd _ inv] lt n by simp
      then show False using X(1) fd lt n by (auto simp: io_events_of_def UN_subset_iff)
    next
      case False
      have s: "slots_ok (sig_set D w') sig_slot_ok (sigmap (w_base w'))" using m by (simp add: map_inv_def)
      have mem: "e \<in> sig_set D w' ?fd" using e i False by (simp add: sig_set_def)
      have lt: "?fd < nentries (sigmap (w_base w'))" using slots_ok_less [OF s mem] .
      have n: "nentries (sigmap (w_base w')) = nentries (sigmap (w_base w))"
        using a arg_cong [of "held w'" "without X (held w)" h_nsig] by (simp add: at_def held_def without_def)
      have "e \<in> set (sig_dlist ?fd w')"
        using slots_okD [OF s fd lt] mem
        by (cases "map_entries (sigmap (w_base w')) ! nat ?fd") (auto simp: sig_dlist_def sig_slot_ok_def)
      then have "e \<in> set (sig_dlist ?fd w) - X" using at_sig_dlist(1) [OF a fd _ inv] lt n by simp
      then show False using X(2) fd lt n by (auto simp: sig_events_of_def UN_subset_iff)
    qed
  qed
qed

lemma quiet_slots:
  assumes a: "at D w X w'" and inv: "core_inv D w" and X: "io_events_of w \<subseteq> X" "sig_events_of w \<subseteq> X"
  shows "Some c \<in> set (map_entries (io (w_base w'))) \<Longrightarrow> io_events c = []"
    "Some s \<in> set (map_entries (sigmap (w_base w'))) \<Longrightarrow> sig_events s = []"
    "interest (io_calls (w_base w')) = (\<lambda>_. 0)"
proof -
  have inv': "core_inv D w'" using a by (rule at_inv)
  have io: "slots_ok (io_set D w') (io_slot_ok (\<lambda>x. ev_events (ev_of w' x))) (io (w_base w'))"
    "calls_ok (io_calls (w_base w')) (io (w_base w'))" "slots_ok (sig_set D w') sig_slot_ok (sigmap (w_base w'))"
    using inv' by (simp_all add: core_inv_def map_inv_def io_inv_def)
  have n: "nentries (io (w_base w')) = nentries (io (w_base w))" "nentries (sigmap (w_base w')) = nentries (sigmap (w_base w))"
    using a arg_cong [of "held w'" "without X (held w)" h_nio] arg_cong [of "held w'" "without X (held w)" h_nsig]
    by (simp_all add: at_def held_def without_def)
  have e: "io_events c = []" if "0 \<le> fd" "fd < nentries (io (w_base w'))" "map_entries (io (w_base w')) ! nat fd = Some c" for fd c
  proof -
    have "io_dlist fd w' = drop_in X (io_dlist fd w)" using at_io_dlist(1) [OF a that(1) _ inv] that(2) n by simp
    moreover have "set (io_dlist fd w) \<subseteq> X" using X(1) that(1,2) n by (simp add: io_events_of_def UN_subset_iff)
    ultimately have "io_dlist fd w' = []" by simp
    then show ?thesis using that(3) by (simp add: io_dlist_def)
  qed
  show "Some c \<in> set (map_entries (io (w_base w'))) \<Longrightarrow> io_events c = []"
  proof -
    assume "Some c \<in> set (map_entries (io (w_base w')))"
    then obtain i where i: "i < length (map_entries (io (w_base w')))" "map_entries (io (w_base w')) ! i = Some c"
      by (auto simp: in_set_conv_nth)
    then show "io_events c = []" using e [of "int i" c] io(1) by (simp add: slots_ok_def)
  qed
  show "Some s \<in> set (map_entries (sigmap (w_base w'))) \<Longrightarrow> sig_events s = []"
  proof -
    assume "Some s \<in> set (map_entries (sigmap (w_base w')))"
    then obtain i where i: "i < length (map_entries (sigmap (w_base w')))" "map_entries (sigmap (w_base w')) ! i = Some s"
      by (auto simp: in_set_conv_nth)
    then have fd: "int i < nentries (sigmap (w_base w))" using io(3) n by (simp add: slots_ok_def)
    have "sig_dlist (int i) w' = drop_in X (sig_dlist (int i) w)" using at_sig_dlist(1) [OF a _ fd inv] by simp
    moreover have "set (sig_dlist (int i) w) \<subseteq> X" using X(2) fd by (simp add: sig_events_of_def UN_subset_iff)
    ultimately have "sig_dlist (int i) w' = []" by simp
    then show "sig_events s = []" using i(2) by (simp add: sig_dlist_def)
  qed
  have "slot_flags (io (w_base w')) fd = 0" for fd
  proof (cases "slot_at (io (w_base w')) fd")
    case (Some c)
    then have fd: "0 \<le> fd" "fd < nentries (io (w_base w'))" "map_entries (io (w_base w')) ! nat fd = Some c"
      by (auto simp: slot_at_def split: if_splits)
    have "nread c = 0 \<and> nwrite c = 0 \<and> nclose c = 0"
      using slots_okD(3) [OF io(1) fd] e [OF fd] by (simp add: io_slot_ok_def)
    then show ?thesis using Some by (simp add: slot_flags_at count_flags_def)
  qed (simp add: slot_flags_at)
  then show "interest (io_calls (w_base w')) = (\<lambda>_. 0)" using io(2) by (simp add: calls_ok_def fun_eq_iff)
qed


lemma base_free_at:
  assumes inv: "core_inv D w" "plain D w" and n: "fst (th_notify_fd (w_base w)) = - 1"
    and fuel: "card D \<le> fuel" "2 \<le> fuel"
  obtains w' X where
    "lu_event_base_free fuel v fin cb w (Some p) =
       Inr (Some (free_fields cb [] (upd_base (\<lambda>b. b\<lparr>once_events := []\<rparr>) w')))"
    "at D w X w'" "io_events_of w \<subseteq> X" "sig_events_of w \<subseteq> X" "queued w' = {}"
proof -
  have nf: "free_notify_fds v w = Inr (w, [])"
    using n by (cases "th_notify_fd (w_base w)") (simp add: free_notify_fds_def)
  obtain w2 where w2: "lu_evmap_delete_all fuel v w = Inr w2" "at D w (sig_events_of w \<union> io_events_of w) w2"
    using evmap_delete_all_at [OF inv fuel(1)] by blast
  have st: "static_inv D w2" using w2(2) by (simp add: at_def core_inv_def)
  have h: "free_heap_events fuel v w2 0 = Inr (w2, 0)"
    using st by (simp add: free_heap_events.simps lu_min_heap_top_def static_inv_def)
  have c: "free_common_timeouts fuel v (nat (n_common_timeouts (w_base w2))) 0 w2 0 = Inr (w2, 0)"
    using st by (simp add: static_inv_def)
  obtain w3 where w3: "free_queues_loop fuel fuel v fin True w2 = Inr w3"
    "at D w (queued w2 \<union> (sig_events_of w \<union> io_events_of w)) w3" "queued w3 = {}"
    using free_queues_loop_at [OF w2(2) fuel] by blast
  let ?w = "upd_base (\<lambda>b. b\<lparr>once_events := []\<rparr>) w3"
  have d: "(case evsel_op (w_base ?w) of Some evsel \<Rightarrow> if op_dealloc evsel then lu_epoll_dealloc ?w else ?w | None \<Rightarrow> ?w) = ?w"
    by (simp add: lu_epoll_dealloc_def split: option.splits)
  have q: "\<forall>q \<in> set (take (nat (nactivequeues (w_base ?w))) (activequeues (w_base ?w))). q = []"
    using w3(3) by (auto simp: queued_def dest!: in_set_takeD)
  have e: "lu_min_heap_empty (time_heap (w_base ?w))"
    using w3(2) by (simp add: at_def core_inv_def static_inv_def lu_min_heap_empty_def)
  have "lu_event_base_free fuel v fin cb w (Some p) = Inr (Some (free_fields cb [] ?w))"
    unfolding lu_event_base_free_def lu_event_base_free_ptr_def nf bind_res.simps prod.case w2(1) h c w3(1) Let_def d
    using q e by (simp add: lu_assert_def)
  then show ?thesis by (rule that [OF _ w3(2)]) (use w3(3) in auto)
qed

lemma free_fields_slots:
  "fr_io_slots (free_fields cb cl w) = List.map_filter id (take (nat (nentries (io (w_base w)))) (map_entries (io (w_base w))))"
  "fr_sig_slots (free_fields cb cl w) = List.map_filter id (take (nat (nentries (sigmap (w_base w)))) (map_entries (sigmap (w_base w))))"
  "fr_closed (free_fields cb cl w) = cl"
  "io_calls (w_base (fr_world (free_fields cb cl w))) = io_calls (w_base w)"
  "w_evs (fr_world (free_fields cb cl w)) = w_evs w"
  "fr_current_base (free_fields cb cl w) = (if cb = Some (w_self w) then None else cb)"
  by (simp_all add: free_fields_def Let_def lu_evmap_io_clear_def lu_evmap_signal_clear_def split: prod.splits)

lemma in_slots: "c \<in> set (List.map_filter id (take n xs)) \<Longrightarrow> Some c \<in> set xs"
  by (auto simp: List.map_filter_def dest!: in_set_takeD)

lemma base_free_completes_aux:
  assumes "sys_reachable w0 D w" "fst (th_notify_fd (w_base w)) = - 1" "card D \<le> fuel" "2 \<le> fuel"
  shows "\<exists>r. lu_event_base_free fuel v finalizer current_base w (Some p) = Inr (Some r) \<and> fr_closed r = [] \<and>
    fr_current_base r = (if current_base = Some (w_self w) then None else current_base) \<and>
    (\<forall>c \<in> set (fr_io_slots r). io_events c = []) \<and> (\<forall>s \<in> set (fr_sig_slots r). sig_events s = []) \<and>
    interest (io_calls (w_base (fr_world r))) = (\<lambda>_. 0) \<and>
    (\<forall>e \<in> D. \<not> has_flag (fl (fr_world r) e) LU_EVLIST_ACTIVE \<and> \<not> has_flag (fl (fr_world r) e) LU_EVLIST_ACTIVE_LATER \<and>
       (has_flag (fl (fr_world r) e) LU_EVLIST_INSERTED \<longrightarrow>
          is_io (ev_of (fr_world r) e) \<and> ev_fd (ev_of (fr_world r) e) < 0)) \<and>
    (\<forall>e. e \<notin> D \<longrightarrow> ev_of (fr_world r) e = ev_of w e)"
proof -
  have inv: "core_inv D w" "plain D w" using sys_reachable_inv sys_reachable_plain assms(1) by blast+
  obtain w' X where r: "lu_event_base_free fuel v finalizer current_base w (Some p) =
       Inr (Some (free_fields current_base [] (upd_base (\<lambda>b. b\<lparr>once_events := []\<rparr>) w')))"
    and a: "at D w X w'" "io_events_of w \<subseteq> X" "sig_events_of w \<subseteq> X" "queued w' = {}"
    using base_free_at [OF inv assms(2-4)] by metis
  have self: "w_self w' = w_self w"
    using a(1) arg_cong [of "held w'" "without X (held w)" h_self] by (simp add: at_def held_def without_def)
  note s = quiet_slots [OF a(1) inv(1) a(2,3)] and f = quiet_flags [OF a(1) inv(1) a(2-4)]
  show ?thesis
    unfolding r using s f a(1)
    by (intro exI conjI refl) (auto simp: free_fields_slots at_def self dest!: in_slots)
qed

text \<open>C7: Freeing a base always finishes: from every state a program reaches (without a
  notification pipe), with fuel for one round per event and at least two rounds over the queues,
  \<open>lu_event_base_free\<close> returns and none of its assertions fails, whatever the backend answers. What
  it releases is empty: no slot of the two maps has an event left, the backend is no longer told to
  watch anything; no event is active, and none is marked as inserted but an I/O event without a
  descriptor, which no list holds. Events that are not of the base are as they were.\<close>

theorem base_free_completes:
  assumes "sys_reachable w0 D w" "fst (th_notify_fd (w_base w)) = - 1" "card D \<le> fuel" "2 \<le> fuel"
  shows "\<exists>r. lu_event_base_free fuel v finalizer current_base w (Some p) = Inr (Some r) \<and> fr_closed r = [] \<and>
    fr_current_base r = (if current_base = Some (w_self w) then None else current_base) \<and>
    (\<forall>c \<in> set (fr_io_slots r). io_events c = []) \<and> (\<forall>s \<in> set (fr_sig_slots r). sig_events s = []) \<and>
    interest (io_calls (w_base (fr_world r))) = (\<lambda>_. 0) \<and>
    (\<forall>e \<in> D. \<not> has_flag (fl (fr_world r) e) LU_EVLIST_ACTIVE \<and> \<not> has_flag (fl (fr_world r) e) LU_EVLIST_ACTIVE_LATER \<and>
       (has_flag (fl (fr_world r) e) LU_EVLIST_INSERTED \<longrightarrow>
          is_io (ev_of (fr_world r) e) \<and> ev_fd (ev_of (fr_world r) e) < 0)) \<and>
    (\<forall>e. e \<notin> D \<longrightarrow> ev_of (fr_world r) e = ev_of w e)"
  using base_free_completes_aux [OF assms] .

lemma demo_notify: "th_notify_fd (w_base demo_w2) = (- 1, - 1)"
  by (simp add: demo_add demo_w0_def)

lemma base_free_completes_witness:
  "\<exists>r. lu_event_base_free 2 demo_env (\<lambda>_ w. w) None demo_w2 (Some 0) = Inr (Some r) \<and>
     \<not> has_flag (fl (fr_world r) 10) LU_EVLIST_ACTIVE \<and> interest (io_calls (w_base (fr_world r))) = (\<lambda>_. 0)"
  using base_free_completes [OF demo_reachable(2), of 2 demo_env "\<lambda>_ w. w" None 0] by (auto simp: demo_notify)

end
