(* ===== verification/LuThread.thy ===== *)
theory LuThread
  imports LuEventView LuEventProps
begin

text \<open>
  The interface to a thread library: the callback tables of \<open>include/lu_thread.h\<close> and the macros of
  \<open>include/lu_evthread-internal.h\<close> that call them, with the globals of \<open>src/lu_evthread.c\<close> as they
  are at the start. The callbacks belong to the program that uses the library: they act on a state
  of their own, \<open>'s\<close>, and \<open>void *\<close> is an address of 64 bits, null when 0. The model of the base
  counts the depth of its lock; here it is shown to be what the macros do on any recursive lock.
\<close>

section \<open>The callback tables\<close>

type_synonym c_ptr = "64 word"

text \<open>A null function pointer is \<open>None\<close>.\<close>

record 's lu_evthread_lock_callback_t =
  lock_api_version :: int
  supported_lock_types :: "32 word"
  lock_alloc :: "(32 word \<Rightarrow> 's \<Rightarrow> 's \<times> c_ptr) option"
  lock_free :: "(c_ptr \<Rightarrow> 32 word \<Rightarrow> 's \<Rightarrow> 's) option"
  lock_lock :: "(32 word \<Rightarrow> c_ptr \<Rightarrow> 's \<Rightarrow> 's \<times> int) option"
  lock_unlock :: "(32 word \<Rightarrow> c_ptr \<Rightarrow> 's \<Rightarrow> 's \<times> int) option"

text \<open>All four condition callbacks are declared to return \<open>void *\<close>, although the comments promise 0, -1 or 1.\<close>

record 's lu_evthread_condition_callbacks_t =
  condition_api_version :: int
  alloc_condition :: "(32 word \<Rightarrow> 's \<Rightarrow> 's \<times> c_ptr) option"
  free_condition :: "(c_ptr \<Rightarrow> 's \<Rightarrow> 's \<times> c_ptr) option"
  signal_condition :: "(c_ptr \<Rightarrow> int \<Rightarrow> 's \<Rightarrow> 's \<times> c_ptr) option"
  wait_condition :: "(c_ptr \<Rightarrow> c_ptr \<Rightarrow> timeval option \<Rightarrow> 's \<Rightarrow> 's \<times> c_ptr) option"

definition evthread_lock_fns_0 :: "'s lu_evthread_lock_callback_t" where
  "evthread_lock_fns_0 = \<lparr>lock_api_version = 0, supported_lock_types = 0, lock_alloc = None, lock_free = None,
     lock_lock = None, lock_unlock = None\<rparr>"

definition evthread_condition_fns_0 :: "'s lu_evthread_condition_callbacks_t" where
  "evthread_condition_fns_0 = \<lparr>condition_api_version = 0, alloc_condition = None, free_condition = None,
     signal_condition = None, wait_condition = None\<rparr>"

definition evthread_globals_0 :: "'s lu_evthread_lock_callback_t evthread_globals" where
  "evthread_globals_0 = \<lparr>lock_debugging_enabled = False, evthread_id_fn = None,
     evthread_lock_fns = evthread_lock_fns_0, original_lock_fns = evthread_lock_fns_0\<rparr>"

section \<open>Locks\<close>

definition LU_EVTHREAD_ALLOC_LOCK :: "'s lu_evthread_lock_callback_t \<Rightarrow> 32 word \<Rightarrow> 's \<Rightarrow> 's \<times> c_ptr" where
  "LU_EVTHREAD_ALLOC_LOCK fns locktype s =
     (case lock_alloc fns of Some alloc \<Rightarrow> alloc locktype s | None \<Rightarrow> (s, 0))"

definition LU_EVTHREAD_FREE_LOCK :: "'s lu_evthread_lock_callback_t \<Rightarrow> c_ptr \<Rightarrow> 32 word \<Rightarrow> 's \<Rightarrow> 's" where
  "LU_EVTHREAD_FREE_LOCK fns lockvar locktype s =
     (if lockvar = 0 then s else (case lock_free fns of Some f \<Rightarrow> f lockvar locktype s | None \<Rightarrow> s))"

text \<open>A lock that is not null is used without a look at the function pointer. What the callback answers is dropped.\<close>

definition LU_EVLOCK_LOCK :: "'s lu_evthread_lock_callback_t \<Rightarrow> c_ptr \<Rightarrow> 32 word \<Rightarrow> 's \<Rightarrow> 's res" where
  "LU_EVLOCK_LOCK fns lockvar mode s =
     (if lockvar = 0 then Inr s
      else (case lock_lock fns of None \<Rightarrow> Inl Null_dereference | Some lk \<Rightarrow> Inr (fst (lk mode lockvar s))))"

definition LU_EVLOCK_UNLOCK :: "'s lu_evthread_lock_callback_t \<Rightarrow> c_ptr \<Rightarrow> 32 word \<Rightarrow> 's \<Rightarrow> 's res" where
  "LU_EVLOCK_UNLOCK fns lockvar mode s =
     (if lockvar = 0 then Inr s
      else (case lock_unlock fns of None \<Rightarrow> Inl Null_dereference | Some ul \<Rightarrow> Inr (fst (ul mode lockvar s))))"

definition LU_EVLOCK_SORTLOCKS :: "c_ptr \<Rightarrow> c_ptr \<Rightarrow> c_ptr \<times> c_ptr" where
  "LU_EVLOCK_SORTLOCKS lockvar1 lockvar2 =
     (if lockvar1 \<noteq> 0 \<and> lockvar2 \<noteq> 0 \<and> lockvar1 > lockvar2 then (lockvar2, lockvar1) else (lockvar1, lockvar2))"

text \<open>\<open>debug_locks\<close> is the memory of the debugging locks, \<open>k\<close> what comes after the assertion.\<close>

definition LU_EVLOCK_ASSERT_LOCKED ::
    "'tbl evthread_globals \<Rightarrow> (c_ptr \<Rightarrow> debug_lock) \<Rightarrow> c_ptr \<Rightarrow> 'a res \<Rightarrow> 'a res" where
  "LU_EVLOCK_ASSERT_LOCKED g debug_locks lock k =
     (if lock \<noteq> 0 \<and> lock_debugging_enabled g
      then lu_assert (lu_evthread_is_debug_lock_held (evthread_id_fn g) (debug_locks lock) \<noteq> 0) k else k)"

definition LU_EVENT_BASE_ASSERT_LOCKED ::
    "'tbl evthread_globals \<Rightarrow> (c_ptr \<Rightarrow> debug_lock) \<Rightarrow> c_ptr \<Rightarrow> 'a res \<Rightarrow> 'a res" where
  "LU_EVENT_BASE_ASSERT_LOCKED g debug_locks base_lock k = LU_EVLOCK_ASSERT_LOCKED g debug_locks base_lock k"

definition LU_EVTHREAD_LOCKING_ENABLED :: "'s lu_evthread_lock_callback_t \<Rightarrow> bool" where
  "LU_EVTHREAD_LOCKING_ENABLED fns \<longleftrightarrow> lock_lock fns \<noteq> None"

section \<open>Conditions\<close>

definition LU_EVTHREAD_ALLOC_COND :: "'s lu_evthread_condition_callbacks_t \<Rightarrow> 's \<Rightarrow> 's \<times> c_ptr" where
  "LU_EVTHREAD_ALLOC_COND fns s =
     (case alloc_condition fns of Some alloc \<Rightarrow> alloc 0 s | None \<Rightarrow> (s, 0))"

definition LU_EVTHREAD_FREE_COND :: "'s lu_evthread_condition_callbacks_t \<Rightarrow> c_ptr \<Rightarrow> 's \<Rightarrow> 's res" where
  "LU_EVTHREAD_FREE_COND fns cond s =
     (if cond = 0 then Inr s
      else (case free_condition fns of None \<Rightarrow> Inl Null_dereference | Some f \<Rightarrow> Inr (fst (f cond s))))"

definition LU_EVTHREAD_COND_WAIT_TIMED ::
    "'s lu_evthread_condition_callbacks_t \<Rightarrow> c_ptr \<Rightarrow> c_ptr \<Rightarrow> timeval option \<Rightarrow> 's \<Rightarrow> ('s \<times> c_ptr) res" where
  "LU_EVTHREAD_COND_WAIT_TIMED fns cond lock tv s =
     (if cond = 0 then Inr (s, 0)
      else (case wait_condition fns of None \<Rightarrow> Inl Null_dereference | Some wt \<Rightarrow> Inr (wt cond lock tv s)))"

definition LU_EVTHREAD_COND_WAIT ::
    "'s lu_evthread_condition_callbacks_t \<Rightarrow> c_ptr \<Rightarrow> c_ptr \<Rightarrow> 's \<Rightarrow> ('s \<times> c_ptr) res" where
  "LU_EVTHREAD_COND_WAIT fns cond lock s =
     (if cond = 0 then Inr (s, 0)
      else (case wait_condition fns of None \<Rightarrow> Inl Null_dereference | Some wt \<Rightarrow> Inr (wt cond lock None s)))"

definition LU_EVTHREAD_COND_SIGNAL :: "'s lu_evthread_condition_callbacks_t \<Rightarrow> c_ptr \<Rightarrow> 's \<Rightarrow> ('s \<times> c_ptr) res" where
  "LU_EVTHREAD_COND_SIGNAL fns cond s =
     (if cond = 0 then Inr (s, 0)
      else (case signal_condition fns of None \<Rightarrow> Inl Null_dereference | Some sg \<Rightarrow> Inr (sg cond 0 s)))"

definition LU_EVTHREAD_COND_BROADCAST :: "'s lu_evthread_condition_callbacks_t \<Rightarrow> c_ptr \<Rightarrow> 's \<Rightarrow> ('s \<times> c_ptr) res" where
  "LU_EVTHREAD_COND_BROADCAST fns cond s =
     (if cond = 0 then Inr (s, 0)
      else (case signal_condition fns of None \<Rightarrow> Inl Null_dereference | Some sg \<Rightarrow> Inr (sg cond 1 s)))"

section \<open>What the tables of the start do\<close>

text \<open>No function under src/ fills the tables: until the program stores its own, locking is off, locks
  and conditions are null, and every macro on a null lock or condition does nothing.\<close>

lemma null_locks:
  "LU_EVLOCK_LOCK fns 0 mode s = Inr s" "LU_EVLOCK_UNLOCK fns 0 mode s = Inr s"
  "LU_EVTHREAD_FREE_LOCK fns 0 ty s = s" "LU_EVTHREAD_FREE_COND cfns 0 s = Inr s"
  "LU_EVTHREAD_COND_WAIT cfns 0 l s = Inr (s, 0)" "LU_EVTHREAD_COND_WAIT_TIMED cfns 0 l tv s = Inr (s, 0)"
  "LU_EVTHREAD_COND_SIGNAL cfns 0 s = Inr (s, 0)" "LU_EVTHREAD_COND_BROADCAST cfns 0 s = Inr (s, 0)"
  by (simp_all add: LU_EVLOCK_LOCK_def LU_EVLOCK_UNLOCK_def LU_EVTHREAD_FREE_LOCK_def LU_EVTHREAD_FREE_COND_def
      LU_EVTHREAD_COND_WAIT_def LU_EVTHREAD_COND_WAIT_TIMED_def LU_EVTHREAD_COND_SIGNAL_def LU_EVTHREAD_COND_BROADCAST_def)

lemma locking_off_at_start:
  "\<not> LU_EVTHREAD_LOCKING_ENABLED (evthread_get_lock_callbacks evthread_globals_0)"
  "LU_EVTHREAD_ALLOC_LOCK evthread_lock_fns_0 ty s = (s, 0)" "LU_EVTHREAD_ALLOC_COND evthread_condition_fns_0 s = (s, 0)"
  "LU_EVENT_BASE_ASSERT_LOCKED evthread_globals_0 mem l k = k"
  by (simp_all add: LU_EVTHREAD_LOCKING_ENABLED_def evthread_get_lock_callbacks_def evthread_globals_0_def
      evthread_lock_fns_0_def LU_EVTHREAD_ALLOC_LOCK_def evthread_condition_fns_0_def LU_EVTHREAD_ALLOC_COND_def
      LU_EVENT_BASE_ASSERT_LOCKED_def LU_EVLOCK_ASSERT_LOCKED_def)

section \<open>The order of two locks\<close>

text \<open>Taking two locks in the order of \<open>LU_EVLOCK_SORTLOCKS_\<close>: a thread that holds the first and waits for
  the second waits for a larger address, so threads never wait for each other in a circle.\<close>

definition waits_for :: "(c_ptr \<times> c_ptr) set" where
  "waits_for = {(a, b). a \<noteq> 0 \<and> b \<noteq> 0 \<and> a \<noteq> b \<and> (\<exists>x y. LU_EVLOCK_SORTLOCKS x y = (a, b))}"

lemma sortlocks_same_pair: "{fst (LU_EVLOCK_SORTLOCKS x y), snd (LU_EVLOCK_SORTLOCKS x y)} = {x, y}"
  by (auto simp: LU_EVLOCK_SORTLOCKS_def)

lemma sortlocks_acyclic: "acyclic waits_for"
proof (rule acyclic_subset)
  show "acyclic {(a, b :: c_ptr). a < b}" by (rule acyclicI_order [where f = "\<lambda>x. - uint x"]) (simp add: word_less_def)
  show "waits_for \<subseteq> {(a, b). a < b}"
    by (auto simp: waits_for_def LU_EVLOCK_SORTLOCKS_def split: if_splits)
qed

section \<open>The lock of the base on a recursive lock\<close>

text \<open>What the documentation asks of the callbacks: a lock is recursive, so that a thread that holds it
  takes it again; waiting on a condition gives the lock back meanwhile and holds it again on return.
  \<open>depth s l\<close> is how often this thread holds \<open>l\<close> in the state \<open>s\<close>.\<close>

definition recursive_lock :: "'s lu_evthread_lock_callback_t \<Rightarrow> ('s \<Rightarrow> c_ptr \<Rightarrow> nat) \<Rightarrow> bool" where
  "recursive_lock fns depth \<longleftrightarrow> (\<exists>lk ul. lock_lock fns = Some lk \<and> lock_unlock fns = Some ul \<and>
     (\<forall>s l. depth (fst (lk 0 l s)) = (depth s)(l := depth s l + 1)) \<and>
     (\<forall>s l. 0 < depth s l \<longrightarrow> depth (fst (ul 0 l s)) = (depth s)(l := depth s l - 1)))"

definition waits_holding :: "'s lu_evthread_condition_callbacks_t \<Rightarrow> ('s \<Rightarrow> c_ptr \<Rightarrow> nat) \<Rightarrow> bool" where
  "waits_holding cfns depth \<longleftrightarrow> (\<exists>wt. wait_condition cfns = Some wt \<and>
     (\<forall>s cond l tv. 0 < depth s l \<longrightarrow> depth (fst (wt cond l tv s)) = depth s))"

text \<open>What the code does with the lock and the condition of a base, as a script: with the macros on the
  callbacks, and as the model of the base has it.\<close>

datatype base_lock_op = Acquire_base | Release_base | Wait_current_event

fun thread_step ::
    "'s lu_evthread_lock_callback_t \<Rightarrow> 's lu_evthread_condition_callbacks_t \<Rightarrow> c_ptr \<Rightarrow> c_ptr \<Rightarrow> base_lock_op \<Rightarrow> 's \<Rightarrow> 's res" where
  "thread_step fns cfns l c Acquire_base s = LU_EVLOCK_LOCK fns l 0 s"
| "thread_step fns cfns l c Release_base s = LU_EVLOCK_UNLOCK fns l 0 s"
| "thread_step fns cfns l c Wait_current_event s = bind_res (LU_EVTHREAD_COND_WAIT cfns c l s) (\<lambda>(s', _). Inr s')"

fun thread_exec ::
    "'s lu_evthread_lock_callback_t \<Rightarrow> 's lu_evthread_condition_callbacks_t \<Rightarrow> c_ptr \<Rightarrow> c_ptr \<Rightarrow> base_lock_op list \<Rightarrow> 's \<Rightarrow> 's res" where
  "thread_exec fns cfns l c [] s = Inr s"
| "thread_exec fns cfns l c (op # ops) s = bind_res (thread_step fns cfns l c op s) (thread_exec fns cfns l c ops)"

fun base_step :: "base_lock_op \<Rightarrow> world \<Rightarrow> world" where
  "base_step Acquire_base w = LU_EVBASE_ACQUIRE_LOCK w"
| "base_step Release_base w = LU_EVBASE_RELEASE_LOCK w"
| "base_step Wait_current_event w = wait_current_event w"

definition base_exec :: "base_lock_op list \<Rightarrow> world \<Rightarrow> world" where
  "base_exec = fold base_step"

text \<open>The depth after a step; \<open>None\<close> when it is not allowed: only who holds the lock may release it or wait.\<close>

fun lock_depth :: "nat \<Rightarrow> base_lock_op \<Rightarrow> nat option" where
  "lock_depth d Acquire_base = Some (Suc d)"
| "lock_depth d Release_base = (if 0 < d then Some (d - 1) else None)"
| "lock_depth d Wait_current_event = (if 0 < d then Some d else None)"

fun holds_lock :: "nat \<Rightarrow> base_lock_op list \<Rightarrow> bool" where
  "holds_lock d [] = True"
| "holds_lock d (op # ops) = (case lock_depth d op of None \<Rightarrow> False | Some d' \<Rightarrow> holds_lock d' ops)"

definition base_lock_rep :: "('s \<Rightarrow> c_ptr \<Rightarrow> nat) \<Rightarrow> c_ptr \<Rightarrow> c_ptr \<Rightarrow> 's \<Rightarrow> world \<Rightarrow> bool" where
  "base_lock_rep depth l c s w \<longleftrightarrow>
     (case th_base_lock (w_base w) of None \<Rightarrow> l = 0 \<and> c = 0 | Some d \<Rightarrow> l \<noteq> 0 \<and> depth s l = d)"

lemma base_step_lock:
  "th_base_lock (w_base (LU_EVBASE_ACQUIRE_LOCK w)) = map_option Suc (th_base_lock (w_base w))"
  "th_base_lock (w_base (LU_EVBASE_RELEASE_LOCK w)) = map_option (\<lambda>d. d - 1) (th_base_lock (w_base w))"
  "th_base_lock (w_base (wait_current_event w)) = th_base_lock (w_base w)"
  by (simp_all add: LU_EVBASE_ACQUIRE_LOCK_def LU_EVBASE_RELEASE_LOCK_def wait_current_event_def)

lemma base_step_depth:
  "th_base_lock (w_base w) = Some d \<Longrightarrow> lock_depth d op = Some d' \<Longrightarrow> th_base_lock (w_base (base_step op w)) = Some d'"
  by (cases op) (auto simp: base_step_lock split: if_splits)

lemma base_step_no_lock:
  assumes "base_lock_rep depth l c s w" "th_base_lock (w_base w) = None"
  shows "thread_step fns cfns l c op s = Inr s" "base_lock_rep depth l c s (base_step op w)"
    "th_base_lock (w_base (base_step op w)) = None"
  by (cases op; use assms in \<open>simp add: base_lock_rep_def null_locks base_step_lock\<close>)+

lemma thread_step_depth:
  assumes "recursive_lock fns depth" "waits_holding cfns depth" "l \<noteq> 0" "lock_depth (depth s l) op = Some d'"
  shows "\<exists>s'. thread_step fns cfns l c op s = Inr s' \<and> depth s' = (depth s)(l := d')"
proof (cases op)
  case Acquire_base
  then show ?thesis using assms(1,3,4) by (auto simp: recursive_lock_def LU_EVLOCK_LOCK_def)
next
  case Release_base
  then show ?thesis using assms(1,3,4) by (auto simp: recursive_lock_def LU_EVLOCK_UNLOCK_def split: if_splits)
next
  case Wait_current_event
  then have d: "0 < depth s l" "d' = depth s l" using assms(4) by (simp_all split: if_splits)
  obtain wt where wt: "wait_condition cfns = Some wt" "depth (fst (wt c l None s)) = depth s"
    using assms(2) d(1) unfolding waits_holding_def by blast
  have "thread_step fns cfns l c op s = Inr (if c = 0 then s else fst (wt c l None s))"
    by (cases "wt c l None s") (simp add: Wait_current_event LU_EVTHREAD_COND_WAIT_def wt(1))
  then show ?thesis using d(2) wt(2) by simp
qed

lemma base_lock_aux:
  assumes c: "recursive_lock fns depth" "waits_holding cfns depth"
  shows "base_lock_rep depth l c s w \<Longrightarrow> (\<And>d. th_base_lock (w_base w) = Some d \<Longrightarrow> holds_lock d ops) \<Longrightarrow>
    \<exists>s'. thread_exec fns cfns l c ops s = Inr s' \<and> base_lock_rep depth l c s' (base_exec ops w) \<and>
      (\<forall>l'. l' \<noteq> l \<longrightarrow> depth s' l' = depth s l')"
proof (induction ops arbitrary: s w)
  case (Cons op ops)
  show ?case
  proof (cases "th_base_lock (w_base w)")
    case None
    note st = base_step_no_lock [OF Cons.prems(1) None, where op = op]
    from Cons.IH [OF st(2)] show ?thesis by (simp add: st(1,3) base_exec_def)
  next
    case (Some d)
    then have r: "l \<noteq> 0" "depth s l = d" using Cons.prems(1) by (simp_all add: base_lock_rep_def)
    obtain d' where d': "lock_depth d op = Some d'" "holds_lock d' ops"
      using Cons.prems(2) [OF Some] by (auto split: option.splits)
    obtain s1 where s1: "thread_step fns cfns l c op s = Inr s1" "depth s1 = (depth s)(l := d')"
      using thread_step_depth [OF c r(1)] d'(1) r(2) by metis
    note w1 = base_step_depth [OF Some d'(1)]
    have "base_lock_rep depth l c s1 (base_step op w)" by (simp add: base_lock_rep_def w1 r(1) s1(2))
    from Cons.IH [OF this] show ?thesis using d'(2) by (simp add: w1 s1 base_exec_def)
  qed
qed (simp add: base_exec_def)


definition demo_lock_fns :: "(c_ptr \<Rightarrow> nat) lu_evthread_lock_callback_t" where
  "demo_lock_fns = evthread_lock_fns_0\<lparr>lock_lock := Some (\<lambda>_ l s. (s(l := s l + 1), 0)),
     lock_unlock := Some (\<lambda>_ l s. if 0 < s l then (s(l := s l - 1), 0) else (s, - 1))\<rparr>"

definition demo_cond_fns :: "(c_ptr \<Rightarrow> nat) lu_evthread_condition_callbacks_t" where
  "demo_cond_fns = evthread_condition_fns_0\<lparr>wait_condition := Some (\<lambda>_ _ _ s. (s, 0))\<rparr>"


section \<open>Operations give the lock back\<close>


definition demo_locked :: world where
  "demo_locked = upd_base (\<lambda>b. b\<lparr>th_base_lock := Some 0\<rparr>) demo_w0"

definition demo_locked_1 :: world where
  "demo_locked_1 = upd_base (\<lambda>b. b\<lparr>th_base_lock := Some 0\<rparr>) demo_w1"

lemma demo_locked_assign:
  "lu_event_assign demo_env (\<lambda>_. None) None demo_locked 10 (Some 0) 7 LU_EV_READ 0 0 False = Inr (demo_locked_1, 0)"
  by (simp add: demo_locked_def demo_locked_1_def demo_w1_def lu_event_assign_def res_world_def Let_def
      lu_event_debug_assert_socket_nonblocking_def demo_env_def demo_w0_def IO_EVENTS_def lu_consts has_flag_def)


end
