(* ===== verification/LuLifeCycle.thy ===== *)
theory LuLifeCycle
  imports LuBaseFree LuThread
begin

text \<open>
  The life of a base from \<open>lu_event_base_new\<close> over any sequence of operations on its events to
  \<open>lu_event_base_free\<close>: what creation establishes, the invariant of the operations and the loops of
  freeing, put together.
\<close>

lemma base_new_settings:
  assumes "sysenv_ok s" "\<not> event_debug_mode_on v" "\<not> locking_enabled t" "w_base w = zero_base sa na"
    and "lu_event_base_new fuel s v t (eventops ch sig_ops s v cb handle) True True True fin cb w = Inr (Some w0, fr)"
  shows "fresh_world {} w0" "th_notify_fd (w_base w0) = (- 1, - 1)" "evbase (w_base w0) = Some handle" "fr = [Free_config]"
    "w_self w0 = w_self w"
proof -
  obtain w' m si where w': "lu_event_base_new fuel s v t (eventops ch sig_ops s v cb handle) True True True fin cb w =
      Inr (Some w', [Free_config])" "w_self w' = w_self w"
    "w_base w' = (zero_base sa na)\<lparr>evsel_op := Some epool_ops, sig_info := si, evsigsel_op := Some sig_ops, evbase := Some handle,
         monotonic_timer := m, th_notify_fd := (- 1, - 1), max_dispatch_time := Timeval (- 1) (- 1),
         max_dispatch_callbacks := INT_MAX, limit_callbacks_after_priority := INT_MAX,
         activequeues := [[]], nactivequeues := 1\<rparr>"
    using base_new_ok_aux [OF assms(1-4), where fuel = fuel and ch = ch and sig_ops = sig_ops and cb = cb and handle = handle and fin = fin]
    by blast
  have e: "w0 = w'" "fr = [Free_config]" using assms(5) w'(1) by simp_all
  show "fresh_world {} w0" unfolding e by (rule new_base_fresh [OF w'(3)])
  show "th_notify_fd (w_base w0) = (- 1, - 1)" "evbase (w_base w0) = Some handle" "fr = [Free_config]" "w_self w0 = w_self w"
    by (simp_all add: e w'(2,3))
qed

lemma settings_fields:
  assumes "settings w = settings w0"
  shows "w_self w = w_self w0" "th_notify_fd (w_base w) = th_notify_fd (w_base w0)" "evbase (w_base w) = evbase (w_base w0)"
    "evsel_op (w_base w) = evsel_op (w_base w0)"
proof -
  have "fst (settings w) = w_self w" "th_notify_fd (snd (settings w)) = th_notify_fd (w_base w)"
    "evbase (snd (settings w)) = evbase (w_base w)" "evsel_op (snd (settings w)) = evsel_op (w_base w)" for w
    by (simp_all add: settings_def)
  then show "w_self w = w_self w0" "th_notify_fd (w_base w) = th_notify_fd (w_base w0)" "evbase (w_base w) = evbase (w_base w0)"
    "evsel_op (w_base w) = evsel_op (w_base w0)"
    using assms by metis+
qed



end
