(* ===== verification/LuQueue.thy ===== *)
theory LuQueue
  imports LuPrelude
begin

text \<open>
  The queue macros of \<open>src/compat/sys/queue.h\<close>, at the level of pointers. Heads and
  elements are cells of an explicit memory; the head structure of a list and the entry field of
  an element both start with the pointer to the following element, so the address of such a
  pointer (the \<open>struct type **\<close> of the macros) is named by the cell it begins: \<open>&(head)->tqh_first\<close>
  is \<open>Head h\<close>, \<open>&(elm)->field.tqe_next\<close> is \<open>Elem e\<close>. The second word of a cell is
  \<open>tqh_last\<close> (\<open>sqh_last\<close>) in a head and \<open>tqe_prev\<close> (\<open>le_prev\<close>) in an element; where the C
  structure has no second word (\<open>SLIST\<close>, the head of a \<open>LIST\<close>, the entry of a \<open>SIMPLEQ\<close>) no
  macro reads or writes it. One memory stands for one entry field, so all the heads whose
  elements are linked through that field live in it together.

  The macros of a circular queue keep element pointers in both directions, a pointer to the
  head converted to \<open>void *\<close> marking the end: their memory has cells as pointers.
\<close>

section \<open>The memory\<close>

datatype ('h, 'e) qcell = Head 'h | Elem 'e

record ('h, 'e) qmem =
  q_next :: "('h, 'e) qcell \<Rightarrow> 'e option"
  q_prev :: "('h, 'e) qcell \<Rightarrow> ('h, 'e) qcell"

definition set_next :: "('h, 'e) qcell \<Rightarrow> 'e option \<Rightarrow> ('h, 'e) qmem \<Rightarrow> ('h, 'e) qmem" where
  "set_next c v m = m\<lparr>q_next := (q_next m)(c := v)\<rparr>"

definition set_prev :: "('h, 'e) qcell \<Rightarrow> ('h, 'e) qcell \<Rightarrow> ('h, 'e) qmem \<Rightarrow> ('h, 'e) qmem" where
  "set_prev c v m = m\<lparr>q_prev := (q_prev m)(c := v)\<rparr>"

record ('h, 'e) cqmem =
  cq_next :: "('h, 'e) qcell \<Rightarrow> ('h, 'e) qcell"
  cq_prev :: "('h, 'e) qcell \<Rightarrow> ('h, 'e) qcell"

definition set_cnext :: "('h, 'e) qcell \<Rightarrow> ('h, 'e) qcell \<Rightarrow> ('h, 'e) cqmem \<Rightarrow> ('h, 'e) cqmem" where
  "set_cnext c v m = m\<lparr>cq_next := (cq_next m)(c := v)\<rparr>"

definition set_cprev :: "('h, 'e) qcell \<Rightarrow> ('h, 'e) qcell \<Rightarrow> ('h, 'e) cqmem \<Rightarrow> ('h, 'e) cqmem" where
  "set_cprev c v m = m\<lparr>cq_prev := (cq_prev m)(c := v)\<rparr>"

text \<open>
  The \<open>for\<close> loop of the \<open>FOREACH\<close> macros: the loop variable is \<open>None\<close> at the end of the list, the
  following element is read after the body has run. The fuel bounds the number of rounds.
\<close>

fun foreach :: "nat \<Rightarrow> ('s \<Rightarrow> 'e \<Rightarrow> 'e option) \<Rightarrow> ('e \<Rightarrow> 's \<Rightarrow> 's) \<Rightarrow> 'e option \<Rightarrow> 's \<Rightarrow> 's option" where
  "foreach 0 nx body var s = None"
| "foreach (Suc n) nx body var s =
     (case var of
        None \<Rightarrow> Some s
      | Some e \<Rightarrow> (let s1 = body e s in foreach n nx body (nx s1 e) s1))"

section \<open>Singly-linked lists\<close>

definition SLIST_FIRST :: "'h \<Rightarrow> ('h, 'e) qmem \<Rightarrow> 'e option" where
  "SLIST_FIRST h m = q_next m (Head h)"

definition SLIST_EMPTY :: "'h \<Rightarrow> ('h, 'e) qmem \<Rightarrow> bool" where
  "SLIST_EMPTY h m \<longleftrightarrow> SLIST_FIRST h m = None"

definition SLIST_NEXT :: "'e \<Rightarrow> ('h, 'e) qmem \<Rightarrow> 'e option" where
  "SLIST_NEXT e m = q_next m (Elem e)"

definition SLIST_FOREACH ::
  "nat \<Rightarrow> 'h \<Rightarrow> ('e \<Rightarrow> ('h, 'e) qmem \<times> 'a \<Rightarrow> ('h, 'e) qmem \<times> 'a) \<Rightarrow> ('h, 'e) qmem \<times> 'a \<Rightarrow>
    (('h, 'e) qmem \<times> 'a) option" where
  "SLIST_FOREACH n h body s = foreach n (\<lambda>s e. SLIST_NEXT e (fst s)) body (SLIST_FIRST h (fst s)) s"

definition SLIST_INIT :: "'h \<Rightarrow> ('h, 'e) qmem \<Rightarrow> ('h, 'e) qmem" where
  "SLIST_INIT h m = set_next (Head h) None m"

definition SLIST_INSERT_AFTER :: "'e \<Rightarrow> 'e \<Rightarrow> ('h, 'e) qmem \<Rightarrow> ('h, 'e) qmem" where
  "SLIST_INSERT_AFTER slistelm elm m =
     (let m1 = set_next (Elem elm) (q_next m (Elem slistelm)) m
      in set_next (Elem slistelm) (Some elm) m1)"

definition SLIST_INSERT_HEAD :: "'h \<Rightarrow> 'e \<Rightarrow> ('h, 'e) qmem \<Rightarrow> ('h, 'e) qmem" where
  "SLIST_INSERT_HEAD h elm m =
     (let m1 = set_next (Elem elm) (q_next m (Head h)) m
      in set_next (Head h) (Some elm) m1)"

text \<open>\<open>None\<close>: the first element is \<open>NULL\<close> and is dereferenced.\<close>

definition SLIST_REMOVE_HEAD :: "'h \<Rightarrow> ('h, 'e) qmem \<Rightarrow> ('h, 'e) qmem option" where
  "SLIST_REMOVE_HEAD h m =
     (case q_next m (Head h) of
        None \<Rightarrow> None
      | Some f \<Rightarrow> Some (set_next (Head h) (q_next m (Elem f)) m))"

section \<open>Doubly-linked lists\<close>

definition LIST_FIRST :: "'h \<Rightarrow> ('h, 'e) qmem \<Rightarrow> 'e option" where
  "LIST_FIRST h m = q_next m (Head h)"

definition LIST_EMPTY :: "'h \<Rightarrow> ('h, 'e) qmem \<Rightarrow> bool" where
  "LIST_EMPTY h m \<longleftrightarrow> LIST_FIRST h m = None"

definition LIST_NEXT :: "'e \<Rightarrow> ('h, 'e) qmem \<Rightarrow> 'e option" where
  "LIST_NEXT e m = q_next m (Elem e)"

definition LIST_FOREACH ::
  "nat \<Rightarrow> 'h \<Rightarrow> ('e \<Rightarrow> ('h, 'e) qmem \<times> 'a \<Rightarrow> ('h, 'e) qmem \<times> 'a) \<Rightarrow> ('h, 'e) qmem \<times> 'a \<Rightarrow>
    (('h, 'e) qmem \<times> 'a) option" where
  "LIST_FOREACH n h body s = foreach n (\<lambda>s e. LIST_NEXT e (fst s)) body (LIST_FIRST h (fst s)) s"

definition LIST_INIT :: "'h \<Rightarrow> ('h, 'e) qmem \<Rightarrow> ('h, 'e) qmem" where
  "LIST_INIT h m = set_next (Head h) None m"

definition LIST_INSERT_AFTER :: "'e \<Rightarrow> 'e \<Rightarrow> ('h, 'e) qmem \<Rightarrow> ('h, 'e) qmem" where
  "LIST_INSERT_AFTER listelm elm m =
     (let m1 = set_next (Elem elm) (q_next m (Elem listelm)) m;
          m2 = (case q_next m1 (Elem listelm) of
                  None \<Rightarrow> m1
                | Some f \<Rightarrow> set_prev (Elem f) (Elem elm) m1);
          m3 = set_next (Elem listelm) (Some elm) m2
      in set_prev (Elem elm) (Elem listelm) m3)"

definition LIST_INSERT_BEFORE :: "'e \<Rightarrow> 'e \<Rightarrow> ('h, 'e) qmem \<Rightarrow> ('h, 'e) qmem" where
  "LIST_INSERT_BEFORE listelm elm m =
     (let m1 = set_prev (Elem elm) (q_prev m (Elem listelm)) m;
          m2 = set_next (Elem elm) (Some listelm) m1;
          m3 = set_next (q_prev m2 (Elem listelm)) (Some elm) m2
      in set_prev (Elem listelm) (Elem elm) m3)"

definition LIST_INSERT_HEAD :: "'h \<Rightarrow> 'e \<Rightarrow> ('h, 'e) qmem \<Rightarrow> ('h, 'e) qmem" where
  "LIST_INSERT_HEAD h elm m =
     (let m1 = set_next (Elem elm) (q_next m (Head h)) m;
          m2 = (case q_next m1 (Head h) of
                  None \<Rightarrow> m1
                | Some f \<Rightarrow> set_prev (Elem f) (Elem elm) m1);
          m3 = set_next (Head h) (Some elm) m2
      in set_prev (Elem elm) (Head h) m3)"

definition LIST_REMOVE :: "'e \<Rightarrow> ('h, 'e) qmem \<Rightarrow> ('h, 'e) qmem" where
  "LIST_REMOVE elm m =
     (let m1 = (case q_next m (Elem elm) of
                  None \<Rightarrow> m
                | Some f \<Rightarrow> set_prev (Elem f) (q_prev m (Elem elm)) m)
      in set_next (q_prev m1 (Elem elm)) (q_next m1 (Elem elm)) m1)"

definition LIST_REPLACE :: "'e \<Rightarrow> 'e \<Rightarrow> ('h, 'e) qmem \<Rightarrow> ('h, 'e) qmem" where
  "LIST_REPLACE elm elm2 m =
     (let m1 = set_next (Elem elm2) (q_next m (Elem elm)) m;
          m2 = (case q_next m1 (Elem elm2) of
                  None \<Rightarrow> m1
                | Some f \<Rightarrow> set_prev (Elem f) (Elem elm2) m1);
          m3 = set_prev (Elem elm2) (q_prev m2 (Elem elm)) m2
      in set_next (q_prev m3 (Elem elm2)) (Some elm2) m3)"

section \<open>Simple queues\<close>

definition SIMPLEQ_FIRST :: "'h \<Rightarrow> ('h, 'e) qmem \<Rightarrow> 'e option" where
  "SIMPLEQ_FIRST h m = q_next m (Head h)"

definition SIMPLEQ_EMPTY :: "'h \<Rightarrow> ('h, 'e) qmem \<Rightarrow> bool" where
  "SIMPLEQ_EMPTY h m \<longleftrightarrow> SIMPLEQ_FIRST h m = None"

definition SIMPLEQ_NEXT :: "'e \<Rightarrow> ('h, 'e) qmem \<Rightarrow> 'e option" where
  "SIMPLEQ_NEXT e m = q_next m (Elem e)"

definition SIMPLEQ_FOREACH ::
  "nat \<Rightarrow> 'h \<Rightarrow> ('e \<Rightarrow> ('h, 'e) qmem \<times> 'a \<Rightarrow> ('h, 'e) qmem \<times> 'a) \<Rightarrow> ('h, 'e) qmem \<times> 'a \<Rightarrow>
    (('h, 'e) qmem \<times> 'a) option" where
  "SIMPLEQ_FOREACH n h body s =
     foreach n (\<lambda>s e. SIMPLEQ_NEXT e (fst s)) body (SIMPLEQ_FIRST h (fst s)) s"

definition SIMPLEQ_INIT :: "'h \<Rightarrow> ('h, 'e) qmem \<Rightarrow> ('h, 'e) qmem" where
  "SIMPLEQ_INIT h m = set_prev (Head h) (Head h) (set_next (Head h) None m)"

definition SIMPLEQ_INSERT_HEAD :: "'h \<Rightarrow> 'e \<Rightarrow> ('h, 'e) qmem \<Rightarrow> ('h, 'e) qmem" where
  "SIMPLEQ_INSERT_HEAD h elm m =
     (let m1 = set_next (Elem elm) (q_next m (Head h)) m;
          m2 = (if q_next m1 (Elem elm) = None then set_prev (Head h) (Elem elm) m1 else m1)
      in set_next (Head h) (Some elm) m2)"

definition SIMPLEQ_INSERT_TAIL :: "'h \<Rightarrow> 'e \<Rightarrow> ('h, 'e) qmem \<Rightarrow> ('h, 'e) qmem" where
  "SIMPLEQ_INSERT_TAIL h elm m =
     (let m1 = set_next (Elem elm) None m;
          m2 = set_next (q_prev m1 (Head h)) (Some elm) m1
      in set_prev (Head h) (Elem elm) m2)"

definition SIMPLEQ_INSERT_AFTER :: "'h \<Rightarrow> 'e \<Rightarrow> 'e \<Rightarrow> ('h, 'e) qmem \<Rightarrow> ('h, 'e) qmem" where
  "SIMPLEQ_INSERT_AFTER h listelm elm m =
     (let m1 = set_next (Elem elm) (q_next m (Elem listelm)) m;
          m2 = (if q_next m1 (Elem elm) = None then set_prev (Head h) (Elem elm) m1 else m1)
      in set_next (Elem listelm) (Some elm) m2)"

definition SIMPLEQ_REMOVE_HEAD :: "'h \<Rightarrow> 'e \<Rightarrow> ('h, 'e) qmem \<Rightarrow> ('h, 'e) qmem" where
  "SIMPLEQ_REMOVE_HEAD h elm m =
     (let m1 = set_next (Head h) (q_next m (Elem elm)) m
      in if q_next m1 (Head h) = None then set_prev (Head h) (Head h) m1 else m1)"

section \<open>Tail queues\<close>

definition TAILQ_FIRST :: "'h \<Rightarrow> ('h, 'e) qmem \<Rightarrow> 'e option" where
  "TAILQ_FIRST h m = q_next m (Head h)"

definition TAILQ_NEXT :: "'e \<Rightarrow> ('h, 'e) qmem \<Rightarrow> 'e option" where
  "TAILQ_NEXT e m = q_next m (Elem e)"

text \<open>
  \<open>TAILQ_LAST\<close> and \<open>TAILQ_PREV\<close> read the cell that holds the last (the preceding) pointer as if it
  were a head: the address in its second word is where the pointer to the element stands.
\<close>

definition TAILQ_LAST :: "'h \<Rightarrow> ('h, 'e) qmem \<Rightarrow> 'e option" where
  "TAILQ_LAST h m = q_next m (q_prev m (q_prev m (Head h)))"

definition TAILQ_PREV :: "'e \<Rightarrow> ('h, 'e) qmem \<Rightarrow> 'e option" where
  "TAILQ_PREV e m = q_next m (q_prev m (q_prev m (Elem e)))"

definition TAILQ_EMPTY :: "'h \<Rightarrow> ('h, 'e) qmem \<Rightarrow> bool" where
  "TAILQ_EMPTY h m \<longleftrightarrow> TAILQ_FIRST h m = None"

definition TAILQ_FOREACH ::
  "nat \<Rightarrow> 'h \<Rightarrow> ('e \<Rightarrow> ('h, 'e) qmem \<times> 'a \<Rightarrow> ('h, 'e) qmem \<times> 'a) \<Rightarrow> ('h, 'e) qmem \<times> 'a \<Rightarrow>
    (('h, 'e) qmem \<times> 'a) option" where
  "TAILQ_FOREACH n h body s = foreach n (\<lambda>s e. TAILQ_NEXT e (fst s)) body (TAILQ_FIRST h (fst s)) s"

definition TAILQ_FOREACH_REVERSE ::
  "nat \<Rightarrow> 'h \<Rightarrow> ('e \<Rightarrow> ('h, 'e) qmem \<times> 'a \<Rightarrow> ('h, 'e) qmem \<times> 'a) \<Rightarrow> ('h, 'e) qmem \<times> 'a \<Rightarrow>
    (('h, 'e) qmem \<times> 'a) option" where
  "TAILQ_FOREACH_REVERSE n h body s =
     foreach n (\<lambda>s e. TAILQ_PREV e (fst s)) body (TAILQ_LAST h (fst s)) s"

definition TAILQ_INIT :: "'h \<Rightarrow> ('h, 'e) qmem \<Rightarrow> ('h, 'e) qmem" where
  "TAILQ_INIT h m = set_prev (Head h) (Head h) (set_next (Head h) None m)"

definition TAILQ_INSERT_HEAD :: "'h \<Rightarrow> 'e \<Rightarrow> ('h, 'e) qmem \<Rightarrow> ('h, 'e) qmem" where
  "TAILQ_INSERT_HEAD h elm m =
     (let m1 = set_next (Elem elm) (q_next m (Head h)) m;
          m2 = (case q_next m1 (Head h) of
                  None \<Rightarrow> set_prev (Head h) (Elem elm) m1
                | Some f \<Rightarrow> set_prev (Elem f) (Elem elm) m1);
          m3 = set_next (Head h) (Some elm) m2
      in set_prev (Elem elm) (Head h) m3)"

definition TAILQ_INSERT_TAIL :: "'h \<Rightarrow> 'e \<Rightarrow> ('h, 'e) qmem \<Rightarrow> ('h, 'e) qmem" where
  "TAILQ_INSERT_TAIL h elm m =
     (let m1 = set_next (Elem elm) None m;
          m2 = set_prev (Elem elm) (q_prev m1 (Head h)) m1;
          m3 = set_next (q_prev m2 (Head h)) (Some elm) m2
      in set_prev (Head h) (Elem elm) m3)"

definition TAILQ_INSERT_AFTER :: "'h \<Rightarrow> 'e \<Rightarrow> 'e \<Rightarrow> ('h, 'e) qmem \<Rightarrow> ('h, 'e) qmem" where
  "TAILQ_INSERT_AFTER h listelm elm m =
     (let m1 = set_next (Elem elm) (q_next m (Elem listelm)) m;
          m2 = (case q_next m1 (Elem elm) of
                  None \<Rightarrow> set_prev (Head h) (Elem elm) m1
                | Some f \<Rightarrow> set_prev (Elem f) (Elem elm) m1);
          m3 = set_next (Elem listelm) (Some elm) m2
      in set_prev (Elem elm) (Elem listelm) m3)"

definition TAILQ_INSERT_BEFORE :: "'e \<Rightarrow> 'e \<Rightarrow> ('h, 'e) qmem \<Rightarrow> ('h, 'e) qmem" where
  "TAILQ_INSERT_BEFORE listelm elm m =
     (let m1 = set_prev (Elem elm) (q_prev m (Elem listelm)) m;
          m2 = set_next (Elem elm) (Some listelm) m1;
          m3 = set_next (q_prev m2 (Elem listelm)) (Some elm) m2
      in set_prev (Elem listelm) (Elem elm) m3)"

definition TAILQ_REMOVE :: "'h \<Rightarrow> 'e \<Rightarrow> ('h, 'e) qmem \<Rightarrow> ('h, 'e) qmem" where
  "TAILQ_REMOVE h elm m =
     (let m1 = (case q_next m (Elem elm) of
                  None \<Rightarrow> set_prev (Head h) (q_prev m (Elem elm)) m
                | Some f \<Rightarrow> set_prev (Elem f) (q_prev m (Elem elm)) m)
      in set_next (q_prev m1 (Elem elm)) (q_next m1 (Elem elm)) m1)"

definition TAILQ_REPLACE :: "'h \<Rightarrow> 'e \<Rightarrow> 'e \<Rightarrow> ('h, 'e) qmem \<Rightarrow> ('h, 'e) qmem" where
  "TAILQ_REPLACE h elm elm2 m =
     (let m1 = set_next (Elem elm2) (q_next m (Elem elm)) m;
          m2 = (case q_next m1 (Elem elm2) of
                  None \<Rightarrow> set_prev (Head h) (Elem elm2) m1
                | Some f \<Rightarrow> set_prev (Elem f) (Elem elm2) m1);
          m3 = set_prev (Elem elm2) (q_prev m2 (Elem elm)) m2
      in set_next (q_prev m3 (Elem elm2)) (Some elm2) m3)"

section \<open>Circular queues\<close>

definition CIRCLEQ_FIRST :: "'h \<Rightarrow> ('h, 'e) cqmem \<Rightarrow> ('h, 'e) qcell" where
  "CIRCLEQ_FIRST h m = cq_next m (Head h)"

definition CIRCLEQ_LAST :: "'h \<Rightarrow> ('h, 'e) cqmem \<Rightarrow> ('h, 'e) qcell" where
  "CIRCLEQ_LAST h m = cq_prev m (Head h)"

definition CIRCLEQ_END :: "'h \<Rightarrow> ('h, 'e) qcell" where
  "CIRCLEQ_END h = Head h"

definition CIRCLEQ_NEXT :: "'e \<Rightarrow> ('h, 'e) cqmem \<Rightarrow> ('h, 'e) qcell" where
  "CIRCLEQ_NEXT e m = cq_next m (Elem e)"

definition CIRCLEQ_PREV :: "'e \<Rightarrow> ('h, 'e) cqmem \<Rightarrow> ('h, 'e) qcell" where
  "CIRCLEQ_PREV e m = cq_prev m (Elem e)"

definition CIRCLEQ_EMPTY :: "'h \<Rightarrow> ('h, 'e) cqmem \<Rightarrow> bool" where
  "CIRCLEQ_EMPTY h m \<longleftrightarrow> CIRCLEQ_FIRST h m = CIRCLEQ_END h"

text \<open>The test \<open>(var) != CIRCLEQ_END(head)\<close> of the loops: \<open>None\<close> at the end, else the element.\<close>

definition circleq_var :: "'h \<Rightarrow> ('h, 'e) qcell \<Rightarrow> 'e option" where
  "circleq_var h p =
     (if p = CIRCLEQ_END h then None else (case p of Elem e \<Rightarrow> Some e | Head _ \<Rightarrow> None))"

definition CIRCLEQ_FOREACH ::
  "nat \<Rightarrow> 'h \<Rightarrow> ('e \<Rightarrow> ('h, 'e) cqmem \<times> 'a \<Rightarrow> ('h, 'e) cqmem \<times> 'a) \<Rightarrow> ('h, 'e) cqmem \<times> 'a \<Rightarrow>
    (('h, 'e) cqmem \<times> 'a) option" where
  "CIRCLEQ_FOREACH n h body s =
     foreach n (\<lambda>s e. circleq_var h (CIRCLEQ_NEXT e (fst s))) body
       (circleq_var h (CIRCLEQ_FIRST h (fst s))) s"

definition CIRCLEQ_FOREACH_REVERSE ::
  "nat \<Rightarrow> 'h \<Rightarrow> ('e \<Rightarrow> ('h, 'e) cqmem \<times> 'a \<Rightarrow> ('h, 'e) cqmem \<times> 'a) \<Rightarrow> ('h, 'e) cqmem \<times> 'a \<Rightarrow>
    (('h, 'e) cqmem \<times> 'a) option" where
  "CIRCLEQ_FOREACH_REVERSE n h body s =
     foreach n (\<lambda>s e. circleq_var h (CIRCLEQ_PREV e (fst s))) body
       (circleq_var h (CIRCLEQ_LAST h (fst s))) s"

definition CIRCLEQ_INIT :: "'h \<Rightarrow> ('h, 'e) cqmem \<Rightarrow> ('h, 'e) cqmem" where
  "CIRCLEQ_INIT h m = set_cprev (Head h) (CIRCLEQ_END h) (set_cnext (Head h) (CIRCLEQ_END h) m)"

definition CIRCLEQ_INSERT_AFTER :: "'h \<Rightarrow> 'e \<Rightarrow> 'e \<Rightarrow> ('h, 'e) cqmem \<Rightarrow> ('h, 'e) cqmem" where
  "CIRCLEQ_INSERT_AFTER h listelm elm m =
     (let m1 = set_cnext (Elem elm) (cq_next m (Elem listelm)) m;
          m2 = set_cprev (Elem elm) (Elem listelm) m1;
          m3 = (if cq_next m2 (Elem listelm) = CIRCLEQ_END h then set_cprev (Head h) (Elem elm) m2
                else set_cprev (cq_next m2 (Elem listelm)) (Elem elm) m2)
      in set_cnext (Elem listelm) (Elem elm) m3)"

definition CIRCLEQ_INSERT_BEFORE :: "'h \<Rightarrow> 'e \<Rightarrow> 'e \<Rightarrow> ('h, 'e) cqmem \<Rightarrow> ('h, 'e) cqmem" where
  "CIRCLEQ_INSERT_BEFORE h listelm elm m =
     (let m1 = set_cnext (Elem elm) (Elem listelm) m;
          m2 = set_cprev (Elem elm) (cq_prev m1 (Elem listelm)) m1;
          m3 = (if cq_prev m2 (Elem listelm) = CIRCLEQ_END h then set_cnext (Head h) (Elem elm) m2
                else set_cnext (cq_prev m2 (Elem listelm)) (Elem elm) m2)
      in set_cprev (Elem listelm) (Elem elm) m3)"

definition CIRCLEQ_INSERT_HEAD :: "'h \<Rightarrow> 'e \<Rightarrow> ('h, 'e) cqmem \<Rightarrow> ('h, 'e) cqmem" where
  "CIRCLEQ_INSERT_HEAD h elm m =
     (let m1 = set_cnext (Elem elm) (cq_next m (Head h)) m;
          m2 = set_cprev (Elem elm) (CIRCLEQ_END h) m1;
          m3 = (if cq_prev m2 (Head h) = CIRCLEQ_END h then set_cprev (Head h) (Elem elm) m2
                else set_cprev (cq_next m2 (Head h)) (Elem elm) m2)
      in set_cnext (Head h) (Elem elm) m3)"

definition CIRCLEQ_INSERT_TAIL :: "'h \<Rightarrow> 'e \<Rightarrow> ('h, 'e) cqmem \<Rightarrow> ('h, 'e) cqmem" where
  "CIRCLEQ_INSERT_TAIL h elm m =
     (let m1 = set_cnext (Elem elm) (CIRCLEQ_END h) m;
          m2 = set_cprev (Elem elm) (cq_prev m1 (Head h)) m1;
          m3 = (if cq_next m2 (Head h) = CIRCLEQ_END h then set_cnext (Head h) (Elem elm) m2
                else set_cnext (cq_prev m2 (Head h)) (Elem elm) m2)
      in set_cprev (Head h) (Elem elm) m3)"

definition CIRCLEQ_REMOVE :: "'h \<Rightarrow> 'e \<Rightarrow> ('h, 'e) cqmem \<Rightarrow> ('h, 'e) cqmem" where
  "CIRCLEQ_REMOVE h elm m =
     (let m1 = (if cq_next m (Elem elm) = CIRCLEQ_END h
                then set_cprev (Head h) (cq_prev m (Elem elm)) m
                else set_cprev (cq_next m (Elem elm)) (cq_prev m (Elem elm)) m)
      in if cq_prev m1 (Elem elm) = CIRCLEQ_END h
         then set_cnext (Head h) (cq_next m1 (Elem elm)) m1
         else set_cnext (cq_prev m1 (Elem elm)) (cq_next m1 (Elem elm)) m1)"

end
