(* ===== verification/LuQueueProps.thy ===== *)
theory LuQueueProps
  imports LuQueue
begin

text \<open>
  What the queue macros do to the sequence of elements. A representation relation per kind of
  list ties the memory to a HOL list; a hierarchy of locales states the contract the kinds
  share (\<open>lq_seq\<close>), with removal of the first element (\<open>lq_pop\<close>), insertion at the end
  (\<open>lq_tail\<close>), insertion before and removal of any element (\<open>lq_list\<close>), and both directions
  (\<open>lq_deque\<close>). The laws are about one head and say which cells an operation leaves alone; the
  locales derive from that what happens to all the heads of one memory, what a \<open>FOREACH\<close> loop
  visits, and that a script of operations computes the lists it should.
\<close>

section \<open>Chains of cells\<close>

lemma set_next_sel [simp]:
  "q_next (set_next c v m) = (q_next m)(c := v)" "q_prev (set_next c v m) = q_prev m"
  by (simp_all add: set_next_def)

lemma set_prev_sel [simp]:
  "q_prev (set_prev c v m) = (q_prev m)(c := v)" "q_next (set_prev c v m) = q_next m"
  by (simp_all add: set_prev_def)

lemma set_cnext_sel [simp]:
  "cq_next (set_cnext c v m) = (cq_next m)(c := v)" "cq_prev (set_cnext c v m) = cq_prev m"
  by (simp_all add: set_cnext_def)

lemma set_cprev_sel [simp]:
  "cq_prev (set_cprev c v m) = (cq_prev m)(c := v)" "cq_next (set_cprev c v m) = cq_next m"
  by (simp_all add: set_cprev_def)

text \<open>The last cell of a chain that starts at a cell.\<close>

fun lastc :: "('h, 'e) qcell \<Rightarrow> 'e list \<Rightarrow> ('h, 'e) qcell" where
  "lastc c [] = c"
| "lastc c (x # xs) = lastc (Elem x) xs"

text \<open>The first words link the elements in order, and in a doubly-linked chain each second word
  is the cell before.\<close>

fun nseg :: "('h, 'e) qmem \<Rightarrow> ('h, 'e) qcell \<Rightarrow> 'e list \<Rightarrow> bool" where
  "nseg m c [] \<longleftrightarrow> True"
| "nseg m c (x # xs) \<longleftrightarrow> q_next m c = Some x \<and> nseg m (Elem x) xs"

fun pseg :: "('h, 'e) qmem \<Rightarrow> ('h, 'e) qcell \<Rightarrow> 'e list \<Rightarrow> bool" where
  "pseg m c [] \<longleftrightarrow> True"
| "pseg m c (x # xs) \<longleftrightarrow> q_prev m (Elem x) = c \<and> pseg m (Elem x) xs"

fun cnseg :: "('h, 'e) cqmem \<Rightarrow> ('h, 'e) qcell \<Rightarrow> 'e list \<Rightarrow> bool" where
  "cnseg m c [] \<longleftrightarrow> True"
| "cnseg m c (x # xs) \<longleftrightarrow> cq_next m c = Elem x \<and> cnseg m (Elem x) xs"

fun cpseg :: "('h, 'e) cqmem \<Rightarrow> ('h, 'e) qcell \<Rightarrow> 'e list \<Rightarrow> bool" where
  "cpseg m c [] \<longleftrightarrow> True"
| "cpseg m c (x # xs) \<longleftrightarrow> cq_prev m (Elem x) = c \<and> cpseg m (Elem x) xs"

lemma lastc_append [simp]: "lastc c (xs @ ys) = lastc (lastc c xs) ys"
  by (induction xs arbitrary: c) auto

lemma nseg_append [simp]: "nseg m c (xs @ ys) \<longleftrightarrow> nseg m c xs \<and> nseg m (lastc c xs) ys"
  by (induction xs arbitrary: c) auto

lemma pseg_append [simp]: "pseg m c (xs @ ys) \<longleftrightarrow> pseg m c xs \<and> pseg m (lastc c xs) ys"
  by (induction xs arbitrary: c) auto

lemma cnseg_append [simp]: "cnseg m c (xs @ ys) \<longleftrightarrow> cnseg m c xs \<and> cnseg m (lastc c xs) ys"
  by (induction xs arbitrary: c) auto

lemma cpseg_append [simp]: "cpseg m c (xs @ ys) \<longleftrightarrow> cpseg m c xs \<and> cpseg m (lastc c xs) ys"
  by (induction xs arbitrary: c) auto

lemma lastc_mem: "lastc c xs = c \<or> lastc c xs \<in> Elem ` set xs"
  by (induction xs arbitrary: c) (simp, metis lastc.simps(2) image_insert insertI1 insertI2 list.simps(15))

lemma lastc_ne [simp]:
  assumes "e \<notin> set xs" "c \<noteq> Elem e"
  shows "lastc c xs \<noteq> Elem e" "Elem e \<noteq> lastc c xs"
  using lastc_mem [of c xs] assms by auto

lemma lastc_elem [simp]: "lastc (Elem b) xs \<noteq> Head h" "Head h \<noteq> lastc (Elem b) xs"
  by (induction xs arbitrary: b) auto

lemma lastc_head [simp]: "lastc (Head h) xs = Head k \<longleftrightarrow> xs = [] \<and> h = k"
  by (cases xs) auto

lemma elem_image [simp]: "Elem e \<in> Elem ` A \<longleftrightarrow> e \<in> A" "Head h \<notin> Elem ` A"
  by auto

lemma nseg_next [simp]:
  "c \<noteq> a \<Longrightarrow> a \<notin> Elem ` set xs \<Longrightarrow> nseg (set_next a v m) c xs = nseg m c xs"
  by (induction xs arbitrary: c) auto

lemma nseg_prev [simp]: "nseg (set_prev a v m) c xs = nseg m c xs"
  by (induction xs arbitrary: c) auto

lemma pseg_prev [simp]: "a \<notin> Elem ` set xs \<Longrightarrow> pseg (set_prev a v m) c xs = pseg m c xs"
  by (induction xs arbitrary: c) auto

lemma pseg_next [simp]: "pseg (set_next a v m) c xs = pseg m c xs"
  by (induction xs arbitrary: c) auto

lemma cnseg_next [simp]:
  "c \<noteq> a \<Longrightarrow> a \<notin> Elem ` set xs \<Longrightarrow> cnseg (set_cnext a v m) c xs = cnseg m c xs"
  by (induction xs arbitrary: c) auto

lemma cnseg_prev [simp]: "cnseg (set_cprev a v m) c xs = cnseg m c xs"
  by (induction xs arbitrary: c) auto

lemma cpseg_prev [simp]: "a \<notin> Elem ` set xs \<Longrightarrow> cpseg (set_cprev a v m) c xs = cpseg m c xs"
  by (induction xs arbitrary: c) auto

lemma cpseg_next [simp]: "cpseg (set_cnext a v m) c xs = cpseg m c xs"
  by (induction xs arbitrary: c) auto

lemma nseg_last [simp]:
  assumes "distinct xs" "c \<notin> Elem ` set xs"
  shows "nseg (set_next (lastc c xs) v m) c xs = nseg m c xs"
  using assms by (cases xs rule: rev_cases) auto

lemma cnseg_last [simp]:
  assumes "distinct xs" "c \<notin> Elem ` set xs"
  shows "cnseg (set_cnext (lastc c xs) v m) c xs = cnseg m c xs"
  using assms by (cases xs rule: rev_cases) auto

text \<open>The cells of a list, and when two memories agree on a cell.\<close>

definition cells :: "'h \<Rightarrow> 'e list \<Rightarrow> ('h, 'e) qcell set" where
  "cells h xs = insert (Head h) (Elem ` set xs)"

definition q_same :: "('h, 'e) qcell \<Rightarrow> ('h, 'e) qmem \<Rightarrow> ('h, 'e) qmem \<Rightarrow> bool" where
  "q_same c m k \<longleftrightarrow> q_next k c = q_next m c \<and> q_prev k c = q_prev m c"

definition cq_same :: "('h, 'e) qcell \<Rightarrow> ('h, 'e) cqmem \<Rightarrow> ('h, 'e) cqmem \<Rightarrow> bool" where
  "cq_same c m k \<longleftrightarrow> cq_next k c = cq_next m c \<and> cq_prev k c = cq_prev m c"

section \<open>Representation\<close>

definition slist :: "('h, 'e) qmem \<Rightarrow> 'h \<Rightarrow> 'e list \<Rightarrow> bool" where
  "slist m h xs \<longleftrightarrow> distinct xs \<and> nseg m (Head h) xs \<and> q_next m (lastc (Head h) xs) = None"

definition dlist :: "('h, 'e) qmem \<Rightarrow> 'h \<Rightarrow> 'e list \<Rightarrow> bool" where
  "dlist m h xs \<longleftrightarrow> slist m h xs \<and> pseg m (Head h) xs"

definition simpleq :: "('h, 'e) qmem \<Rightarrow> 'h \<Rightarrow> 'e list \<Rightarrow> bool" where
  "simpleq m h xs \<longleftrightarrow> slist m h xs \<and> q_prev m (Head h) = lastc (Head h) xs"

definition tailq :: "('h, 'e) qmem \<Rightarrow> 'h \<Rightarrow> 'e list \<Rightarrow> bool" where
  "tailq m h xs \<longleftrightarrow> dlist m h xs \<and> q_prev m (Head h) = lastc (Head h) xs"

definition circleq :: "('h, 'e) cqmem \<Rightarrow> 'h \<Rightarrow> 'e list \<Rightarrow> bool" where
  "circleq m h xs \<longleftrightarrow>
     distinct xs \<and> cnseg m (Head h) xs \<and> cpseg m (Head h) xs \<and>
     cq_next m (lastc (Head h) xs) = Head h \<and> cq_prev m (Head h) = lastc (Head h) xs"

lemmas rep_defs = slist_def dlist_def simpleq_def tailq_def circleq_def

lemma nseg_cong:
  "\<forall>d. d = c \<or> d \<in> Elem ` set xs \<longrightarrow> q_next k d = q_next m d \<Longrightarrow> nseg k c xs = nseg m c xs"
  by (induction xs arbitrary: c) auto

lemma pseg_cong:
  "\<forall>d \<in> Elem ` set xs. q_prev k d = q_prev m d \<Longrightarrow> pseg k c xs = pseg m c xs"
  by (induction xs arbitrary: c) auto

lemma cnseg_cong:
  "\<forall>d. d = c \<or> d \<in> Elem ` set xs \<longrightarrow> cq_next k d = cq_next m d \<Longrightarrow> cnseg k c xs = cnseg m c xs"
  by (induction xs arbitrary: c) auto

lemma cpseg_cong:
  "\<forall>d \<in> Elem ` set xs. cq_prev k d = cq_prev m d \<Longrightarrow> cpseg k c xs = cpseg m c xs"
  by (induction xs arbitrary: c) auto

lemma lastc_cells: "lastc (Head h) xs \<in> cells h xs"
  using lastc_mem [of "Head h" xs] by (auto simp: cells_def)

lemma slist_frame:
  assumes "slist m h xs" "\<forall>c \<in> cells h xs. q_same c m k"
  shows "slist k h xs"
  using assms lastc_cells [of h xs] nseg_cong [of "Head h" xs k m]
  by (auto simp: slist_def q_same_def cells_def)

lemma dlist_frame:
  assumes "dlist m h xs" "\<forall>c \<in> cells h xs. q_same c m k"
  shows "dlist k h xs"
  using assms slist_frame [of m h xs k] pseg_cong [of xs k m "Head h"]
  by (auto simp: dlist_def q_same_def cells_def)

lemma simpleq_frame:
  assumes "simpleq m h xs" "\<forall>c \<in> cells h xs. q_same c m k"
  shows "simpleq k h xs"
  using assms slist_frame [of m h xs k] by (auto simp: simpleq_def q_same_def cells_def)

lemma tailq_frame:
  assumes "tailq m h xs" "\<forall>c \<in> cells h xs. q_same c m k"
  shows "tailq k h xs"
  using assms dlist_frame [of m h xs k] by (auto simp: tailq_def q_same_def cells_def)

lemma circleq_frame:
  assumes "circleq m h xs" "\<forall>c \<in> cells h xs. cq_same c m k"
  shows "circleq k h xs"
  using assms lastc_cells [of h xs] cnseg_cong [of "Head h" xs k m] cpseg_cong [of xs k m "Head h"]
  by (auto simp: circleq_def cq_same_def cells_def)

text \<open>An operation takes the list of a head from \<open>xs\<close> to \<open>ys\<close> and leaves every other cell alone.\<close>

definition moves ::
  "('m \<Rightarrow> 'h \<Rightarrow> 'e list \<Rightarrow> bool) \<Rightarrow> (('h, 'e) qcell \<Rightarrow> 'm \<Rightarrow> 'm \<Rightarrow> bool) \<Rightarrow> 'm \<Rightarrow> 'h \<Rightarrow> 'e list \<Rightarrow> 'm \<Rightarrow>
    'e list \<Rightarrow> bool" where
  "moves R same m h xs k ys \<longleftrightarrow> R k h ys \<and> (\<forall>c. c \<notin> cells h (xs @ ys) \<longrightarrow> same c m k)"

text \<open>The lists of several heads in one memory: no element is linked twice.\<close>

definition lists_of ::
  "('m \<Rightarrow> 'h \<Rightarrow> 'e list \<Rightarrow> bool) \<Rightarrow> ('h \<rightharpoonup> 'e list) \<Rightarrow> 'm \<Rightarrow> bool" where
  "lists_of R Q m \<longleftrightarrow>
     (\<forall>h xs. Q h = Some xs \<longrightarrow> R m h xs) \<and>
     (\<forall>h k xs ys. Q h = Some xs \<longrightarrow> Q k = Some ys \<longrightarrow> h \<noteq> k \<longrightarrow> set xs \<inter> set ys = {})"

definition linked :: "('h \<rightharpoonup> 'e list) \<Rightarrow> 'e set" where
  "linked Q = \<Union> (set ` ran Q)"

lemma linked_iff: "e \<in> linked Q \<longleftrightarrow> (\<exists>h xs. Q h = Some xs \<and> e \<in> set xs)"
  by (auto simp: linked_def ran_def)


section \<open>The laws of each kind of list\<close>

lemmas slist_ops =
  SLIST_INIT_def SLIST_INSERT_AFTER_def SLIST_INSERT_HEAD_def SLIST_REMOVE_HEAD_def
  SLIST_FIRST_def SLIST_NEXT_def

lemmas list_ops =
  LIST_INIT_def LIST_INSERT_AFTER_def LIST_INSERT_BEFORE_def LIST_INSERT_HEAD_def
  LIST_REMOVE_def LIST_REPLACE_def LIST_FIRST_def LIST_NEXT_def

lemmas simpleq_ops =
  SIMPLEQ_INIT_def SIMPLEQ_INSERT_HEAD_def SIMPLEQ_INSERT_TAIL_def SIMPLEQ_INSERT_AFTER_def
  SIMPLEQ_REMOVE_HEAD_def SIMPLEQ_FIRST_def SIMPLEQ_NEXT_def

lemmas tailq_ops =
  TAILQ_INIT_def TAILQ_INSERT_HEAD_def TAILQ_INSERT_TAIL_def TAILQ_INSERT_AFTER_def
  TAILQ_INSERT_BEFORE_def TAILQ_REMOVE_def TAILQ_REPLACE_def TAILQ_FIRST_def TAILQ_NEXT_def
  TAILQ_LAST_def TAILQ_PREV_def

lemmas circleq_ops =
  CIRCLEQ_INIT_def CIRCLEQ_INSERT_AFTER_def CIRCLEQ_INSERT_BEFORE_def CIRCLEQ_INSERT_HEAD_def
  CIRCLEQ_INSERT_TAIL_def CIRCLEQ_REMOVE_def CIRCLEQ_FIRST_def CIRCLEQ_LAST_def
  CIRCLEQ_NEXT_def CIRCLEQ_PREV_def CIRCLEQ_END_def circleq_var_def

lemmas moves_defs = moves_def cells_def q_same_def cq_same_def Let_def

subsection \<open>Singly-linked lists\<close>

lemma slist_init: "moves slist q_same m h [] (SLIST_INIT h m) []"
  by (auto simp: moves_defs rep_defs slist_ops)

lemma slist_first: "slist m h xs \<Longrightarrow> SLIST_FIRST h m = (case xs of [] \<Rightarrow> None | x # _ \<Rightarrow> Some x)"
  by (auto simp: rep_defs slist_ops split: list.splits)

lemma slist_nxt: "slist m h (xs @ e # ys) \<Longrightarrow> SLIST_NEXT e m = (case ys of [] \<Rightarrow> None | y # _ \<Rightarrow> Some y)"
  by (auto simp: rep_defs slist_ops split: list.splits)

lemma slist_insert_head:
  assumes "slist m h xs" "e \<notin> set xs"
  shows "moves slist q_same m h xs (SLIST_INSERT_HEAD h e m) (e # xs)"
  using assms by (cases xs) (auto simp: moves_defs rep_defs slist_ops)

lemma slist_insert_after:
  assumes "slist m h (xs @ l # ys)" "e \<notin> set (xs @ l # ys)"
  shows "moves slist q_same m h (xs @ l # ys) (SLIST_INSERT_AFTER l e m) (xs @ l # e # ys)"
  using assms by (cases ys) (auto simp: moves_defs rep_defs slist_ops)

lemma slist_remove_head:
  assumes "slist m h (x # xs)"
  shows "\<exists>k. SLIST_REMOVE_HEAD h m = Some k \<and> moves slist q_same m h (x # xs) k xs"
  using assms by (cases xs) (auto simp: moves_defs rep_defs slist_ops)

subsection \<open>Simple queues\<close>

lemma simpleq_init: "moves simpleq q_same m h [] (SIMPLEQ_INIT h m) []"
  by (auto simp: moves_defs rep_defs simpleq_ops)

lemma simpleq_first: "simpleq m h xs \<Longrightarrow> SIMPLEQ_FIRST h m = (case xs of [] \<Rightarrow> None | x # _ \<Rightarrow> Some x)"
  by (auto simp: rep_defs simpleq_ops split: list.splits)

lemma simpleq_nxt:
  "simpleq m h (xs @ e # ys) \<Longrightarrow> SIMPLEQ_NEXT e m = (case ys of [] \<Rightarrow> None | y # _ \<Rightarrow> Some y)"
  by (auto simp: rep_defs simpleq_ops split: list.splits)

lemma simpleq_insert_head:
  assumes "simpleq m h xs" "e \<notin> set xs"
  shows "moves simpleq q_same m h xs (SIMPLEQ_INSERT_HEAD h e m) (e # xs)"
  using assms by (cases xs) (auto simp: moves_defs rep_defs simpleq_ops)

lemma simpleq_insert_after:
  assumes "simpleq m h (xs @ l # ys)" "e \<notin> set (xs @ l # ys)"
  shows "moves simpleq q_same m h (xs @ l # ys) (SIMPLEQ_INSERT_AFTER h l e m) (xs @ l # e # ys)"
  using assms by (cases ys) (auto simp: moves_defs rep_defs simpleq_ops)

lemma simpleq_insert_tail:
  assumes "simpleq m h xs" "e \<notin> set xs"
  shows "moves simpleq q_same m h xs (SIMPLEQ_INSERT_TAIL h e m) (xs @ [e])"
  using assms lastc_cells [of h xs]
  by (cases xs rule: rev_cases) (auto simp: moves_defs rep_defs simpleq_ops)

lemma simpleq_remove_head:
  assumes "simpleq m h (x # xs)"
  shows "moves simpleq q_same m h (x # xs) (SIMPLEQ_REMOVE_HEAD h x m) xs"
  using assms by (cases xs) (auto simp: moves_defs rep_defs simpleq_ops)

subsection \<open>Doubly-linked lists\<close>

lemma dlist_init: "moves dlist q_same m h [] (LIST_INIT h m) []"
  by (auto simp: moves_defs rep_defs list_ops)

lemma dlist_first:
  "dlist m h xs \<Longrightarrow> LIST_FIRST h m = (case xs of [] \<Rightarrow> None | x # _ \<Rightarrow> Some x)"
  by (auto simp: rep_defs list_ops split: list.splits)

lemma dlist_nxt:
  "dlist m h (xs @ e # ys) \<Longrightarrow> LIST_NEXT e m = (case ys of [] \<Rightarrow> None | y # _ \<Rightarrow> Some y)"
  by (auto simp: rep_defs list_ops split: list.splits)

lemma dlist_insert_head:
  assumes "dlist m h xs" "e \<notin> set xs"
  shows "moves dlist q_same m h xs (LIST_INSERT_HEAD h e m) (e # xs)"
  using assms by (cases xs) (auto simp: moves_defs rep_defs list_ops)

lemma dlist_insert_after:
  assumes "dlist m h (xs @ l # ys)" "e \<notin> set (xs @ l # ys)"
  shows "moves dlist q_same m h (xs @ l # ys) (LIST_INSERT_AFTER l e m) (xs @ l # e # ys)"
  using assms by (cases ys) (auto simp: moves_defs rep_defs list_ops)

lemma dlist_insert_before:
  assumes "dlist m h (xs @ l # ys)" "e \<notin> set (xs @ l # ys)"
  shows "moves dlist q_same m h (xs @ l # ys) (LIST_INSERT_BEFORE l e m) (xs @ e # l # ys)"
  using assms by (cases xs rule: rev_cases; cases ys) (auto simp: moves_defs rep_defs list_ops)

lemma dlist_remove:
  assumes "dlist m h (xs @ e # ys)"
  shows "moves dlist q_same m h (xs @ e # ys) (LIST_REMOVE e m) (xs @ ys)"
  using assms by (cases xs rule: rev_cases; cases ys) (auto simp: moves_defs rep_defs list_ops)

lemma dlist_replace:
  assumes "dlist m h (xs @ e # ys)" "f \<notin> set (xs @ e # ys)"
  shows "moves dlist q_same m h (xs @ e # ys) (LIST_REPLACE e f m) (xs @ f # ys)"
  using assms by (cases xs rule: rev_cases; cases ys) (auto simp: moves_defs rep_defs list_ops)

subsection \<open>Tail queues\<close>

lemma tailq_init: "moves tailq q_same m h [] (TAILQ_INIT h m) []"
  by (auto simp: moves_defs rep_defs tailq_ops)

lemma tailq_first:
  "tailq m h xs \<Longrightarrow> TAILQ_FIRST h m = (case xs of [] \<Rightarrow> None | x # _ \<Rightarrow> Some x)"
  by (auto simp: rep_defs tailq_ops split: list.splits)

lemma tailq_nxt:
  "tailq m h (xs @ e # ys) \<Longrightarrow> TAILQ_NEXT e m = (case ys of [] \<Rightarrow> None | y # _ \<Rightarrow> Some y)"
  by (auto simp: rep_defs tailq_ops split: list.splits)

lemma tailq_insert_head:
  assumes "tailq m h xs" "e \<notin> set xs"
  shows "moves tailq q_same m h xs (TAILQ_INSERT_HEAD h e m) (e # xs)"
  using assms by (cases xs) (auto simp: moves_defs rep_defs tailq_ops)

lemma tailq_insert_after:
  assumes "tailq m h (xs @ l # ys)" "e \<notin> set (xs @ l # ys)"
  shows "moves tailq q_same m h (xs @ l # ys) (TAILQ_INSERT_AFTER h l e m) (xs @ l # e # ys)"
  using assms by (cases ys) (auto simp: moves_defs rep_defs tailq_ops)

lemma tailq_insert_before:
  assumes "tailq m h (xs @ l # ys)" "e \<notin> set (xs @ l # ys)"
  shows "moves tailq q_same m h (xs @ l # ys) (TAILQ_INSERT_BEFORE l e m) (xs @ e # l # ys)"
  using assms by (cases xs rule: rev_cases; cases ys) (auto simp: moves_defs rep_defs tailq_ops)

lemma tailq_remove:
  assumes "tailq m h (xs @ e # ys)"
  shows "moves tailq q_same m h (xs @ e # ys) (TAILQ_REMOVE h e m) (xs @ ys)"
  using assms by (cases xs rule: rev_cases; cases ys) (auto simp: moves_defs rep_defs tailq_ops)

lemma tailq_replace:
  assumes "tailq m h (xs @ e # ys)" "f \<notin> set (xs @ e # ys)"
  shows "moves tailq q_same m h (xs @ e # ys) (TAILQ_REPLACE h e f m) (xs @ f # ys)"
  using assms by (cases xs rule: rev_cases; cases ys) (auto simp: moves_defs rep_defs tailq_ops)

lemma tailq_insert_tail:
  assumes "tailq m h xs" "e \<notin> set xs"
  shows "moves tailq q_same m h xs (TAILQ_INSERT_TAIL h e m) (xs @ [e])"
  using assms by (cases xs rule: rev_cases) (auto simp: moves_defs rep_defs tailq_ops)

lemma tailq_last:
  assumes "tailq m h xs"
  shows "TAILQ_LAST h m = (case rev xs of [] \<Rightarrow> None | x # _ \<Rightarrow> Some x)"
  using assms by (cases xs rule: rev_cases) (auto simp: rep_defs tailq_ops)

lemma tailq_prv:
  assumes "tailq m h (xs @ e # ys)"
  shows "TAILQ_PREV e m = (case rev xs of [] \<Rightarrow> None | x # _ \<Rightarrow> Some x)"
  using assms by (cases xs rule: rev_cases) (auto simp: rep_defs tailq_ops)

subsection \<open>Circular queues\<close>

lemma circleq_init: "moves circleq cq_same m h [] (CIRCLEQ_INIT h m) []"
  by (auto simp: moves_defs rep_defs circleq_ops)

lemma circleq_first:
  "circleq m h xs \<Longrightarrow> circleq_var h (CIRCLEQ_FIRST h m) = (case xs of [] \<Rightarrow> None | x # _ \<Rightarrow> Some x)"
  by (auto simp: rep_defs circleq_ops split: list.splits)

lemma circleq_nxt:
  "circleq m h (xs @ e # ys) \<Longrightarrow> circleq_var h (CIRCLEQ_NEXT e m) = (case ys of [] \<Rightarrow> None | y # _ \<Rightarrow> Some y)"
  by (auto simp: rep_defs circleq_ops split: list.splits)

lemma circleq_insert_head:
  assumes "circleq m h xs" "e \<notin> set xs"
  shows "moves circleq cq_same m h xs (CIRCLEQ_INSERT_HEAD h e m) (e # xs)"
  using assms by (cases xs) (auto simp: moves_defs rep_defs circleq_ops)

lemma circleq_insert_after:
  assumes "circleq m h (xs @ l # ys)" "e \<notin> set (xs @ l # ys)"
  shows "moves circleq cq_same m h (xs @ l # ys) (CIRCLEQ_INSERT_AFTER h l e m) (xs @ l # e # ys)"
  using assms by (cases ys) (auto simp: moves_defs rep_defs circleq_ops)

lemma circleq_insert_before:
  assumes "circleq m h (xs @ l # ys)" "e \<notin> set (xs @ l # ys)"
  shows "moves circleq cq_same m h (xs @ l # ys) (CIRCLEQ_INSERT_BEFORE h l e m) (xs @ e # l # ys)"
  using assms by (cases xs rule: rev_cases; cases ys) (auto simp: moves_defs rep_defs circleq_ops)

lemma circleq_remove:
  assumes "circleq m h (xs @ e # ys)"
  shows "moves circleq cq_same m h (xs @ e # ys) (CIRCLEQ_REMOVE h e m) (xs @ ys)"
  using assms by (cases xs rule: rev_cases; cases ys) (auto simp: moves_defs rep_defs circleq_ops)

lemma circleq_nonempty:
  assumes "cnseg m (Head h) xs" "xs \<noteq> []"
  shows "cq_next m (Head h) \<noteq> Head h"
  using assms by (cases xs) auto

lemma circleq_insert_tail:
  assumes "circleq m h xs" "e \<notin> set xs"
  shows "moves circleq cq_same m h xs (CIRCLEQ_INSERT_TAIL h e m) (xs @ [e])"
  using assms circleq_nonempty [of m h xs]
  by (cases xs rule: rev_cases) (auto simp: moves_defs rep_defs circleq_ops)

lemma circleq_last:
  assumes "circleq m h xs"
  shows "circleq_var h (CIRCLEQ_LAST h m) = (case rev xs of [] \<Rightarrow> None | x # _ \<Rightarrow> Some x)"
  using assms by (cases xs rule: rev_cases) (auto simp: rep_defs circleq_ops)

lemma circleq_prv:
  assumes "circleq m h (xs @ e # ys)"
  shows "circleq_var h (CIRCLEQ_PREV e m) = (case rev xs of [] \<Rightarrow> None | x # _ \<Rightarrow> Some x)"
  using assms by (cases xs rule: rev_cases) (auto simp: rep_defs circleq_ops)

end
