(* ===== verification/LuQueueSpec.thy ===== *)
theory LuQueueSpec
  imports LuQueueProps
begin

text \<open>
  The contract of the queue macros as a hierarchy of locales, what follows from it for all the
  heads of one memory, for the loops over a list and for scripts of operations, and the
  interpretation of the contract on the five kinds of list of \<open>queue.h\<close>.
\<close>

section \<open>The abstract lists\<close>

fun list_after :: "'e \<Rightarrow> 'e \<Rightarrow> 'e list \<Rightarrow> 'e list" where
  "list_after l e [] = []"
| "list_after l e (x # xs) = (if x = l then x # e # xs else x # list_after l e xs)"

fun list_before :: "'e \<Rightarrow> 'e \<Rightarrow> 'e list \<Rightarrow> 'e list" where
  "list_before l e [] = []"
| "list_before l e (x # xs) = (if x = l then e # x # xs else x # list_before l e xs)"

lemma list_after_split: "l \<notin> set xs \<Longrightarrow> list_after l e (xs @ l # ys) = xs @ l # e # ys"
  by (induction xs) auto

lemma list_before_split: "l \<notin> set xs \<Longrightarrow> list_before l e (xs @ l # ys) = xs @ e # l # ys"
  by (induction xs) auto

lemma remove1_split: "e \<notin> set xs \<Longrightarrow> remove1 e (xs @ e # ys) = xs @ ys"
  by (induction xs) auto

text \<open>The operations of a script, what they do to the lists of the heads (\<open>None\<close>: the operation
  is not allowed there), and the execution of one of them by a set of macros.\<close>

datatype ('h, 'e) qop =
    Q_init 'h
  | Q_head 'h 'e
  | Q_tail 'h 'e
  | Q_after 'h 'e 'e
  | Q_before 'h 'e 'e
  | Q_remove 'h 'e

fun q_spec :: "('h, 'e) qop \<Rightarrow> ('h \<rightharpoonup> 'e list) \<Rightarrow> ('h \<rightharpoonup> 'e list) option" where
  "q_spec (Q_init h) Q = Some (Q(h \<mapsto> []))"
| "q_spec (Q_head h e) Q =
     (case Q h of None \<Rightarrow> None
      | Some xs \<Rightarrow> if e \<in> linked Q then None else Some (Q(h \<mapsto> e # xs)))"
| "q_spec (Q_tail h e) Q =
     (case Q h of None \<Rightarrow> None
      | Some xs \<Rightarrow> if e \<in> linked Q then None else Some (Q(h \<mapsto> xs @ [e])))"
| "q_spec (Q_after h l e) Q =
     (case Q h of None \<Rightarrow> None
      | Some xs \<Rightarrow> if e \<in> linked Q \<or> l \<notin> set xs then None else Some (Q(h \<mapsto> list_after l e xs)))"
| "q_spec (Q_before h l e) Q =
     (case Q h of None \<Rightarrow> None
      | Some xs \<Rightarrow> if e \<in> linked Q \<or> l \<notin> set xs then None else Some (Q(h \<mapsto> list_before l e xs)))"
| "q_spec (Q_remove h e) Q =
     (case Q h of None \<Rightarrow> None
      | Some xs \<Rightarrow> if e \<notin> set xs then None else Some (Q(h \<mapsto> remove1 e xs)))"

fun q_script :: "('h, 'e) qop list \<Rightarrow> ('h \<rightharpoonup> 'e list) \<Rightarrow> ('h \<rightharpoonup> 'e list) option" where
  "q_script [] Q = Some Q"
| "q_script (p # ps) Q = (case q_spec p Q of None \<Rightarrow> None | Some Q1 \<Rightarrow> q_script ps Q1)"

fun q_exec ::
  "('h \<Rightarrow> 'm \<Rightarrow> 'm) \<Rightarrow> ('h \<Rightarrow> 'e \<Rightarrow> 'm \<Rightarrow> 'm) \<Rightarrow> ('h \<Rightarrow> 'e \<Rightarrow> 'm \<Rightarrow> 'm) \<Rightarrow>
    ('h \<Rightarrow> 'e \<Rightarrow> 'e \<Rightarrow> 'm \<Rightarrow> 'm) \<Rightarrow> ('h \<Rightarrow> 'e \<Rightarrow> 'e \<Rightarrow> 'm \<Rightarrow> 'm) \<Rightarrow> ('h \<Rightarrow> 'e \<Rightarrow> 'm \<Rightarrow> 'm) \<Rightarrow>
    ('h, 'e) qop \<Rightarrow> 'm \<Rightarrow> 'm" where
  "q_exec ini hea tai af be rm (Q_init h) = ini h"
| "q_exec ini hea tai af be rm (Q_head h e) = hea h e"
| "q_exec ini hea tai af be rm (Q_tail h e) = tai h e"
| "q_exec ini hea tai af be rm (Q_after h l e) = af h l e"
| "q_exec ini hea tai af be rm (Q_before h l e) = be h l e"
| "q_exec ini hea tai af be rm (Q_remove h e) = rm h e"

text \<open>The loop \<open>while ((e = FIRST(head))) REMOVE(head, e)\<close> that empties a list: the elements in the
  order they leave, and the memory.\<close>

fun q_drain :: "nat \<Rightarrow> ('m \<Rightarrow> 'e option) \<Rightarrow> ('e \<Rightarrow> 'm \<Rightarrow> 'm) \<Rightarrow> 'm \<Rightarrow> ('e list \<times> 'm) option" where
  "q_drain 0 first rm m = None"
| "q_drain (Suc n) first rm m =
     (case first m of
        None \<Rightarrow> Some ([], m)
      | Some e \<Rightarrow> map_option (\<lambda>(es, k). (e # es, k)) (q_drain n first rm (rm e m)))"

lemma not_linked: "e \<notin> linked Q \<Longrightarrow> Q h = Some xs \<Longrightarrow> e \<notin> set xs"
  by (auto simp: linked_iff)

section \<open>The interfaces\<close>

locale lq_seq =
  fixes R :: "'m \<Rightarrow> 'h \<Rightarrow> 'e list \<Rightarrow> bool"
    and same :: "('h, 'e) qcell \<Rightarrow> 'm \<Rightarrow> 'm \<Rightarrow> bool"
    and init :: "'h \<Rightarrow> 'm \<Rightarrow> 'm"
    and first :: "'h \<Rightarrow> 'm \<Rightarrow> 'e option"
    and nxt :: "'h \<Rightarrow> 'e \<Rightarrow> 'm \<Rightarrow> 'e option"
    and ins_head :: "'h \<Rightarrow> 'e \<Rightarrow> 'm \<Rightarrow> 'm"
    and ins_after :: "'h \<Rightarrow> 'e \<Rightarrow> 'e \<Rightarrow> 'm \<Rightarrow> 'm"
  assumes frame: "R m h xs \<Longrightarrow> \<forall>c \<in> cells h xs. same c m k \<Longrightarrow> R k h xs"
    and rep_distinct: "R m h xs \<Longrightarrow> distinct xs"
    and init_law: "moves R same m h [] (init h m) []"
    and first_law: "R m h xs \<Longrightarrow> first h m = (case xs of [] \<Rightarrow> None | x # _ \<Rightarrow> Some x)"
    and nxt_law: "R m h (xs @ e # ys) \<Longrightarrow> nxt h e m = (case ys of [] \<Rightarrow> None | y # _ \<Rightarrow> Some y)"
    and ins_head_law: "R m h xs \<Longrightarrow> e \<notin> set xs \<Longrightarrow> moves R same m h xs (ins_head h e m) (e # xs)"
    and ins_after_law:
      "R m h (xs @ l # ys) \<Longrightarrow> e \<notin> set (xs @ l # ys) \<Longrightarrow>
        moves R same m h (xs @ l # ys) (ins_after h l e m) (xs @ l # e # ys)"
begin

lemma moves_lists:
  assumes Q: "lists_of R Q m" and mv: "moves R same m h xs k ys"
    and h: "Q h = Some xs \<or> xs = []" and ys: "set ys \<subseteq> set xs \<union> (- linked Q)"
  shows "lists_of R (Q(h \<mapsto> ys)) k"
proof -
  have own: "R m g zs" if "Q g = Some zs" for g zs
    using Q that unfolding lists_of_def by blast
  have disj: "set zs \<inter> set us = {}" if "Q g = Some zs" "Q f = Some us" "g \<noteq> f" for g f zs us
    using Q that unfolding lists_of_def by blast
  have xs: "set xs \<inter> set zs = {}" if "Q g = Some zs" "g \<noteq> h" for g zs
    using h disj [OF _ that(1)] that(2) by auto
  have ys': "set ys \<inter> set zs = {}" if "Q g = Some zs" "g \<noteq> h" for g zs
    using xs [OF that] ys that(1) by (auto simp: linked_iff)
  have "R k g zs" if g: "Q g = Some zs" "g \<noteq> h" for g zs
  proof (rule frame [OF own [OF g(1)]])
    show "\<forall>c \<in> cells g zs. same c m k"
      using mv xs [OF g] ys' [OF g] g(2) by (auto simp: moves_def cells_def)
  qed
  moreover have "R k h ys" using mv by (simp add: moves_def)
  ultimately show ?thesis
    using disj ys' by (auto simp: lists_of_def) blast+
qed

lemma init_lists: "lists_of R Q m \<Longrightarrow> lists_of R (Q(h \<mapsto> [])) (init h m)"
  by (rule moves_lists [OF _ init_law]) auto

lemma ins_head_lists:
  assumes "lists_of R Q m" "Q h = Some xs" "e \<notin> linked Q"
  shows "lists_of R (Q(h \<mapsto> e # xs)) (ins_head h e m)"
proof (rule moves_lists [OF assms(1) ins_head_law])
  show "R m h xs" using assms by (simp add: lists_of_def)
qed (use assms in \<open>auto simp: linked_iff\<close>)

lemma ins_after_lists:
  assumes "lists_of R Q m" "Q h = Some xs" "e \<notin> linked Q" "l \<in> set xs"
  shows "lists_of R (Q(h \<mapsto> list_after l e xs)) (ins_after h l e m)"
proof -
  have r: "R m h xs" using assms by (simp add: lists_of_def)
  obtain us vs where x: "xs = us @ l # vs" using assms(4) by (auto simp: in_set_conv_decomp)
  have l: "l \<notin> set us" using rep_distinct [OF r] x by simp
  have e: "e \<notin> set (us @ l # vs)" using not_linked [OF assms(3,2)] x by simp
  show ?thesis unfolding x list_after_split [OF l]
  proof (rule moves_lists [OF assms(1) ins_after_law])
    show "R m h (us @ l # vs)" using r x by simp
  qed (use assms(2,3) x e in auto)
qed

lemma foreach_suffix:
  assumes "R (fst s) h (us @ xs)" "length xs < n"
    and "\<And>e s. e \<in> set xs \<Longrightarrow> R (fst s) h (us @ xs) \<Longrightarrow> R (fst (body e s)) h (us @ xs)"
  shows "foreach n (\<lambda>s e. nxt h e (fst s)) body (case xs of [] \<Rightarrow> None | x # _ \<Rightarrow> Some x) s =
    Some (fold body xs s)"
  using assms
proof (induction xs arbitrary: us s n)
  case Nil
  then show ?case by (cases n) auto
next
  case (Cons x xs)
  from Cons.prems(2) obtain k where n: "n = Suc k" by (cases n) auto
  have b: "R (fst (body x s)) h (us @ x # xs)" using Cons.prems by simp
  have "foreach k (\<lambda>s e. nxt h e (fst s)) body (case xs of [] \<Rightarrow> None | y # _ \<Rightarrow> Some y) (body x s) =
    Some (fold body xs (body x s))"
    by (rule Cons.IH [of "body x s" "us @ [x]"]) (use b Cons.prems n in auto)
  then show ?case by (simp add: n nxt_law [OF b])
qed

text \<open>A loop whose body leaves the list alone visits its elements in order and ends.\<close>

lemma foreach_visits:
  assumes "R (fst s) h xs" "length xs < n"
    and "\<And>e s. e \<in> set xs \<Longrightarrow> R (fst s) h xs \<Longrightarrow> R (fst (body e s)) h xs"
  shows "foreach n (\<lambda>s e. nxt h e (fst s)) body (first h (fst s)) s = Some (fold body xs s)"
  using foreach_suffix [of s h "[]" xs n body] assms by (simp add: first_law)

end

locale lq_pop = lq_seq +
  fixes pop :: "'h \<Rightarrow> 'm \<Rightarrow> 'm option"
  assumes pop_law: "R m h (x # xs) \<Longrightarrow> \<exists>k. pop h m = Some k \<and> moves R same m h (x # xs) k xs"
begin

lemma pop_lists:
  assumes "lists_of R Q m" "Q h = Some (x # xs)"
  shows "\<exists>k. pop h m = Some k \<and> lists_of R (Q(h \<mapsto> xs)) k"
proof -
  have "R m h (x # xs)" using assms by (simp add: lists_of_def)
  then obtain k where k: "pop h m = Some k" "moves R same m h (x # xs) k xs"
    using pop_law by blast
  have "lists_of R (Q(h \<mapsto> xs)) k" by (rule moves_lists [OF assms(1) k(2)]) (use assms in auto)
  then show ?thesis using k(1) by blast
qed

end

locale lq_tail = lq_seq +
  fixes ins_tail :: "'h \<Rightarrow> 'e \<Rightarrow> 'm \<Rightarrow> 'm"
  assumes ins_tail_law: "R m h xs \<Longrightarrow> e \<notin> set xs \<Longrightarrow> moves R same m h xs (ins_tail h e m) (xs @ [e])"
begin

lemma ins_tail_lists:
  assumes "lists_of R Q m" "Q h = Some xs" "e \<notin> linked Q"
  shows "lists_of R (Q(h \<mapsto> xs @ [e])) (ins_tail h e m)"
proof (rule moves_lists [OF assms(1) ins_tail_law])
  show "R m h xs" using assms by (simp add: lists_of_def)
qed (use assms in \<open>auto simp: linked_iff\<close>)

end

locale lq_list = lq_seq +
  fixes ins_before :: "'h \<Rightarrow> 'e \<Rightarrow> 'e \<Rightarrow> 'm \<Rightarrow> 'm"
    and remove :: "'h \<Rightarrow> 'e \<Rightarrow> 'm \<Rightarrow> 'm"
  assumes ins_before_law:
      "R m h (xs @ l # ys) \<Longrightarrow> e \<notin> set (xs @ l # ys) \<Longrightarrow>
        moves R same m h (xs @ l # ys) (ins_before h l e m) (xs @ e # l # ys)"
    and remove_law: "R m h (xs @ e # ys) \<Longrightarrow> moves R same m h (xs @ e # ys) (remove h e m) (xs @ ys)"
begin

lemma ins_before_lists:
  assumes "lists_of R Q m" "Q h = Some xs" "e \<notin> linked Q" "l \<in> set xs"
  shows "lists_of R (Q(h \<mapsto> list_before l e xs)) (ins_before h l e m)"
proof -
  have r: "R m h xs" using assms by (simp add: lists_of_def)
  obtain us vs where x: "xs = us @ l # vs" using assms(4) by (auto simp: in_set_conv_decomp)
  have l: "l \<notin> set us" using rep_distinct [OF r] x by simp
  have e: "e \<notin> set (us @ l # vs)" using not_linked [OF assms(3,2)] x by simp
  show ?thesis unfolding x list_before_split [OF l]
  proof (rule moves_lists [OF assms(1) ins_before_law])
    show "R m h (us @ l # vs)" using r x by simp
  qed (use assms(2,3) x e in auto)
qed

lemma remove_lists:
  assumes "lists_of R Q m" "Q h = Some xs" "e \<in> set xs"
  shows "lists_of R (Q(h \<mapsto> remove1 e xs)) (remove h e m)"
proof -
  have r: "R m h xs" using assms by (simp add: lists_of_def)
  obtain us vs where x: "xs = us @ e # vs" using assms(3) by (auto simp: in_set_conv_decomp)
  have e: "e \<notin> set us" using rep_distinct [OF r] x by simp
  show ?thesis unfolding x remove1_split [OF e]
    by (rule moves_lists [OF assms(1) remove_law]) (use r x assms(2) in auto)
qed

text \<open>Taking the first element away until there is none ends, in the order of the list.\<close>

lemma drain_empties:
  assumes "R m h xs" "length xs < n"
  shows "\<exists>k. q_drain n (first h) (remove h) m = Some (xs, k) \<and> R k h []"
  using assms
proof (induction xs arbitrary: m n)
  case Nil
  then show ?case by (cases n) (auto simp: first_law)
next
  case (Cons x xs)
  from Cons.prems(2) obtain j where n: "n = Suc j" by (cases n) auto
  have "R (remove h x m) h xs"
    using remove_law [of m h "[]" x xs] Cons.prems(1) by (simp add: moves_def)
  from Cons.IH [OF this, of j] Cons.prems(2) n show ?case
    by (auto simp: first_law [OF Cons.prems(1)])
qed

end

locale lq_deque =
  lq_tail R same init first nxt ins_head ins_after ins_tail +
  lq_list R same init first nxt ins_head ins_after ins_before remove
  for R :: "'m \<Rightarrow> 'h \<Rightarrow> 'e list \<Rightarrow> bool"
    and same init first nxt ins_head ins_after ins_tail ins_before remove +
  fixes lst :: "'h \<Rightarrow> 'm \<Rightarrow> 'e option"
    and prv :: "'h \<Rightarrow> 'e \<Rightarrow> 'm \<Rightarrow> 'e option"
  assumes last_law: "R m h xs \<Longrightarrow> lst h m = (case rev xs of [] \<Rightarrow> None | x # _ \<Rightarrow> Some x)"
    and prv_law: "R m h (xs @ e # ys) \<Longrightarrow> prv h e m = (case rev xs of [] \<Rightarrow> None | x # _ \<Rightarrow> Some x)"
begin

lemma exec_step:
  assumes "lists_of R Q m" "q_spec p Q = Some Q1"
  shows "lists_of R Q1 (q_exec init ins_head ins_tail ins_after ins_before remove p m)"
  using assms
  by (cases p)
    (auto split: option.splits if_splits simp: init_lists ins_head_lists ins_tail_lists
      ins_after_lists ins_before_lists remove_lists)

text \<open>A script runs as the lists say it should.\<close>

lemma exec_script:
  assumes "lists_of R Q m" "q_script ps Q = Some Q1"
  shows "lists_of R Q1 (fold (q_exec init ins_head ins_tail ins_after ins_before remove) ps m)"
  using assms
  by (induction ps arbitrary: Q m) (auto split: option.splits dest: exec_step)

lemma foreach_rev_suffix:
  assumes "R (fst s) h (rev xs @ us)" "length xs < n"
    and "\<And>e s. e \<in> set xs \<Longrightarrow> R (fst s) h (rev xs @ us) \<Longrightarrow> R (fst (body e s)) h (rev xs @ us)"
  shows "foreach n (\<lambda>s e. prv h e (fst s)) body (case xs of [] \<Rightarrow> None | x # _ \<Rightarrow> Some x) s =
    Some (fold body xs s)"
  using assms
proof (induction xs arbitrary: us s n)
  case Nil
  then show ?case by (cases n) auto
next
  case (Cons x xs)
  from Cons.prems(2) obtain k where n: "n = Suc k" by (cases n) auto
  have b: "R (fst (body x s)) h (rev xs @ x # us)" using Cons.prems by simp
  have "foreach k (\<lambda>s e. prv h e (fst s)) body (case xs of [] \<Rightarrow> None | y # _ \<Rightarrow> Some y) (body x s) =
    Some (fold body xs (body x s))"
    by (rule Cons.IH [of "body x s" "x # us"]) (use b Cons.prems n in auto)
  then show ?case by (simp add: n prv_law [OF b])
qed

lemma foreach_reverse_visits:
  assumes "R (fst s) h xs" "length xs < n"
    and "\<And>e s. e \<in> set xs \<Longrightarrow> R (fst s) h xs \<Longrightarrow> R (fst (body e s)) h xs"
  shows "foreach n (\<lambda>s e. prv h e (fst s)) body (lst h (fst s)) s = Some (fold body (rev xs) s)"
  using foreach_rev_suffix [of s h "rev xs" "[]" n body] assms by (simp add: last_law)

end


section \<open>The lists of the macros\<close>

definition slist_pop :: "'h \<Rightarrow> ('h, 'e) qmem \<Rightarrow> ('h, 'e) qmem option" where
  "slist_pop h m = SLIST_REMOVE_HEAD h m"

definition simpleq_pop :: "'h \<Rightarrow> ('h, 'e) qmem \<Rightarrow> ('h, 'e) qmem option" where
  "simpleq_pop h m = map_option (\<lambda>e. SIMPLEQ_REMOVE_HEAD h e m) (SIMPLEQ_FIRST h m)"

lemma rep_distinct_of:
  "slist m h xs \<Longrightarrow> distinct xs" "dlist m h xs \<Longrightarrow> distinct xs" "simpleq m h xs \<Longrightarrow> distinct xs"
  "tailq m h xs \<Longrightarrow> distinct xs" "circleq k h xs \<Longrightarrow> distinct xs"
  by (auto simp: rep_defs)

interpretation sl: lq_pop slist q_same SLIST_INIT SLIST_FIRST "\<lambda>h. SLIST_NEXT" SLIST_INSERT_HEAD
  "\<lambda>h. SLIST_INSERT_AFTER" slist_pop
  by unfold_locales
    (auto simp: slist_pop_def intro: slist_frame slist_init slist_first slist_nxt slist_insert_head
      slist_insert_after slist_remove_head dest: rep_distinct_of)

interpretation sq: lq_pop simpleq q_same SIMPLEQ_INIT SIMPLEQ_FIRST "\<lambda>h. SIMPLEQ_NEXT"
  SIMPLEQ_INSERT_HEAD SIMPLEQ_INSERT_AFTER simpleq_pop
  by unfold_locales
    (auto simp: simpleq_pop_def simpleq_first [of _ _ "_ # _"] intro: simpleq_frame simpleq_init
      simpleq_first simpleq_nxt simpleq_insert_head simpleq_insert_after simpleq_remove_head
      dest: rep_distinct_of)

interpretation sqt: lq_tail simpleq q_same SIMPLEQ_INIT SIMPLEQ_FIRST "\<lambda>h. SIMPLEQ_NEXT"
  SIMPLEQ_INSERT_HEAD SIMPLEQ_INSERT_AFTER SIMPLEQ_INSERT_TAIL
  by unfold_locales (rule simpleq_insert_tail)

interpretation dl: lq_list dlist q_same LIST_INIT LIST_FIRST "\<lambda>h. LIST_NEXT" LIST_INSERT_HEAD
  "\<lambda>h. LIST_INSERT_AFTER" "\<lambda>h. LIST_INSERT_BEFORE" "\<lambda>h. LIST_REMOVE"
  by unfold_locales
    (auto intro: dlist_frame dlist_init dlist_first dlist_nxt dlist_insert_head dlist_insert_after
      dlist_insert_before dlist_remove dest: rep_distinct_of)

interpretation tq: lq_deque tailq q_same TAILQ_INIT TAILQ_FIRST "\<lambda>h. TAILQ_NEXT" TAILQ_INSERT_HEAD
  TAILQ_INSERT_AFTER TAILQ_INSERT_TAIL "\<lambda>h. TAILQ_INSERT_BEFORE" TAILQ_REMOVE TAILQ_LAST "\<lambda>h. TAILQ_PREV"
  by unfold_locales
    (auto intro: tailq_frame tailq_init tailq_first tailq_nxt tailq_insert_head tailq_insert_after
      tailq_insert_tail tailq_insert_before tailq_remove tailq_last tailq_prv dest: rep_distinct_of)

interpretation cq: lq_deque circleq cq_same CIRCLEQ_INIT "\<lambda>h m. circleq_var h (CIRCLEQ_FIRST h m)"
  "\<lambda>h e m. circleq_var h (CIRCLEQ_NEXT e m)" CIRCLEQ_INSERT_HEAD CIRCLEQ_INSERT_AFTER
  CIRCLEQ_INSERT_TAIL CIRCLEQ_INSERT_BEFORE CIRCLEQ_REMOVE
  "\<lambda>h m. circleq_var h (CIRCLEQ_LAST h m)" "\<lambda>h e m. circleq_var h (CIRCLEQ_PREV e m)"
  by unfold_locales
    (auto intro: circleq_frame circleq_init circleq_first circleq_nxt circleq_insert_head
      circleq_insert_after circleq_insert_tail circleq_insert_before circleq_remove circleq_last
      circleq_prv dest: rep_distinct_of)

section \<open>Scripts on tail queues and circular queues\<close>

definition tailq_exec :: "('h, 'e) qop \<Rightarrow> ('h, 'e) qmem \<Rightarrow> ('h, 'e) qmem" where
  "tailq_exec = q_exec TAILQ_INIT TAILQ_INSERT_HEAD TAILQ_INSERT_TAIL TAILQ_INSERT_AFTER
     (\<lambda>h. TAILQ_INSERT_BEFORE) TAILQ_REMOVE"

definition circleq_exec :: "('h, 'e) qop \<Rightarrow> ('h, 'e) cqmem \<Rightarrow> ('h, 'e) cqmem" where
  "circleq_exec = q_exec CIRCLEQ_INIT CIRCLEQ_INSERT_HEAD CIRCLEQ_INSERT_TAIL CIRCLEQ_INSERT_AFTER
     CIRCLEQ_INSERT_BEFORE CIRCLEQ_REMOVE"

lemma empty_lists: "lists_of R Map.empty m"
  by (simp add: lists_of_def)

text \<open>The body that records the elements a loop visits.\<close>

definition record_visit :: "'e \<Rightarrow> 'm \<times> 'e list \<Rightarrow> 'm \<times> 'e list" where
  "record_visit e s = (fst s, snd s @ [e])"

lemma fold_record: "fold record_visit xs s = (fst s, snd s @ xs)"
  by (induction xs arbitrary: s) (auto simp: record_visit_def)

lemma tailq_script_lists:
  assumes "q_script ps Map.empty = Some Q"
  shows "lists_of tailq Q (fold tailq_exec ps m)"
  unfolding tailq_exec_def by (rule tq.exec_script [OF empty_lists assms])

lemma circleq_script_lists:
  assumes "q_script ps Map.empty = Some Q"
  shows "lists_of circleq Q (fold circleq_exec ps m)"
  unfolding circleq_exec_def by (rule cq.exec_script [OF empty_lists assms])

end
