(* ===== verification/LuQueueEvent.thy ===== *)
theory LuQueueEvent
  imports LuQueueSpec LuEventProps
begin

text \<open>
  The event core keeps its active queues and its event lists as HOL lists; the program keeps
  them with the macros of \<open>queue.h\<close>. Here the two meet: whenever the tail queues in memory hold
  the lists of the model, the macro call the program makes leaves them holding the lists the
  model goes to. All the active queues and the later queue run through the one field
  \<open>evcb_active_next\<close> of the callbacks, so they share one memory; what keeps them apart is the
  invariant of the event core. The same for the lists of the descriptor map, linked through
  \<open>ev_io_next\<close>.
\<close>

section \<open>What queues visit\<close>

lemma queue_scripts_aux:
  assumes "q_script ps Map.empty = Some Q" "Q h = Some xs" "length xs < n"
  shows "TAILQ_FOREACH n h record_visit (fold tailq_exec ps m, []) = Some (fold tailq_exec ps m, xs)"
    and "TAILQ_FOREACH_REVERSE n h record_visit (fold tailq_exec ps m, []) =
      Some (fold tailq_exec ps m, rev xs)"
    and "CIRCLEQ_FOREACH n h record_visit (fold circleq_exec ps k, []) = Some (fold circleq_exec ps k, xs)"
    and "CIRCLEQ_FOREACH_REVERSE n h record_visit (fold circleq_exec ps k, []) =
      Some (fold circleq_exec ps k, rev xs)"
proof -
  let ?t = "fold tailq_exec ps m" and ?c = "fold circleq_exec ps k"
  have t: "tailq (fst (?t, [] :: 'b list)) h xs"
    using tailq_script_lists [OF assms(1)] assms(2) by (simp add: lists_of_def)
  have c: "circleq (fst (?c, [] :: 'b list)) h xs"
    using circleq_script_lists [OF assms(1)] assms(2) by (simp add: lists_of_def)
  have keep: "tailq (fst s) h xs \<Longrightarrow> tailq (fst (record_visit e s)) h xs"
    "circleq (fst s') h xs \<Longrightarrow> circleq (fst (record_visit e s')) h xs" for e :: 'b and s s'
    by (simp_all add: record_visit_def)
  show "TAILQ_FOREACH n h record_visit (?t, []) = Some (?t, xs)"
    using tq.foreach_visits [OF t assms(3) keep(1)] by (simp add: TAILQ_FOREACH_def fold_record)
  show "TAILQ_FOREACH_REVERSE n h record_visit (?t, []) = Some (?t, rev xs)"
    using tq.foreach_reverse_visits [OF t assms(3) keep(1)]
    by (simp add: TAILQ_FOREACH_REVERSE_def fold_record)
  show "CIRCLEQ_FOREACH n h record_visit (?c, []) = Some (?c, xs)"
    using cq.foreach_visits [OF c assms(3) keep(2)] by (simp add: CIRCLEQ_FOREACH_def fold_record)
  show "CIRCLEQ_FOREACH_REVERSE n h record_visit (?c, []) = Some (?c, rev xs)"
    using cq.foreach_reverse_visits [OF c assms(3) keep(2)]
    by (simp add: CIRCLEQ_FOREACH_REVERSE_def fold_record)
qed

text \<open>C13: After any script of initialisations, insertions (at the head, at the tail,
  after and before an element) and removals that is allowed step by step (heads initialised, no
  element linked twice, neighbours and removed elements on the list), the tail queue of every head
  holds exactly the list that the same operations give on HOL lists, whatever the memory held
  before: \<open>TAILQ_FOREACH\<close> visits it in order and \<open>TAILQ_FOREACH_REVERSE\<close> backwards, both ending
  after one round per element, and so do the loops of a circular queue under the same script,
  although it keeps different pointers.\<close>

theorem queue_scripts:
  assumes "q_script ps Map.empty = Some Q" "Q h = Some xs" "length xs < n"
  shows "TAILQ_FOREACH n h record_visit (fold tailq_exec ps m, []) = Some (fold tailq_exec ps m, xs) \<and>
    TAILQ_FOREACH_REVERSE n h record_visit (fold tailq_exec ps m, []) =
      Some (fold tailq_exec ps m, rev xs) \<and>
    CIRCLEQ_FOREACH n h record_visit (fold circleq_exec ps k, []) = Some (fold circleq_exec ps k, xs) \<and>
    CIRCLEQ_FOREACH_REVERSE n h record_visit (fold circleq_exec ps k, []) =
      Some (fold circleq_exec ps k, rev xs)"
  by (intro conjI queue_scripts_aux [OF assms])

text \<open>Two tail queues in one memory: elements move from one to the other.\<close>

definition demo_script :: "(nat, nat) qop list" where
  "demo_script = [Q_init 0, Q_init 1, Q_tail 0 5, Q_tail 0 6, Q_head 0 7, Q_after 0 5 8, Q_remove 0 6,
     Q_tail 1 6, Q_before 1 6 9, Q_remove 0 7]"

lemma demo_script_lists:
  "q_script demo_script Map.empty = Some (Map.empty(0 \<mapsto> [5, 8], 1 \<mapsto> [9, 6]))"
  by (simp add: demo_script_def linked_def ran_map_upd fun_upd_twist)

definition demo_qmem :: "(nat, nat) qmem" where
  "demo_qmem = \<lparr>q_next = \<lambda>_. Some 5, q_prev = \<lambda>c. c\<rparr>"

definition demo_cqmem :: "(nat, nat) cqmem" where
  "demo_cqmem = \<lparr>cq_next = \<lambda>_. Elem 5, cq_prev = \<lambda>c. c\<rparr>"

lemma queue_scripts_witness:
  "TAILQ_FOREACH 3 0 record_visit (fold tailq_exec demo_script demo_qmem, []) =
     Some (fold tailq_exec demo_script demo_qmem, [5, 8]) \<and>
   CIRCLEQ_FOREACH_REVERSE 3 1 record_visit (fold circleq_exec demo_script demo_cqmem, []) =
     Some (fold circleq_exec demo_script demo_cqmem, [6, 9])"
  using queue_scripts [OF demo_script_lists, of 0 "[5, 8]" 3 demo_qmem]
    queue_scripts [OF demo_script_lists, of 1 "[9, 6]" 3 _ demo_cqmem]
  by simp

section \<open>The active queues\<close>

datatype active_head = Active_q nat | Later_q

definition queues_of :: "world \<Rightarrow> (active_head \<rightharpoonup> evptr list)" where
  "queues_of w h =
     (case h of
        Active_q p \<Rightarrow> if p < length (activequeues (w_base w)) then Some (activequeues (w_base w) ! p) else None
      | Later_q \<Rightarrow> Some (active_later_queue (w_base w)))"

definition active_mem :: "world \<Rightarrow> (active_head, evptr) qmem \<Rightarrow> bool" where
  "active_mem w m \<longleftrightarrow> lists_of tailq (queues_of w) m"

abbreviation prio :: "world \<Rightarrow> evptr \<Rightarrow> nat" where
  "prio w e \<equiv> unat (ev_pri (ev_of w e))"

lemma queues_of_linked:
  assumes "queue_inv D w"
  shows "e \<in> linked (queues_of w) \<longleftrightarrow>
    e \<in> D \<and> (has_flag (fl w e) LU_EVLIST_ACTIVE \<or> has_flag (fl w e) LU_EVLIST_ACTIVE_LATER)"
proof -
  have q: "queues_ok D (fl w) (prio w) (activequeues (w_base w)) (active_later_queue (w_base w))"
    using assms by (simp add: queue_inv_def)
  have "e \<in> linked (queues_of w) \<longleftrightarrow>
    (\<exists>p<length (activequeues (w_base w)). e \<in> set (activequeues (w_base w) ! p)) \<or>
    e \<in> set (active_later_queue (w_base w))"
    by (auto simp: linked_iff queues_of_def split: active_head.splits) (metis active_head.simps(5,6) active_head.exhaust)+
  then show ?thesis using q by (auto simp: queues_ok_def)
qed

lemma queues_of_update:
  assumes "p < length (activequeues (w_base w))" "activequeues (w_base w') = (activequeues (w_base w))[p := q]"
    "active_later_queue (w_base w') = active_later_queue (w_base w)"
  shows "queues_of w' = (queues_of w)(Active_q p \<mapsto> q)"
  using assms by (auto simp: queues_of_def fun_eq_iff nth_list_update split: active_head.splits)

lemma queues_of_later:
  assumes "activequeues (w_base w') = activequeues (w_base w)" "active_later_queue (w_base w') = q"
  shows "queues_of w' = (queues_of w)(Later_q \<mapsto> q)"
  using assms by (auto simp: queues_of_def fun_eq_iff split: active_head.splits)

lemma insert_active_mem:
  assumes inv: "queue_inv D w" and e: "e \<in> D" "\<not> has_flag (fl w e) LU_EVLIST_ACTIVE"
      "\<not> has_flag (fl w e) LU_EVLIST_ACTIVE_LATER" and m: "active_mem w m"
  shows "\<exists>w'. lu_event_queue_insert_active w e = Inr w' \<and>
    active_mem w' (TAILQ_INSERT_TAIL (Active_q (prio w e)) e m)"
proof -
  have p: "prio w e < length (activequeues (w_base w))"
    using inv e(1) by (auto simp: queue_inv_def queues_ok_def)
  then have n': "int (prio w e) < nactivequeues (w_base w)"
    using inv by (simp only: queue_inv_def of_nat_less_iff)
  have n: "e \<notin> linked (queues_of w)" using queues_of_linked [OF inv, of e] e by simp
  obtain w' where w': "lu_event_queue_insert_active w e = Inr w'"
    "activequeues (w_base w') = (activequeues (w_base w))[prio w e := activequeues (w_base w) ! prio w e @ [e]]"
    "active_later_queue (w_base w') = active_later_queue (w_base w)"
    using p n' e(2)
    by (auto simp: lu_event_queue_insert_active_def upd_queue_def Let_def lu_assert_def
        LU_INCR_EVENT_COUNT_def ev_set_flag_def)
  have "queues_of w (Active_q (prio w e)) = Some (activequeues (w_base w) ! prio w e)"
    using p by (simp add: queues_of_def)
  from tq.ins_tail_lists [OF m [unfolded active_mem_def] this n]
  have "active_mem w' (TAILQ_INSERT_TAIL (Active_q (prio w e)) e m)"
    unfolding active_mem_def queues_of_update [OF p(1) w'(2,3)] .
  with w'(1) show ?thesis by blast
qed

lemma remove_active_mem:
  assumes inv: "queue_inv D w" and e: "e \<in> D" "has_flag (fl w e) LU_EVLIST_ACTIVE" and m: "active_mem w m"
  shows "\<exists>w'. lu_event_queue_remove_active w e = Inr w' \<and>
    active_mem w' (TAILQ_REMOVE (Active_q (prio w e)) e m)"
proof -
  have p: "prio w e < length (activequeues (w_base w))" "e \<in> set (activequeues (w_base w) ! prio w e)"
    using inv e by (auto simp: queue_inv_def queues_ok_def)
  obtain w' where w': "lu_event_queue_remove_active w e = Inr w'"
    "activequeues (w_base w') = (activequeues (w_base w))[prio w e := remove1 e (activequeues (w_base w) ! prio w e)]"
    "active_later_queue (w_base w') = active_later_queue (w_base w)"
    using p e(2)
    by (auto simp: lu_event_queue_remove_active_def upd_queue_def Let_def
        LU_DECR_EVENT_COUNT_def ev_clr_flag_def)
  have "queues_of w (Active_q (prio w e)) = Some (activequeues (w_base w) ! prio w e)"
    using p by (simp add: queues_of_def)
  from tq.remove_lists [OF m [unfolded active_mem_def] this p(2)]
  have "active_mem w' (TAILQ_REMOVE (Active_q (prio w e)) e m)"
    unfolding active_mem_def queues_of_update [OF p(1) w'(2,3)] .
  with w'(1) show ?thesis by blast
qed

lemma remove_later_mem:
  assumes inv: "queue_inv D w" and e: "e \<in> D" "has_flag (fl w e) LU_EVLIST_ACTIVE_LATER" and m: "active_mem w m"
  shows "\<exists>w'. lu_event_queue_remove_active_later w e = Inr w' \<and>
    active_mem w' (TAILQ_REMOVE Later_q e m)"
proof -
  have p: "e \<in> set (active_later_queue (w_base w))"
    using inv e by (auto simp: queue_inv_def queues_ok_def)
  obtain w' where w': "lu_event_queue_remove_active_later w e = Inr w'"
    "activequeues (w_base w') = activequeues (w_base w)"
    "active_later_queue (w_base w') = remove1 e (active_later_queue (w_base w))"
    using e(2)
    by (auto simp: lu_event_queue_remove_active_later_def Let_def LU_DECR_EVENT_COUNT_def ev_clr_flag_def)
  have "queues_of w Later_q = Some (active_later_queue (w_base w))" by (simp add: queues_of_def)
  from tq.remove_lists [OF m [unfolded active_mem_def] this p]
  have "active_mem w' (TAILQ_REMOVE Later_q e m)"
    unfolding active_mem_def queues_of_later [OF w'(2,3)] .
  with w'(1) show ?thesis by blast
qed


section \<open>The event lists of the descriptor map\<close>

definition io_lists :: "lu_event_io_map_t \<Rightarrow> (int \<rightharpoonup> evptr list)" where
  "io_lists mp fd = map_option io_events (slot_at mp fd)"

definition fd_mem :: "world \<Rightarrow> (int, evptr) qmem \<Rightarrow> bool" where
  "fd_mem w m \<longleftrightarrow> lists_of dlist (io_lists (io (w_base w))) m"

text \<open>A successful insertion runs the constructor (\<open>LIST_INIT\<close>) when the slot is new, then
  \<open>LIST_INSERT_HEAD\<close>.\<close>

lemma io_add_lists:
  assumes m: "slots_ok S (io_slot_ok evs) (io (w_base w))" and fd: "0 \<le> fd"
    and r: "lu_evmap_io_add v w fd e = Inr (w', r)" "r \<noteq> - 1"
  shows "io_lists (io (w_base w')) = (io_lists (io (w_base w)))
    (fd \<mapsto> e # (case io_lists (io (w_base w)) fd of None \<Rightarrow> [] | Some xs \<Rightarrow> xs))"
proof -
  let ?io = "io (w_base w)"
  obtain m0 r0 where sp: "(if fd \<ge> nentries ?io then lu_evmap_make_space (map_alloc_ok v) ?io fd ptr_size
    else (?io, 0)) = (m0, r0)" by fastforce
  have r0: "r0 \<noteq> - 1" using r fd sp by (auto simp: lu_evmap_io_add_def lu_assert_def split: if_splits)
  have m0: "slots_ok S (io_slot_ok evs) m0" "fd < nentries m0" "slot_at m0 = slot_at ?io"
  proof (atomize (full), cases "fd \<ge> nentries ?io")
    case True
    then have sp': "lu_evmap_make_space (map_alloc_ok v) ?io fd ptr_size = (m0, r0)" using sp by simp
    show "slots_ok S (io_slot_ok evs) m0 \<and> fd < nentries m0 \<and> slot_at m0 = slot_at ?io"
      using make_space_ok [OF m sp' fd] slot_at_space [OF m sp' fd] r0 by blast
  qed (use sp m in auto)
  obtain m1 ctx where ct: "GET_SLOT_AND_CTOR (slot_alloc_ok v) m0 fd lu_evmap_io_init = Some (m1, ctx)"
    using r fd sp r0 by (auto simp: lu_evmap_io_add_def lu_assert_def split: if_splits option.splits)
  have m1: "slots_ok S (io_slot_ok evs) m1" "nentries m1 = nentries m0"
    using ctor_ok [OF m0(1) fd m0(2) io_slot_init ct] by auto
  obtain ctx' where x: "io (w_base w') = put_slot m1 fd ctx'" "io_events ctx' = e # io_events ctx"
    using r fd sp r0 ct
    by (auto simp: lu_evmap_io_add_def lu_assert_def Let_def split: if_splits option.splits)
  have "slot_at (io (w_base w')) = (slot_at ?io)(fd := Some ctx')"
    unfolding x(1) using slot_at_put [OF m1(1) fd, of ctx'] slot_at_ctor(1) [OF m0(1) fd m0(2) ct] m0(2,3) m1(2)
    by simp
  moreover have "(case io_lists ?io fd of None \<Rightarrow> [] | Some xs \<Rightarrow> xs) = io_events ctx"
    using slot_at_ctor(2,3) [OF m0(1) fd m0(2) ct] m0(3)
    by (cases "slot_at ?io fd") (auto simp: io_lists_def lu_evmap_io_init_def)
  ultimately show ?thesis using x(2) by (auto simp: io_lists_def fun_eq_iff)
qed

lemma io_add_mem:
  assumes m: "slots_ok S (io_slot_ok evs) (io (w_base w))" and fd: "0 \<le> fd"
    and r: "lu_evmap_io_add v w fd e = Inr (w', r)" "r \<noteq> - 1"
    and e: "e \<notin> linked (io_lists (io (w_base w)))" and q: "fd_mem w m"
  shows "fd_mem w' (LIST_INSERT_HEAD fd e (if io_lists (io (w_base w)) fd = None then LIST_INIT fd m else m))"
proof (cases "io_lists (io (w_base w)) fd")
  case None
  have i: "lists_of dlist ((io_lists (io (w_base w)))(fd \<mapsto> [])) (LIST_INIT fd m)"
    by (rule dl.init_lists [OF q [unfolded fd_mem_def]])
  have "e \<notin> linked ((io_lists (io (w_base w)))(fd \<mapsto> []))" using e None by (auto simp: linked_iff)
  from dl.ins_head_lists [OF i _ this, of fd "[]"] show ?thesis
    using None by (simp add: fd_mem_def io_add_lists [OF m fd r])
next
  case (Some xs)
  from dl.ins_head_lists [OF q [unfolded fd_mem_def] this e] show ?thesis
    using Some by (simp add: fd_mem_def io_add_lists [OF m fd r])
qed

lemma io_del_mem:
  assumes m: "slots_ok S (io_slot_ok evs) (io (w_base w))"
    and e: "io_lists (io (w_base w)) fd = Some xs" "e \<in> set xs"
    and r: "lu_evmap_io_del v w fd e = Inr (w', r)" and q: "fd_mem w m"
  shows "fd_mem w' (LIST_REMOVE e m)"
proof -
  obtain ctx where ctx: "0 \<le> fd" "fd < nentries (io (w_base w))" "map_entries (io (w_base w)) ! nat fd = Some ctx"
    "xs = io_events ctx"
    using e by (auto simp: io_lists_def slot_at_def split: if_splits)
  obtain ctx' where x: "io (w_base w') = put_slot (io (w_base w)) fd ctx'" "io_events ctx' = remove1 e xs"
    using r ctx by (auto simp: lu_evmap_io_del_def lu_assert_def Let_def split: if_splits option.splits)
  have "io_lists (io (w_base w')) = (io_lists (io (w_base w)))(fd \<mapsto> remove1 e xs)"
    unfolding x(1) io_lists_def slot_at_put [OF m ctx(1,2)] by (auto simp: fun_eq_iff x(2))
  then show ?thesis
    using dl.remove_lists [OF q [unfolded fd_mem_def] e] by (simp add: fd_mem_def)
qed


section \<open>The lists of a running system\<close>

lemma io_lists_members:
  assumes "map_inv D w" "io_lists (io (w_base w)) fd = Some xs"
  shows "0 \<le> fd" "set xs = io_set D w fd"
proof -
  obtain c where c: "0 \<le> fd" "fd < nentries (io (w_base w))" "map_entries (io (w_base w)) ! nat fd = Some c"
    "xs = io_events c"
    using assms(2) by (auto simp: io_lists_def slot_at_def split: if_splits)
  have "slots_ok (io_set D w) (io_slot_ok (\<lambda>x. ev_events (ev_of w x))) (io (w_base w))"
    using assms(1) by (simp add: map_inv_def io_inv_def)
  from slots_okD(3) [OF this c(1,2,3)] show "set xs = io_set D w fd" by (simp add: io_slot_ok_def c(4))
  show "0 \<le> fd" using c by simp
qed

lemma io_lists_some:
  assumes "map_inv D w" "e \<in> io_set D w fd" "0 \<le> fd"
  shows "\<exists>xs. io_lists (io (w_base w)) fd = Some xs \<and> e \<in> set xs"
proof -
  have s: "slots_ok (io_set D w) (io_slot_ok (\<lambda>x. ev_events (ev_of w x))) (io (w_base w))"
    using assms(1) by (simp add: map_inv_def io_inv_def)
  have lt: "fd < nentries (io (w_base w))" using slots_ok_less [OF s assms(2)] .
  have "map_entries (io (w_base w)) ! nat fd \<noteq> None" using slots_okD(2) [OF s assms(3) lt] assms(2) by auto
  then obtain xs where xs: "io_lists (io (w_base w)) fd = Some xs"
    using lt assms(3) by (auto simp: io_lists_def slot_at_def)
  with io_lists_members(2) [OF assms(1) xs] assms(2) show ?thesis by auto
qed

text \<open>C11: In every state a program reaches, with the active queues and the later
  queue of the base held by tail queues in one memory: activating an idle event, that is
  \<open>TAILQ_INSERT_TAIL\<close> on the queue of its priority, and taking an event off its active queue or off
  the later queue, that is \<open>TAILQ_REMOVE\<close>, succeed and leave every tail queue of that memory holding
  the list that the event core goes to, the queues of the other priorities included.\<close>

theorem active_queues_on_tailqs:
  assumes "sys_reachable w0 D w" "e \<in> D" "active_mem w m"
  shows "(\<not> has_flag (fl w e) LU_EVLIST_ACTIVE \<and> \<not> has_flag (fl w e) LU_EVLIST_ACTIVE_LATER \<longrightarrow>
      (\<exists>w'. lu_event_queue_insert_active w e = Inr w' \<and>
        active_mem w' (TAILQ_INSERT_TAIL (Active_q (unat (ev_pri (ev_of w e)))) e m))) \<and>
    (has_flag (fl w e) LU_EVLIST_ACTIVE \<longrightarrow>
      (\<exists>w'. lu_event_queue_remove_active w e = Inr w' \<and>
        active_mem w' (TAILQ_REMOVE (Active_q (unat (ev_pri (ev_of w e)))) e m))) \<and>
    (has_flag (fl w e) LU_EVLIST_ACTIVE_LATER \<longrightarrow>
      (\<exists>w'. lu_event_queue_remove_active_later w e = Inr w' \<and> active_mem w' (TAILQ_REMOVE Later_q e m)))"
proof -
  have "queue_inv D w" using sys_reachable_inv [OF assms(1)] by (simp add: core_inv_def)
  then show ?thesis
    using insert_active_mem [of D w e m] remove_active_mem [of D w e m] remove_later_mem [of D w e m] assms(2,3)
    by blast
qed

definition demo_tailqs :: "(active_head, evptr) qmem" where
  "demo_tailqs = TAILQ_INIT Later_q (TAILQ_INIT (Active_q 0) \<lparr>q_next = \<lambda>_. Some 3, q_prev = \<lambda>c. c\<rparr>)"

lemma demo_active_mem: "active_mem demo_w2 demo_tailqs"
proof -
  have "activequeues (w_base demo_w2) = [[]]" "active_later_queue (w_base demo_w2) = []"
    by (simp_all add: demo_add demo_w0_def zero_base_def)
  then have "queues_of demo_w2 = Map.empty(Active_q 0 \<mapsto> [], Later_q \<mapsto> [])"
    by (auto simp: queues_of_def fun_eq_iff split: active_head.splits)
  then show ?thesis
    unfolding active_mem_def demo_tailqs_def
    using tq.init_lists [OF tq.init_lists [OF empty_lists]] by simp
qed

lemma active_queues_on_tailqs_witness:
  "\<exists>w'. lu_event_queue_insert_active demo_w2 10 = Inr w' \<and>
     active_mem w' (TAILQ_INSERT_TAIL (Active_q 0) 10 demo_tailqs)"
proof -
  have "\<not> has_flag (fl demo_w2 10) LU_EVLIST_ACTIVE \<and> \<not> has_flag (fl demo_w2 10) LU_EVLIST_ACTIVE_LATER"
    "unat (ev_pri (ev_of demo_w2 10)) = 0"
    by (simp_all add: demo_add demo_ev lu_consts has_flag_def set_flag_def)
  with active_queues_on_tailqs [OF demo_reachable(2) _ demo_active_mem, of 10] show ?thesis by simp
qed

lemma add_to_map_io:
  assumes "add_to_map v w e = Inr (w', r, n)" "is_io (ev_of w e)" "r \<noteq> - 1"
    and "\<not> has_flag (fl w e) (LU_EVLIST_INSERTED OR LU_EVLIST_ACTIVE OR LU_EVLIST_ACTIVE_LATER)"
  shows "\<exists>w1 r1. lu_evmap_io_add v w (ev_fd (ev_of w e)) e = Inr (w1, r1) \<and> r1 \<noteq> - 1 \<and> io (w_base w') = io (w_base w1)"
proof -
  have io: "has_flag (ev_events (ev_of w e)) IO_EVENTS" using assms(2) by (simp add: is_io_def)
  then have "has_flag (ev_events (ev_of w e)) (IO_EVENTS OR LU_EV_SIGNAL)"
    by (simp add: has_flag_or)
  with assms(1,3,4) io show ?thesis
    by (cases "lu_evmap_io_add v w (ev_fd (ev_of w e)) e")
      (auto simp: add_to_map_def lu_event_queue_insert_inserted_def ev_set_flag_def LU_INCR_EVENT_COUNT_def
        split: if_splits)
qed

text \<open>C12: In every state a program reaches, with the event lists of the descriptors
  held by doubly-linked lists in one memory: adding an I/O event with a descriptor to the map, that
  is \<open>LIST_INIT\<close> where the slot is new and \<open>LIST_INSERT_HEAD\<close>, and deleting it, that is
  \<open>LIST_REMOVE\<close>, which does not name the list, leave every list of that memory holding the events
  that the slot of its descriptor has then.\<close>

theorem fd_lists_on_lists:
  assumes "sys_reachable w0 D w" "e \<in> D" "fd_mem w m" "is_io (ev_of w e)" "0 \<le> ev_fd (ev_of w e)"
  shows "(\<not> has_flag (fl w e) (LU_EVLIST_INSERTED OR LU_EVLIST_ACTIVE OR LU_EVLIST_ACTIVE_LATER) \<and>
       add_to_map v w e = Inr (w', 0, n) \<longrightarrow>
       fd_mem w' (LIST_INSERT_HEAD (ev_fd (ev_of w e)) e
         (if io_lists (io (w_base w)) (ev_fd (ev_of w e)) = None then LIST_INIT (ev_fd (ev_of w e)) m else m))) \<and>
     (has_flag (fl w e) LU_EVLIST_INSERTED \<and>
       bind_res (lu_event_queue_remove_inserted w e) (\<lambda>w4. lu_evmap_io_del v w4 (ev_fd (ev_of w e)) e) = Inr (w', r) \<longrightarrow>
       fd_mem w' (LIST_REMOVE e m))"
proof (intro conjI impI; elim conjE)
  have mi: "map_inv D w" using sys_reachable_inv [OF assms(1)] by (simp add: core_inv_def)
  then have sl: "slots_ok (io_set D w) (io_slot_ok (\<lambda>x. ev_events (ev_of w x))) (io (w_base w))"
    by (simp add: map_inv_def io_inv_def)
  {
    assume f: "\<not> has_flag (fl w e) (LU_EVLIST_INSERTED OR LU_EVLIST_ACTIVE OR LU_EVLIST_ACTIVE_LATER)"
      and a: "add_to_map v w e = Inr (w', 0, n)"
    obtain w1 r1 where w1: "lu_evmap_io_add v w (ev_fd (ev_of w e)) e = Inr (w1, r1)" "r1 \<noteq> - 1"
      "io (w_base w') = io (w_base w1)"
      using add_to_map_io [OF a assms(4) _ f] by auto
    have "\<not> has_flag (fl w e) LU_EVLIST_INSERTED"
      using f by (simp add: has_flag_or)
    then have "e \<notin> linked (io_lists (io (w_base w)))"
      using io_lists_members(2) [OF mi] by (auto simp: linked_iff io_set_def)
    from io_add_mem [OF sl assms(5) w1(1,2) this assms(3)]
    show "fd_mem w' (LIST_INSERT_HEAD (ev_fd (ev_of w e)) e
         (if io_lists (io (w_base w)) (ev_fd (ev_of w e)) = None then LIST_INIT (ev_fd (ev_of w e)) m else m))"
      by (simp add: fd_mem_def w1(3))
  }
  assume f: "has_flag (fl w e) LU_EVLIST_INSERTED"
    and del: "bind_res (lu_event_queue_remove_inserted w e) (\<lambda>w4. lu_evmap_io_del v w4 (ev_fd (ev_of w e)) e) = Inr (w', r)"
  then obtain w4 where w4: "lu_event_queue_remove_inserted w e = Inr w4"
    and d: "lu_evmap_io_del v w4 (ev_fd (ev_of w e)) e = Inr (w', r)" by auto
  have b: "io (w_base w4) = io (w_base w)"
    using w4 by (auto simp: lu_event_queue_remove_inserted_def ev_clr_flag_def LU_DECR_EVENT_COUNT_def split: if_splits)
  have "e \<in> io_set D w (ev_fd (ev_of w e))" using f assms(2,4) by (simp add: io_set_def)
  from io_lists_some [OF mi this assms(5)] obtain xs where
    xs: "io_lists (io (w_base w)) (ev_fd (ev_of w e)) = Some xs" "e \<in> set xs" by blast
  show "fd_mem w' (LIST_REMOVE e m)"
    using io_del_mem [of _ _ w4, OF _ _ xs(2) d] sl xs(1) assms(3)
    by (simp add: b fd_mem_def)
qed


definition demo_lists :: "(int, evptr) qmem" where
  "demo_lists = \<lparr>q_next = \<lambda>_. Some 3, q_prev = \<lambda>c. c\<rparr>"

lemma demo_io_lists: "io_lists (io (w_base demo_w1)) = Map.empty"
  by (auto simp: demo_ev demo_base lu_evmap_io_initmap_def io_lists_def slot_at_def fun_eq_iff)

lemma demo_add_to_map: "\<exists>w. add_to_map demo_env demo_w1 10 = Inr (w, 0, True)"
  by (simp add: add_to_map_def demo_ev demo_map_add lu_event_queue_insert_inserted_def IO_EVENTS_def lu_consts has_flag_def)

lemma fd_lists_on_lists_witness:
  "\<exists>w'. add_to_map demo_env demo_w1 10 = Inr (w', 0, True) \<and>
     fd_mem w' (LIST_INSERT_HEAD 0 10 (LIST_INIT 0 demo_lists))"
proof -
  obtain w' where w': "add_to_map demo_env demo_w1 10 = Inr (w', 0, True)" using demo_add_to_map by blast
  have "fd_mem demo_w1 demo_lists" by (simp add: fd_mem_def demo_io_lists empty_lists)
  from fd_lists_on_lists [OF demo_reachable(1) _ this, of 10 demo_env w' True] w'
  show ?thesis
    by (simp add: demo_io_lists) (simp add: demo_ev is_io_def IO_EVENTS_def lu_consts has_flag_def)
qed

end
