(* ===== verification/LuRBTree.thy ===== *)
theory LuRBTree
  imports LuPrelude
begin

text \<open>
  The red-black trees of \<open>src/lu_hash_table.c\<close>, on memory: a node is an address, a tree has its
  root, its sentinel \<open>nil\<close> and the memory of its nodes, which no other structure shares. The
  operations write the fields in the order of the code. \<open>rb_next\<close> is the next address that
  the allocator gives: every address in use is below it. A loop takes \<open>fuel\<close> and gives \<open>None\<close>
  when it is used up; the operations pass bounds that \<open>LuRBTreeInv\<close> proves to be enough.
\<close>

section \<open>Nodes and trees\<close>

datatype rb_color = RED | BLACK

type_synonym rbptr = nat

record 'v lu_rb_tree_node_t =
  rb_left :: rbptr
  rb_right :: rbptr
  rb_parent :: rbptr
  rb_color :: rb_color
  rb_key :: int
  rb_value :: "'v option"

record 'v lu_rb_tree_t =
  rb_root :: rbptr
  rb_nil :: rbptr
  rb_mem :: "rbptr \<Rightarrow> 'v lu_rb_tree_node_t"
  rb_next :: rbptr

abbreviation lft :: "'v lu_rb_tree_t \<Rightarrow> rbptr \<Rightarrow> rbptr" where "lft t x \<equiv> rb_left (rb_mem t x)"
abbreviation rgt :: "'v lu_rb_tree_t \<Rightarrow> rbptr \<Rightarrow> rbptr" where "rgt t x \<equiv> rb_right (rb_mem t x)"
abbreviation par :: "'v lu_rb_tree_t \<Rightarrow> rbptr \<Rightarrow> rbptr" where "par t x \<equiv> rb_parent (rb_mem t x)"
abbreviation col :: "'v lu_rb_tree_t \<Rightarrow> rbptr \<Rightarrow> rb_color" where "col t x \<equiv> rb_color (rb_mem t x)"
abbreviation key :: "'v lu_rb_tree_t \<Rightarrow> rbptr \<Rightarrow> int" where "key t x \<equiv> rb_key (rb_mem t x)"

definition set_left :: "rbptr \<Rightarrow> rbptr \<Rightarrow> 'v lu_rb_tree_t \<Rightarrow> 'v lu_rb_tree_t" where
  "set_left x y t = t\<lparr>rb_mem := (rb_mem t)(x := (rb_mem t x)\<lparr>rb_left := y\<rparr>)\<rparr>"

definition set_right :: "rbptr \<Rightarrow> rbptr \<Rightarrow> 'v lu_rb_tree_t \<Rightarrow> 'v lu_rb_tree_t" where
  "set_right x y t = t\<lparr>rb_mem := (rb_mem t)(x := (rb_mem t x)\<lparr>rb_right := y\<rparr>)\<rparr>"

definition set_parent :: "rbptr \<Rightarrow> rbptr \<Rightarrow> 'v lu_rb_tree_t \<Rightarrow> 'v lu_rb_tree_t" where
  "set_parent x y t = t\<lparr>rb_mem := (rb_mem t)(x := (rb_mem t x)\<lparr>rb_parent := y\<rparr>)\<rparr>"

definition set_color :: "rbptr \<Rightarrow> rb_color \<Rightarrow> 'v lu_rb_tree_t \<Rightarrow> 'v lu_rb_tree_t" where
  "set_color x c t = t\<lparr>rb_mem := (rb_mem t)(x := (rb_mem t x)\<lparr>rb_color := c\<rparr>)\<rparr>"

text \<open>\<open>lu_rb_tree_init\<close>: the sentinel is the first node allocated; its key and value are not set.\<close>

definition lu_rb_tree_init :: "(rbptr \<Rightarrow> 'v lu_rb_tree_node_t) \<Rightarrow> 'v lu_rb_tree_t" where
  "lu_rb_tree_init raw =
     \<lparr>rb_root = 0, rb_nil = 0,
      rb_mem = raw(0 := (raw 0)\<lparr>rb_color := BLACK, rb_left := 0, rb_right := 0, rb_parent := 0\<rparr>), rb_next = 1\<rparr>"

section \<open>Walking\<close>

fun rb_find_loop :: "nat \<Rightarrow> 'v lu_rb_tree_t \<Rightarrow> int \<Rightarrow> rbptr \<Rightarrow> rbptr option option" where
  "rb_find_loop 0 t k current = None"
| "rb_find_loop (Suc fuel) t k current =
     (if current = rb_nil t then Some None
      else if k = key t current then Some (Some current)
      else if k < key t current then rb_find_loop fuel t k (lft t current)
      else rb_find_loop fuel t k (rgt t current))"

text \<open>The outer option is the fuel, the inner one the pointer (\<open>None\<close>: null).\<close>

definition lu_hash_rb_tree_find :: "'v lu_rb_tree_t \<Rightarrow> int \<Rightarrow> rbptr option option" where
  "lu_hash_rb_tree_find t k = rb_find_loop (Suc (rb_next t)) t k (rb_root t)"

fun rb_minimum_loop :: "nat \<Rightarrow> 'v lu_rb_tree_t \<Rightarrow> rbptr \<Rightarrow> rbptr option" where
  "rb_minimum_loop 0 t node = None"
| "rb_minimum_loop (Suc fuel) t node = (if lft t node \<noteq> rb_nil t then rb_minimum_loop fuel t (lft t node) else Some node)"

definition lu_rb_tree_minimum :: "'v lu_rb_tree_t \<Rightarrow> rbptr \<Rightarrow> rbptr option" where
  "lu_rb_tree_minimum t node = rb_minimum_loop (Suc (rb_next t)) t node"

fun rb_maximum_loop :: "nat \<Rightarrow> 'v lu_rb_tree_t \<Rightarrow> rbptr \<Rightarrow> rbptr option" where
  "rb_maximum_loop 0 t node = None"
| "rb_maximum_loop (Suc fuel) t node = (if rgt t node \<noteq> rb_nil t then rb_maximum_loop fuel t (rgt t node) else Some node)"

definition lu_rb_tree_maximum :: "'v lu_rb_tree_t \<Rightarrow> rbptr \<Rightarrow> rbptr option" where
  "lu_rb_tree_maximum t node = rb_maximum_loop (Suc (rb_next t)) t node"

fun rb_successor_loop :: "nat \<Rightarrow> 'v lu_rb_tree_t \<Rightarrow> rbptr \<Rightarrow> rbptr \<Rightarrow> rbptr option" where
  "rb_successor_loop 0 t node successor = None"
| "rb_successor_loop (Suc fuel) t node successor =
     (if successor \<noteq> rb_nil t \<and> node = rgt t successor then rb_successor_loop fuel t successor (par t successor)
      else Some successor)"

definition lu_rb_tree_successor :: "'v lu_rb_tree_t \<Rightarrow> rbptr \<Rightarrow> rbptr option" where
  "lu_rb_tree_successor t node =
     (if rgt t node \<noteq> rb_nil t then lu_rb_tree_minimum t (rgt t node)
      else rb_successor_loop (Suc (rb_next t)) t node (par t node))"

section \<open>Rotations\<close>

definition lu_rb_tree_right_rotate :: "'v lu_rb_tree_t \<Rightarrow> rbptr \<Rightarrow> 'v lu_rb_tree_t" where
  "lu_rb_tree_right_rotate t node =
     (if lft t node = rb_nil t then t
      else
        (let left = lft t node;
             t1 = set_left node (rgt t left) t;
             t2 = (if rgt t1 left \<noteq> rb_nil t1 then set_parent (rgt t1 left) node t1 else t1);
             t3 = set_parent left (par t2 node) t2;
             t4 = (if par t3 node = rb_nil t3 then t3\<lparr>rb_root := left\<rparr>
                   else if node = lft t3 (par t3 node) then set_left (par t3 node) left t3
                   else set_right (par t3 node) left t3);
             t5 = set_right left node t4
         in set_parent node left t5))"

definition lu_rb_tree_left_rotate :: "'v lu_rb_tree_t \<Rightarrow> rbptr \<Rightarrow> 'v lu_rb_tree_t" where
  "lu_rb_tree_left_rotate t node =
     (if rgt t node = rb_nil t then t
      else
        (let right = rgt t node;
             t1 = set_right node (lft t right) t;
             t2 = (if lft t1 right \<noteq> rb_nil t1 then set_parent (lft t1 right) node t1 else t1);
             t3 = set_parent right (par t2 node) t2;
             t4 = (if par t3 node = rb_nil t3 then t3\<lparr>rb_root := right\<rparr>
                   else if node = lft t3 (par t3 node) then set_left (par t3 node) right t3
                   else set_right (par t3 node) right t3);
             t5 = set_left right node t4
         in set_parent node right t5))"

text \<open>The copies that deletion uses do not check for the sentinel.\<close>

definition lu_rb_tree_left_rotate_delete :: "'v lu_rb_tree_t \<Rightarrow> rbptr \<Rightarrow> 'v lu_rb_tree_t" where
  "lu_rb_tree_left_rotate_delete t node =
     (let right = rgt t node;
          t1 = set_right node (lft t right) t;
          t2 = (if lft t1 right \<noteq> rb_nil t1 then set_parent (lft t1 right) node t1 else t1);
          t3 = set_parent right (par t2 node) t2;
          t4 = (if par t3 node = rb_nil t3 then t3\<lparr>rb_root := right\<rparr>
                else if node = lft t3 (par t3 node) then set_left (par t3 node) right t3
                else set_right (par t3 node) right t3);
          t5 = set_left right node t4
      in set_parent node right t5)"

definition lu_rb_tree_right_rotate_delete :: "'v lu_rb_tree_t \<Rightarrow> rbptr \<Rightarrow> 'v lu_rb_tree_t" where
  "lu_rb_tree_right_rotate_delete t node =
     (let left = lft t node;
          t1 = set_left node (rgt t left) t;
          t2 = (if rgt t1 left \<noteq> rb_nil t1 then set_parent (rgt t1 left) node t1 else t1);
          t3 = set_parent left (par t2 node) t2;
          t4 = (if par t3 node = rb_nil t3 then t3\<lparr>rb_root := left\<rparr>
                else if node = rgt t3 (par t3 node) then set_right (par t3 node) left t3
                else set_left (par t3 node) left t3);
          t5 = set_right left node t4
      in set_parent node left t5)"

section \<open>Insertion\<close>

fun rb_descend :: "nat \<Rightarrow> 'v lu_rb_tree_t \<Rightarrow> int \<Rightarrow> rbptr \<Rightarrow> rbptr \<Rightarrow> rbptr option" where
  "rb_descend 0 t k parent current = None"
| "rb_descend (Suc fuel) t k parent current =
     (if current = rb_nil t then Some parent
      else rb_descend fuel t k current (if k < key t current then lft t current else rgt t current))"

text \<open>The recolouring of a red uncle, and the rotations of a black one: these keep using the
  \<open>parent\<close> that was read before the first rotation.\<close>

definition recolor :: "rbptr \<Rightarrow> rbptr \<Rightarrow> rbptr \<Rightarrow> 'v lu_rb_tree_t \<Rightarrow> 'v lu_rb_tree_t" where
  "recolor parent uncle grandparent t = set_color grandparent RED (set_color uncle BLACK (set_color parent BLACK t))"

definition fixup_rotate_left_side :: "'v lu_rb_tree_t \<Rightarrow> rbptr \<Rightarrow> rbptr \<Rightarrow> rbptr \<Rightarrow> 'v lu_rb_tree_t \<times> rbptr" where
  "fixup_rotate_left_side t node parent grandparent =
     (let (t1, node1) = (if node = rgt t parent then (lu_rb_tree_left_rotate t parent, parent) else (t, node))
      in (lu_rb_tree_right_rotate (set_color grandparent RED (set_color parent BLACK t1)) grandparent, node1))"

definition fixup_rotate_right_side :: "'v lu_rb_tree_t \<Rightarrow> rbptr \<Rightarrow> rbptr \<Rightarrow> rbptr \<Rightarrow> 'v lu_rb_tree_t \<times> rbptr" where
  "fixup_rotate_right_side t node parent grandparent =
     (let (t1, node1) = (if node = lft t parent then (lu_rb_tree_right_rotate t parent, parent) else (t, node))
      in (lu_rb_tree_left_rotate (set_color grandparent RED (set_color parent BLACK t1)) grandparent, node1))"

text \<open>One round of the loop: the tree and the node to go on with.\<close>

definition insert_fixup_round :: "'v lu_rb_tree_t \<Rightarrow> rbptr \<Rightarrow> 'v lu_rb_tree_t \<times> rbptr" where
  "insert_fixup_round t node =
     (let parent = par t node;
          grandparent = par t parent
      in if parent = lft t grandparent then
           (let uncle = rgt t grandparent
            in if uncle \<noteq> rb_nil t \<and> col t uncle = RED then (recolor parent uncle grandparent t, grandparent)
               else fixup_rotate_left_side t node parent grandparent)
         else
           (let uncle = lft t grandparent
            in if uncle \<noteq> rb_nil t \<and> col t uncle = RED then (recolor parent uncle grandparent t, grandparent)
               else fixup_rotate_right_side t node parent grandparent))"

fun rb_insert_fixup_loop :: "nat \<Rightarrow> 'v lu_rb_tree_t \<Rightarrow> rbptr \<Rightarrow> 'v lu_rb_tree_t option" where
  "rb_insert_fixup_loop 0 t node = None"
| "rb_insert_fixup_loop (Suc fuel) t node =
     (if node \<noteq> rb_root t \<and> par t node \<noteq> rb_nil t \<and> col t (par t node) = RED
      then case_prod (rb_insert_fixup_loop fuel) (insert_fixup_round t node)
      else Some (set_color (rb_root t) BLACK t))"

definition lu_rb_tree_insert_fixup :: "'v lu_rb_tree_t \<Rightarrow> rbptr \<Rightarrow> 'v lu_rb_tree_t option" where
  "lu_rb_tree_insert_fixup t node = rb_insert_fixup_loop (rb_next t + 4) t node"

text \<open>\<open>malloc\<close> gives the address \<open>rb_next\<close>; every field of the new node is set.\<close>

definition rb_new_node :: "'v lu_rb_tree_t \<Rightarrow> int \<Rightarrow> 'v option \<Rightarrow> 'v lu_rb_tree_t \<times> rbptr" where
  "rb_new_node t k value =
     (t\<lparr>rb_next := Suc (rb_next t),
        rb_mem := (rb_mem t)(rb_next t := \<lparr>rb_left = rb_nil t, rb_right = rb_nil t, rb_parent = rb_nil t,
                                rb_color = RED, rb_key = k, rb_value = value\<rparr>)\<rparr>, rb_next t)"

definition rb_attach :: "'v lu_rb_tree_t \<Rightarrow> int \<Rightarrow> rbptr \<Rightarrow> rbptr \<Rightarrow> 'v lu_rb_tree_t" where
  "rb_attach t k parent new_node =
     (let t1 = set_parent new_node parent t
      in if k < key t1 parent then set_left parent new_node t1 else set_right parent new_node t1)"

definition lu_rb_tree_insert :: "'v lu_rb_tree_t \<Rightarrow> int \<Rightarrow> 'v option \<Rightarrow> 'v lu_rb_tree_t option" where
  "lu_rb_tree_insert t k value =
     (let (t1, new_node) = rb_new_node t k value
      in if rb_root t1 = rb_nil t1 then Some (set_color new_node BLACK (t1\<lparr>rb_root := new_node\<rparr>))
         else (case rb_descend (Suc (rb_next t1)) t1 k (rb_root t1) (rb_root t1) of
                 None \<Rightarrow> None
               | Some parent \<Rightarrow> lu_rb_tree_insert_fixup (rb_attach t1 k parent new_node) new_node))"

section \<open>Deletion\<close>

definition lu_rb_tree_transplant :: "'v lu_rb_tree_t \<Rightarrow> rbptr \<Rightarrow> rbptr \<Rightarrow> 'v lu_rb_tree_t" where
  "lu_rb_tree_transplant t u v =
     (let t1 = (if par t u = rb_nil t then t\<lparr>rb_root := v\<rparr>
                else if u = lft t (par t u) then set_left (par t u) v t
                else set_right (par t u) v t)
      in if v \<noteq> rb_nil t1 then set_parent v (par t1 u) t1 else t1)"

text \<open>One round of the repair when \<open>node\<close> is a left child, and the mirror image.\<close>

definition delete_fixup_left :: "'v lu_rb_tree_t \<Rightarrow> rbptr \<Rightarrow> 'v lu_rb_tree_t \<times> rbptr" where
  "delete_fixup_left t node =
     (let sibling = rgt t (par t node);
          (t1, sibling1) =
            (if col t sibling = RED then
               (let a = set_color (par t node) RED (set_color sibling BLACK t);
                    b = lu_rb_tree_left_rotate_delete a (par a node)
                in (b, rgt b (par b node)))
             else (t, sibling))
      in if col t1 (lft t1 sibling1) = BLACK \<and> col t1 (rgt t1 sibling1) = BLACK
         then (set_color sibling1 RED t1, par (set_color sibling1 RED t1) node)
         else
           (let (t2, sibling2) =
              (if col t1 (rgt t1 sibling1) = BLACK then
                 (let a = set_color (lft t1 sibling1) BLACK t1;
                      b = lu_rb_tree_right_rotate_delete (set_color sibling1 RED a) sibling1
                  in (b, rgt b (par b node)))
               else (t1, sibling1));
                t3 = set_color sibling2 (col t2 (par t2 node)) t2;
                t4 = set_color (par t3 node) BLACK t3;
                t5 = set_color (rgt t4 sibling2) BLACK t4;
                t6 = lu_rb_tree_left_rotate_delete t5 (par t5 node)
            in (t6, rb_root t6)))"

definition delete_fixup_right :: "'v lu_rb_tree_t \<Rightarrow> rbptr \<Rightarrow> 'v lu_rb_tree_t \<times> rbptr" where
  "delete_fixup_right t node =
     (let sibling = lft t (par t node);
          (t1, sibling1) =
            (if col t sibling = RED then
               (let a = set_color (par t node) RED (set_color sibling BLACK t);
                    b = lu_rb_tree_right_rotate_delete a (par a node)
                in (b, lft b (par b node)))
             else (t, sibling))
      in if col t1 (rgt t1 sibling1) = BLACK \<and> col t1 (lft t1 sibling1) = BLACK
         then (set_color sibling1 RED t1, par (set_color sibling1 RED t1) node)
         else
           (let (t2, sibling2) =
              (if col t1 (lft t1 sibling1) = BLACK then
                 (let a = set_color (rgt t1 sibling1) BLACK t1;
                      b = lu_rb_tree_left_rotate_delete (set_color sibling1 RED a) sibling1
                  in (b, lft b (par b node)))
               else (t1, sibling1));
                t3 = set_color sibling2 (col t2 (par t2 node)) t2;
                t4 = set_color (par t3 node) BLACK t3;
                t5 = set_color (lft t4 sibling2) BLACK t4;
                t6 = lu_rb_tree_right_rotate_delete t5 (par t5 node)
            in (t6, rb_root t6)))"

fun rb_delete_fixup_loop :: "nat \<Rightarrow> 'v lu_rb_tree_t \<Rightarrow> rbptr \<Rightarrow> 'v lu_rb_tree_t option" where
  "rb_delete_fixup_loop 0 t node = None"
| "rb_delete_fixup_loop (Suc fuel) t node =
     (if node \<noteq> rb_root t \<and> col t node = BLACK
      then case_prod (rb_delete_fixup_loop fuel)
             (if node = lft t (par t node) then delete_fixup_left t node else delete_fixup_right t node)
      else Some (set_color node BLACK t))"

definition lu_rb_tree_delete_fixup :: "'v lu_rb_tree_t \<Rightarrow> rbptr \<Rightarrow> 'v lu_rb_tree_t option" where
  "lu_rb_tree_delete_fixup t node = rb_delete_fixup_loop (rb_next t + 4) t node"

text \<open>Taking the node with two children out: its successor \<open>y\<close> takes its place.\<close>

definition rb_replace :: "'v lu_rb_tree_t \<Rightarrow> rbptr \<Rightarrow> rbptr \<Rightarrow> 'v lu_rb_tree_t" where
  "rb_replace t node y =
     (let t1 = (if par t y \<noteq> node then
                  (let a = lu_rb_tree_transplant t y (rgt t y);
                       b = set_right y (rgt a node) a
                   in set_parent (rgt b y) y b)
                else t);
          t2 = lu_rb_tree_transplant t1 node y;
          t3 = set_left y (lft t2 node) t2;
          t4 = set_parent (lft t3 y) y t3
      in set_color y (col t4 node) t4)"

text \<open>The result: whether a node was deleted (and freed), and the tree.\<close>

definition rb_tree_delete :: "'v lu_rb_tree_t \<Rightarrow> int \<Rightarrow> (bool \<times> 'v lu_rb_tree_t) option" where
  "rb_tree_delete t k =
     (case lu_hash_rb_tree_find t k of
        None \<Rightarrow> None
      | Some None \<Rightarrow> Some (False, t)
      | Some (Some node) \<Rightarrow>
          (case (if lft t node = rb_nil t
                 then Some (lu_rb_tree_transplant t node (rgt t node), rgt t node, col t node)
                 else if rgt t node = rb_nil t
                 then Some (lu_rb_tree_transplant t node (lft t node), lft t node, col t node)
                 else (case lu_rb_tree_minimum t (rgt t node) of
                         None \<Rightarrow> None
                       | Some y \<Rightarrow> Some (rb_replace t node y, rgt t y, col t y))) of
             None \<Rightarrow> None
           | Some (t1, x, original_color) \<Rightarrow>
               map_option (\<lambda>t2. (True, t2))
                 (if original_color = BLACK then lu_rb_tree_delete_fixup t1 x else Some t1)))"

section \<open>Freeing\<close>

text \<open>The addresses freed, in the order of the calls.\<close>

fun rb_destroy_loop :: "nat \<Rightarrow> 'v lu_rb_tree_t \<Rightarrow> rbptr \<Rightarrow> rbptr list option" where
  "rb_destroy_loop 0 t node = None"
| "rb_destroy_loop (Suc fuel) t node =
     (if node = rb_nil t then Some []
      else (case rb_destroy_loop fuel t (lft t node) of
              None \<Rightarrow> None
            | Some a \<Rightarrow> (case rb_destroy_loop fuel t (rgt t node) of
                           None \<Rightarrow> None | Some b \<Rightarrow> Some (a @ b @ [node]))))"

definition lu_rb_tree_destroy_node :: "'v lu_rb_tree_t \<Rightarrow> rbptr \<Rightarrow> rbptr list option" where
  "lu_rb_tree_destroy_node t node = rb_destroy_loop (Suc (rb_next t)) t node"

end
