(* ===== verification/LuHashTable.thy ===== *)
theory LuHashTable
  imports LuRBTree LuErrorCodes "HOL-Library.Word" "HOL-Library.Log_Nat"
begin

text \<open>
  The hash table of \<open>src/lu_hash_table.c\<close> and \<open>include/lu_hash_table-internal.h\<close>: the hash
  function on IEEE doubles, the buckets (a list, or a red-black tree once the list is longer than
  the threshold) and the operations. Keys are C ints, given as the integers they hold; a value is a
  pointer, \<open>None\<close> the null one. The allocation wrappers end the process when memory runs out, so
  the model has the runs in which they succeed. \<open>raw\<close> is the content of fresh memory.
\<close>

unbundle bit_operations_syntax

section \<open>The hash function\<close>

text \<open>
  A double here is an integer \<open>n\<close> that stands for \<open>n / 2^53\<close>: the constant 0.6180339887 is
  the double 5566755282423243 / 2^53. \<open>rn53\<close> rounds to 53 significant bits, to nearest, ties
  to even, as the default rounding of IEEE 754 does in this range.
\<close>

definition golden_rate_reciprocal :: int where
  "golden_rate_reciprocal = 5566755282423243"

definition rn53 :: "int \<Rightarrow> int" where
  "rn53 n =
     (let a = \<bar>n\<bar>; e = nat (bitlen a - 53); q = a div 2 ^ e; r = a mod 2 ^ e
      in sgn n * ((if 2 * r > 2 ^ e \<or> 2 * r = 2 ^ e \<and> odd q then q + 1 else q) * 2 ^ e))"

text \<open>The cast of a double to an integer type drops the fraction.\<close>

definition trunc53 :: "int \<Rightarrow> int" where
  "trunc53 n = sgn n * (\<bar>n\<bar> div 2 ^ 53)"

definition hash_temp :: "int \<Rightarrow> int" where
  "hash_temp k = rn53 (k * golden_rate_reciprocal)"

definition hash_fractional_part :: "int \<Rightarrow> int" where
  "hash_fractional_part k = rn53 (hash_temp k - trunc53 (hash_temp k) * 2 ^ 53)"

definition hash_int :: "int \<Rightarrow> nat \<Rightarrow> int" where
  "hash_int k table_size = trunc53 (rn53 (rn53 (int table_size) * hash_fractional_part k))"

text \<open>The mask and the remainder are computed on \<open>size_t\<close>, to which the hash is converted.\<close>

definition lu_hash_function :: "int \<Rightarrow> nat \<Rightarrow> nat" where
  "lu_hash_function k table_size =
     (let hash = word_of_int (hash_int k table_size) :: 64 word; sz = word_of_nat table_size :: 64 word
      in if sz AND (sz - 1) = 0 then unat (hash AND (sz - 1)) else unat (hash mod sz))"

section \<open>Allocation\<close>

text \<open>The wrappers: when memory runs out they set \<open>lu_hash_erron_global_\<close> and end the process with that code,
  so that whoever called them has a pointer. \<open>got\<close> is the answer of \<open>malloc\<close> or \<open>calloc\<close>; the result is the
  global variable with the exit code or the address. What is freed is a list of addresses.\<close>

definition luhash_mm_malloc :: "nat option \<Rightarrow> int \<Rightarrow> int \<times> (int + nat)" where
  "luhash_mm_malloc got erron =
     (case got of None \<Rightarrow> (LU_ERROR_OUT_OF_MEMORY, Inl LU_ERROR_OUT_OF_MEMORY) | Some ptr \<Rightarrow> (erron, Inr ptr))"

definition luhash_mm_calloc :: "nat option \<Rightarrow> int \<Rightarrow> int \<times> (int + nat)" where
  "luhash_mm_calloc got erron =
     (case got of None \<Rightarrow> (LU_ERROR_OUT_OF_MEMORY, Inl LU_ERROR_OUT_OF_MEMORY) | Some ptr \<Rightarrow> (erron, Inr ptr))"

definition luhash_mm_free :: "nat option \<Rightarrow> nat list" where
  "luhash_mm_free ptr = (case ptr of None \<Rightarrow> [] | Some p \<Rightarrow> [p])"

section \<open>The table\<close>

definition LU_HASH_TABLE_DEFAULT_SIZE :: nat where "LU_HASH_TABLE_DEFAULT_SIZE = 16"
definition LU_HASH_BUCKET_LIST_THRESHOLD :: nat where "LU_HASH_BUCKET_LIST_THRESHOLD = 8"
definition LU_ERROR_TREE_OR_NIL_NOT_INIT :: int where "LU_ERROR_TREE_OR_NIL_NOT_INIT = 0x10C"

datatype 'v hash_bucket_data =
    LU_HASH_BUCKET_LIST "(int \<times> 'v option) list"
  | LU_HASH_BUCKET_RBTREE "'v lu_rb_tree_t option"

record 'v lu_hash_bucket_t =
  bucket_data :: "'v hash_bucket_data"
  esize_bucket :: "64 word"

text \<open>\<open>lu_hash_erron_global\<close> is the static variable of the header.\<close>

record 'v lu_hash_table_t =
  buckets :: "'v lu_hash_bucket_t list"
  table_size :: nat
  element_count :: "64 word"
  lu_hash_erron_global :: int

definition empty_bucket :: "'v lu_hash_bucket_t" where
  "empty_bucket = \<lparr>bucket_data = LU_HASH_BUCKET_LIST [], esize_bucket = 0\<rparr>"

definition lu_hash_table_init :: "nat \<Rightarrow> 'v lu_hash_table_t" where
  "lu_hash_table_init sz =
     (let n = (if sz \<le> 0 then LU_HASH_TABLE_DEFAULT_SIZE else sz)
      in \<lparr>buckets = replicate n empty_bucket, table_size = n, element_count = 0, lu_hash_erron_global = 0\<rparr>)"

section \<open>List buckets\<close>

fun lu_hash_list_find :: "(int \<times> 'v option) list \<Rightarrow> int \<Rightarrow> (int \<times> 'v option) option" where
  "lu_hash_list_find [] k = None"
| "lu_hash_list_find (e # es) k = (if fst e = k then Some e else lu_hash_list_find es k)"

text \<open>The loop of the insertion: the list with the value replaced, or \<open>None\<close> when the key is new.\<close>

fun hash_list_update :: "(int \<times> 'v option) list \<Rightarrow> int \<Rightarrow> 'v option \<Rightarrow> (int \<times> 'v option) list option" where
  "hash_list_update [] k v = None"
| "hash_list_update (e # es) k v =
     (if fst e = k then Some ((k, v) # es) else map_option ((#) e) (hash_list_update es k v))"

fun hash_list_remove :: "(int \<times> 'v option) list \<Rightarrow> int \<Rightarrow> (int \<times> 'v option) list option" where
  "hash_list_remove [] k = None"
| "hash_list_remove (e # es) k = (if fst e = k then Some es else map_option ((#) e) (hash_list_remove es k))"

text \<open>The size of the bucket is decremented at the end of the loop, which a hit does not reach.\<close>

definition lu_hash_list_delete :: "(int \<times> 'v option) list \<Rightarrow> 'v lu_hash_bucket_t \<Rightarrow> int \<Rightarrow> 'v lu_hash_bucket_t" where
  "lu_hash_list_delete es bucket k =
     (case hash_list_remove es k of
        Some es' \<Rightarrow> bucket\<lparr>bucket_data := LU_HASH_BUCKET_LIST es'\<rparr>
      | None \<Rightarrow> bucket\<lparr>esize_bucket := esize_bucket bucket - 1\<rparr>)"

section \<open>Tree buckets\<close>

fun rb_insert_all :: "'v lu_rb_tree_t \<Rightarrow> (int \<times> 'v option) list \<Rightarrow> 'v lu_rb_tree_t option" where
  "rb_insert_all t [] = Some t"
| "rb_insert_all t (e # es) = (case lu_rb_tree_insert t (fst e) (snd e) of None \<Rightarrow> None | Some t' \<Rightarrow> rb_insert_all t' es)"

text \<open>The result code and the bucket; the outer option is the fuel of the insertions.\<close>

definition lu_convert_bucket_to_rbtree ::
    "(rbptr \<Rightarrow> 'v lu_rb_tree_node_t) \<Rightarrow> 'v lu_hash_bucket_t \<Rightarrow> (int \<times> 'v lu_hash_bucket_t) option" where
  "lu_convert_bucket_to_rbtree raw bucket =
     (case bucket_data bucket of
        LU_HASH_BUCKET_RBTREE _ \<Rightarrow> Some (- 1, bucket)
      | LU_HASH_BUCKET_LIST es \<Rightarrow>
          (case rb_insert_all (lu_rb_tree_init raw) es of
             None \<Rightarrow> None
           | Some t \<Rightarrow> Some (1, bucket\<lparr>bucket_data := LU_HASH_BUCKET_RBTREE (Some t)\<rparr>)))"

definition lu_hash_rb_tree_delete :: "'v lu_rb_tree_t \<Rightarrow> 'v lu_hash_bucket_t \<Rightarrow> int \<Rightarrow> 'v lu_hash_bucket_t option" where
  "lu_hash_rb_tree_delete t bucket k =
     (case rb_tree_delete t k of
        None \<Rightarrow> None
      | Some (False, _) \<Rightarrow> Some bucket
      | Some (True, t') \<Rightarrow>
          Some (bucket\<lparr>bucket_data := LU_HASH_BUCKET_RBTREE (Some t'), esize_bucket := esize_bucket bucket - 1\<rparr>))"

section \<open>Operations of the table\<close>

definition set_bucket :: "nat \<Rightarrow> 'v lu_hash_bucket_t \<Rightarrow> 'v lu_hash_table_t \<Rightarrow> 'v lu_hash_table_t" where
  "set_bucket i b h = h\<lparr>buckets := (buckets h)[i := b]\<rparr>"

definition hash_insert_list ::
    "(rbptr \<Rightarrow> 'v lu_rb_tree_node_t) \<Rightarrow> 'v lu_hash_table_t \<Rightarrow> nat \<Rightarrow> (int \<times> 'v option) list \<Rightarrow> int \<Rightarrow> 'v option \<Rightarrow>
     'v lu_hash_table_t option" where
  "hash_insert_list raw h i es k v =
     (let bucket = buckets h ! i
      in case hash_list_update es k v of
           Some es' \<Rightarrow> Some (set_bucket i (bucket\<lparr>bucket_data := LU_HASH_BUCKET_LIST es'\<rparr>) h)
         | None \<Rightarrow>
             (let b1 = \<lparr>bucket_data = LU_HASH_BUCKET_LIST ((k, v) # es), esize_bucket = esize_bucket bucket + 1\<rparr>;
                  h1 = h\<lparr>element_count := element_count h + 1\<rparr>
              in if esize_bucket b1 > word_of_nat LU_HASH_BUCKET_LIST_THRESHOLD
                 then map_option (\<lambda>(r, b2). set_bucket i b2 h1) (lu_convert_bucket_to_rbtree raw b1)
                 else Some (set_bucket i b1 h1)))"

definition hash_insert_rbtree ::
    "'v lu_hash_table_t \<Rightarrow> nat \<Rightarrow> 'v lu_rb_tree_t option \<Rightarrow> int \<Rightarrow> 'v option \<Rightarrow> 'v lu_hash_table_t option" where
  "hash_insert_rbtree h i tree k v =
     (case tree of
        None \<Rightarrow> Some (h\<lparr>lu_hash_erron_global := LU_ERROR_TREE_OR_NIL_NOT_INIT\<rparr>)
      | Some t \<Rightarrow>
          map_option (\<lambda>t'. set_bucket i \<lparr>bucket_data = LU_HASH_BUCKET_RBTREE (Some t'),
                                         esize_bucket = esize_bucket (buckets h ! i) + 1\<rparr>
                           (h\<lparr>element_count := element_count h + 1\<rparr>))
            (lu_rb_tree_insert t k v))"

definition lu_hash_table_insert ::
    "(rbptr \<Rightarrow> 'v lu_rb_tree_node_t) \<Rightarrow> 'v lu_hash_table_t \<Rightarrow> int \<Rightarrow> 'v option \<Rightarrow> 'v lu_hash_table_t option" where
  "lu_hash_table_insert raw h k v =
     (let i = lu_hash_function k (table_size h)
      in case bucket_data (buckets h ! i) of
           LU_HASH_BUCKET_LIST es \<Rightarrow> hash_insert_list raw h i es k v
         | LU_HASH_BUCKET_RBTREE tree \<Rightarrow> hash_insert_rbtree h i tree k v)"

text \<open>A null table, and a null tree in a bucket of type tree: the first gives null, the second is
  a null dereference, which no table that the operations build has (\<open>hash_rep\<close>).\<close>

definition lu_hash_table_find :: "'v lu_hash_table_t option \<Rightarrow> int \<Rightarrow> 'v option option" where
  "lu_hash_table_find table k =
     (case table of
        None \<Rightarrow> Some None
      | Some h \<Rightarrow>
          (case bucket_data (buckets h ! lu_hash_function k (table_size h)) of
             LU_HASH_BUCKET_LIST es \<Rightarrow> Some (case lu_hash_list_find es k of Some e \<Rightarrow> snd e | None \<Rightarrow> None)
           | LU_HASH_BUCKET_RBTREE None \<Rightarrow> None
           | LU_HASH_BUCKET_RBTREE (Some t) \<Rightarrow>
               map_option (\<lambda>r. case r of Some x \<Rightarrow> rb_value (rb_mem t x) | None \<Rightarrow> None) (lu_hash_rb_tree_find t k)))"

definition lu_hash_table_delete :: "'v lu_hash_table_t \<Rightarrow> int \<Rightarrow> 'v lu_hash_table_t option" where
  "lu_hash_table_delete h k =
     (let i = lu_hash_function k (table_size h); bucket = buckets h ! i
      in map_option (\<lambda>b. (set_bucket i b h)\<lparr>element_count := element_count h - 1\<rparr>)
           (case bucket_data bucket of
              LU_HASH_BUCKET_LIST es \<Rightarrow> Some (lu_hash_list_delete es bucket k)
            | LU_HASH_BUCKET_RBTREE None \<Rightarrow> None
            | LU_HASH_BUCKET_RBTREE (Some t) \<Rightarrow> lu_hash_rb_tree_delete t bucket k))"

section \<open>Destruction\<close>

text \<open>What is given back: list nodes and tree nodes of a bucket, its sentinel, its tree, the
  array of buckets and the table, in the order of the calls.\<close>

datatype hash_free =
    Free_list_node nat nat
  | Free_tree_node nat rbptr
  | Free_nil nat
  | Free_tree nat
  | Free_buckets
  | Free_table

definition lu_hash_list_destory :: "nat \<Rightarrow> (int \<times> 'v option) list \<Rightarrow> hash_free list" where
  "lu_hash_list_destory i es = map (Free_list_node i) [0..<length es]"

definition lu_hash_rb_tree_destory :: "nat \<Rightarrow> 'v lu_rb_tree_t option \<Rightarrow> hash_free list option" where
  "lu_hash_rb_tree_destory i tree =
     (case tree of
        None \<Rightarrow> Some []
      | Some t \<Rightarrow> map_option (\<lambda>ws. map (Free_tree_node i) ws @ [Free_nil i, Free_tree i]) (lu_rb_tree_destroy_node t (rb_root t)))"

definition hash_destroy_bucket :: "nat \<Rightarrow> 'v lu_hash_bucket_t \<Rightarrow> hash_free list option" where
  "hash_destroy_bucket i bucket =
     (case bucket_data bucket of
        LU_HASH_BUCKET_LIST es \<Rightarrow> Some (lu_hash_list_destory i es)
      | LU_HASH_BUCKET_RBTREE tree \<Rightarrow> lu_hash_rb_tree_destory i tree)"

fun hash_destroy_loop :: "nat \<Rightarrow> 'v lu_hash_bucket_t list \<Rightarrow> hash_free list option" where
  "hash_destroy_loop i [] = Some [Free_buckets, Free_table]"
| "hash_destroy_loop i (b # bs) =
     (case hash_destroy_bucket i b of
        None \<Rightarrow> None
      | Some f \<Rightarrow> map_option ((@) f) (hash_destroy_loop (Suc i) bs))"

definition lu_hash_table_destroy :: "'v lu_hash_table_t option \<Rightarrow> hash_free list option" where
  "lu_hash_table_destroy table = (case table of None \<Rightarrow> Some [] | Some h \<Rightarrow> hash_destroy_loop 0 (buckets h))"

section \<open>Growing\<close>

text \<open>One entry goes to its new bucket: at the head of a list, or into a tree. The copy of this code
  for the entries of a list bucket does not look at the type of the new bucket, which is a list.\<close>

definition rehash_list_entry :: "nat \<Rightarrow> 'v lu_hash_bucket_t list \<Rightarrow> int \<times> 'v option \<Rightarrow> 'v lu_hash_bucket_t list option" where
  "rehash_list_entry n bs e =
     (let i = lu_hash_function (fst e) n; b = bs ! i
      in case bucket_data b of
           LU_HASH_BUCKET_LIST es \<Rightarrow>
             Some (bs[i := \<lparr>bucket_data = LU_HASH_BUCKET_LIST (e # es), esize_bucket = esize_bucket b + 1\<rparr>])
         | LU_HASH_BUCKET_RBTREE None \<Rightarrow> Some (bs[i := b\<lparr>esize_bucket := esize_bucket b + 1\<rparr>])
         | LU_HASH_BUCKET_RBTREE (Some t) \<Rightarrow>
             map_option (\<lambda>t'. bs[i := \<lparr>bucket_data = LU_HASH_BUCKET_RBTREE (Some t'), esize_bucket = esize_bucket b + 1\<rparr>])
               (lu_rb_tree_insert t (fst e) (snd e)))"

fun rehash_list :: "nat \<Rightarrow> 'v lu_hash_bucket_t list \<Rightarrow> (int \<times> 'v option) list \<Rightarrow> 'v lu_hash_bucket_t list option" where
  "rehash_list n bs [] = Some bs"
| "rehash_list n bs (e # es) = (case rehash_list_entry n bs e of None \<Rightarrow> None | Some bs' \<Rightarrow> rehash_list n bs' es)"

fun rb_rehash_loop :: "nat \<Rightarrow> 'v lu_rb_tree_t \<Rightarrow> rbptr \<Rightarrow> 'v lu_hash_bucket_t list \<Rightarrow> nat \<Rightarrow> 'v lu_hash_bucket_t list option" where
  "rb_rehash_loop 0 t node bs n = None"
| "rb_rehash_loop (Suc fuel) t node bs n =
     (if node \<noteq> rb_nil t then
        (case rb_rehash_loop fuel t (lft t node) bs n of
           None \<Rightarrow> None
         | Some bs1 \<Rightarrow>
             (case rb_rehash_loop fuel t (rgt t node) bs1 n of
                None \<Rightarrow> None
              | Some bs2 \<Rightarrow> rehash_list_entry n bs2 (key t node, rb_value (rb_mem t node))))
      else Some bs)"

definition lu_rb_tree_rehash :: "'v lu_rb_tree_t \<Rightarrow> rbptr \<Rightarrow> 'v lu_hash_bucket_t list \<Rightarrow> nat \<Rightarrow> 'v lu_hash_bucket_t list option" where
  "lu_rb_tree_rehash t node bs n = rb_rehash_loop (Suc (rb_next t)) t node bs n"

fun resize_loop :: "nat \<Rightarrow> 'v lu_hash_bucket_t list \<Rightarrow> 'v lu_hash_bucket_t list \<Rightarrow> 'v lu_hash_bucket_t list option" where
  "resize_loop n bs [] = Some bs"
| "resize_loop n bs (old_bucket # rest) =
     (case (case bucket_data old_bucket of
              LU_HASH_BUCKET_LIST es \<Rightarrow> rehash_list n bs es
            | LU_HASH_BUCKET_RBTREE None \<Rightarrow> None
            | LU_HASH_BUCKET_RBTREE (Some t) \<Rightarrow> lu_rb_tree_rehash t (rb_root t) bs n) of
        None \<Rightarrow> None
      | Some bs' \<Rightarrow> resize_loop n bs' rest)"

text \<open>The new size is a C int: the model is of the sizes whose double fits.\<close>

definition lu_hash_table_resize :: "'v lu_hash_table_t \<Rightarrow> 'v lu_hash_table_t option" where
  "lu_hash_table_resize h =
     (let n = table_size h * 2
      in map_option (\<lambda>bs. h\<lparr>buckets := bs, table_size := n\<rparr>) (resize_loop n (replicate n empty_bucket) (buckets h)))"

end
