(* ===== verification/LuRBTreeInv.thy ===== *)
theory LuRBTreeInv
  imports LuRBTree "HOL-Library.Tree"
begin

text \<open>
  A red-black tree on memory represents a tree of addresses (\<open>tree_at\<close>), whose in-order
  sequence of keys and values is what the tree means. Rotations change the tree and not the
  sequence; the repair after an insertion ends whatever the colours are. The colours themselves
  are not part of the relation: the code does not maintain them.
\<close>

section \<open>Trees on memory\<close>

text \<open>\<open>l\<close>, \<open>r\<close>, \<open>pr\<close> are the child and parent fields; \<open>q\<close> is the parent of the root \<open>p\<close>.\<close>

fun tree_at :: "(rbptr \<Rightarrow> rbptr) \<Rightarrow> (rbptr \<Rightarrow> rbptr) \<Rightarrow> (rbptr \<Rightarrow> rbptr) \<Rightarrow> rbptr \<Rightarrow> rbptr \<Rightarrow> rbptr \<Rightarrow> rbptr tree \<Rightarrow> bool" where
  "tree_at l r pr nil q p Leaf = (p = nil)"
| "tree_at l r pr nil q p (Node L a R) =
     (p = a \<and> a \<noteq> nil \<and> pr a = q \<and> tree_at l r pr nil a (l a) L \<and> tree_at l r pr nil a (r a) R)"

lemma tree_at_mirror: "tree_at r l pr nil q p (mirror T) = tree_at l r pr nil q p T"
  by (induction T arbitrary: q p) auto

lemma tree_at_cong:
  assumes "\<And>x. x \<in> set_tree T \<Longrightarrow> l' x = l x \<and> r' x = r x \<and> pr' x = pr x"
  shows "tree_at l' r' pr' nil q p T = tree_at l r pr nil q p T"
  using assms by (induction T arbitrary: q p) auto

lemma tree_at_nil: "tree_at l r pr nil q p T \<Longrightarrow> nil \<notin> set_tree T"
  by (induction T arbitrary: q p) auto

lemma tree_at_root: "tree_at l r pr nil q p T \<Longrightarrow> p \<noteq> nil \<longleftrightarrow> p \<in> set_tree T"
  by (cases T) (auto dest: tree_at_nil)

lemma tree_at_root_parent: "tree_at l r pr nil q p T \<Longrightarrow> p \<noteq> nil \<Longrightarrow> pr p = q"
  by (cases T) auto

lemma tree_at_children:
  "tree_at l r pr nil q p T \<Longrightarrow> x \<in> set_tree T \<Longrightarrow>
     (l x = nil \<or> l x \<in> set_tree T \<and> pr (l x) = x) \<and> (r x = nil \<or> r x \<in> set_tree T \<and> pr (r x) = x)"
proof (induction T arbitrary: q p)
  case (Node L a R)
  have c: "l a = nil \<or> l a \<in> set_tree L \<and> pr (l a) = a" "r a = nil \<or> r a \<in> set_tree R \<and> pr (r a) = a"
    using Node.prems tree_at_root tree_at_root_parent by fastforce+
  show ?case using Node c by auto
qed simp

lemma tree_at_parent:
  "tree_at l r pr nil q p T \<Longrightarrow> x \<in> set_tree T \<Longrightarrow>
     x = p \<and> pr x = q \<or> pr x \<in> set_tree T \<and> (x = l (pr x) \<or> x = r (pr x))"
proof (induction T arbitrary: q p)
  case (Node L a R)
  show ?case
  proof (cases "x = a")
    case False
    then have "x \<in> set_tree L \<or> x \<in> set_tree R" using Node.prems by simp
    then show ?thesis using Node.IH Node.prems by fastforce
  qed (use Node.prems in simp)
qed simp

lemma distinct_node:
  "distinct (inorder (Node L a R)) \<longleftrightarrow> distinct (inorder L) \<and> distinct (inorder R) \<and> a \<notin> set_tree L \<and> a \<notin> set_tree R \<and>
     set_tree L \<inter> set_tree R = {}"
  by auto

lemma tree_at_child_in:
  assumes t: "tree_at l r pr nil q p (Node L a R)" and d: "distinct (inorder (Node L a R))"
    and x: "x \<in> set_tree L"
  shows "l x = nil \<or> l x \<in> set_tree L" "r x = nil \<or> r x \<in> set_tree L"
    "x = l a \<and> pr x = a \<or> pr x \<in> set_tree L"
  using t x tree_at_children [of l r pr nil a "l a" L x] tree_at_parent [of l r pr nil a "l a" L x] by auto

lemma tree_at_distinct_children:
  assumes "tree_at l r pr nil q p T" "distinct (inorder T)" "x \<in> set_tree T" "l x = r x"
  shows "l x = nil"
  using assms
proof (induction T arbitrary: q p)
  case (Node L a R)
  show ?case
  proof (cases "x = a")
    case True
    then have "l a \<noteq> nil \<Longrightarrow> l a \<in> set_tree L \<inter> set_tree R"
      using Node.prems tree_at_root [of l r pr nil a "l a" L] tree_at_root [of l r pr nil a "r a" R] by auto
    then show ?thesis using Node.prems(2) True by auto
  qed (use Node in auto)
qed simp

section \<open>Rotations\<close>

fun rotR :: "rbptr \<Rightarrow> rbptr tree \<Rightarrow> rbptr tree" where
  "rotR x Leaf = Leaf"
| "rotR x (Node L a R) =
     (if a = x then (case L of Leaf \<Rightarrow> Node L a R | Node LL b LR \<Rightarrow> Node LL b (Node LR a R))
      else Node (rotR x L) a (rotR x R))"

definition rotL :: "rbptr \<Rightarrow> rbptr tree \<Rightarrow> rbptr tree" where
  "rotL x T = mirror (rotR x (mirror T))"

lemma inorder_rotR [simp]: "inorder (rotR x T) = inorder T"
  by (induction T) (auto split: tree.split)

lemma inorder_rotL [simp]: "inorder (rotL x T) = inorder T"
  by (simp add: rotL_def inorder_mirror)

lemma set_rot [simp]: "set_tree (rotR x T) = set_tree T" "set_tree (rotL x T) = set_tree T"
  by (metis inorder_rotR inorder_rotL set_inorder)+

lemma rotR_other: "x \<notin> set_tree T \<Longrightarrow> rotR x T = T"
  by (induction T) auto

text \<open>How the fields change in a right rotation at \<open>x\<close>.\<close>

definition rotated ::
    "rbptr \<Rightarrow> rbptr \<Rightarrow> (rbptr \<Rightarrow> rbptr) \<Rightarrow> (rbptr \<Rightarrow> rbptr) \<Rightarrow> (rbptr \<Rightarrow> rbptr) \<Rightarrow> (rbptr \<Rightarrow> rbptr) \<Rightarrow> (rbptr \<Rightarrow> rbptr) \<Rightarrow> (rbptr \<Rightarrow> rbptr) \<Rightarrow> bool" where
  "rotated nil x l r pr l' r' pr' \<longleftrightarrow>
     (\<forall>y. l' y = (if y = x then r (l x) else if y = pr x \<and> x = l y \<and> y \<noteq> nil then l x else l y)) \<and>
     (\<forall>y. r' y = (if y = l x then x else if y = pr x \<and> x = r y \<and> y \<noteq> nil then l x else r y)) \<and>
     (\<forall>y. pr' y = (if y = x then l x else if y = l x then pr x else if y = r (l x) \<and> y \<noteq> nil then x else pr y))"

lemma rotated_frame:
  assumes "rotated nil x l r pr l' r' pr'" "y \<noteq> x" "y \<noteq> l x" "y \<noteq> r (l x)" "y \<noteq> pr x"
  shows "l' y = l y \<and> r' y = r y \<and> pr' y = pr y"
  using assms by (simp add: rotated_def)

lemma rotated_root:
  assumes ro: "rotated nil x l r pr l' r' pr'" and t: "tree_at l r pr nil q x (Node L x R)"
    and d: "distinct (inorder (Node L x R))" and L: "l x \<noteq> nil" and q: "q \<notin> set_tree (Node L x R)"
  shows "tree_at l' r' pr' nil q (l x) (rotR x (Node L x R))"
proof -
  obtain LL LR where l: "L = Node LL (l x) LR" using t L by (cases L) auto
  have px: "pr x = q" and tl: "tree_at l r pr nil (l x) (l (l x)) LL" "tree_at l r pr nil (l x) (r (l x)) LR"
    and tr: "tree_at l r pr nil x (r x) R" using t unfolding l by auto
  have n: "nil \<notin> set_tree (Node L x R)" using tree_at_nil [OF t] .
  have rl: "r (l x) \<in> set_tree LR \<or> r (l x) = nil" using tree_at_root [OF tl(2)] by blast
  have ds: "distinct (inorder LL)" "distinct (inorder LR)" "x \<notin> set_tree LL" "x \<notin> set_tree LR" "x \<notin> set_tree R" "l x \<noteq> x"
    "l x \<notin> set_tree LL" "l x \<notin> set_tree LR" "l x \<notin> set_tree R" "set_tree LL \<inter> set_tree LR = {}" "set_tree LL \<inter> set_tree R = {}"
    "set_tree LR \<inter> set_tree R = {}"
    using d unfolding l by auto
  have qn: "q \<notin> set_tree LL" "q \<notin> set_tree LR" "q \<notin> set_tree R" "q \<noteq> x" "q \<noteq> l x" using q unfolding l by auto
  have nn: "nil \<notin> set_tree LL" "nil \<notin> set_tree LR" "nil \<notin> set_tree R" "x \<noteq> nil" using n unfolding l by auto
  have fr: "y \<in> set_tree LL \<union> set_tree R \<Longrightarrow> l' y = l y \<and> r' y = r y \<and> pr' y = pr y" for y
    using rotated_frame [OF ro, of y] ds qn rl nn px by auto
  have LL': "tree_at l' r' pr' nil (l x) (l (l x)) LL" "tree_at l' r' pr' nil x (r x) R"
    using tl(1) tr tree_at_cong [of LL l' l r' r pr' pr] tree_at_cong [of R l' l r' r pr' pr] fr by auto
  have LR': "tree_at l' r' pr' nil x (r (l x)) LR"
  proof (cases LR)
    case (Node A b B)
    have b: "b = r (l x)" "b \<noteq> nil" using tl(2) Node by auto
    have "y \<in> set_tree A \<union> set_tree B \<Longrightarrow> l' y = l y \<and> r' y = r y \<and> pr' y = pr y" for y
      using rotated_frame [OF ro, of y] ds qn b px Node by auto
    then have "tree_at l' r' pr' nil b (l b) A" "tree_at l' r' pr' nil b (r b) B"
      using tl(2) Node tree_at_cong [of A l' l r' r pr' pr] tree_at_cong [of B l' l r' r pr' pr] by auto
    moreover have "l' b = l b" "r' b = r b" "pr' b = x"
      using ro b ds qn Node px unfolding rotated_def by auto
    ultimately show ?thesis using Node b by simp
  qed (use tl(2) in simp)
  have "l' x = r (l x)" "r' x = r x" "pr' x = l x" "l' (l x) = l (l x)" "r' (l x) = x" "pr' (l x) = q"
    using ro ds qn px unfolding rotated_def by auto
  then show ?thesis using LL' LR' L nn unfolding l by simp
qed

lemma rotated_tree_at:
  assumes ro: "rotated nil x l r pr l' r' pr'"
  shows "tree_at l r pr nil q p T \<Longrightarrow> distinct (inorder T) \<Longrightarrow> x \<in> set_tree T \<Longrightarrow> l x \<noteq> nil \<Longrightarrow> q \<notin> set_tree T \<Longrightarrow>
    tree_at l' r' pr' nil q (if p = x then l x else p) (rotR x T)"
proof (induction T arbitrary: q p)
  case (Node L a R)
  have p: "p = a" "a \<noteq> nil" "pr a = q" and tl: "tree_at l r pr nil a (l a) L" and tr: "tree_at l r pr nil a (r a) R"
    using Node.prems by auto
  have d: "distinct (inorder L)" "distinct (inorder R)" "a \<notin> set_tree L" "a \<notin> set_tree R" "set_tree L \<inter> set_tree R = {}"
    using Node.prems(2) by auto
  have nn: "nil \<notin> set_tree L" "nil \<notin> set_tree R" using tree_at_nil [OF tl] tree_at_nil [OF tr] by auto
  have dj: "y \<in> set_tree L \<Longrightarrow> y \<notin> set_tree R" for y using d(5) by auto
  show ?case
  proof (cases "a = x")
    case True
    then show ?thesis using rotated_root [OF ro] Node.prems p by auto
  next
    case False
    note A = tree_at_children [OF Node.prems(1,3)] tree_at_parent [OF Node.prems(1,3)]
    consider (left) "x \<in> set_tree L" "x \<notin> set_tree R" | (right) "x \<in> set_tree R" "x \<notin> set_tree L"
      using Node.prems(3) False d by auto
    then show ?thesis
    proof cases
      case left
      have c: "l x \<in> set_tree L" "r (l x) = nil \<or> r (l x) \<in> set_tree L" "x = l a \<and> pr x = a \<or> pr x \<in> set_tree L"
        using tree_at_children [OF tl left(1)] tree_at_parent [OF tl left(1)] Node.prems(4)
          tree_at_children [OF tl, of "l x"] by auto
      have ra: "r a \<noteq> x" using tree_at_root [OF tr] left nn p by (metis tree_at_nil tl)
      have up: "x = l a \<Longrightarrow> pr x = a" using tree_at_root_parent [OF tl] left nn by metis
      have ne: "a \<noteq> l x" "a \<noteq> r (l x)" using c d p by auto
      have px: "a = pr x \<Longrightarrow> x = l a" using c(3) d by auto
      have f: "l' a = (if l a = x then l x else l a)" "r' a = r a" "pr' a = q"
        using ro ne False p ra up px unfolding rotated_def by metis+
      have fr: "y \<in> set_tree R \<Longrightarrow> l' y = l y \<and> r' y = r y \<and> pr' y = pr y" for y
        by (rule rotated_frame [OF ro]) (use c dj d(3,4) nn left in metis)+
      have "tree_at l' r' pr' nil a (if l a = x then l x else l a) (rotR x L)"
        using Node.IH(1) [OF tl d(1) left(1) Node.prems(4) d(3)] .
      moreover have "tree_at l' r' pr' nil a (r a) R" using tr tree_at_cong [of R l' l r' r pr' pr] fr by blast
      ultimately show ?thesis using False p f rotR_other [OF left(2)] by auto
    next
      case right
      have c: "l x \<in> set_tree R" "r (l x) = nil \<or> r (l x) \<in> set_tree R" "x = r a \<and> pr x = a \<or> pr x \<in> set_tree R"
        using tree_at_children [OF tr right(1)] tree_at_parent [OF tr right(1)] Node.prems(4)
          tree_at_children [OF tr, of "l x"] by auto
      have la: "l a \<noteq> x" using tree_at_root [OF tl] right nn p by (metis tree_at_nil tr)
      have up: "x = r a \<Longrightarrow> pr x = a" using tree_at_root_parent [OF tr] right nn by metis
      have ne: "a \<noteq> l x" "a \<noteq> r (l x)" using c d p by auto
      have px: "a = pr x \<Longrightarrow> x = r a" using c(3) d by auto
      have f: "r' a = (if r a = x then l x else r a)" "l' a = l a" "pr' a = q"
        using ro ne False p la up px unfolding rotated_def by metis+
      have fr: "y \<in> set_tree L \<Longrightarrow> l' y = l y \<and> r' y = r y \<and> pr' y = pr y" for y
        by (rule rotated_frame [OF ro]) (use c dj d(3,4) nn right in metis)+
      have "tree_at l' r' pr' nil a (if r a = x then l x else r a) (rotR x R)"
        using Node.IH(2) [OF tr d(2) right(1) Node.prems(4) d(4)] .
      moreover have "tree_at l' r' pr' nil a (l a) L" using tl tree_at_cong [of L l' l r' r pr' pr] fr by blast
      ultimately show ?thesis using False p f rotR_other [OF right(2)] by auto
    qed
  qed
qed simp


section \<open>The depth of a node\<close>

fun depth :: "rbptr \<Rightarrow> rbptr tree \<Rightarrow> nat" where
  "depth x Leaf = 0"
| "depth x (Node L a R) = (if x = a then 1 else if x \<in> set_tree L then Suc (depth x L) else Suc (depth x R))"

lemma depth_le_size: "depth x T \<le> Suc (size T)"
  by (induction T) auto

lemma depth_pos: "x \<in> set_tree T \<Longrightarrow> 1 \<le> depth x T"
  by (cases T) auto

lemma depth_size: "x \<in> set_tree T \<Longrightarrow> depth x T \<le> size T"
  by (induction T) auto

lemma depth_parent:
  "tree_at l r pr nil q p T \<Longrightarrow> distinct (inorder T) \<Longrightarrow> x \<in> set_tree T \<Longrightarrow> pr x \<in> set_tree T \<Longrightarrow> q \<notin> set_tree T \<Longrightarrow>
     depth x T = Suc (depth (pr x) T)"
proof (induction T arbitrary: q p)
  case (Node L a R)
  have tl: "tree_at l r pr nil a (l a) L" and tr: "tree_at l r pr nil a (r a) R" and pa: "pr a = q" using Node.prems by auto
  have d: "distinct (inorder L)" "distinct (inorder R)" "a \<notin> set_tree L" "a \<notin> set_tree R"
    and dj: "\<And>y. y \<in> set_tree L \<Longrightarrow> y \<notin> set_tree R" using Node.prems(2) by auto
  have xa: "x \<noteq> a" using Node.prems(4,5) pa by auto
  show ?case
  proof (cases "x \<in> set_tree L")
    case True
    then consider "x = l a" "pr x = a" | "pr x \<in> set_tree L" using tree_at_parent [OF tl True] by auto
    then show ?thesis
    proof cases
      case 1
      then have "depth x L = 1" using tl True by (cases L) auto
      then show ?thesis using 1 True xa by simp
    next
      case 2
      then show ?thesis using Node.IH(1) [OF tl d(1) True 2 d(3)] True xa d by auto
    qed
  next
    case False
    then have R: "x \<in> set_tree R" using Node.prems(3) xa by simp
    then consider "x = r a" "pr x = a" | "pr x \<in> set_tree R" using tree_at_parent [OF tr R] by auto
    then show ?thesis
    proof cases
      case 1
      then have "depth x R = 1" using tr R by (cases R) auto
      then show ?thesis using 1 False xa by simp
    next
      case 2
      moreover have "pr x \<notin> set_tree L" using dj 2 by blast
      moreover have "pr x \<noteq> a" using 2 d by auto
      ultimately show ?thesis using Node.IH(2) [OF tr d(2) R 2 d(4)] False xa by simp
    qed
  qed
qed simp

lemma set_tree_mirror [simp]: "set_tree (mirror T) = set_tree T"
  by (induction T) auto

lemma depth_mirror: "distinct (inorder T) \<Longrightarrow> x \<in> set_tree T \<Longrightarrow> depth x (mirror T) = depth x T"
  by (induction T) (auto simp: disjoint_iff)

lemma depth_rotR:
  "tree_at l r pr nil q p T \<Longrightarrow> distinct (inorder T) \<Longrightarrow> x \<in> set_tree T \<Longrightarrow> l x \<noteq> nil \<Longrightarrow>
     depth (l x) (rotR x T) = depth x T"
proof (induction T arbitrary: q p)
  case (Node L a R)
  have tl: "tree_at l r pr nil a (l a) L" and tr: "tree_at l r pr nil a (r a) R" using Node.prems by auto
  have d: "distinct (inorder L)" "distinct (inorder R)" "a \<notin> set_tree L" "a \<notin> set_tree R"
    and dj: "\<And>y. y \<in> set_tree L \<Longrightarrow> y \<notin> set_tree R" using Node.prems(2) by auto
  consider "x = a" | "x \<noteq> a" "x \<in> set_tree L" | "x \<noteq> a" "x \<notin> set_tree L" "x \<in> set_tree R" using Node.prems(3) by auto
  then show ?case
  proof cases
    case 1
    then show ?thesis using tl Node.prems(4) by (cases L) auto
  next
    case 2
    have b: "l x \<in> set_tree L" using tree_at_children [OF tl 2(2)] Node.prems(4) by blast
    then have "l x \<noteq> a" using d by auto
    then show ?thesis using 2 b Node.IH(1) [OF tl d(1) 2(2) Node.prems(4)] by auto
  next
    case 3
    have b: "l x \<in> set_tree R" using tree_at_children [OF tr 3(3)] Node.prems(4) by blast
    then have "l x \<noteq> a" "l x \<notin> set_tree L" using d dj by auto
    then show ?thesis using 3 Node.IH(2) [OF tr d(2) 3(3) Node.prems(4)] by (auto simp: rotR_other)
  qed
qed simp

text \<open>What lies around a node of the tree.\<close>

lemma tree_at_subtree:
  "tree_at l r pr nil q p T \<Longrightarrow> distinct (inorder T) \<Longrightarrow> x \<in> set_tree T \<Longrightarrow> q \<notin> set_tree T \<Longrightarrow>
     \<exists>L R. tree_at l r pr nil (pr x) x (Node L x R) \<and> distinct (inorder (Node L x R)) \<and> pr x \<notin> set_tree (Node L x R)"
proof (induction T arbitrary: q p)
  case (Node L a R)
  show ?case
  proof (cases "x = a")
    case True
    then show ?thesis using Node.prems by (intro exI [of _ L] exI [of _ R]) auto
  next
    case False
    then show ?thesis using Node.prems Node.IH(1) [of a "l a"] Node.IH(2) [of a "r a"] by auto
  qed
qed simp

lemma around_left:
  assumes t: "tree_at l r pr nil q p T" "distinct (inorder T)" "x \<in> set_tree T" "q \<notin> set_tree T" and L: "l x \<noteq> nil"
  shows "x \<noteq> l x" "pr x \<noteq> x" "pr x \<noteq> l x" "r (l x) \<noteq> x" "r (l x) \<noteq> l x" "r (l x) \<noteq> nil \<Longrightarrow> r (l x) \<noteq> pr x" "x \<noteq> nil" "pr (l x) = x"
    "l (l x) \<noteq> nil \<Longrightarrow> l (l x) \<noteq> r (l x)" "l (l x) \<noteq> x"
proof -
  obtain A B where s: "tree_at l r pr nil (pr x) x (Node A x B)" "distinct (inorder (Node A x B))" "pr x \<notin> set_tree (Node A x B)"
    using tree_at_subtree [OF t] by blast
  then obtain C D where A: "A = Node C (l x) D" using L by (cases A) auto
  have cd: "tree_at l r pr nil (l x) (l (l x)) C" "tree_at l r pr nil (l x) (r (l x)) D" using s(1) unfolding A by auto
  have C: "l (l x) = nil \<or> l (l x) \<in> set_tree C" and D: "r (l x) = nil \<or> r (l x) \<in> set_tree D"
    using tree_at_root [OF cd(1)] tree_at_root [OF cd(2)] by blast+
  show "x \<noteq> l x" "pr x \<noteq> x" "pr x \<noteq> l x" "x \<noteq> nil" "pr (l x) = x" using s unfolding A by auto
  show "r (l x) \<noteq> x" "r (l x) \<noteq> l x" "r (l x) \<noteq> nil \<Longrightarrow> r (l x) \<noteq> pr x" "l (l x) \<noteq> x" "l (l x) \<noteq> nil \<Longrightarrow> l (l x) \<noteq> r (l x)"
    using s C D unfolding A by auto
qed

end
