(* ===== verification/LuRBTreeOps.thy ===== *)
theory LuRBTreeOps
  imports LuRBTreeInv
begin

text \<open>
  The operations of the red-black tree on trees that are well formed on memory: the rotations are
  those of \<open>LuRBTreeInv\<close>, the repair after an insertion ends within its fuel and keeps the
  sequence, insertion puts the key at its place, and the search finds what is stored.
\<close>

section \<open>Well-formed trees\<close>

definition rb_shape :: "'v lu_rb_tree_t \<Rightarrow> rbptr tree \<Rightarrow> bool" where
  "rb_shape t T \<longleftrightarrow>
     tree_at (lft t) (rgt t) (par t) (rb_nil t) (rb_nil t) (rb_root t) T \<and> distinct (inorder T) \<and>
     lft t (rb_nil t) = rb_nil t \<and> rgt t (rb_nil t) = rb_nil t \<and> rb_nil t < rb_next t \<and> (\<forall>x\<in>set_tree T. x < rb_next t)"

text \<open>What the repair of the shape leaves alone.\<close>

definition rb_same :: "'v lu_rb_tree_t \<Rightarrow> 'v lu_rb_tree_t \<Rightarrow> bool" where
  "rb_same t t' \<longleftrightarrow> rb_nil t' = rb_nil t \<and> rb_next t' = rb_next t \<and>
     (\<forall>x. rb_key (rb_mem t' x) = rb_key (rb_mem t x) \<and> rb_value (rb_mem t' x) = rb_value (rb_mem t x))"

lemma rb_same_refl [simp]: "rb_same t t"
  by (simp add: rb_same_def)

lemma rb_same_trans [trans]: "rb_same a b \<Longrightarrow> rb_same b c \<Longrightarrow> rb_same a c"
  by (simp add: rb_same_def)

lemmas set_field_defs = set_left_def set_right_def set_parent_def set_color_def

lemma set_color_fields [simp]:
  "rb_root (set_color x c t) = rb_root t" "rb_nil (set_color x c t) = rb_nil t" "rb_next (set_color x c t) = rb_next t"
  "lft (set_color x c t) y = lft t y" "rgt (set_color x c t) y = rgt t y" "par (set_color x c t) y = par t y"
  "key (set_color x c t) y = key t y" "rb_value (rb_mem (set_color x c t) y) = rb_value (rb_mem t y)"
  "col (set_color x c t) y = (if y = x then c else col t y)"
  by (simp_all add: set_color_def)

lemma set_left_fields [simp]:
  "rb_root (set_left x z t) = rb_root t" "rb_nil (set_left x z t) = rb_nil t" "rb_next (set_left x z t) = rb_next t"
  "lft (set_left x z t) y = (if y = x then z else lft t y)" "rgt (set_left x z t) y = rgt t y" "par (set_left x z t) y = par t y"
  "key (set_left x z t) y = key t y" "rb_value (rb_mem (set_left x z t) y) = rb_value (rb_mem t y)"
  "col (set_left x z t) y = col t y"
  by (simp_all add: set_left_def)

lemma set_right_fields [simp]:
  "rb_root (set_right x z t) = rb_root t" "rb_nil (set_right x z t) = rb_nil t" "rb_next (set_right x z t) = rb_next t"
  "rgt (set_right x z t) y = (if y = x then z else rgt t y)" "lft (set_right x z t) y = lft t y" "par (set_right x z t) y = par t y"
  "key (set_right x z t) y = key t y" "rb_value (rb_mem (set_right x z t) y) = rb_value (rb_mem t y)"
  "col (set_right x z t) y = col t y"
  by (simp_all add: set_right_def)

lemma set_parent_fields [simp]:
  "rb_root (set_parent x z t) = rb_root t" "rb_nil (set_parent x z t) = rb_nil t" "rb_next (set_parent x z t) = rb_next t"
  "par (set_parent x z t) y = (if y = x then z else par t y)" "lft (set_parent x z t) y = lft t y" "rgt (set_parent x z t) y = rgt t y"
  "key (set_parent x z t) y = key t y" "rb_value (rb_mem (set_parent x z t) y) = rb_value (rb_mem t y)"
  "col (set_parent x z t) y = col t y"
  by (simp_all add: set_parent_def)

text \<open>The writes that leave keys, values and the bounds of the memory alone.\<close>

lemma rb_same_set [simp]:
  "rb_same t (set_color x c t') = rb_same t t'" "rb_same t (set_left x z t') = rb_same t t'"
  "rb_same t (set_right x z t') = rb_same t t'" "rb_same t (set_parent x z t') = rb_same t t'"
  "rb_same t (t'\<lparr>rb_root := z\<rparr>) = rb_same t t'" "rb_same (set_color x c t) t' = rb_same t t'"
  "rb_same t (if b then t' else t'') = (if b then rb_same t t' else rb_same t t'')"
  by (simp_all add: rb_same_def)

lemma rb_shape_color [simp]: "rb_shape (set_color x c t) T = rb_shape t T"
  by (simp add: rb_shape_def)

lemma rb_shape_nil: "rb_shape t T \<Longrightarrow> rb_nil t \<notin> set_tree T"
  by (auto simp: rb_shape_def dest: tree_at_nil)

lemma rb_shape_root: "rb_shape t T \<Longrightarrow> rb_root t \<noteq> rb_nil t \<longleftrightarrow> rb_root t \<in> set_tree T"
  by (metis rb_shape_def tree_at_root)

lemma rb_shape_tree: "rb_shape t T \<Longrightarrow> tree_at (lft t) (rgt t) (par t) (rb_nil t) (rb_nil t) (rb_root t) T"
  by (simp add: rb_shape_def)

lemma rb_shape_distinct: "rb_shape t T \<Longrightarrow> distinct (inorder T)"
  by (simp add: rb_shape_def)

lemma rb_parent_in:
  assumes "rb_shape t T" "x \<in> set_tree T"
  shows "par t x = rb_nil t \<longleftrightarrow> rb_root t = x" "par t x \<noteq> rb_nil t \<Longrightarrow> par t x \<in> set_tree T"
    "par t x \<noteq> rb_nil t \<Longrightarrow> lft t (par t x) = x \<longleftrightarrow> rgt t (par t x) \<noteq> x"
proof -
  note T = rb_shape_tree [OF assms(1)] and n = rb_shape_nil [OF assms(1)]
  have c: "x = rb_root t \<and> par t x = rb_nil t \<or> par t x \<in> set_tree T \<and> (x = lft t (par t x) \<or> x = rgt t (par t x))"
    using tree_at_parent [OF T assms(2)] by blast
  show 1: "par t x = rb_nil t \<longleftrightarrow> rb_root t = x" using c n tree_at_root_parent [OF T] assms(2) by metis
  show 2: "par t x \<noteq> rb_nil t \<Longrightarrow> par t x \<in> set_tree T" using c by auto
  show "par t x \<noteq> rb_nil t \<Longrightarrow> lft t (par t x) = x \<longleftrightarrow> rgt t (par t x) \<noteq> x"
    using c tree_at_distinct_children [OF T rb_shape_distinct [OF assms(1)] 2] n assms(2) by metis
qed

section \<open>Rotations\<close>

lemma right_rotate_nil [simp]: "lft t x = rb_nil t \<Longrightarrow> lu_rb_tree_right_rotate t x = t"
  by (simp add: lu_rb_tree_right_rotate_def)

lemma left_rotate_nil [simp]: "rgt t x = rb_nil t \<Longrightarrow> lu_rb_tree_left_rotate t x = t"
  by (simp add: lu_rb_tree_left_rotate_def)

lemma rotate_same [simp]: "rb_same t (lu_rb_tree_right_rotate t x)" "rb_same t (lu_rb_tree_left_rotate t x)"
  unfolding lu_rb_tree_right_rotate_def lu_rb_tree_left_rotate_def Let_def by simp_all

lemma rotate_color [simp]: "col (lu_rb_tree_right_rotate t x) y = col t y" "col (lu_rb_tree_left_rotate t x) y = col t y"
  unfolding lu_rb_tree_right_rotate_def lu_rb_tree_left_rotate_def Let_def by (simp_all add: if_distrib [of "\<lambda>t. col t y"] cong: if_cong)

lemma right_rotated:
  assumes s: "rb_shape t T" and x: "x \<in> set_tree T" and L: "lft t x \<noteq> rb_nil t"
  shows "rotated (rb_nil t) x (lft t) (rgt t) (par t) (lft (lu_rb_tree_right_rotate t x)) (rgt (lu_rb_tree_right_rotate t x))
      (par (lu_rb_tree_right_rotate t x))"
    "rb_root (lu_rb_tree_right_rotate t x) = (if rb_root t = x then lft t x else rb_root t)"
proof -
  note a = around_left [OF rb_shape_tree [OF s] rb_shape_distinct [OF s] x rb_shape_nil [OF s] L]
  note b = rb_parent_in [OF s x]
  define left where "left = lft t x"
  define t1 where "t1 = set_left x (rgt t left) t"
  define t2 where "t2 = (if rgt t1 left \<noteq> rb_nil t1 then set_parent (rgt t1 left) x t1 else t1)"
  define t3 where "t3 = set_parent left (par t2 x) t2"
  define t4 where "t4 = (if par t3 x = rb_nil t3 then t3\<lparr>rb_root := left\<rparr>
                   else if x = lft t3 (par t3 x) then set_left (par t3 x) left t3
                   else set_right (par t3 x) left t3)"
  have r: "lu_rb_tree_right_rotate t x = set_parent x left (set_right left x t4)"
    unfolding lu_rb_tree_right_rotate_def Let_def t4_def t3_def t2_def t1_def left_def using L by (rule if_not_P)
  note a = a(1-7) [folded left_def]
  have 2: "\<And>y. lft t2 y = (if y = x then rgt t left else lft t y)" "\<And>y. rgt t2 y = rgt t y" "rb_root t2 = rb_root t" "rb_nil t2 = rb_nil t"
    "\<And>y. par t2 y = (if y = rgt t left \<and> y \<noteq> rb_nil t then x else par t y)"
    by (auto simp: t2_def t1_def)
  have 3: "\<And>y. lft t3 y = (if y = x then rgt t left else lft t y)" "\<And>y. rgt t3 y = rgt t y" "rb_root t3 = rb_root t" "rb_nil t3 = rb_nil t"
    "\<And>y. par t3 y = (if y = left then par t x else if y = rgt t left \<and> y \<noteq> rb_nil t then x else par t y)"
    using a(4) by (auto simp: t3_def 2)
  define bl where "bl \<longleftrightarrow> x = lft t (par t x)"
  have c: "par t3 x = par t x" "(x = lft t3 (par t x)) = bl" using a(1-5) by (simp_all add: 3 bl_def)
  have 4: "\<And>y. par t4 y = par t3 y" "rb_nil t4 = rb_nil t" "rb_root t4 = (if par t x = rb_nil t then left else rb_root t)"
    "\<And>y. lft t4 y = (if y = par t x \<and> bl \<and> y \<noteq> rb_nil t then left else lft t3 y)"
    "\<And>y. rgt t4 y = (if y = par t x \<and> \<not> bl \<and> y \<noteq> rb_nil t then left else rgt t3 y)"
    unfolding t4_def c by (simp_all add: 3(3,4))
  have p: "\<And>y. (y = par t x \<and> x = lft t y \<and> y \<noteq> rb_nil t) = (y = par t x \<and> bl \<and> y \<noteq> rb_nil t)"
    "\<And>y. (y = par t x \<and> x = rgt t y \<and> y \<noteq> rb_nil t) = (y = par t x \<and> \<not> bl \<and> y \<noteq> rb_nil t)"
    using b(3) unfolding bl_def by metis+
  show "rotated (rb_nil t) x (lft t) (rgt t) (par t) (lft (lu_rb_tree_right_rotate t x)) (rgt (lu_rb_tree_right_rotate t x))
      (par (lu_rb_tree_right_rotate t x))"
    unfolding rotated_def r left_def [symmetric] p by (intro conjI allI; use a in \<open>simp add: 4 3\<close>)
  show "rb_root (lu_rb_tree_right_rotate t x) = (if rb_root t = x then lft t x else rb_root t)"
    unfolding r left_def [symmetric] using b(1) by (simp add: 4)
qed

lemma left_rotated:
  assumes s: "rb_shape t T" and x: "x \<in> set_tree T" and L: "rgt t x \<noteq> rb_nil t"
  shows "rotated (rb_nil t) x (rgt t) (lft t) (par t) (rgt (lu_rb_tree_left_rotate t x)) (lft (lu_rb_tree_left_rotate t x))
      (par (lu_rb_tree_left_rotate t x))"
    "rb_root (lu_rb_tree_left_rotate t x) = (if rb_root t = x then rgt t x else rb_root t)"
proof -
  have M: "tree_at (rgt t) (lft t) (par t) (rb_nil t) (rb_nil t) (rb_root t) (mirror T)" "distinct (inorder (mirror T))"
    "x \<in> set_tree (mirror T)" "rb_nil t \<notin> set_tree (mirror T)"
    using s x rb_shape_nil [OF s] by (simp_all add: rb_shape_def tree_at_mirror inorder_mirror)
  note a = around_left [OF M L]
  note b = rb_parent_in [OF s x]
  define right where "right = rgt t x"
  define t1 where "t1 = set_right x (lft t right) t"
  define t2 where "t2 = (if lft t1 right \<noteq> rb_nil t1 then set_parent (lft t1 right) x t1 else t1)"
  define t3 where "t3 = set_parent right (par t2 x) t2"
  define t4 where "t4 = (if par t3 x = rb_nil t3 then t3\<lparr>rb_root := right\<rparr>
                   else if x = lft t3 (par t3 x) then set_left (par t3 x) right t3
                   else set_right (par t3 x) right t3)"
  have r: "lu_rb_tree_left_rotate t x = set_parent x right (set_left right x t4)"
    unfolding lu_rb_tree_left_rotate_def Let_def t4_def t3_def t2_def t1_def right_def using L by (rule if_not_P)
  note a = a(1-7) [folded right_def]
  have 2: "\<And>y. rgt t2 y = (if y = x then lft t right else rgt t y)" "\<And>y. lft t2 y = lft t y" "rb_root t2 = rb_root t" "rb_nil t2 = rb_nil t"
    "\<And>y. par t2 y = (if y = lft t right \<and> y \<noteq> rb_nil t then x else par t y)"
    by (auto simp: t2_def t1_def)
  have 3: "\<And>y. rgt t3 y = (if y = x then lft t right else rgt t y)" "\<And>y. lft t3 y = lft t y" "rb_root t3 = rb_root t" "rb_nil t3 = rb_nil t"
    "\<And>y. par t3 y = (if y = right then par t x else if y = lft t right \<and> y \<noteq> rb_nil t then x else par t y)"
    using a(4) by (auto simp: t3_def 2)
  define bl where "bl \<longleftrightarrow> x = lft t (par t x)"
  have c: "par t3 x = par t x" "(x = lft t3 (par t x)) = bl" using a(1-5) by (simp_all add: 3 bl_def)
  have 4: "\<And>y. par t4 y = par t3 y" "rb_nil t4 = rb_nil t" "rb_root t4 = (if par t x = rb_nil t then right else rb_root t)"
    "\<And>y. lft t4 y = (if y = par t x \<and> bl \<and> y \<noteq> rb_nil t then right else lft t3 y)"
    "\<And>y. rgt t4 y = (if y = par t x \<and> \<not> bl \<and> y \<noteq> rb_nil t then right else rgt t3 y)"
    unfolding t4_def c by (simp_all add: 3(3,4))
  have p: "\<And>y. (y = par t x \<and> x = lft t y \<and> y \<noteq> rb_nil t) = (y = par t x \<and> bl \<and> y \<noteq> rb_nil t)"
    "\<And>y. (y = par t x \<and> x = rgt t y \<and> y \<noteq> rb_nil t) = (y = par t x \<and> \<not> bl \<and> y \<noteq> rb_nil t)"
    using b(3) unfolding bl_def by metis+
  show "rotated (rb_nil t) x (rgt t) (lft t) (par t) (rgt (lu_rb_tree_left_rotate t x)) (lft (lu_rb_tree_left_rotate t x))
      (par (lu_rb_tree_left_rotate t x))"
    unfolding rotated_def r right_def [symmetric] p by (intro conjI allI; use a in \<open>simp add: 4 3\<close>)
  show "rb_root (lu_rb_tree_left_rotate t x) = (if rb_root t = x then rgt t x else rb_root t)"
    unfolding r right_def [symmetric] using b(1) by (simp add: 4)
qed


lemma rotR_nil: "tree_at l r pr nil q p T \<Longrightarrow> l x = nil \<Longrightarrow> rotR x T = T"
proof (induction T arbitrary: q p)
  case (Node L a R)
  have "x = a \<Longrightarrow> L = Leaf" using Node.prems by (cases L) auto
  then show ?case using Node by (auto split: tree.split)
qed simp

lemma rotL_nil: "tree_at l r pr nil q p T \<Longrightarrow> r x = nil \<Longrightarrow> rotL x T = T"
  unfolding rotL_def using rotR_nil [of r l pr nil q p "mirror T" x] by (simp add: tree_at_mirror)

lemma same_bounds: "rb_same t t' \<Longrightarrow> rb_nil t' = rb_nil t \<and> rb_next t' = rb_next t"
  by (simp add: rb_same_def)

lemma right_rotate_shape:
  assumes s: "rb_shape t T" and x: "x \<in> set_tree T \<or> x = rb_nil t"
  shows "rb_shape (lu_rb_tree_right_rotate t x) (rotR x T)"
proof (cases "lft t x = rb_nil t")
  case True
  then show ?thesis using s rotR_nil [OF rb_shape_tree [OF s] True] by simp
next
  case False
  then have x: "x \<in> set_tree T" using x s by (auto simp: rb_shape_def)
  let ?t = "lu_rb_tree_right_rotate t x"
  have n: "rb_nil ?t = rb_nil t" "rb_next ?t = rb_next t" using same_bounds [OF rotate_same(1)] by auto
  note R = right_rotated [OF s x False] and nT = rb_shape_nil [OF s]
  have t: "tree_at (lft ?t) (rgt ?t) (par ?t) (rb_nil t) (rb_nil t) (rb_root ?t) (rotR x T)"
    using rotated_tree_at [OF R(1) rb_shape_tree [OF s] rb_shape_distinct [OF s] x False nT] unfolding R(2) .
  have "x \<noteq> rb_nil t" using x nT by auto
  then have c: "lft ?t (rb_nil t) = rb_nil t" "rgt ?t (rb_nil t) = rb_nil t"
    using R(1) s False unfolding rotated_def rb_shape_def by metis+
  show ?thesis using s t c unfolding rb_shape_def n by simp
qed

lemma left_rotate_shape:
  assumes s: "rb_shape t T" and x: "x \<in> set_tree T \<or> x = rb_nil t"
  shows "rb_shape (lu_rb_tree_left_rotate t x) (rotL x T)"
proof (cases "rgt t x = rb_nil t")
  case True
  then show ?thesis using s rotL_nil [OF rb_shape_tree [OF s] True] by simp
next
  case False
  then have x: "x \<in> set_tree T" using x s by (auto simp: rb_shape_def)
  let ?t = "lu_rb_tree_left_rotate t x"
  have n: "rb_nil ?t = rb_nil t" "rb_next ?t = rb_next t" using same_bounds [OF rotate_same(2)] by auto
  note R = left_rotated [OF s x False] and nT = rb_shape_nil [OF s]
  have M: "tree_at (rgt t) (lft t) (par t) (rb_nil t) (rb_nil t) (rb_root t) (mirror T)" "distinct (inorder (mirror T))"
    using s by (simp_all add: rb_shape_def tree_at_mirror inorder_mirror)
  have t: "tree_at (lft ?t) (rgt ?t) (par ?t) (rb_nil t) (rb_nil t) (rb_root ?t) (rotL x T)"
    using rotated_tree_at [OF R(1) M] x nT False
    unfolding rotL_def R(2) tree_at_mirror [of "lft ?t" "rgt ?t", symmetric] by simp
  have "x \<noteq> rb_nil t" using x nT by auto
  then have c: "lft ?t (rb_nil t) = rb_nil t" "rgt ?t (rb_nil t) = rb_nil t"
    using R(1) s False unfolding rotated_def rb_shape_def by metis+
  show ?thesis using s t c unfolding rb_shape_def n by simp
qed

text \<open>The fields of the nodes of a rotation.\<close>

lemma right_rotate_fields:
  assumes s: "rb_shape t T" and x: "x \<in> set_tree T" and L: "lft t x \<noteq> rb_nil t"
  shows "par (lu_rb_tree_right_rotate t x) x = lft t x" "par (lu_rb_tree_right_rotate t x) (lft t x) = par t x"
    "rgt (lu_rb_tree_right_rotate t x) (lft t x) = x"
    "y \<noteq> x \<Longrightarrow> y \<noteq> lft t x \<Longrightarrow> y \<noteq> rgt t (lft t x) \<or> y = rb_nil t \<Longrightarrow> par (lu_rb_tree_right_rotate t x) y = par t y"
    "y = par t x \<Longrightarrow> y \<noteq> rb_nil t \<Longrightarrow> x = lft t y \<Longrightarrow> lft (lu_rb_tree_right_rotate t x) y = lft t x"
    "y = par t x \<Longrightarrow> y \<noteq> rb_nil t \<Longrightarrow> x = rgt t y \<Longrightarrow> rgt (lu_rb_tree_right_rotate t x) y = lft t x"
  using right_rotated(1) [OF s x L] around_left [OF rb_shape_tree [OF s] rb_shape_distinct [OF s] x rb_shape_nil [OF s] L]
  unfolding rotated_def by metis+

lemma left_rotate_fields:
  assumes s: "rb_shape t T" and x: "x \<in> set_tree T" and L: "rgt t x \<noteq> rb_nil t"
  shows "par (lu_rb_tree_left_rotate t x) x = rgt t x" "par (lu_rb_tree_left_rotate t x) (rgt t x) = par t x"
    "lft (lu_rb_tree_left_rotate t x) (rgt t x) = x"
    "y \<noteq> x \<Longrightarrow> y \<noteq> rgt t x \<Longrightarrow> y \<noteq> lft t (rgt t x) \<or> y = rb_nil t \<Longrightarrow> par (lu_rb_tree_left_rotate t x) y = par t y"
    "y = par t x \<Longrightarrow> y \<noteq> rb_nil t \<Longrightarrow> x = rgt t y \<Longrightarrow> rgt (lu_rb_tree_left_rotate t x) y = rgt t x"
    "y = par t x \<Longrightarrow> y \<noteq> rb_nil t \<Longrightarrow> x = lft t y \<Longrightarrow> lft (lu_rb_tree_left_rotate t x) y = rgt t x"
proof -
  have M: "tree_at (rgt t) (lft t) (par t) (rb_nil t) (rb_nil t) (rb_root t) (mirror T)" "distinct (inorder (mirror T))"
    "x \<in> set_tree (mirror T)" "rb_nil t \<notin> set_tree (mirror T)"
    using s x rb_shape_nil [OF s] by (simp_all add: rb_shape_def tree_at_mirror inorder_mirror)
  note a = left_rotated(1) [OF s x L] around_left [OF M L]
  show "par (lu_rb_tree_left_rotate t x) x = rgt t x" "par (lu_rb_tree_left_rotate t x) (rgt t x) = par t x"
    "lft (lu_rb_tree_left_rotate t x) (rgt t x) = x"
    "y \<noteq> x \<Longrightarrow> y \<noteq> rgt t x \<Longrightarrow> y \<noteq> lft t (rgt t x) \<or> y = rb_nil t \<Longrightarrow> par (lu_rb_tree_left_rotate t x) y = par t y"
    "y = par t x \<Longrightarrow> y \<noteq> rb_nil t \<Longrightarrow> x = rgt t y \<Longrightarrow> rgt (lu_rb_tree_left_rotate t x) y = rgt t x"
    "y = par t x \<Longrightarrow> y \<noteq> rb_nil t \<Longrightarrow> x = lft t y \<Longrightarrow> lft (lu_rb_tree_left_rotate t x) y = rgt t x"
    using a unfolding rotated_def by metis+
qed

lemma rotate_depth:
  assumes s: "rb_shape t T" and x: "x \<in> set_tree T"
  shows "lft t x \<noteq> rb_nil t \<Longrightarrow> depth (lft t x) (rotR x T) = depth x T"
    "rgt t x \<noteq> rb_nil t \<Longrightarrow> depth (rgt t x) (rotL x T) = depth x T"
proof -
  show "lft t x \<noteq> rb_nil t \<Longrightarrow> depth (lft t x) (rotR x T) = depth x T"
    using depth_rotR [OF rb_shape_tree [OF s] rb_shape_distinct [OF s] x] .
  assume r: "rgt t x \<noteq> rb_nil t"
  have M: "tree_at (rgt t) (lft t) (par t) (rb_nil t) (rb_nil t) (rb_root t) (mirror T)" "distinct (inorder (mirror T))"
    "x \<in> set_tree (mirror T)" using s x by (simp_all add: rb_shape_def tree_at_mirror inorder_mirror)
  have "rgt t x \<in> set_tree T" using tree_at_children [OF rb_shape_tree [OF s] x] r by blast
  then have "depth (rgt t x) (mirror (rotR x (mirror T))) = depth (rgt t x) (rotR x (mirror T))"
    using M(2) by (intro depth_mirror) simp_all
  also have "\<dots> = depth x (mirror T)" using depth_rotR [OF M r] .
  finally show "depth (rgt t x) (rotL x T) = depth x T"
    using depth_mirror [OF rb_shape_distinct [OF s] x] by (simp add: rotL_def)
qed

lemma rb_depth_parent:
  assumes "rb_shape t T" "x \<in> set_tree T" "par t x \<noteq> rb_nil t"
  shows "depth x T = Suc (depth (par t x) T)"
  using depth_parent [OF rb_shape_tree [OF assms(1)] rb_shape_distinct [OF assms(1)] assms(2) rb_parent_in(2) [OF assms]]
    rb_shape_nil [OF assms(1)] by blast

section \<open>The repair after an insertion\<close>

lemma rotate_left_side_ok:
  assumes s: "rb_shape t T" and n: "node \<in> set_tree T" "par t node = p" "p \<noteq> rb_nil t" and g: "par t p = g" "g \<noteq> rb_nil t"
    and pg: "p = lft t g" and r: "fixup_rotate_left_side t node p g = (t', n')"
  shows "\<exists>T'. rb_shape t' T' \<and> inorder T' = inorder T \<and> rb_same t t' \<and> n' \<in> set_tree T' \<and>
     (col t' (par t' n') = BLACK \<or> depth n' T' < depth node T)"
proof -
  have pT: "p \<in> set_tree T" and gT: "g \<in> set_tree T" using rb_parent_in(2) [OF s] n g by blast+
  have d: "depth node T = Suc (depth p T)" "depth p T = Suc (depth g T)"
    using rb_depth_parent [OF s n(1)] rb_depth_parent [OF s pT] n g by auto
  then have ne: "node \<noteq> p" "p \<noteq> g" "node \<noteq> g" by auto
  have nn: "node \<noteq> rb_nil t" using n(1) rb_shape_nil [OF s] by auto
  show ?thesis
  proof (cases "node = rgt t p")
    case True
    define t1 where "t1 = lu_rb_tree_left_rotate t p"
    define t2 where "t2 = set_color g RED (set_color p BLACK t1)"
    have t': "t' = lu_rb_tree_right_rotate t2 g" "n' = p"
      using r True unfolding fixup_rotate_left_side_def t1_def t2_def by auto
    have L: "rgt t p \<noteq> rb_nil t" using True nn by simp
    note F = left_rotate_fields [OF s pT L, folded t1_def True]
    have f1: "par t1 p = node" "par t1 node = g" "lft t1 node = p" "lft t1 g = node" using F(1-3) F(6) [of g] g pg by auto
    have s1: "rb_shape t1 (rotL p T)" using left_rotate_shape [OF s] pT unfolding t1_def by blast
    have s2: "rb_shape t2 (rotL p T)" using s1 by (simp add: t2_def)
    have same: "rb_nil t1 = rb_nil t" "rb_nil t2 = rb_nil t" using same_bounds [OF rotate_same(2)] by (auto simp: t1_def t2_def)
    have "lft t1 node \<noteq> rgt t1 node"
      using tree_at_distinct_children [OF rb_shape_tree [OF s1] rb_shape_distinct [OF s1], of node] n f1 same by auto
    then have pr: "p \<noteq> rgt t2 node" using f1 by (simp add: t2_def)
    have gT2: "g \<in> set_tree (rotL p T)" "lft t2 g \<noteq> rb_nil t2" "lft t2 g = node" using gT f1 nn same by (simp_all add: t2_def)
    have p': "par t' p = node"
      using right_rotate_fields(4) [OF s2 gT2(1,2), of p] ne pr f1 gT2 unfolding t' by (simp add: t2_def)
    have s': "rb_shape t' (rotR g (rotL p T))" using right_rotate_shape [OF s2] gT2 unfolding t' by blast
    have sm': "rb_same t t'" unfolding t' t2_def t1_def
      by (rule rb_same_trans [OF _ rotate_same(1)]) simp
    have "depth p (rotR g (rotL p T)) = Suc (depth node (rotR g (rotL p T)))"
      using rb_depth_parent [OF s', of p] p' pT nn sm' by (simp add: rb_same_def)
    also have "depth node (rotR g (rotL p T)) = depth g (rotL p T)" using rotate_depth(1) [OF s2 gT2(1,2)] gT2(3) by simp
    also have "Suc (depth g (rotL p T)) = depth node (rotL p T)"
      using rb_depth_parent [OF s1, of node] n f1 g same by simp
    also have "\<dots> = depth p T" using rotate_depth(2) [OF s pT L] True by simp
    finally have "depth p (rotR g (rotL p T)) < depth node T" using d by simp
    then show ?thesis using s' sm' pT t' by (intro exI [of _ "rotR g (rotL p T)"]) simp
  next
    case False
    define t2 where "t2 = set_color g RED (set_color p BLACK t)"
    have t': "t' = lu_rb_tree_right_rotate t2 g" "n' = node"
      using r False by (simp_all add: fixup_rotate_left_side_def t2_def)
    have s2: "rb_shape t2 T" using s by (simp add: t2_def)
    have L: "lft t2 g \<noteq> rb_nil t2" "lft t2 g = p" using pg n by (simp_all add: t2_def)
    have "par t' node = p"
      using right_rotate_fields(4) [OF s2 gT L(1), of node] ne n False L unfolding t' by (simp add: t2_def)
    then have "col t' (par t' n') = BLACK" using ne unfolding t' by (simp add: t2_def)
    moreover have "rb_shape t' (rotR g T)" using right_rotate_shape [OF s2] gT unfolding t' by blast
    moreover have "rb_same t t'" unfolding t' t2_def by (rule rb_same_trans [OF _ rotate_same(1)]) simp
    ultimately show ?thesis using n t' by (intro exI [of _ "rotR g T"]) simp
  qed
qed

lemma rotate_right_side_ok:
  assumes s: "rb_shape t T" and n: "node \<in> set_tree T" "par t node = p" "p \<noteq> rb_nil t" and g: "par t p = g" "g \<noteq> rb_nil t"
    and pg: "p = rgt t g" and r: "fixup_rotate_right_side t node p g = (t', n')"
  shows "\<exists>T'. rb_shape t' T' \<and> inorder T' = inorder T \<and> rb_same t t' \<and> n' \<in> set_tree T' \<and>
     (col t' (par t' n') = BLACK \<or> depth n' T' < depth node T)"
proof -
  have pT: "p \<in> set_tree T" and gT: "g \<in> set_tree T" using rb_parent_in(2) [OF s] n g by blast+
  have d: "depth node T = Suc (depth p T)" "depth p T = Suc (depth g T)"
    using rb_depth_parent [OF s n(1)] rb_depth_parent [OF s pT] n g by auto
  then have ne: "node \<noteq> p" "p \<noteq> g" "node \<noteq> g" by auto
  have nn: "node \<noteq> rb_nil t" using n(1) rb_shape_nil [OF s] by auto
  show ?thesis
  proof (cases "node = lft t p")
    case True
    define t1 where "t1 = lu_rb_tree_right_rotate t p"
    define t2 where "t2 = set_color g RED (set_color p BLACK t1)"
    have t': "t' = lu_rb_tree_left_rotate t2 g" "n' = p"
      using r True unfolding fixup_rotate_right_side_def t1_def t2_def by auto
    have L: "lft t p \<noteq> rb_nil t" using True nn by simp
    note F = right_rotate_fields [OF s pT L, folded t1_def True]
    have f1: "par t1 p = node" "par t1 node = g" "rgt t1 node = p" "rgt t1 g = node" using F(1-3) F(6) [of g] g pg by auto
    have s1: "rb_shape t1 (rotR p T)" using right_rotate_shape [OF s] pT unfolding t1_def by blast
    have s2: "rb_shape t2 (rotR p T)" using s1 by (simp add: t2_def)
    have same: "rb_nil t1 = rb_nil t" "rb_nil t2 = rb_nil t" using same_bounds [OF rotate_same(1)] by (auto simp: t1_def t2_def)
    have "rgt t1 node \<noteq> lft t1 node"
      using tree_at_distinct_children [OF rb_shape_tree [OF s1] rb_shape_distinct [OF s1], of node] n f1 same by auto
    then have pr: "p \<noteq> lft t2 node" using f1 by (simp add: t2_def)
    have gT2: "g \<in> set_tree (rotR p T)" "rgt t2 g \<noteq> rb_nil t2" "rgt t2 g = node" using gT f1 nn same by (simp_all add: t2_def)
    have p': "par t' p = node"
      using left_rotate_fields(4) [OF s2 gT2(1,2), of p] ne pr f1 gT2 unfolding t' by (simp add: t2_def)
    have s': "rb_shape t' (rotL g (rotR p T))" using left_rotate_shape [OF s2] gT2 unfolding t' by blast
    have sm': "rb_same t t'" unfolding t' t2_def t1_def
      by (rule rb_same_trans [OF _ rotate_same(2)]) simp
    have "depth p (rotL g (rotR p T)) = Suc (depth node (rotL g (rotR p T)))"
      using rb_depth_parent [OF s', of p] p' pT nn sm' by (simp add: rb_same_def)
    also have "depth node (rotL g (rotR p T)) = depth g (rotR p T)" using rotate_depth(2) [OF s2 gT2(1,2)] gT2(3) by simp
    also have "Suc (depth g (rotR p T)) = depth node (rotR p T)"
      using rb_depth_parent [OF s1, of node] n f1 g same by simp
    also have "\<dots> = depth p T" using rotate_depth(1) [OF s pT L] True by simp
    finally have "depth p (rotL g (rotR p T)) < depth node T" using d by simp
    then show ?thesis using s' sm' pT t' by (intro exI [of _ "rotL g (rotR p T)"]) simp
  next
    case False
    define t2 where "t2 = set_color g RED (set_color p BLACK t)"
    have t': "t' = lu_rb_tree_left_rotate t2 g" "n' = node"
      using r False by (simp_all add: fixup_rotate_right_side_def t2_def)
    have s2: "rb_shape t2 T" using s by (simp add: t2_def)
    have L: "rgt t2 g \<noteq> rb_nil t2" "rgt t2 g = p" using pg n by (simp_all add: t2_def)
    have "par t' node = p"
      using left_rotate_fields(4) [OF s2 gT L(1), of node] ne n False L unfolding t' by (simp add: t2_def)
    then have "col t' (par t' n') = BLACK" using ne unfolding t' by (simp add: t2_def)
    moreover have "rb_shape t' (rotL g T)" using left_rotate_shape [OF s2] gT unfolding t' by blast
    moreover have "rb_same t t'" unfolding t' t2_def by (rule rb_same_trans [OF _ rotate_same(2)]) simp
    ultimately show ?thesis using n t' by (intro exI [of _ "rotL g T"]) simp
  qed
qed

text \<open>One round: the loop ends next, or the node is higher, or it is the right child of the root.\<close>

definition fixup_measure :: "'v lu_rb_tree_t \<Rightarrow> rbptr tree \<Rightarrow> rbptr \<Rightarrow> nat" where
  "fixup_measure t T node =
     (if node = rb_root t \<or> par t node = rb_nil t \<or> col t (par t node) \<noteq> RED then 1
      else if par t (par t node) = rb_nil t then (if node = rgt t (par t node) then 2 else 3)
      else Suc (depth node T))"

lemma fixup_measure_bounds:
  assumes "rb_shape t T" "node \<in> set_tree T"
  shows "fixup_measure t T node \<le> max 3 (Suc (depth node T))"
    "node \<noteq> rb_root t \<Longrightarrow> par t node \<noteq> rb_nil t \<Longrightarrow> par t (par t node) \<noteq> rb_nil t \<Longrightarrow> 3 \<le> depth node T"
proof -
  show "fixup_measure t T node \<le> max 3 (Suc (depth node T))" by (auto simp: fixup_measure_def)
  assume a: "node \<noteq> rb_root t" "par t node \<noteq> rb_nil t" "par t (par t node) \<noteq> rb_nil t"
  have p: "par t node \<in> set_tree T" using rb_parent_in(2) [OF assms a(2)] .
  have "1 \<le> depth (par t (par t node)) T" using rb_parent_in(2) [OF assms(1) p a(3)] by (rule depth_pos)
  then show "3 \<le> depth node T" using rb_depth_parent [OF assms a(2)] rb_depth_parent [OF assms(1) p a(3)] by simp
qed

lemma insert_fixup_round_ok:
  assumes s: "rb_shape t T" and n: "node \<in> set_tree T" "node \<noteq> rb_root t" "par t node \<noteq> rb_nil t" "col t (par t node) = RED"
    and r: "insert_fixup_round t node = (t', n')"
  shows "\<exists>T'. rb_shape t' T' \<and> inorder T' = inorder T \<and> rb_same t t' \<and> n' \<in> set_tree T' \<and>
     fixup_measure t' T' n' < fixup_measure t T node"
proof -
  define p where "p = par t node"
  define g where "g = par t p"
  have p: "par t node = p" "p \<noteq> rb_nil t" "col t p = RED" using n by (simp_all add: p_def)
  have pT: "p \<in> set_tree T" using rb_parent_in(2) [OF s n(1) n(3)] by (simp add: p_def)
  have ne: "node \<noteq> p" using rb_depth_parent [OF s n(1,3)] p by auto
  show ?thesis
  proof (cases "g = rb_nil t")
    case True
    have nil: "lft t (rb_nil t) = rb_nil t" "rgt t (rb_nil t) = rb_nil t" using s by (auto simp: rb_shape_def)
    then have r: "fixup_rotate_right_side t node p (rb_nil t) = (t', n')"
      using r p g_def True unfolding insert_fixup_round_def Let_def by (simp add: p_def [symmetric])
    have m: "fixup_measure t T node = (if node = rgt t p then 2 else 3)"
      using n p g_def True by (simp add: fixup_measure_def)
    have side: "lft t p = node \<longleftrightarrow> rgt t p \<noteq> node" using rb_parent_in(3) [OF s n(1,3)] p by simp
    show ?thesis
    proof (cases "node = lft t p")
      case lt: True
      let ?t1 = "lu_rb_tree_right_rotate t p"
      have L: "lft t p \<noteq> rb_nil t" using lt n(1) rb_shape_nil [OF s] by auto
      note F = right_rotate_fields(1-3) [OF s pT L]
      have b: "rb_nil ?t1 = rb_nil t" using same_bounds [OF rotate_same(1)] by blast
      have s1: "rb_shape ?t1 (rotR p T)" using right_rotate_shape [OF s] pT by blast
      then have "rgt ?t1 (rb_nil t) = rb_nil ?t1" using b by (simp add: rb_shape_def)
      then have t': "t' = set_color (rb_nil t) RED (set_color p BLACK ?t1)" "n' = p"
        using r lt by (auto simp: fixup_rotate_right_side_def)
      have f: "par t' p = node" "par t' node = rb_nil t'" "rgt t' node = p" using F lt g_def True b by (simp_all add: t')
      have "fixup_measure t' (rotR p T) n' \<le> 2" using f by (simp add: fixup_measure_def t'(2))
      moreover have "fixup_measure t T node = 3" using m lt side by auto
      moreover have "rb_shape t' (rotR p T)" using s1 by (simp add: t')
      moreover have "rb_same t t'" by (simp add: t')
      ultimately show ?thesis using pT t' by (intro exI [of _ "rotR p T"]) simp
    next
      case False
      have t': "t' = set_color (rb_nil t) RED (set_color p BLACK t)" "n' = node"
        using r False nil by (auto simp: fixup_rotate_right_side_def)
      have "fixup_measure t' T n' = 1" using p by (simp add: fixup_measure_def t')
      moreover have "fixup_measure t T node = 2" using m False side by auto
      ultimately show ?thesis using n s by (intro exI [of _ T]) (simp add: t')
    qed
  next
    case False
    have gT: "g \<in> set_tree T" using rb_parent_in(2) [OF s pT] False by (simp add: g_def)
    have m: "fixup_measure t T node = Suc (depth node T)" using n p False by (simp add: fixup_measure_def g_def)
    have d3: "3 \<le> depth node T" using fixup_measure_bounds(2) [OF s n(1-3)] False by (simp add: g_def p_def)
    have dg: "depth node T = Suc (Suc (depth g T))"
      using rb_depth_parent [OF s n(1,3)] rb_depth_parent [OF s pT] False by (simp add: p_def [symmetric] g_def [symmetric])
    have side: "lft t g = p \<longleftrightarrow> rgt t g \<noteq> p" using rb_parent_in(3) [OF s pT] False by (simp add: g_def)
    have step: "rb_shape t' T' \<Longrightarrow> n' \<in> set_tree T' \<Longrightarrow> col t' (par t' n') = BLACK \<or> depth n' T' < depth node T \<Longrightarrow>
        fixup_measure t' T' n' < fixup_measure t T node" for T'
      using fixup_measure_bounds(1) [of t' T' n'] d3 by (auto simp: m fixup_measure_def [of t' T' n'])
    define u where "u = (if p = lft t g then rgt t g else lft t g)"
    show ?thesis
    proof (cases "u \<noteq> rb_nil t \<and> col t u = RED")
      case True
      then have t': "t' = recolor p u g t" "n' = g"
        using r unfolding insert_fixup_round_def Let_def p_def [symmetric] g_def [symmetric] u_def by (auto split: if_splits)
      have "rb_shape t' T" "rb_same t t'" using s by (simp_all add: t' recolor_def)
      then show ?thesis using step [of T] gT dg t' by (intro exI [of _ T]) simp
    next
      case nu: False
      show ?thesis
      proof (cases "p = lft t g")
        case True
        have r: "fixup_rotate_left_side t node p g = (t', n')"
          using r nu True unfolding insert_fixup_round_def Let_def p_def [symmetric] g_def [symmetric] u_def by (auto split: if_splits)
        show ?thesis using rotate_left_side_ok [OF s n(1) p(1,2) g_def [symmetric] False True r] step by blast
      next
        case rt: False
        have r: "fixup_rotate_right_side t node p g = (t', n')"
          using r nu rt unfolding insert_fixup_round_def Let_def p_def [symmetric] g_def [symmetric] u_def by (auto split: if_splits)
        have "p = rgt t g" using side rt by auto
        then show ?thesis using rotate_right_side_ok [OF s n(1) p(1,2) g_def [symmetric] False _ r] step by blast
      qed
    qed
  qed
qed

lemma rb_insert_fixup_loop_ok:
  assumes "rb_shape t T" "node \<in> set_tree T" "fixup_measure t T node \<le> fuel"
  shows "\<exists>t' T'. rb_insert_fixup_loop fuel t node = Some t' \<and> rb_shape t' T' \<and> inorder T' = inorder T \<and> rb_same t t'"
  using assms
proof (induction fuel arbitrary: t T node)
  case 0
  then show ?case by (simp add: fixup_measure_def split: if_splits)
next
  case (Suc fuel)
  show ?case
  proof (cases "node \<noteq> rb_root t \<and> par t node \<noteq> rb_nil t \<and> col t (par t node) = RED")
    case True
    obtain t1 n1 where r: "insert_fixup_round t node = (t1, n1)" by (cases "insert_fixup_round t node")
    obtain T1 where 1: "rb_shape t1 T1" "inorder T1 = inorder T" "rb_same t t1" "n1 \<in> set_tree T1"
      "fixup_measure t1 T1 n1 < fixup_measure t T node"
      using insert_fixup_round_ok [OF Suc.prems(1,2) _ _ _ r] True by auto
    then obtain t' T' where "rb_insert_fixup_loop fuel t1 n1 = Some t'" "rb_shape t' T'" "inorder T' = inorder T1" "rb_same t1 t'"
      using Suc.IH [OF 1(1,4)] Suc.prems(3) by auto
    then show ?thesis using True r 1 rb_same_trans [OF 1(3)] by (intro exI [of _ t'] exI [of _ T']) simp
  next
    case False
    then have "rb_insert_fixup_loop (Suc fuel) t node = Some (set_color (rb_root t) BLACK t)" by auto
    then show ?thesis using Suc.prems(1) by (intro exI [of _ "set_color (rb_root t) BLACK t"] exI [of _ T]) simp
  qed
qed

end
