(* ===== verification/LuRBTreeProps.thy ===== *)
theory LuRBTreeProps
  imports LuRBTreeOps "HOL-Library.Multiset"
begin

text \<open>
  What a red-black tree stores: the sequence of its keys and values (\<open>rb_rep\<close>). Insertion puts
  the new pair behind the keys that are not greater, the search decides membership, the walk that
  frees the tree visits each node once; all of them end.
\<close>

section \<open>The sequence a tree stores\<close>

definition rb_seq :: "'v lu_rb_tree_t \<Rightarrow> rbptr tree \<Rightarrow> (int \<times> 'v option) list" where
  "rb_seq t T = map (\<lambda>x. (key t x, rb_value (rb_mem t x))) (inorder T)"

definition rb_rep :: "'v lu_rb_tree_t \<Rightarrow> (int \<times> 'v option) list \<Rightarrow> bool" where
  "rb_rep t xs \<longleftrightarrow> (\<exists>T. rb_shape t T \<and> rb_seq t T = xs \<and> sorted (map fst xs))"

lemma rb_size: "rb_shape t T \<Longrightarrow> size T < rb_next t"
proof -
  assume s: "rb_shape t T"
  have "size T = card (set_tree T)" using distinct_card [OF rb_shape_distinct [OF s]] by simp
  also have "\<dots> < card {0..<rb_next t}"
    using s rb_shape_nil [OF s] by (intro psubset_card_mono) (auto simp: rb_shape_def)
  finally show ?thesis by simp
qed

lemma rb_seq_same: "rb_same t t' \<Longrightarrow> inorder T' = inorder T \<Longrightarrow> rb_seq t' T' = rb_seq t T"
  by (simp add: rb_seq_def rb_same_def)

lemma rb_seq_node [simp]:
  "rb_seq t Leaf = []" "rb_seq t (Node L a R) = rb_seq t L @ (key t a, rb_value (rb_mem t a)) # rb_seq t R"
  by (simp_all add: rb_seq_def)

section \<open>Search\<close>

lemma rb_find_loop_ok:
  assumes "tree_at (lft t) (rgt t) (par t) (rb_nil t) q p T" "sorted (map fst (rb_seq t T))" "size T < fuel"
  shows "\<exists>r. rb_find_loop fuel t k p = Some r \<and>
    (case r of None \<Rightarrow> k \<notin> fst ` set (rb_seq t T) | Some x \<Rightarrow> x \<in> set_tree T \<and> key t x = k)"
  using assms
proof (induction T arbitrary: q p fuel)
  case Leaf
  then show ?case by (cases fuel) auto
next
  case (Node L a R)
  obtain f where f: "fuel = Suc f" using Node.prems(3) by (cases fuel) auto
  have p: "p = a" "a \<noteq> rb_nil t" using Node.prems by auto
  have srt: "sorted (map fst (rb_seq t L))" "sorted (map fst (rb_seq t R))"
    "\<forall>e\<in>set (rb_seq t L). fst e \<le> key t a" "\<forall>e\<in>set (rb_seq t R). key t a \<le> fst e"
    using Node.prems(2) by (auto simp: sorted_append)
  consider "k = key t a" | "k < key t a" | "k > key t a" by linarith
  then show ?case
  proof cases
    case 1
    then show ?thesis using f p by simp
  next
    case 2
    then obtain r where r: "rb_find_loop f t k (lft t a) = Some r"
      "case r of None \<Rightarrow> k \<notin> fst ` set (rb_seq t L) | Some x \<Rightarrow> x \<in> set_tree L \<and> key t x = k"
      using Node.IH(1) [of a "lft t a" f] Node.prems srt f by auto
    show ?thesis using r 2 srt f p by (intro exI [of _ r]) (auto split: option.splits)
  next
    case 3
    then obtain r where r: "rb_find_loop f t k (rgt t a) = Some r"
      "case r of None \<Rightarrow> k \<notin> fst ` set (rb_seq t R) | Some x \<Rightarrow> x \<in> set_tree R \<and> key t x = k"
      using Node.IH(2) [of a "rgt t a" f] Node.prems srt f by auto
    show ?thesis using r 3 srt f p by (intro exI [of _ r]) (auto split: option.splits)
  qed
qed

lemma rb_find_rep:
  assumes "rb_rep t xs"
  shows "\<exists>r. lu_hash_rb_tree_find t k = Some r \<and>
    (case r of None \<Rightarrow> k \<notin> fst ` set xs | Some x \<Rightarrow> (k, rb_value (rb_mem t x)) \<in> set xs)"
proof -
  obtain T where T: "rb_shape t T" "rb_seq t T = xs" "sorted (map fst xs)" using assms by (auto simp: rb_rep_def)
  obtain r where r: "lu_hash_rb_tree_find t k = Some r"
    "case r of None \<Rightarrow> k \<notin> fst ` set (rb_seq t T) | Some x \<Rightarrow> x \<in> set_tree T \<and> key t x = k"
    using rb_find_loop_ok [OF rb_shape_tree [OF T(1)], of "Suc (rb_next t)" k] T rb_size [OF T(1)]
    by (auto simp: lu_hash_rb_tree_find_def)
  have "x \<in> set_tree T \<Longrightarrow> key t x = k \<Longrightarrow> (k, rb_value (rb_mem t x)) \<in> set xs" for x
    using T(2) by (auto simp: rb_seq_def)
  then show ?thesis using r T(2) by (intro exI [of _ r]) (auto split: option.splits)
qed

lemma rb_minimum_loop_ok:
  assumes "tree_at (lft t) (rgt t) (par t) (rb_nil t) q p T" "T \<noteq> Leaf" "size T < fuel"
  shows "rb_minimum_loop fuel t p = Some (hd (inorder T))"
  using assms
proof (induction T arbitrary: q p fuel)
  case (Node L a R)
  obtain f where f: "fuel = Suc f" using Node.prems(3) by (cases fuel) auto
  show ?case
  proof (cases L)
    case Leaf
    then show ?thesis using Node.prems f by simp
  next
    case (Node LL b LR)
    then show ?thesis using Node.prems Node.IH(1) [of a "lft t a" f] f by (cases "inorder LL") auto
  qed
qed simp

lemma rb_destroy_loop_ok:
  assumes "tree_at (lft t) (rgt t) (par t) (rb_nil t) q p T" "size T < fuel"
  shows "rb_destroy_loop fuel t p = Some (postorder T)"
  using assms
proof (induction T arbitrary: q p fuel)
  case Leaf
  then show ?case by (cases fuel) auto
next
  case (Node L a R)
  obtain f where f: "fuel = Suc f" using Node.prems(2) by (cases fuel) auto
  show ?case using Node.prems Node.IH(1) [of a "lft t a" f] Node.IH(2) [of a "rgt t a" f] f by auto
qed

section \<open>Insertion\<close>

fun rb_ins :: "(rbptr \<Rightarrow> int) \<Rightarrow> int \<Rightarrow> rbptr \<Rightarrow> rbptr tree \<Rightarrow> rbptr tree" where
  "rb_ins kf k n Leaf = Node Leaf n Leaf"
| "rb_ins kf k n (Node L a R) = (if k < kf a then Node (rb_ins kf k n L) a R else Node L a (rb_ins kf k n R))"

lemma set_rb_ins [simp]: "set_tree (rb_ins kf k n T) = insert n (set_tree T)"
  by (induction T) auto

lemma distinct_rb_ins: "distinct (inorder T) \<Longrightarrow> n \<notin> set_tree T \<Longrightarrow> distinct (inorder (rb_ins kf k n T))"
  by (induction T) auto

lemma inorder_rb_ins:
  "sorted (map kf (inorder T)) \<Longrightarrow>
     inorder (rb_ins kf k n T) = filter (\<lambda>x. kf x \<le> k) (inorder T) @ n # filter (\<lambda>x. k < kf x) (inorder T)"
proof (induction T)
  case (Node L a R)
  have s: "sorted (map kf (inorder L))" "sorted (map kf (inorder R))" "\<forall>x\<in>set_tree L. kf x \<le> kf a" "\<forall>x\<in>set_tree R. kf a \<le> kf x"
    using Node.prems by (auto simp: sorted_append)
  show ?case
  proof (cases "k < kf a")
    case True
    then have "filter (\<lambda>x. kf x \<le> k) (inorder R) = []" "filter (\<lambda>x. k < kf x) (inorder R) = inorder R"
      using s(4) by (fastforce simp: filter_empty_conv intro!: filter_True)+
    then show ?thesis using Node.IH(1) [OF s(1)] True by simp
  next
    case False
    then have "filter (\<lambda>x. k < kf x) (inorder L) = []" "filter (\<lambda>x. kf x \<le> k) (inorder L) = inorder L"
      using s(3) by (fastforce simp: filter_empty_conv intro!: filter_True)+
    then show ?thesis using Node.IH(2) [OF s(2)] False by simp
  qed
qed simp

text \<open>The descent finds the node under which the new one belongs.\<close>

lemma rb_descend_ok:
  assumes "tree_at (lft t) (rgt t) (par t) (rb_nil t) q p T" "distinct (inorder T)" "T \<noteq> Leaf" "n \<notin> set_tree T" "n \<noteq> rb_nil t"
    "lft t n = rb_nil t" "rgt t n = rb_nil t" "size T < fuel"
  shows "\<exists>pa\<in>set_tree T. rb_descend fuel t k prev p = Some pa \<and>
    tree_at (if k < key t pa then (lft t)(pa := n) else lft t) (if k < key t pa then rgt t else (rgt t)(pa := n)) ((par t)(n := pa))
      (rb_nil t) q p (rb_ins (key t) k n T)"
  using assms
proof (induction T arbitrary: q p fuel prev)
  case (Node L a R)
  obtain f where f: "fuel = Suc f" "f \<noteq> 0" using Node.prems(8) by (cases fuel) auto
  have p: "p = a" "a \<noteq> rb_nil t" "par t a = q" "n \<noteq> a" using Node.prems by auto
  have tl: "tree_at (lft t) (rgt t) (par t) (rb_nil t) a (lft t a) L" and tr: "tree_at (lft t) (rgt t) (par t) (rb_nil t) a (rgt t a) R"
    using Node.prems by auto
  have nn: "n \<notin> set_tree L" "n \<notin> set_tree R" using Node.prems by auto
  have d: "distinct (inorder L)" "distinct (inorder R)" "a \<notin> set_tree L" "a \<notin> set_tree R"
    and dj: "\<And>y. y \<in> set_tree L \<Longrightarrow> y \<notin> set_tree R" using Node.prems(2) by auto
  define l' r' pr' where "l' pa = (if k < key t pa then (lft t)(pa := n) else lft t)"
    and "r' pa = (if k < key t pa then rgt t else (rgt t)(pa := n))" and "pr' pa = (par t)(n := pa)" for pa
  note defs = l'_def r'_def pr'_def
  have other: "pa \<notin> set_tree S \<Longrightarrow> n \<notin> set_tree S \<Longrightarrow> tree_at (l' pa) (r' pa) (pr' pa) (rb_nil t) q' p' S = tree_at (lft t) (rgt t) (par t) (rb_nil t) q' p' S"
    for pa S q' p' by (rule tree_at_cong) (auto simp: defs)
  have here: "pa \<noteq> a \<Longrightarrow> l' pa a = lft t a \<and> r' pa a = rgt t a \<and> pr' pa a = q" for pa using p by (auto simp: defs)
  have "\<exists>pa\<in>set_tree (Node L a R). rb_descend fuel t k prev p = Some pa \<and>
      tree_at (l' pa) (r' pa) (pr' pa) (rb_nil t) q p (rb_ins (key t) k n (Node L a R))"
  proof (cases "k < key t a")
    case True
    show ?thesis
    proof (cases L)
      case Leaf
      have "rb_descend fuel t k prev p = Some a" using True Leaf tl f p by (cases f) auto
      moreover have "tree_at (l' a) (r' a) (pr' a) (rb_nil t) a (rgt t a) R" using other d nn tr by blast
      ultimately show ?thesis using True Leaf p Node.prems(5-7) by (intro bexI [of _ a]) (auto simp: defs)
    next
      case (Node LL b LR)
      then have ne: "L \<noteq> Leaf" and sz: "size L < f" using Node.prems(8) f(1) by auto
      obtain pa where pa: "pa \<in> set_tree L" "rb_descend f t k a (lft t a) = Some pa"
        "tree_at (l' pa) (r' pa) (pr' pa) (rb_nil t) a (lft t a) (rb_ins (key t) k n L)"
        using Node.IH(1) [OF tl d(1) ne nn(1) Node.prems(5-7) sz] unfolding defs by blast
      have "pa \<noteq> a" "pa \<notin> set_tree R" using pa(1) d dj by auto
      then show ?thesis using pa True f p other [of pa R] nn tr here [of pa] by (intro bexI [of _ pa]) auto
    qed
  next
    case False
    show ?thesis
    proof (cases R)
      case Leaf
      have "rb_descend fuel t k prev p = Some a" using False Leaf tr f p by (cases f) auto
      moreover have "tree_at (l' a) (r' a) (pr' a) (rb_nil t) a (lft t a) L" using other d nn tl by blast
      ultimately show ?thesis using False Leaf p Node.prems(5-7) by (intro bexI [of _ a]) (auto simp: defs)
    next
      case (Node RL b RR)
      then have ne: "R \<noteq> Leaf" and sz: "size R < f" using Node.prems(8) f(1) by auto
      obtain pa where pa: "pa \<in> set_tree R" "rb_descend f t k a (rgt t a) = Some pa"
        "tree_at (l' pa) (r' pa) (pr' pa) (rb_nil t) a (rgt t a) (rb_ins (key t) k n R)"
        using Node.IH(2) [OF tr d(2) ne nn(2) Node.prems(5-7) sz] unfolding defs by blast
      have "pa \<noteq> a" "pa \<notin> set_tree L" using pa(1) d dj by auto
      then show ?thesis using pa False f p other [of pa L] nn tl here [of pa] by (intro bexI [of _ pa]) auto
    qed
  qed
  then show ?case unfolding defs .
qed simp


lemma rb_new_node_fields:
  assumes "rb_shape t T" "rb_new_node t k vl = (t1, n)"
  shows "n = rb_next t" "rb_next t1 = Suc n" "rb_nil t1 = rb_nil t" "rb_root t1 = rb_root t"
    "lft t1 n = rb_nil t" "rgt t1 n = rb_nil t" "par t1 n = rb_nil t" "key t1 n = k" "rb_value (rb_mem t1 n) = vl"
    "n \<notin> set_tree T" "n \<noteq> rb_nil t" "x \<noteq> n \<Longrightarrow> rb_mem t1 x = rb_mem t x"
    "tree_at (lft t1) (rgt t1) (par t1) (rb_nil t) (rb_nil t) (rb_root t) T" "rb_seq t1 T = rb_seq t T"
proof -
  note s = assms(1)
  have t1: "t1 = t\<lparr>rb_next := Suc (rb_next t), rb_mem := (rb_mem t)(rb_next t := \<lparr>rb_left = rb_nil t, rb_right = rb_nil t,
      rb_parent = rb_nil t, rb_color = RED, rb_key = k, rb_value = vl\<rparr>)\<rparr>" and n: "n = rb_next t"
    using assms(2) by (auto simp: rb_new_node_def)
  show "n = rb_next t" "rb_next t1 = Suc n" "rb_nil t1 = rb_nil t" "rb_root t1 = rb_root t"
    "lft t1 n = rb_nil t" "rgt t1 n = rb_nil t" "par t1 n = rb_nil t" "key t1 n = k" "rb_value (rb_mem t1 n) = vl"
    "x \<noteq> n \<Longrightarrow> rb_mem t1 x = rb_mem t x"
    by (simp_all add: t1 n)
  show 1: "n \<notin> set_tree T" and "n \<noteq> rb_nil t" using s by (auto simp: rb_shape_def n)
  have o: "y \<in> set_tree T \<Longrightarrow> rb_mem t1 y = rb_mem t y" for y using 1 by (auto simp: t1 n)
  show "tree_at (lft t1) (rgt t1) (par t1) (rb_nil t) (rb_nil t) (rb_root t) T"
    using rb_shape_tree [OF s] tree_at_cong [of T "lft t1" "lft t" "rgt t1" "rgt t" "par t1" "par t"] o by auto
  show "rb_seq t1 T = rb_seq t T" using o by (simp add: rb_seq_def)
qed

lemma rb_attach_fields:
  assumes "rb_attach t k pa n = t'" "pa \<noteq> n"
  shows "lft t' = (if k < key t pa then (lft t)(pa := n) else lft t)" "rgt t' = (if k < key t pa then rgt t else (rgt t)(pa := n))"
    "par t' = (par t)(n := pa)" "rb_same t t'" "rb_root t' = rb_root t"
proof -
  have t': "t' = (if k < key t pa then set_left pa n (set_parent n pa t) else set_right pa n (set_parent n pa t))"
    using assms by (auto simp: rb_attach_def Let_def)
  show "lft t' = (if k < key t pa then (lft t)(pa := n) else lft t)" "rgt t' = (if k < key t pa then rgt t else (rgt t)(pa := n))"
    "par t' = (par t)(n := pa)" unfolding t' by (simp_all add: fun_eq_iff)
  show "rb_same t t'" "rb_root t' = rb_root t" unfolding t' by simp_all
qed

lemma lu_rb_tree_insert_ok:
  assumes s: "rb_shape t T"
  shows "\<exists>t' T' t1 n. rb_new_node t k vl = (t1, n) \<and> lu_rb_tree_insert t k vl = Some t' \<and> rb_shape t' T' \<and>
    inorder T' = inorder (rb_ins (key t1) k n T) \<and> rb_same t1 t'"
proof -
  obtain t1 n where new: "rb_new_node t k vl = (t1, n)" by (cases "rb_new_node t k vl")
  note F = rb_new_node_fields [OF s new]
  have nil1: "lft t1 (rb_nil t) = rb_nil t" "rgt t1 (rb_nil t) = rb_nil t" using s F(12) F(11) by (auto simp: rb_shape_def)
  show ?thesis
  proof (cases "rb_root t = rb_nil t")
    case True
    let ?t = "set_color n BLACK (t1\<lparr>rb_root := n\<rparr>)"
    have T: "T = Leaf" using True rb_shape_tree [OF s] by (cases T) auto
    have "lu_rb_tree_insert t k vl = Some ?t" using new True F by (simp add: lu_rb_tree_insert_def)
    moreover have "rb_shape ?t (Node Leaf n Leaf)" using s F nil1 by (simp add: rb_shape_def)
    ultimately show ?thesis using new T by (intro exI [of _ ?t] exI [of _ "Node Leaf n Leaf"] exI [of _ t1] exI [of _ n]) simp
  next
    case False
    have T: "T \<noteq> Leaf" using False rb_shape_tree [OF s] by (cases T) auto
    have sz: "size T < Suc (rb_next t1)" using rb_size [OF s] F(1,2) by simp
    obtain pa where pa: "pa \<in> set_tree T" "rb_descend (Suc (rb_next t1)) t1 k (rb_root t) (rb_root t) = Some pa"
      and t2: "tree_at (if k < key t1 pa then (lft t1)(pa := n) else lft t1) (if k < key t1 pa then rgt t1 else (rgt t1)(pa := n))
        ((par t1)(n := pa)) (rb_nil t1) (rb_nil t1) (rb_root t) (rb_ins (key t1) k n T)"
      using rb_descend_ok [of t1 "rb_nil t1" "rb_root t" T n "Suc (rb_next t1)" k "rb_root t"] F rb_shape_distinct [OF s] T sz by auto
    define t2 where "t2 = rb_attach t1 k pa n"
    have pn: "pa \<noteq> n" "pa \<noteq> rb_nil t" using pa(1) F(10) rb_shape_nil [OF s] by auto
    note A = rb_attach_fields [OF t2_def [symmetric] pn(1)]
    have b: "rb_nil t2 = rb_nil t" "rb_next t2 = Suc n" using A(4) F by (auto simp: rb_same_def)
    have N: "lft t2 (rb_nil t) = rb_nil t" "rgt t2 (rb_nil t) = rb_nil t"
      using fun_cong [OF A(1), of "rb_nil t"] fun_cong [OF A(2), of "rb_nil t"] nil1 pn by (auto split: if_splits)
    have s2: "rb_shape t2 (rb_ins (key t1) k n T)"
      unfolding rb_shape_def b N unfolding A(1,2,3,5) using t2 s distinct_rb_ins [OF rb_shape_distinct [OF s] F(10)] F pn
      by (auto simp: rb_shape_def)
    have n2: "n \<in> set_tree (rb_ins (key t1) k n T)" by simp
    have "fixup_measure t2 (rb_ins (key t1) k n T) n \<le> rb_next t2 + 4"
      using fixup_measure_bounds(1) [OF s2 n2] depth_size [OF n2] rb_size [OF s2] by linarith
    then obtain t' T' where t': "rb_insert_fixup_loop (rb_next t2 + 4) t2 n = Some t'" "rb_shape t' T'"
      "inorder T' = inorder (rb_ins (key t1) k n T)" "rb_same t2 t'"
      using rb_insert_fixup_loop_ok [OF s2 n2] by blast
    have "lu_rb_tree_insert t k vl = Some t'"
      using new False F pa(2) t'(1) by (simp add: lu_rb_tree_insert_def lu_rb_tree_insert_fixup_def t2_def)
    then show ?thesis using new t' rb_same_trans [OF A(4)] by blast
  qed
qed

lemma rb_insert_rep:
  assumes "rb_rep t xs"
  shows "\<exists>t'. lu_rb_tree_insert t k vl = Some t' \<and>
    rb_rep t' (filter (\<lambda>e. fst e \<le> k) xs @ (k, vl) # filter (\<lambda>e. k < fst e) xs)"
proof -
  obtain T where s: "rb_shape t T" and xs: "rb_seq t T = xs" "sorted (map fst xs)" using assms by (auto simp: rb_rep_def)
  obtain t' T' t1 n where new: "rb_new_node t k vl = (t1, n)" and t': "lu_rb_tree_insert t k vl = Some t'" "rb_shape t' T'"
    "inorder T' = inorder (rb_ins (key t1) k n T)" "rb_same t1 t'"
    using lu_rb_tree_insert_ok [OF s] by blast
  note F = rb_new_node_fields [OF s new]
  have "map (key t1) (inorder T) = map fst (rb_seq t1 T)" by (simp add: rb_seq_def comp_def)
  then have "sorted (map (key t1) (inorder T))" using xs F(14) by simp
  note io = inorder_rb_ins [OF this, of k n]
  have "rb_seq t' T' = rb_seq t1 (rb_ins (key t1) k n T)" using rb_seq_same [OF t'(4,3)] .
  also have "\<dots> = filter (\<lambda>e. fst e \<le> k) (rb_seq t1 T) @ (k, vl) # filter (\<lambda>e. k < fst e) (rb_seq t1 T)"
    unfolding rb_seq_def io using F(8,9) by (simp add: filter_map comp_def)
  finally have seq: "rb_seq t' T' = filter (\<lambda>e. fst e \<le> k) xs @ (k, vl) # filter (\<lambda>e. k < fst e) xs" using F(14) xs by simp
  have "sorted (map fst (filter P xs))" for P using xs(2) by (simp add: sorted_filter)
  then have "sorted (map fst (filter (\<lambda>e. fst e \<le> k) xs @ (k, vl) # filter (\<lambda>e. k < fst e) xs))"
    by (auto simp: sorted_append)
  then show ?thesis using t' seq by (auto simp: rb_rep_def)
qed

lemma rb_init_rep: "rb_rep (lu_rb_tree_init raw) []"
  by (auto simp: rb_rep_def rb_shape_def lu_rb_tree_init_def intro!: exI [of _ Leaf])

lemma rb_destroy_rep:
  assumes "rb_rep t xs"
  shows "\<exists>ws. lu_rb_tree_destroy_node t (rb_root t) = Some ws \<and> distinct ws \<and> length ws = length xs \<and> rb_nil t \<notin> set ws \<and>
    (\<forall>w\<in>set ws. w < rb_next t) \<and> mset (map (\<lambda>w. (key t w, rb_value (rb_mem t w))) ws) = mset xs"
proof -
  obtain T where s: "rb_shape t T" and xs: "rb_seq t T = xs" using assms by (auto simp: rb_rep_def)
  have d: "lu_rb_tree_destroy_node t (rb_root t) = Some (postorder T)"
    unfolding lu_rb_tree_destroy_node_def by (rule rb_destroy_loop_ok [OF rb_shape_tree [OF s]]) (use rb_size [OF s] in simp)
  have p: "mset (postorder T) = mset (inorder T)" for T :: "rbptr tree" by (induction T) auto
  have st: "set (postorder T) = set_tree T" using mset_eq_setD [OF p [of T]] by simp
  have ds: "distinct (postorder T)" using p [of T] rb_shape_distinct [OF s] by (metis mset_eq_imp_distinct_iff)
  have len: "length (postorder T) = length xs" using p [of T] xs by (metis length_map mset_eq_length rb_seq_def)
  have "mset (map f (postorder T)) = mset (map f (inorder T))" for f :: "rbptr \<Rightarrow> int \<times> 'a option" using p [of T] by simp
  from this [of "\<lambda>w. (key t w, rb_value (rb_mem t w))"]
  have ms: "mset (map (\<lambda>w. (key t w, rb_value (rb_mem t w))) (postorder T)) = mset xs" using xs unfolding rb_seq_def by simp
  have "rb_nil t \<notin> set_tree T" "\<forall>w\<in>set_tree T. w < rb_next t" using s rb_shape_nil [OF s] by (auto simp: rb_shape_def)
  then show ?thesis using d ds len st ms by (intro exI [of _ "postorder T"]) simp
qed

end
