(* ===== verification/LuRBTreeDelete.thy ===== *)
theory LuRBTreeDelete
  imports LuRBTreeProps
begin

text \<open>
  Deletion from a red-black tree of \<open>src/lu_hash_table.c\<close>, where it is right: on trees with a black sentinel whose
  black heights are balanced. The node, or its successor, is cut out; what is left to repair is then the sentinel or a red node, and
  for both of them the repair loop only changes colours.
\<close>

section \<open>Replacing a subtree\<close>

fun sub :: "rbptr \<Rightarrow> rbptr tree \<Rightarrow> rbptr tree" where
  "sub x Leaf = Leaf"
| "sub x (Node L a R) = (if a = x then Node L a R else if x \<in> set_tree L then sub x L else sub x R)"

fun subst :: "rbptr \<Rightarrow> rbptr tree \<Rightarrow> rbptr tree \<Rightarrow> rbptr tree" where
  "subst x S Leaf = Leaf"
| "subst x S (Node L a R) =
     (if a = x then S else if x \<in> set_tree L then Node (subst x S L) a R else Node L a (subst x S R))"

lemma sub_split:
  "x \<in> set_tree T \<Longrightarrow> \<exists>us vs. inorder T = us @ inorder (sub x T) @ vs \<and> (\<forall>S. inorder (subst x S T) = us @ inorder S @ vs)"
proof (induction T)
  case (Node L a R)
  consider "a = x" | "a \<noteq> x" "x \<in> set_tree L" | "a \<noteq> x" "x \<notin> set_tree L" "x \<in> set_tree R" using Node.prems by auto
  then show ?case
  proof cases
    case 1
    then show ?thesis by (intro exI [of _ "[]"]) simp
  next
    case 2
    then obtain us vs where "inorder L = us @ inorder (sub x L) @ vs" "\<forall>S. inorder (subst x S L) = us @ inorder S @ vs"
      using Node.IH(1) by blast
    then show ?thesis using 2 by (intro exI [of _ us] exI [of _ "vs @ a # inorder R"]) simp
  next
    case 3
    then obtain us vs where "inorder R = us @ inorder (sub x R) @ vs" "\<forall>S. inorder (subst x S R) = us @ inorder S @ vs"
      using Node.IH(2) by blast
    then show ?thesis using 3 by (intro exI [of _ "inorder L @ a # us"] exI [of _ vs]) simp
  qed
qed simp

lemma sub_tree_at: "tree_at l r pr nil q p T \<Longrightarrow> x \<in> set_tree T \<Longrightarrow> tree_at l r pr nil (pr x) x (sub x T)"
  by (induction T arbitrary: q p) auto

lemma sub_root: "x \<in> set_tree T \<Longrightarrow> \<exists>A B. sub x T = Node A x B"
  by (induction T) auto

lemma sub_subset: "set_tree (sub x T) \<subseteq> set_tree T"
  by (induction T) auto

text \<open>Outside the subtree only the pointer to it changes; \<open>q'\<close> is the new parent of the whole tree.\<close>

lemma subst_tree_at:
  assumes "tree_at l r pr nil q p T" "distinct (inorder T)" "x \<in> set_tree T"
    and "\<And>z. z \<in> set_tree T \<Longrightarrow> z \<notin> set_tree (sub x T) \<Longrightarrow>
      l' z = (if l z = x then v else l z) \<and> r' z = (if r z = x then v else r z) \<and> (z \<noteq> p \<longrightarrow> pr' z = pr z)"
    and "p \<noteq> x \<Longrightarrow> pr' p = q'" and "tree_at l' r' pr' nil (if p = x then q' else pr x) v S"
  shows "tree_at l' r' pr' nil q' (if p = x then v else p) (subst x S T)"
  using assms
proof (induction T arbitrary: q p q')
  case (Node L a R)
  have p: "p = a" "a \<noteq> nil" and tl: "tree_at l r pr nil a (l a) L" and tr: "tree_at l r pr nil a (r a) R"
    using Node.prems(1) by auto
  have d: "distinct (inorder L)" "distinct (inorder R)" "a \<notin> set_tree L" "a \<notin> set_tree R"
    and dj: "\<And>y. y \<in> set_tree L \<Longrightarrow> y \<notin> set_tree R" using Node.prems(2) by auto
  have nn: "nil \<notin> set_tree L" "nil \<notin> set_tree R" using tree_at_nil [OF tl] tree_at_nil [OF tr] by auto
  consider "a = x" | "a \<noteq> x" "x \<in> set_tree L" | "a \<noteq> x" "x \<notin> set_tree L" "x \<in> set_tree R" using Node.prems(3) by auto
  then show ?case
  proof cases
    case 1
    then show ?thesis using Node.prems(6) p by simp
  next
    case 2
    have s: "sub x (Node L a R) = sub x L" using 2 by simp
    have out: "a \<notin> set_tree (sub x L)" "z \<in> set_tree R \<Longrightarrow> z \<notin> set_tree (sub x L)" for z using sub_subset d dj by blast+
    have ra: "r a \<noteq> x" using 2 dj nn tree_at_root [OF tr] by metis
    have fa: "l' a = (if l a = x then v else l a)" "r' a = r a" "pr' a = q'"
      using Node.prems(4) [of a] Node.prems(5) out(1) s ra p 2 by auto
    have fr: "l' z = l z \<and> r' z = r z \<and> pr' z = pr z" if "z \<in> set_tree R" for z
    proof -
      have "l z \<noteq> x" "r z \<noteq> x" using tree_at_children [OF tr that] dj 2 nn by metis+
      then show ?thesis using Node.prems(4) [of z] out(2) [OF that] s that p d by auto
    qed
    have "tree_at l' r' pr' nil a (r a) R" using tr tree_at_cong [of R l' l r' r pr' pr] fr by blast
    moreover have "tree_at l' r' pr' nil a (if l a = x then v else l a) (subst x S L)"
    proof (rule Node.IH(1) [OF tl d(1) 2(2)])
      show "l' z = (if l z = x then v else l z) \<and> r' z = (if r z = x then v else r z) \<and> (z \<noteq> l a \<longrightarrow> pr' z = pr z)"
        if "z \<in> set_tree L" "z \<notin> set_tree (sub x L)" for z
        using Node.prems(4) [of z] that s p d by auto
      have up: "pr x = a" if "l a = x" using tree_at_root_parent [OF tl] that 2(2) nn by auto
      show "tree_at l' r' pr' nil (if l a = x then a else pr x) v S" using Node.prems(6) p 2 up by (auto split: if_splits)
      show "pr' (l a) = a" if "l a \<noteq> x"
      proof -
        have la: "l a \<in> set_tree L" using tree_at_root [OF tl] 2(2) tl by (cases L) auto
        have "l a \<notin> set_tree (sub x L)"
        proof
          assume "l a \<in> set_tree (sub x L)"
          then show False using that la tl d(1) 2(2) sub_subset by (cases L) (auto split: if_splits dest!: subsetD [OF sub_subset])
        qed
        then have "pr' (l a) = pr (l a)" using Node.prems(4) [of "l a"] la s p d by auto
        then show ?thesis using tree_at_root_parent [OF tl] la nn by metis
      qed
    qed
    ultimately show ?thesis using p fa 2 by simp
  next
    case 3
    have s: "sub x (Node L a R) = sub x R" using 3 by simp
    have out: "a \<notin> set_tree (sub x R)" "z \<in> set_tree L \<Longrightarrow> z \<notin> set_tree (sub x R)" for z using sub_subset d dj by blast+
    have la: "l a \<noteq> x" using 3 nn tree_at_root [OF tl] by metis
    have fa: "r' a = (if r a = x then v else r a)" "l' a = l a" "pr' a = q'"
      using Node.prems(4) [of a] Node.prems(5) out(1) s la p 3 by auto
    have fr: "l' z = l z \<and> r' z = r z \<and> pr' z = pr z" if "z \<in> set_tree L" for z
    proof -
      have "l z \<noteq> x" "r z \<noteq> x" using tree_at_children [OF tl that] 3 nn by metis+
      then show ?thesis using Node.prems(4) [of z] out(2) [OF that] s that p d by auto
    qed
    have "tree_at l' r' pr' nil a (l a) L" using tl tree_at_cong [of L l' l r' r pr' pr] fr by blast
    moreover have "tree_at l' r' pr' nil a (if r a = x then v else r a) (subst x S R)"
    proof (rule Node.IH(2) [OF tr d(2) 3(3)])
      show "l' z = (if l z = x then v else l z) \<and> r' z = (if r z = x then v else r z) \<and> (z \<noteq> r a \<longrightarrow> pr' z = pr z)"
        if "z \<in> set_tree R" "z \<notin> set_tree (sub x R)" for z
        using Node.prems(4) [of z] that s p d by auto
      have up: "pr x = a" if "r a = x" using tree_at_root_parent [OF tr] that 3(3) nn by auto
      show "tree_at l' r' pr' nil (if r a = x then a else pr x) v S" using Node.prems(6) p 3 up by (auto split: if_splits)
      show "pr' (r a) = a" if "r a \<noteq> x"
      proof -
        have ra: "r a \<in> set_tree R" using tree_at_root [OF tr] 3(3) tr by (cases R) auto
        have "r a \<notin> set_tree (sub x R)"
        proof
          assume "r a \<in> set_tree (sub x R)"
          then show False using that ra tr d(2) 3(3) sub_subset by (cases R) (auto split: if_splits dest!: subsetD [OF sub_subset])
        qed
        then have "pr' (r a) = pr (r a)" using Node.prems(4) [of "r a"] ra s p d by auto
        then show ?thesis using tree_at_root_parent [OF tr] ra nn by metis
      qed
    qed
    ultimately show ?thesis using p fa 3 by simp
  qed
qed simp

lemma sub_parent_notin:
  "tree_at l r pr nil q p T \<Longrightarrow> distinct (inorder T) \<Longrightarrow> x \<in> set_tree T \<Longrightarrow> q \<notin> set_tree T \<Longrightarrow> pr x \<notin> set_tree (sub x T)"
  by (induction T arbitrary: q p) auto

lemma tree_at_reparent:
  assumes "tree_at l r pr nil q p T" "distinct (inorder T)"
    and "\<And>z. z \<in> set_tree T \<Longrightarrow> l' z = l z \<and> r' z = r z \<and> (z \<noteq> p \<longrightarrow> pr' z = pr z)" "p \<noteq> nil \<Longrightarrow> pr' p = q'"
  shows "tree_at l' r' pr' nil q' p T"
proof (cases T)
  case (Node L a R)
  have f: "l' z = l z \<and> r' z = r z \<and> pr' z = pr z" if "z \<in> set_tree L \<union> set_tree R" for z
    using assms(2) assms(3) [of z] assms(1) that Node by auto
  have "tree_at l' r' pr' nil a (l a) L" "tree_at l' r' pr' nil a (r a) R"
    using assms(1) Node f tree_at_cong [of L l' l r' r pr' pr] tree_at_cong [of R l' l r' r pr' pr] by auto
  then show ?thesis using assms Node by auto
qed (use assms(1) in simp)

text \<open>The leftmost node, the successor of the node above.\<close>

lemma leftmost:
  assumes "tree_at l r pr nil q p T" "distinct (inorder T)" "T \<noteq> Leaf"
  shows "\<exists>y B. y = hd (inorder T) \<and> y \<in> set_tree T \<and> l y = nil \<and> sub y T = Node Leaf y B \<and>
    inorder (subst y B T) = tl (inorder T) \<and> (y = p \<or> pr y \<in> set_tree T \<and> l (pr y) = y)"
  using assms
proof (induction T arbitrary: q p)
  case (Node L a R)
  show ?case
  proof (cases "L = Leaf")
    case True
    then show ?thesis using Node.prems by (intro exI [of _ a] exI [of _ R]) auto
  next
    case False
    have tl: "tree_at l r pr nil a (l a) L" and d: "distinct (inorder L)" "a \<notin> set_tree L" using Node.prems by auto
    obtain y B where y: "y = hd (inorder L)" "y \<in> set_tree L" "l y = nil" "sub y L = Node Leaf y B"
      "inorder (subst y B L) = List.tl (inorder L)" "y = l a \<or> pr y \<in> set_tree L \<and> l (pr y) = y"
      using Node.IH(1) [OF tl d(1) False] by blast
    have ne: "inorder L \<noteq> []" using False by (cases L) auto
    have "y = l a \<Longrightarrow> pr y = a" using tree_at_root_parent [OF tl] y(2) tree_at_nil [OF tl] by metis
    then show ?thesis using y d ne by (intro exI [of _ y] exI [of _ B]) auto
  qed
qed simp

section \<open>Transplanting\<close>

lemma transplant_fields:
  "lft (lu_rb_tree_transplant t u v) z = (if z = par t u \<and> z \<noteq> rb_nil t \<and> u = lft t z then v else lft t z)"
  "rgt (lu_rb_tree_transplant t u v) z = (if z = par t u \<and> z \<noteq> rb_nil t \<and> u \<noteq> lft t z then v else rgt t z)"
  "par (lu_rb_tree_transplant t u v) z = (if z = v \<and> z \<noteq> rb_nil t then par t u else par t z)"
  "col (lu_rb_tree_transplant t u v) z = col t z"
  "rb_root (lu_rb_tree_transplant t u v) = (if par t u = rb_nil t then v else rb_root t)"
  "rb_nil (lu_rb_tree_transplant t u v) = rb_nil t" "rb_next (lu_rb_tree_transplant t u v) = rb_next t"
  "rb_same s (lu_rb_tree_transplant t u v) = rb_same s t"
proof -
  define b where "b \<longleftrightarrow> u = lft t (par t u)"
  have e: "lu_rb_tree_transplant t u v =
     (let t1 = (if par t u = rb_nil t then t\<lparr>rb_root := v\<rparr> else if b then set_left (par t u) v t else set_right (par t u) v t)
      in if v \<noteq> rb_nil t1 then set_parent v (par t1 u) t1 else t1)"
    by (simp only: lu_rb_tree_transplant_def b_def)
  have c: "(z = par t u \<and> z \<noteq> rb_nil t \<and> u = lft t z) = (z = par t u \<and> z \<noteq> rb_nil t \<and> b)"
    "(z = par t u \<and> z \<noteq> rb_nil t \<and> u \<noteq> lft t z) = (z = par t u \<and> z \<noteq> rb_nil t \<and> \<not> b)"
    by (auto simp only: b_def)
  show "lft (lu_rb_tree_transplant t u v) z = (if z = par t u \<and> z \<noteq> rb_nil t \<and> u = lft t z then v else lft t z)"
    "rgt (lu_rb_tree_transplant t u v) z = (if z = par t u \<and> z \<noteq> rb_nil t \<and> u \<noteq> lft t z then v else rgt t z)"
    "par (lu_rb_tree_transplant t u v) z = (if z = v \<and> z \<noteq> rb_nil t then par t u else par t z)"
    "col (lu_rb_tree_transplant t u v) z = col t z"
    "rb_root (lu_rb_tree_transplant t u v) = (if par t u = rb_nil t then v else rb_root t)"
    "rb_nil (lu_rb_tree_transplant t u v) = rb_nil t" "rb_next (lu_rb_tree_transplant t u v) = rb_next t"
    "rb_same s (lu_rb_tree_transplant t u v) = rb_same s t"
    unfolding c e Let_def by simp_all
qed

lemma transplant_shape:
  assumes s: "rb_shape t T" and x: "x \<in> set_tree T" and A: "sub x T = Node A x C"
    and B: "v = rgt t x \<and> B = C \<or> v = lft t x \<and> B = A"
  shows "rb_shape (lu_rb_tree_transplant t x v) (subst x B T)"
proof -
  note T = rb_shape_tree [OF s] and D = rb_shape_distinct [OF s] and N = rb_shape_nil [OF s]
  let ?t = "lu_rb_tree_transplant t x v"
  have xs: "tree_at (lft t) (rgt t) (par t) (rb_nil t) (par t x) x (Node A x C)" using sub_tree_at [OF T x] A by simp
  have sb: "set_tree (Node A x C) \<subseteq> set_tree T" using sub_subset [of x T] A by simp
  obtain us vs where io: "inorder T = us @ inorder (Node A x C) @ vs" "inorder (subst x B T) = us @ inorder B @ vs"
    using sub_split [OF x] A by metis
  have dn: "distinct (inorder (Node A x C))" using D io(1) by (metis distinct_append)
  have xB: "tree_at (lft t) (rgt t) (par t) (rb_nil t) x v B" "set_tree B \<subseteq> set_tree (Node A x C)" "distinct (inorder B)" "x \<notin> set_tree B"
    using B xs dn by auto
  have px: "par t x \<notin> set_tree (Node A x C)" using sub_parent_notin [OF T D x N] A by simp
  have vr: "v = rb_nil t \<or> v \<in> set_tree B \<and> par t v = x" using tree_at_root [OF xB(1)] tree_at_root_parent [OF xB(1)] by blast
  have xn: "x \<noteq> rb_nil t" using x N by auto
  have out: "lft ?t z = (if lft t z = x then v else lft t z) \<and> rgt ?t z = (if rgt t z = x then v else rgt t z) \<and>
      (z \<noteq> rb_root t \<longrightarrow> par ?t z = par t z)" if "z \<in> set_tree T" "z \<notin> set_tree (sub x T)" for z
  proof -
    have zn: "z \<noteq> rb_nil t" using that N by auto
    have "z \<noteq> v" using vr xB(2) that A zn by auto
    moreover have "(z = par t x \<and> z \<noteq> rb_nil t \<and> x = lft t z) = (lft t z = x)"
      "(z = par t x \<and> z \<noteq> rb_nil t \<and> x \<noteq> lft t z) = (rgt t z = x)"
      using tree_at_children [OF T that(1)] xn zn rb_parent_in(3) [OF s x] by metis+
    ultimately show ?thesis unfolding transplant_fields by simp
  qed
  have root: "par ?t (rb_root t) = rb_nil t" if "rb_root t \<noteq> x"
  proof -
    have "rb_root t \<noteq> rb_nil t" using T x by (cases T) auto
    then have "par t (rb_root t) = rb_nil t" using tree_at_root_parent [OF T] by blast
    moreover have "\<not> (rb_root t = v \<and> rb_root t \<noteq> rb_nil t)" using vr xn calculation by auto
    ultimately show ?thesis unfolding transplant_fields by auto
  qed
  have "tree_at (lft ?t) (rgt ?t) (par ?t) (rb_nil t) (par t x) v B"
  proof (rule tree_at_reparent [OF xB(1,3)])
    show "lft ?t z = lft t z \<and> rgt ?t z = rgt t z \<and> (z \<noteq> v \<longrightarrow> par ?t z = par t z)" if "z \<in> set_tree B" for z
    proof -
      have "z \<noteq> par t x" using that px xB(2) by auto
      then show ?thesis unfolding transplant_fields by simp
    qed
  qed (simp add: transplant_fields)
  moreover have pr: "(if rb_root t = x then rb_nil t else par t x) = par t x" using rb_parent_in(1) [OF s x] by auto
  ultimately have "tree_at (lft ?t) (rgt ?t) (par ?t) (rb_nil t) (rb_nil t) (if rb_root t = x then v else rb_root t) (subst x B T)"
    using out root by (intro subst_tree_at [OF T D x]) auto
  moreover have "rb_root ?t = (if rb_root t = x then v else rb_root t)"
    using rb_parent_in(1) [OF s x] unfolding transplant_fields by simp
  moreover have "lft ?t (rb_nil t) = rb_nil t" "rgt ?t (rb_nil t) = rb_nil t" "rb_nil ?t = rb_nil t" "rb_next ?t = rb_next t"
    using s unfolding transplant_fields by (simp_all add: rb_shape_def)
  moreover have "distinct (inorder (subst x B T))" using D xB(2) xB(3) unfolding io by (auto dest!: subsetD [of _ "set_tree (Node A x C)"])
  moreover have "set_tree (subst x B T) \<subseteq> set_tree T"
    using xB(2) sb unfolding set_inorder [symmetric] io by auto
  ultimately show ?thesis using s unfolding rb_shape_def by auto
qed

section \<open>Replacing a node by its successor\<close>

text \<open>How the fields change when \<open>y\<close>, the leftmost node right of \<open>x\<close>, takes its place.\<close>

definition replaced ::
    "rbptr \<Rightarrow> rbptr \<Rightarrow> rbptr \<Rightarrow> (rbptr \<Rightarrow> rbptr) \<Rightarrow> (rbptr \<Rightarrow> rbptr) \<Rightarrow> (rbptr \<Rightarrow> rbptr) \<Rightarrow> (rbptr \<Rightarrow> rbptr) \<Rightarrow> (rbptr \<Rightarrow> rbptr) \<Rightarrow> (rbptr \<Rightarrow> rbptr) \<Rightarrow> bool" where
  "replaced nil x y l r pr l' r' pr' \<longleftrightarrow>
     (\<forall>z. l' z = (if z = y then l x else if z = pr x \<and> z \<noteq> nil \<and> l z = x then y
                  else if z = pr y \<and> y \<noteq> r x then r y else l z)) \<and>
     (\<forall>z. r' z = (if z = y then (if y = r x then r y else r x) else if z = pr x \<and> z \<noteq> nil \<and> l z \<noteq> x then y else r z)) \<and>
     (\<forall>z. pr' z = (if z = y then pr x else if z = l x \<or> z = r x then y else if z = r y \<and> z \<noteq> nil \<and> y \<noteq> r x then pr y else pr z))"

lemma replaced_subtree:
  assumes ro: "replaced nil x y l r pr l' r' pr'" and t: "tree_at l r pr nil (pr x) x (Node A x C)" and d: "distinct (inorder (Node A x C))"
    and px: "pr x \<notin> set_tree (Node A x C)" and A: "A \<noteq> Leaf"
    and y: "y \<in> set_tree C" "l y = nil" "sub y C = Node Leaf y B" "y = r x \<or> pr y \<in> set_tree C \<and> l (pr y) = y"
  shows "tree_at l' r' pr' nil (pr x) y (Node A y (subst y B C))"
proof -
  have ta: "tree_at l r pr nil x (l x) A" and tc: "tree_at l r pr nil x (r x) C" using t by auto
  have ds: "distinct (inorder A)" "distinct (inorder C)" "x \<notin> set_tree A" "x \<notin> set_tree C" and dj: "\<And>z. z \<in> set_tree A \<Longrightarrow> z \<notin> set_tree C"
    using d by auto
  have nn: "nil \<notin> set_tree A" "nil \<notin> set_tree C" "x \<noteq> nil" using tree_at_nil [OF t] by auto
  have tb: "tree_at l r pr nil (pr y) y (Node Leaf y B)" using sub_tree_at [OF tc y(1)] y(3) by simp
  have sb: "insert y (set_tree B) \<subseteq> set_tree C" using sub_subset [of y C] y(3) by auto
  have db: "distinct (inorder B)" "y \<notin> set_tree B" using sub_split [OF y(1)] y(3) ds(2) by auto
  have lx: "l x \<in> set_tree A" using tree_at_root [OF ta] ta A by (cases A) auto
  have rx: "r x \<in> set_tree C" using tree_at_root [OF tc] tc y(1) by (cases C) auto
  have ry: "r y = nil \<or> r y \<in> set_tree B" using tb tree_at_root [of l r pr nil y "r y" B] by auto
  have pa: "pr x \<notin> set_tree A" "pr x \<notin> set_tree C" "pr x \<noteq> x" using px by auto
  have "tree_at l' r' pr' nil y (l x) A"
  proof (rule tree_at_reparent [OF ta ds(1)])
    show "l' z = l z \<and> r' z = r z \<and> (z \<noteq> l x \<longrightarrow> pr' z = pr z)" if z: "z \<in> set_tree A" for z
    proof -
      have "z \<noteq> y" "z \<noteq> pr x" "z \<noteq> r x" "y = r x \<or> z \<noteq> pr y" "z = r y \<longrightarrow> z = nil"
        using z dj y(1,4) pa rx ry sb by auto
      then show ?thesis using ro unfolding replaced_def by auto
    qed
    show "pr' (l x) = y" using ro lx y(1) dj unfolding replaced_def by auto
  qed
  moreover have "l' y = l x" "pr' y = pr x" using ro unfolding replaced_def by auto
  moreover have "tree_at l' r' pr' nil y (r' y) (subst y B C)"
  proof (cases "y = r x")
    case True
    then have C: "C = Node Leaf y B" using y(3) tc y(1) by (cases C) auto
    have "tree_at l' r' pr' nil y (r y) B"
    proof (rule tree_at_cong [THEN iffD2])
      show "l' z = l z \<and> r' z = r z \<and> pr' z = pr z" if z: "z \<in> set_tree B" for z
      proof -
        have "z \<noteq> y" "z \<noteq> pr x" "z \<noteq> r x" "z \<noteq> l x" using z db pa True lx dj sb by auto
        then show ?thesis using ro True unfolding replaced_def by auto
      qed
      show "tree_at l r pr nil y (r y) B" using tb by simp
    qed
    then show ?thesis using C ro True unfolding replaced_def by auto
  next
    case False
    then have py: "pr y \<in> set_tree C" "l (pr y) = y" using y(4) by auto
    have lr: "r (pr y) \<noteq> y" using tree_at_distinct_children [OF tc ds(2) py(1)] py(2) y(1) nn by metis
    have fy: "r' y = r x" "pr' (r x) = y" using ro False rx lx dj unfolding replaced_def by auto
    have "tree_at l' r' pr' nil y (if r x = y then r y else r x) (subst y B C)"
    proof (rule subst_tree_at [OF tc ds(2) y(1)])
      show "l' z = (if l z = y then r y else l z) \<and> r' z = (if r z = y then r y else r z) \<and> (z \<noteq> r x \<longrightarrow> pr' z = pr z)"
        if z: "z \<in> set_tree C" "z \<notin> set_tree (sub y C)" for z
      proof -
        have "z \<noteq> y" "z \<noteq> pr x" "z \<noteq> l x" "z = r y \<longrightarrow> z = nil" using z y(3) pa lx dj ry by auto
        moreover have "(l z = y) = (z = pr y)" "r z \<noteq> y" using tree_at_children [OF tc z(1)] py lr y(1) nn by metis+
        ultimately show ?thesis using ro False unfolding replaced_def by auto
      qed
      show "pr' (r x) = y" by (rule fy(2))
      have "tree_at l' r' pr' nil (pr y) (r y) B"
      proof (rule tree_at_reparent [of l r pr nil y])
        show "tree_at l r pr nil y (r y) B" "distinct (inorder B)" using tb db by simp_all
        show "l' z = l z \<and> r' z = r z \<and> (z \<noteq> r y \<longrightarrow> pr' z = pr z)" if z: "z \<in> set_tree B" for z
        proof -
          have "r x \<notin> set_tree B"
          proof
            assume b: "r x \<in> set_tree B"
            have "pr (r x) = x" using tree_at_root_parent [OF tc] rx nn by metis
            moreover have "pr (r x) \<in> insert y (set_tree B)" using tree_at_parent [of l r pr nil y "r y" B "r x"] tb b by auto
            ultimately show False using sb ds(4) by auto
          qed
          moreover have "pr y \<notin> set_tree B" using sub_parent_notin [OF tc ds(2) y(1) ds(4)] y(3) by simp
          ultimately have "z \<noteq> y" "z \<noteq> pr x" "z \<noteq> l x" "z \<noteq> r x" "z \<noteq> pr y" using z db pa lx dj sb by auto
          then show ?thesis using ro unfolding replaced_def by auto
        qed
        show "pr' (r y) = pr y" if "r y \<noteq> nil"
        proof -
          have b: "r y \<in> set_tree B" using ry that by blast
          have "r y \<noteq> y" "r y \<noteq> l x" using b db lx dj sb by auto
          moreover have "r y \<noteq> r x"
          proof
            assume e: "r y = r x"
            have "pr (r x) = x" using tree_at_root_parent [OF tc] rx nn by metis
            moreover have "pr (r y) = y" using tree_at_root_parent [of l r pr nil y "r y" B] tb that by auto
            ultimately show False using e y(1) ds(4) by metis
          qed
          ultimately show ?thesis using ro that False unfolding replaced_def by auto
        qed
      qed
      then show "tree_at l' r' pr' nil (if r x = y then y else pr y) (r y) B" using False by auto
    qed
    then show ?thesis using fy False by auto
  qed
  ultimately show ?thesis using y(1) nn by auto
qed

lemma rb_replace_fields:
  assumes ne: "x \<noteq> y" "x \<noteq> lft t x" "y \<noteq> lft t x" "x \<noteq> rgt t x" "par t x \<noteq> x" "par t x \<noteq> y" "par t y \<noteq> y" "lft t x \<noteq> rgt t x"
    and nn: "x \<noteq> rb_nil t" "y \<noteq> rb_nil t" "rgt t x \<noteq> rb_nil t"
    and py: "par t y = x \<longleftrightarrow> y = rgt t x" "y \<noteq> rgt t x \<Longrightarrow> lft t (par t y) = y \<and> par t y \<noteq> rb_nil t \<and> par t y \<noteq> par t x"
    and ry: "rgt t y \<noteq> y" "rgt t y \<noteq> x" "rgt t y = rb_nil t \<or> rgt t y \<noteq> rgt t x \<and> rgt t y \<noteq> lft t x"
  shows "replaced (rb_nil t) x y (lft t) (rgt t) (par t) (lft (rb_replace t x y)) (rgt (rb_replace t x y)) (par (rb_replace t x y))"
    "rb_root (rb_replace t x y) = (if par t x = rb_nil t then y else rb_root t)" "rb_same t (rb_replace t x y)"
    "col (rb_replace t x y) z = (if z = y then col t x else col t z)"
proof -
  define t1 where "t1 = (if par t y \<noteq> x then
      set_parent (rgt (set_right y (rgt (lu_rb_tree_transplant t y (rgt t y)) x) (lu_rb_tree_transplant t y (rgt t y))) y) y
        (set_right y (rgt (lu_rb_tree_transplant t y (rgt t y)) x) (lu_rb_tree_transplant t y (rgt t y))) else t)"
  have r: "rb_replace t x y = set_color y (col (set_parent (lft (set_left y (lft (lu_rb_tree_transplant t1 x y) x) (lu_rb_tree_transplant t1 x y)) y) y
      (set_left y (lft (lu_rb_tree_transplant t1 x y) x) (lu_rb_tree_transplant t1 x y))) x)
      (set_parent (lft (set_left y (lft (lu_rb_tree_transplant t1 x y) x) (lu_rb_tree_transplant t1 x y)) y) y
      (set_left y (lft (lu_rb_tree_transplant t1 x y) x) (lu_rb_tree_transplant t1 x y)))"
    unfolding rb_replace_def Let_def t1_def ..
  have l1: "lft t1 z = (if z = par t y \<and> y \<noteq> rgt t x then rgt t y else lft t z)" for z
    using py unfolding t1_def by (auto simp: transplant_fields)
  have r1: "rgt t1 z = (if z = y \<and> y \<noteq> rgt t x then rgt t x else rgt t z)" for z
    using py ne(1,5) unfolding t1_def by (auto simp: transplant_fields)
  have p1: "par t1 z = (if y \<noteq> rgt t x then (if z = rgt t x then y else if z = rgt t y \<and> z \<noteq> rb_nil t then par t y else par t z) else par t z)" for z
    using py ne(1) unfolding t1_def by (auto simp: transplant_fields)
  have o1: "rb_nil t1 = rb_nil t" "rb_root t1 = rb_root t" "rb_same t t1" "col t1 z = col t z" for z
    using py unfolding t1_def by (auto simp: transplant_fields)
  have px: "par t1 x = par t x" "lft t1 x = lft t x" using p1 l1 ne ry py by auto
  have q: "lft t1 (par t x) = lft t (par t x)" using l1 [of "par t x"] py by auto
  have lp: "(z = par t x \<and> z \<noteq> rb_nil t \<and> x = lft t1 z) = (z = par t x \<and> z \<noteq> rb_nil t \<and> lft t z = x)"
    "(z = par t x \<and> z \<noteq> rb_nil t \<and> x \<noteq> lft t1 z) = (z = par t x \<and> z \<noteq> rb_nil t \<and> lft t z \<noteq> x)" for z
    using q by metis+
  have lx: "lft (lu_rb_tree_transplant t1 x y) x = lft t x" using ne(5) px by (auto simp: transplant_fields)
  define t2 where "t2 = lu_rb_tree_transplant t1 x y"
  have l2: "lft t2 z = (if z = par t x \<and> z \<noteq> rb_nil t \<and> lft t z = x then y else lft t1 z)" for z
    unfolding t2_def transplant_fields px o1(1) lp ..
  have r2: "rgt t2 z = (if z = par t x \<and> z \<noteq> rb_nil t \<and> lft t z \<noteq> x then y else rgt t1 z)" for z
    unfolding t2_def transplant_fields px o1(1) lp ..
  have p2: "par t2 z = (if z = y then par t x else par t1 z)" for z
    unfolding t2_def transplant_fields px o1(1) using nn(2) by auto
  have o2: "col t2 z = col t z" "rb_root t2 = (if par t x = rb_nil t then y else rb_root t)" "rb_same t t2" for z
    unfolding t2_def transplant_fields px using o1 by simp_all
  have r: "rb_replace t x y = set_color y (col t x) (set_parent (lft t x) y (set_left y (lft t x) t2))"
    unfolding r t2_def [symmetric] using lx [folded t2_def] by (simp add: o2)
  have L: "lft (rb_replace t x y) z = (if z = y then lft t x else if z = par t x \<and> z \<noteq> rb_nil t \<and> lft t z = x then y
      else if z = par t y \<and> y \<noteq> rgt t x then rgt t y else lft t z)" for z
    unfolding r set_color_fields set_parent_fields set_left_fields l2 l1 ..
  have R: "rgt (rb_replace t x y) z = (if z = y then (if y = rgt t x then rgt t y else rgt t x)
      else if z = par t x \<and> z \<noteq> rb_nil t \<and> lft t z \<noteq> x then y else rgt t z)" for z
    unfolding r set_color_fields set_parent_fields set_left_fields r2 r1 using ne(6) by (cases "z = y") auto
  have P: "par (rb_replace t x y) z = (if z = y then par t x else if z = lft t x \<or> z = rgt t x then y
      else if z = rgt t y \<and> z \<noteq> rb_nil t \<and> y \<noteq> rgt t x then par t y else par t z)" for z
    unfolding r set_color_fields set_parent_fields set_left_fields p2 p1 using ne(3) py(1)
    by (cases "z = y"; cases "z = lft t x"; cases "z = rgt t x") simp_all
  show "replaced (rb_nil t) x y (lft t) (rgt t) (par t) (lft (rb_replace t x y)) (rgt (rb_replace t x y)) (par (rb_replace t x y))"
    unfolding replaced_def using L R P by blast
  show "rb_root (rb_replace t x y) = (if par t x = rb_nil t then y else rb_root t)" unfolding r by (simp add: o2)
  show "rb_same t (rb_replace t x y)" unfolding r by (simp add: o2)
  show "col (rb_replace t x y) z = (if z = y then col t x else col t z)" unfolding r by (simp add: o2)
qed

lemma rb_replace_shape:
  assumes s: "rb_shape t T" and x: "x \<in> set_tree T" and A: "sub x T = Node A x C" "A \<noteq> Leaf" "C \<noteq> Leaf"
  shows "\<exists>y B. y = hd (inorder C) \<and> y \<in> set_tree T \<and> lft t y = rb_nil t \<and> (rgt t y = rb_nil t \<or> rgt t y \<in> set_tree T) \<and>
    rb_shape (rb_replace t x y) (subst x (Node A y (subst y B C)) T) \<and>
    inorder (Node A y (subst y B C)) = inorder A @ inorder C \<and> rb_same t (rb_replace t x y) \<and>
    (\<forall>z. col (rb_replace t x y) z = (if z = y then col t x else col t z)) \<and>
    par (rb_replace t x y) (rb_nil t) = par t (rb_nil t)"
proof -
  note T = rb_shape_tree [OF s] and D = rb_shape_distinct [OF s] and N = rb_shape_nil [OF s]
  have xs: "tree_at (lft t) (rgt t) (par t) (rb_nil t) (par t x) x (Node A x C)" using sub_tree_at [OF T x] A by simp
  have sb: "set_tree (Node A x C) \<subseteq> set_tree T" using sub_subset [of x T] A by simp
  obtain us vs where io: "inorder T = us @ inorder (Node A x C) @ vs" "\<And>S. inorder (subst x S T) = us @ inorder S @ vs"
    using sub_split [OF x] A by metis
  have dn: "distinct (inorder (Node A x C))" using D io(1) by (metis distinct_append)
  have px: "par t x \<notin> set_tree (Node A x C)" using sub_parent_notin [OF T D x N] A by simp
  have ta: "tree_at (lft t) (rgt t) (par t) (rb_nil t) x (lft t x) A" and tc: "tree_at (lft t) (rgt t) (par t) (rb_nil t) x (rgt t x) C"
    using xs by auto
  have dc: "distinct (inorder C)" "x \<notin> set_tree C" "x \<notin> set_tree A" and dj: "\<And>z. z \<in> set_tree A \<Longrightarrow> z \<notin> set_tree C" using dn by auto
  obtain y B where y: "y = hd (inorder C)" "y \<in> set_tree C" "lft t y = rb_nil t" "sub y C = Node Leaf y B"
    "inorder (subst y B C) = tl (inorder C)" "y = rgt t x \<or> par t y \<in> set_tree C \<and> lft t (par t y) = y"
    using leftmost [OF tc dc(1) A(3)] by blast
  have nn: "x \<noteq> rb_nil t" "y \<noteq> rb_nil t" using x y(2) sb N by auto
  have lx: "lft t x \<in> set_tree A" "lft t x \<noteq> rb_nil t" using tree_at_root [OF ta] ta A(2) by (cases A; auto)+
  have rx: "rgt t x \<in> set_tree C" "rgt t x \<noteq> rb_nil t" using tree_at_root [OF tc] tc A(3) by (cases C; auto)+
  have px': "par t x \<noteq> x" "par t x \<notin> set_tree A" "par t x \<notin> set_tree C" using px by auto
  have pr: "par t (rgt t x) = x" using tree_at_root_parent [OF tc rx(2)] .
  have pc: "par t y = x \<longleftrightarrow> y = rgt t x" using y(6) pr dc(2) by metis
  have py: "y \<noteq> rgt t x \<Longrightarrow> lft t (par t y) = y \<and> par t y \<noteq> rb_nil t \<and> par t y \<noteq> par t x"
    using y(6) px'(3) tree_at_nil [OF tc] by auto
  have pyy: "par t y \<noteq> y"
  proof (cases "y = rgt t x")
    case True
    then show ?thesis using pr dc(2) y(2) by auto
  next
    case False
    then show ?thesis using py y(3) nn by metis
  qed
  have ry: "rgt t y = rb_nil t \<or> rgt t y \<in> set_tree C \<and> par t (rgt t y) = y" using tree_at_children [OF tc y(2)] by blast
  have ry': "rgt t y \<noteq> y" "rgt t y \<noteq> x" "rgt t y = rb_nil t \<or> rgt t y \<noteq> rgt t x \<and> rgt t y \<noteq> lft t x"
    using ry pyy nn dc(2) pr dj [OF lx(1)] y(2) by metis+
  have rp: "y \<noteq> lft t x" "x \<noteq> lft t x" "x \<noteq> rgt t x" "lft t x \<noteq> rgt t x" "x \<noteq> y" "par t x \<noteq> y" using lx rx y(2) dc dj px' by auto
  note F = rb_replace_fields [OF rp(5,2,1,3) px'(1) rp(6) pyy rp(4) nn rx(2) pc py ry']
  let ?t = "rb_replace t x y" and ?S = "Node A y (subst y B C)"
  have S: "tree_at (lft ?t) (rgt ?t) (par ?t) (rb_nil t) (par t x) y ?S"
    by (rule replaced_subtree [OF F(1) xs dn px A(2) y(2,3,4,6)])
  have out: "lft ?t z = (if lft t z = x then y else lft t z) \<and> rgt ?t z = (if rgt t z = x then y else rgt t z) \<and>
      (z \<noteq> rb_root t \<longrightarrow> par ?t z = par t z)" if z: "z \<in> set_tree T" "z \<notin> set_tree (sub x T)" for z
  proof -
    have zn: "z \<noteq> rb_nil t" using z N by auto
    have zo: "z \<notin> set_tree C" "z \<notin> set_tree A" using z(2) A(1) by auto
    have ne: "z \<noteq> y" "z \<noteq> lft t x" "z \<noteq> rgt t x" "z \<noteq> rgt t y" "y = rgt t x \<or> z \<noteq> par t y"
      using zo zn y(2,6) lx rx ry by metis+
    have c: "(z = par t x \<and> z \<noteq> rb_nil t \<and> lft t z = x) = (lft t z = x)"
      "(z = par t x \<and> z \<noteq> rb_nil t \<and> lft t z \<noteq> x) = (rgt t z = x)"
      using tree_at_children [OF T z(1)] nn zn rb_parent_in(3) [OF s x] by metis+
    have "lft ?t z = (if z = y then lft t x else if z = par t x \<and> z \<noteq> rb_nil t \<and> lft t z = x then y
        else if z = par t y \<and> y \<noteq> rgt t x then rgt t y else lft t z)"
      "rgt ?t z = (if z = y then (if y = rgt t x then rgt t y else rgt t x)
        else if z = par t x \<and> z \<noteq> rb_nil t \<and> lft t z \<noteq> x then y else rgt t z)"
      "par ?t z = par t z"
      using F(1) ne(1-4) unfolding replaced_def by simp_all
    then show ?thesis unfolding c using ne(1,5) by auto
  qed
  have q: "(if rb_root t = x then rb_nil t else par t x) = par t x" using rb_parent_in(1) [OF s x] by auto
  have root: "par ?t (rb_root t) = rb_nil t" if "rb_root t \<noteq> x"
  proof -
    have rn: "rb_root t \<noteq> rb_nil t" using T x by (cases T) auto
    then have p0: "par t (rb_root t) = rb_nil t" using tree_at_root_parent [OF T] by blast
    have nin: "rb_root t \<notin> set_tree A" "rb_root t \<notin> set_tree C"
    proof -
      have "par t z \<noteq> rb_nil t" if "z \<in> set_tree A \<union> set_tree C" for z
        using that tree_at_parent [OF ta, of z] tree_at_parent [OF tc, of z] nn tree_at_nil [OF ta] tree_at_nil [OF tc] by auto
      then show "rb_root t \<notin> set_tree A" "rb_root t \<notin> set_tree C" using p0 by auto
    qed
    have "rb_root t \<noteq> y" "rb_root t \<noteq> lft t x" "rb_root t \<noteq> rgt t x" "rb_root t \<noteq> rgt t y" using nin y(2) lx rx ry rn by metis+
    then show ?thesis using F(1) p0 unfolding replaced_def by auto
  qed
  have "tree_at (lft ?t) (rgt ?t) (par ?t) (rb_nil t) (rb_nil t) (if rb_root t = x then y else rb_root t) (subst x ?S T)"
    using out root S q by (intro subst_tree_at [OF T D x]) auto
  moreover have "rb_root ?t = (if rb_root t = x then y else rb_root t)" using F(2) rb_parent_in(1) [OF s x] by auto
  moreover have n: "rb_nil ?t = rb_nil t" "rb_next ?t = rb_next t" using F(3) by (simp_all add: rb_same_def)
  moreover have "lft ?t (rb_nil t) = rb_nil t" "rgt ?t (rb_nil t) = rb_nil t"
    using F(1) nn s py unfolding replaced_def rb_shape_def by metis+
  moreover have iS: "inorder ?S = inorder A @ inorder C" using y(1,2,5) by (cases "inorder C") (auto simp flip: set_inorder)
  moreover have "distinct (inorder (subst x ?S T))" using D unfolding io iS by auto
  moreover have "set_tree (subst x ?S T) \<subseteq> set_tree T" unfolding set_inorder [symmetric] io iS by auto
  ultimately have "rb_shape ?t (subst x ?S T)" using s unfolding rb_shape_def by auto
  moreover have "par ?t (rb_nil t) = par t (rb_nil t)" using F(1) nn lx rx unfolding replaced_def by metis
  moreover have "rgt t y = rb_nil t \<or> rgt t y \<in> set_tree T" using ry sb by auto
  ultimately show ?thesis using y(1,2,3) F(3,4) iS sb by (intro exI [of _ y] exI [of _ B]) auto
qed

section \<open>Balanced trees\<close>

text \<open>The number of black nodes on the leftmost path, and that every path has as many.\<close>

fun black_height :: "'v lu_rb_tree_t \<Rightarrow> rbptr tree \<Rightarrow> nat" where
  "black_height t Leaf = 0"
| "black_height t (Node L a R) = black_height t L + (if col t a = BLACK then 1 else 0)"

fun black_balanced :: "'v lu_rb_tree_t \<Rightarrow> rbptr tree \<Rightarrow> bool" where
  "black_balanced t Leaf = True"
| "black_balanced t (Node L a R) = (black_height t L = black_height t R \<and> black_balanced t L \<and> black_balanced t R)"

definition clean_sentinel :: "'v lu_rb_tree_t \<Rightarrow> bool" where
  "clean_sentinel t \<longleftrightarrow> col t (rb_nil t) = BLACK \<and> par t (rb_nil t) = rb_nil t"

definition rb_balanced :: "'v lu_rb_tree_t \<Rightarrow> bool" where
  "rb_balanced t \<longleftrightarrow> clean_sentinel t \<and> (\<exists>T. rb_shape t T \<and> black_balanced t T)"

text \<open>The tree that a memory represents is unique.\<close>

lemma tree_at_unique: "tree_at l r pr nil q p T \<Longrightarrow> tree_at l r pr nil q' p T' \<Longrightarrow> T = T'"
proof (induction T arbitrary: q p q' T')
  case Leaf
  then show ?case by (cases T') auto
next
  case (Node L a R)
  then obtain L' R' where "T' = Node L' a R'" by (cases T') auto
  then show ?case using Node by auto
qed

lemma rb_shape_unique: "rb_shape t T \<Longrightarrow> rb_shape t T' \<Longrightarrow> T = T'"
  using tree_at_unique rb_shape_tree by metis

lemma balanced_sub: "black_balanced t T \<Longrightarrow> black_balanced t (sub x T)"
  by (induction T) auto

lemma only_child_red:
  assumes s: "rb_shape t T" and b: "black_balanced t T" and x: "x \<in> set_tree T"
  shows "lft t x = rb_nil t \<Longrightarrow> rgt t x \<noteq> rb_nil t \<Longrightarrow> col t (rgt t x) = RED"
    "rgt t x = rb_nil t \<Longrightarrow> lft t x \<noteq> rb_nil t \<Longrightarrow> col t (lft t x) = RED"
proof -
  obtain A C where A: "sub x T = Node A x C" using sub_root [OF x] by blast
  have c: "tree_at (lft t) (rgt t) (par t) (rb_nil t) x (lft t x) A" "tree_at (lft t) (rgt t) (par t) (rb_nil t) x (rgt t x) C"
    using sub_tree_at [OF rb_shape_tree [OF s] x] A by auto
  have h: "black_height t A = black_height t C" using balanced_sub [OF b, of x] A by simp
  show "col t (rgt t x) = RED" if "lft t x = rb_nil t" "rgt t x \<noteq> rb_nil t"
    using c h that by (cases A; cases C) (auto split: if_splits intro: rb_color.exhaust)
  show "col t (lft t x) = RED" if "rgt t x = rb_nil t" "lft t x \<noteq> rb_nil t"
    using c h that by (cases A; cases C) (auto split: if_splits intro: rb_color.exhaust)
qed

section \<open>The repair that changes nothing\<close>

lemma delete_fixup_red: "col t x = RED \<Longrightarrow> lu_rb_tree_delete_fixup t x = Some (set_color x BLACK t)"
  by (simp add: lu_rb_tree_delete_fixup_def eval_nat_numeral)

text \<open>At the sentinel one round paints it red, and the loop stops and paints it black again.\<close>

lemma delete_fixup_nil:
  assumes "rb_shape t T" "clean_sentinel t"
  shows "\<exists>t'. lu_rb_tree_delete_fixup t (rb_nil t) = Some t' \<and> rb_shape t' T \<and> rb_same t t' \<and> clean_sentinel t'"
proof (cases "rb_root t = rb_nil t")
  case True
  then show ?thesis using assms
    by (intro exI [of _ "set_color (rb_nil t) BLACK t"]) (simp add: lu_rb_tree_delete_fixup_def eval_nat_numeral clean_sentinel_def)
next
  case False
  have n: "lft t (rb_nil t) = rb_nil t" "rgt t (rb_nil t) = rb_nil t" using assms(1) by (simp_all add: rb_shape_def)
  have c: "col t (rb_nil t) = BLACK" "par t (rb_nil t) = rb_nil t" using assms(2) by (simp_all add: clean_sentinel_def)
  have "delete_fixup_left t (rb_nil t) = (set_color (rb_nil t) RED t, rb_nil t)" using n c by (simp add: delete_fixup_left_def Let_def)
  then have "lu_rb_tree_delete_fixup t (rb_nil t) = Some (set_color (rb_nil t) BLACK (set_color (rb_nil t) RED t))"
    using False n c by (simp add: lu_rb_tree_delete_fixup_def eval_nat_numeral)
  then show ?thesis using assms by (simp add: clean_sentinel_def)
qed

lemma delete_fixup_trivial:
  assumes "rb_shape t T" "clean_sentinel t" "x = rb_nil t \<or> x \<in> set_tree T \<and> col t x = RED"
  shows "\<exists>t'. (if c = BLACK then lu_rb_tree_delete_fixup t x else Some t) = Some t' \<and> rb_shape t' T \<and> rb_same t t' \<and> clean_sentinel t'"
proof (cases "c = BLACK")
  case True
  show ?thesis
  proof (cases "x = rb_nil t")
    case True
    then show ?thesis using delete_fixup_nil [OF assms(1,2)] \<open>c = BLACK\<close> by simp
  next
    case False
    then have "lu_rb_tree_delete_fixup t x = Some (set_color x BLACK t)" using delete_fixup_red assms(3) by blast
    then show ?thesis using assms(1,2) True by (simp add: clean_sentinel_def)
  qed
qed (use assms in simp)

section \<open>Deletion\<close>

lemma rb_minimum_ok:
  assumes "rb_shape t T" "tree_at (lft t) (rgt t) (par t) (rb_nil t) q p C" "C \<noteq> Leaf" "size C \<le> size T"
  shows "lu_rb_tree_minimum t p = Some (hd (inorder C))"
  using rb_minimum_loop_ok [OF assms(2,3), of "Suc (rb_next t)"] rb_size [OF assms(1)] assms(4)
  by (simp add: lu_rb_tree_minimum_def)

text \<open>Cutting out a node: the tree without it, the node to repair, and its colour.\<close>

lemma cut_out:
  assumes s: "rb_shape t T" and b: "black_balanced t T" and cl: "clean_sentinel t" and x: "x \<in> set_tree T"
  shows "\<exists>t1 T1 z c us vs. (if lft t x = rb_nil t then Some (lu_rb_tree_transplant t x (rgt t x), rgt t x, col t x)
      else if rgt t x = rb_nil t then Some (lu_rb_tree_transplant t x (lft t x), lft t x, col t x)
      else (case lu_rb_tree_minimum t (rgt t x) of None \<Rightarrow> None | Some y \<Rightarrow> Some (rb_replace t x y, rgt t y, col t y))) = Some (t1, z, c) \<and>
    rb_shape t1 T1 \<and> rb_same t t1 \<and> clean_sentinel t1 \<and> inorder T = us @ x # vs \<and> inorder T1 = us @ vs \<and>
    (z = rb_nil t1 \<or> z \<in> set_tree T1 \<and> col t1 z = RED)"
proof -
  note red = only_child_red [OF s b]
  obtain A C where A: "sub x T = Node A x C" using sub_root [OF x] by blast
  have c: "tree_at (lft t) (rgt t) (par t) (rb_nil t) x (lft t x) A" "tree_at (lft t) (rgt t) (par t) (rb_nil t) x (rgt t x) C"
    using sub_tree_at [OF rb_shape_tree [OF s] x] A by auto
  obtain us vs where io: "inorder T = us @ inorder (Node A x C) @ vs" "\<And>S. inorder (subst x S T) = us @ inorder S @ vs"
    using sub_split [OF x] A by metis
  have leaf: "lft t x = rb_nil t \<longleftrightarrow> A = Leaf" "rgt t x = rb_nil t \<longleftrightarrow> C = Leaf" using c by (cases A; cases C; auto)+
  have ch: "rgt t x = rb_nil t \<or> rgt t x \<in> set_tree C" "lft t x = rb_nil t \<or> lft t x \<in> set_tree A"
    using tree_at_root [OF c(1)] tree_at_root [OF c(2)] by blast+
  have tr: "rb_same t (lu_rb_tree_transplant t x v)" "clean_sentinel (lu_rb_tree_transplant t x v)"
    "rb_nil (lu_rb_tree_transplant t x v) = rb_nil t" "col (lu_rb_tree_transplant t x v) z = col t z" for v z
    using cl unfolding clean_sentinel_def transplant_fields by auto
  consider "A = Leaf" | "A \<noteq> Leaf" "C = Leaf" | "A \<noteq> Leaf" "C \<noteq> Leaf" by blast
  then show ?thesis
  proof cases
    case 1
    have "rb_shape (lu_rb_tree_transplant t x (rgt t x)) (subst x C T)" using transplant_shape [OF s x A] by blast
    moreover have "set_tree C \<subseteq> set_tree (subst x C T)" unfolding set_inorder [symmetric] io(2) by auto
    ultimately show ?thesis using 1 leaf io tr ch(1) red(1) [OF x]
      by (intro exI [of _ "lu_rb_tree_transplant t x (rgt t x)"] exI [of _ "subst x C T"] exI [of _ "rgt t x"] exI [of _ "col t x"]
          exI [of _ us] exI [of _ "inorder C @ vs"]) auto
  next
    case 2
    have "rb_shape (lu_rb_tree_transplant t x (lft t x)) (subst x A T)" using transplant_shape [OF s x A] by blast
    moreover have "set_tree A \<subseteq> set_tree (subst x A T)" unfolding set_inorder [symmetric] io(2) by auto
    ultimately show ?thesis using 2 leaf io tr ch(2) red(2) [OF x]
      by (intro exI [of _ "lu_rb_tree_transplant t x (lft t x)"] exI [of _ "subst x A T"] exI [of _ "lft t x"] exI [of _ "col t x"]
          exI [of _ "us @ inorder A"] exI [of _ vs]) auto
  next
    case 3
    obtain y B where y: "y = hd (inorder C)" "y \<in> set_tree T" "lft t y = rb_nil t" "rgt t y = rb_nil t \<or> rgt t y \<in> set_tree T"
      "rb_shape (rb_replace t x y) (subst x (Node A y (subst y B C)) T)"
      "inorder (Node A y (subst y B C)) = inorder A @ inorder C" "rb_same t (rb_replace t x y)"
      "\<forall>z. col (rb_replace t x y) z = (if z = y then col t x else col t z)" "par (rb_replace t x y) (rb_nil t) = par t (rb_nil t)"
      using rb_replace_shape [OF s x A 3] by blast
    have "length (inorder C) \<le> length (inorder T)" unfolding io(1) by simp
    then have m: "lu_rb_tree_minimum t (rgt t x) = Some y" using rb_minimum_ok [OF s c(2) 3(2)] y(1) by simp
    have nn: "y \<noteq> rb_nil t" using y(2) rb_shape_nil [OF s] by auto
    have ry: "rgt t y \<noteq> y" using tree_at_children [OF rb_shape_tree [OF s] y(2)] nn
        rb_depth_parent [OF s, of y] y(2) by (metis n_not_Suc_n)
    have rx: "rgt t y \<noteq> x" if "rgt t y \<noteq> rb_nil t"
    proof
      assume e: "rgt t y = x"
      then have "par t x = y" using tree_at_children [OF rb_shape_tree [OF s] y(2)] that by auto
      moreover have "y \<in> set_tree (sub x T)" using y(1) A 3(2) by (cases "inorder C") (auto simp flip: set_inorder)
      ultimately show False using sub_parent_notin [OF rb_shape_tree [OF s] rb_shape_distinct [OF s] x rb_shape_nil [OF s]] by metis
    qed
    have "clean_sentinel (rb_replace t x y)" using cl y(7,8,9) nn by (simp add: clean_sentinel_def rb_same_def)
    moreover have "set_tree T - {x} \<subseteq> set_tree (subst x (Node A y (subst y B C)) T)"
      unfolding set_inorder [symmetric] io y(6) by auto
    ultimately show ?thesis using 3 leaf m y ry rx red(1) [OF y(2,3)] io
      by (intro exI [of _ "rb_replace t x y"] exI [of _ "subst x (Node A y (subst y B C)) T"] exI [of _ "rgt t y"] exI [of _ "col t y"]
          exI [of _ "us @ inorder A"] exI [of _ "inorder C @ vs"]) (auto simp: rb_same_def)
  qed
qed

lemma rb_tree_delete_ok:
  assumes r: "rb_rep t xs" and b: "rb_balanced t" and k: "k \<in> fst ` set xs"
  shows "\<exists>t' us v vs. rb_tree_delete t k = Some (True, t') \<and> xs = us @ (k, v) # vs \<and> rb_rep t' (us @ vs) \<and> clean_sentinel t'"
proof -
  obtain T where T: "rb_shape t T" "rb_seq t T = xs" "sorted (map fst xs)" using r by (auto simp: rb_rep_def)
  have b: "black_balanced t T" "clean_sentinel t" using b rb_shape_unique T(1) by (auto simp: rb_balanced_def)
  obtain x where x: "lu_hash_rb_tree_find t k = Some (Some x)" "x \<in> set_tree T" "key t x = k"
    using rb_find_loop_ok [OF rb_shape_tree [OF T(1)], of "Suc (rb_next t)" k] T rb_size [OF T(1)] k
    by (auto simp: lu_hash_rb_tree_find_def split: option.splits)
  obtain t1 T1 z c us vs where c: "(if lft t x = rb_nil t then Some (lu_rb_tree_transplant t x (rgt t x), rgt t x, col t x)
      else if rgt t x = rb_nil t then Some (lu_rb_tree_transplant t x (lft t x), lft t x, col t x)
      else (case lu_rb_tree_minimum t (rgt t x) of None \<Rightarrow> None | Some y \<Rightarrow> Some (rb_replace t x y, rgt t y, col t y))) = Some (t1, z, c)"
    "rb_shape t1 T1" "rb_same t t1" "clean_sentinel t1" "inorder T = us @ x # vs" "inorder T1 = us @ vs"
    "z = rb_nil t1 \<or> z \<in> set_tree T1 \<and> col t1 z = RED"
    using cut_out [OF T(1) b x(2)] by (elim exE conjE) (rule that, assumption+)
  obtain t' where t': "(if c = BLACK then lu_rb_tree_delete_fixup t1 z else Some t1) = Some t'" "rb_shape t' T1" "rb_same t1 t'" "clean_sentinel t'"
    using delete_fixup_trivial [OF c(2,4,7)] by blast
  have d: "rb_tree_delete t k = Some (True, t')" by (simp only: rb_tree_delete_def x(1) option.case c(1) prod.case t'(1) option.map)
  let ?e = "\<lambda>y. (key t y, rb_value (rb_mem t y))"
  have xs: "xs = map ?e us @ (k, rb_value (rb_mem t x)) # map ?e vs" using T(2) c(5) x(3) by (simp add: rb_seq_def)
  have "rb_same t t'" using c(3) t'(3) rb_same_trans by blast
  then have "rb_seq t' T1 = map ?e us @ map ?e vs" using c(6) by (simp add: rb_seq_def rb_same_def)
  moreover have "sorted (map fst (map ?e us @ map ?e vs))" using T(3) unfolding xs by (auto simp: sorted_append)
  ultimately have "rb_rep t' (map ?e us @ map ?e vs)" using t'(2) by (auto simp: rb_rep_def)
  then show ?thesis using d xs t'(4) by blast
qed

end
