(* ===== verification/LuHashTableProps.thy ===== *)
theory LuHashTableProps
  imports LuHashTable LuRBTreeDelete
begin

text \<open>
  The hash table as a map from keys to pointers (\<open>hash_rep\<close>): the index is in range and its
  computation stays within the C types, find looks up, insert updates, deletion from a list bucket
  removes, growing keeps the map, and destruction frees each node once. The client's view of the
  table, a map into which a missing key is inserted, is the locale \<open>missing_key_map\<close>.
\<close>

section \<open>The index\<close>

lemma lu_hash_function_less:
  assumes "0 < n" "n < 2 ^ 64"
  shows "lu_hash_function k n < n"
proof -
  let ?n = "word_of_nat n :: 64 word"
  let ?h = "word_of_int (hash_int k n) :: 64 word"
  have u: "unat ?n = n" using assms(2) by (simp add: unat_of_nat take_bit_nat_eq_self)
  have nz: "?n \<noteq> 0" using assms(1) u by (metis neq0_conv unat_0)
  have "unat (?h AND (?n - 1)) \<le> unat (?n - 1)" using word_and_le1 [of ?h "?n - 1"] by (simp add: word_le_nat_alt)
  also have "\<dots> = n - 1" using nz u by (metis unat_minus_one)
  finally have 1: "unat (?h AND (?n - 1)) < n" using assms(1) by linarith
  have "unat (?h mod ?n) < n" using u assms(1) by (simp add: unat_mod_distrib)
  then show ?thesis using 1 by (simp add: lu_hash_function_def Let_def)
qed

text \<open>Rounding stays below a bound of few significant bits.\<close>

lemma rn53_bound:
  assumes n: "\<bar>n\<bar> \<le> c * 2 ^ j" and c: "0 \<le> c" "c < 2 ^ 53"
  shows "\<bar>rn53 n\<bar> \<le> c * 2 ^ j"
proof -
  define a where "a = \<bar>n\<bar>"
  define e where "e = nat (bitlen a - 53)"
  define q where "q = a div 2 ^ e"
  define r where "r = a mod 2 ^ e"
  define m where "m = (if 2 * r > 2 ^ e \<or> 2 * r = 2 ^ e \<and> odd q then q + 1 else q)"
  have rn: "rn53 n = sgn n * (m * 2 ^ e)" by (simp add: rn53_def Let_def a_def e_def q_def r_def m_def)
  have a0: "0 \<le> a" by (simp add: a_def)
  have ar0: "a = q * 2 ^ e + r" unfolding q_def r_def by (rule div_mult_mod_eq [symmetric])
  have ar: "a = q * 2 ^ e + r" "0 \<le> r" "r < 2 ^ e" "0 \<le> q"
    by (rule ar0) (use a0 in \<open>simp_all add: q_def r_def pos_imp_zdiv_nonneg_iff\<close>)
  have pw: "2 * r > 2 ^ e \<or> 2 * r = 2 ^ e \<Longrightarrow> 0 < r"
    using ar(2) zero_less_power [of "2::int" e] by linarith
  have m: "q \<le> m" "m \<le> q + 1" "m = q + 1 \<Longrightarrow> 0 < r"
    using ar(2) pw by (auto simp: m_def split: if_splits)
  have ej: "e \<le> j \<or> a = 0"
  proof (rule ccontr)
    assume no: "\<not> (e \<le> j \<or> a = 0)"
    then have "a > 0" "j < e" using a0 by auto
    then have "53 < bitlen a" by (simp add: e_def)
    have "(2::int) ^ nat (bitlen a - 1) \<le> a" using bitlen_bounds [OF \<open>a > 0\<close>] by simp
    moreover have "nat (bitlen a - 1) = 52 + e" using \<open>53 < bitlen a\<close> by (simp add: e_def)
    moreover have "(2::int) ^ (53 + j) \<le> 2 ^ (52 + e)" using \<open>j < e\<close> by (intro power_increasing) auto
    moreover have "a < 2 ^ 53 * 2 ^ j" using n c(2) unfolding a_def
      by (smt (verit) mult_strict_right_mono zero_less_power)
    ultimately show False by (simp add: power_add)
  qed
  have "m * 2 ^ e \<le> c * 2 ^ j"
  proof (cases "a = 0")
    case True
    then have "q = 0" "r = 0" by (simp_all add: q_def r_def)
    then have "m = 0" by (simp add: m_def)
    then show ?thesis using c by simp
  next
    case False
    then have e: "e \<le> j" using ej by simp
    then have cj: "c * 2 ^ j = c * 2 ^ (j - e) * 2 ^ e" by (simp add: power_add [symmetric])
    have "q * 2 ^ e + r \<le> c * 2 ^ (j - e) * 2 ^ e" using n ar(1) cj by (simp add: a_def)
    then have "q * 2 ^ e \<le> c * 2 ^ (j - e) * 2 ^ e" "0 < r \<Longrightarrow> q * 2 ^ e < c * 2 ^ (j - e) * 2 ^ e" using ar(2) by linarith+
    then have q: "q \<le> c * 2 ^ (j - e)" "0 < r \<Longrightarrow> q < c * 2 ^ (j - e)" by simp_all
    have "m = q \<or> m = q + 1" using m(1,2) by linarith
    then have "m \<le> c * 2 ^ (j - e)" using q m(3) by (elim disjE) linarith+
    then show ?thesis unfolding cj by (intro mult_right_mono) auto
  qed
  moreover have "0 \<le> m" using m(1) ar(4) by linarith
  ultimately have "\<bar>sgn n * (m * 2 ^ e)\<bar> \<le> c * 2 ^ j" using c by (simp add: abs_mult abs_sgn_eq)
  then show ?thesis unfolding rn .
qed

lemma trunc53_bound: "\<bar>n\<bar> \<le> c * 2 ^ 53 \<Longrightarrow> \<bar>trunc53 n\<bar> \<le> c"
proof -
  assume n: "\<bar>n\<bar> \<le> c * 2 ^ 53"
  then have "\<bar>n\<bar> div 2 ^ 53 \<le> c" using zdiv_mono1 [OF n, of "2 ^ 53"] by simp
  moreover have "0 \<le> c" using n by (smt (verit) mult_neg_pos zero_less_power)
  ultimately show ?thesis by (simp add: trunc53_def abs_mult abs_sgn_eq)
qed

lemma trunc53_rest: "\<bar>n - trunc53 n * 2 ^ 53\<bar> < 2 ^ 53"
proof -
  have "n - trunc53 n * 2 ^ 53 = sgn n * (\<bar>n\<bar> mod 2 ^ 53)"
    unfolding trunc53_def minus_div_mult_eq_mod [symmetric] by (cases n rule: linorder_cases [of _ 0]) (simp_all add: algebra_simps)
  then show ?thesis by (simp add: abs_mult abs_sgn_eq)
qed

text \<open>Both casts to \<open>int\<close> are of doubles that an \<open>int\<close> holds.\<close>

lemma hash_casts:
  assumes k: "- (2 ^ 31) \<le> k" "k < 2 ^ 31" and n: "0 < n" "n < 2 ^ 31"
  shows "\<bar>trunc53 (hash_temp k)\<bar> < 2 ^ 31" "\<bar>hash_int k n\<bar> < 2 ^ 31"
proof -
  have "\<bar>k * golden_rate_reciprocal\<bar> \<le> 2 ^ 31 * golden_rate_reciprocal"
    using k by (simp add: golden_rate_reciprocal_def abs_mult)
  also have "\<dots> \<le> 5 * 2 ^ 81" by (simp add: golden_rate_reciprocal_def)
  finally have "\<bar>hash_temp k\<bar> \<le> 5 * 2 ^ 81" unfolding hash_temp_def by (intro rn53_bound) simp_all
  then have "\<bar>trunc53 (hash_temp k)\<bar> \<le> 5 * 2 ^ 28" by (intro trunc53_bound) simp
  then show "\<bar>trunc53 (hash_temp k)\<bar> < 2 ^ 31" by simp
  have "\<bar>hash_temp k - trunc53 (hash_temp k) * 2 ^ 53\<bar> \<le> (2 ^ 53 - 1) * 2 ^ 0"
    using trunc53_rest [of "hash_temp k"] by simp
  then have f: "\<bar>hash_fractional_part k\<bar> \<le> (2 ^ 53 - 1) * 2 ^ 0"
    unfolding hash_fractional_part_def by (intro rn53_bound) simp_all
  have ts: "\<bar>rn53 (int n)\<bar> \<le> int n * 2 ^ 0" using n by (intro rn53_bound) simp_all
  have "\<bar>rn53 (int n) * hash_fractional_part k\<bar> = \<bar>rn53 (int n)\<bar> * \<bar>hash_fractional_part k\<bar>" by (simp add: abs_mult)
  also have "\<dots> \<le> int n * 2 ^ 53" using f ts by (intro mult_mono) simp_all
  finally have "\<bar>rn53 (rn53 (int n) * hash_fractional_part k)\<bar> \<le> int n * 2 ^ 53" using n by (intro rn53_bound) simp_all
  then have "\<bar>hash_int k n\<bar> \<le> int n" unfolding hash_int_def by (rule trunc53_bound)
  then show "\<bar>hash_int k n\<bar> < 2 ^ 31" using n(2) by simp
qed

section \<open>What a bucket stores\<close>

definition bucket_rep :: "'v lu_hash_bucket_t \<Rightarrow> (int \<times> 'v option) list \<Rightarrow> bool" where
  "bucket_rep b xs \<longleftrightarrow>
     (case bucket_data b of
        LU_HASH_BUCKET_LIST es \<Rightarrow> es = xs
      | LU_HASH_BUCKET_RBTREE None \<Rightarrow> False
      | LU_HASH_BUCKET_RBTREE (Some t) \<Rightarrow> rb_rep t xs)"

text \<open>The keys of a bucket are distinct, have its index, and are mapped as \<open>m\<close> says.\<close>

definition bucket_ok :: "(int \<Rightarrow> nat) \<Rightarrow> (int \<rightharpoonup> 'v option) \<Rightarrow> nat \<Rightarrow> 'v lu_hash_bucket_t \<Rightarrow> bool" where
  "bucket_ok hf m i b \<longleftrightarrow> (\<exists>xs. bucket_rep b xs \<and> distinct (map fst xs) \<and> (\<forall>k. hf k = i \<longrightarrow> map_of xs k = m k) \<and>
     (\<forall>e\<in>set xs. hf (fst e) = i))"

definition hash_rep :: "'v lu_hash_table_t \<Rightarrow> (int \<rightharpoonup> 'v option) \<Rightarrow> bool" where
  "hash_rep h m \<longleftrightarrow> 0 < table_size h \<and> table_size h < 2 ^ 31 \<and> length (buckets h) = table_size h \<and>
     (\<forall>i < table_size h. bucket_ok (\<lambda>k. lu_hash_function k (table_size h)) m i (buckets h ! i))"

lemma bucket_rep_simps [simp]:
  "bucket_rep \<lparr>bucket_data = LU_HASH_BUCKET_LIST es, esize_bucket = n\<rparr> xs \<longleftrightarrow> es = xs"
  "bucket_rep \<lparr>bucket_data = LU_HASH_BUCKET_RBTREE (Some t), esize_bucket = n\<rparr> xs \<longleftrightarrow> rb_rep t xs"
  "bucket_rep (b\<lparr>bucket_data := LU_HASH_BUCKET_LIST es\<rparr>) xs \<longleftrightarrow> es = xs"
  "bucket_rep (b\<lparr>bucket_data := LU_HASH_BUCKET_RBTREE (Some t)\<rparr>) xs \<longleftrightarrow> rb_rep t xs"
  "bucket_rep (b\<lparr>esize_bucket := n\<rparr>) xs \<longleftrightarrow> bucket_rep b xs"
  by (simp_all add: bucket_rep_def)

lemma list_find_map_of: "map_option snd (lu_hash_list_find es k) = map_of es k"
  by (induction es) auto

lemma list_find_case: "(case lu_hash_list_find es k of Some e \<Rightarrow> snd e | None \<Rightarrow> None) = (case map_of es k of Some v \<Rightarrow> v | None \<Rightarrow> None)"
  using list_find_map_of [of es k, symmetric] by (cases "lu_hash_list_find es k") simp_all

lemma hash_list_update_ok:
  "hash_list_update es k v = None \<longleftrightarrow> k \<notin> fst ` set es"
  "hash_list_update es k v = Some es' \<Longrightarrow> map fst es' = map fst es \<and> map_of es' = (map_of es)(k \<mapsto> v)"
  by (induction es arbitrary: es') (auto split: if_splits simp: fun_eq_iff)

lemma hash_list_remove_ok:
  "hash_list_remove es k = None \<longleftrightarrow> k \<notin> fst ` set es"
  "hash_list_remove es k = Some es' \<Longrightarrow> distinct (map fst es) \<Longrightarrow>
     set es' \<subseteq> set es \<and> distinct (map fst es') \<and> map_of es' = (map_of es)(k := None)"
proof -
  show "hash_list_remove es k = None \<longleftrightarrow> k \<notin> fst ` set es" by (induction es) auto
  show "hash_list_remove es k = Some es' \<Longrightarrow> distinct (map fst es) \<Longrightarrow>
     set es' \<subseteq> set es \<and> distinct (map fst es') \<and> map_of es' = (map_of es)(k := None)"
  proof (induction es arbitrary: es')
    case (Cons e es)
    show ?case
    proof (cases "fst e = k")
      case True
      then show ?thesis using Cons.prems by (cases e) (auto simp: fun_eq_iff map_of_eq_None_iff)
    next
      case False
      then obtain r where r: "hash_list_remove es k = Some r" "es' = e # r" using Cons.prems by auto
      then show ?thesis using Cons.IH [OF r(1)] Cons.prems False by (cases e) auto
    qed
  qed simp
qed

text \<open>Keys and values of a tree, through its sorted sequence.\<close>

lemma rb_insert_all_ok:
  "rb_rep t xs \<Longrightarrow> \<exists>t' ys. rb_insert_all t es = Some t' \<and> rb_rep t' ys \<and> mset ys = mset (xs @ es)"
proof (induction es arbitrary: t xs)
  case (Cons e es)
  let ?ys = "filter (\<lambda>x. fst x \<le> fst e) xs @ (fst e, snd e) # filter (\<lambda>x. fst e < fst x) xs"
  obtain t1 where t1: "lu_rb_tree_insert t (fst e) (snd e) = Some t1" "rb_rep t1 ?ys"
    using rb_insert_rep [OF Cons.prems, of "fst e" "snd e"] by blast
  have "mset ?ys = mset (e # xs)"
    using multiset_partition [of "mset xs" "\<lambda>x. fst x \<le> fst e"] by (simp add: not_le)
  moreover obtain t' ys where "rb_insert_all t1 es = Some t'" "rb_rep t' ys" "mset ys = mset (?ys @ es)"
    using Cons.IH [OF t1(2)] by blast
  ultimately show ?case using t1 by (intro exI [of _ t'] exI [of _ ys]) simp
qed auto

lemma mset_map_of: "mset xs = mset ys \<Longrightarrow> distinct (map fst xs) \<Longrightarrow> map_of xs = map_of ys"
  by (metis map_of_inject_set mset_eq_imp_distinct_iff mset_eq_setD mset_map)

lemma convert_ok:
  "bucket_data b0 = LU_HASH_BUCKET_LIST es \<Longrightarrow> \<exists>b. lu_convert_bucket_to_rbtree raw b0 = Some (1, b) \<and>
     (\<exists>ys. bucket_rep b ys \<and> mset ys = mset es)"
proof -
  assume "bucket_data b0 = LU_HASH_BUCKET_LIST es"
  moreover obtain t ys where "rb_insert_all (lu_rb_tree_init raw) es = Some t" "rb_rep t ys" "mset ys = mset es"
    using rb_insert_all_ok [OF rb_init_rep, of raw es] by auto
  ultimately show ?thesis by (auto simp: lu_convert_bucket_to_rbtree_def)
qed


section \<open>The operations on the map\<close>

lemma hash_init_rep:
  assumes "n < 2 ^ 31"
  shows "hash_rep (lu_hash_table_init n) Map.empty" "table_size (lu_hash_table_init n) = (if n = 0 then 16 else n)"
    "element_count (lu_hash_table_init n) = 0"
  using assms
  by (auto simp: lu_hash_table_init_def Let_def hash_rep_def LU_HASH_TABLE_DEFAULT_SIZE_def bucket_ok_def empty_bucket_def)

lemma hash_rep_bucket:
  assumes "hash_rep h m"
  shows "lu_hash_function k (table_size h) < table_size h"
    "bucket_ok (\<lambda>k. lu_hash_function k (table_size h)) m (lu_hash_function k (table_size h)) (buckets h ! lu_hash_function k (table_size h))"
proof -
  have n: "0 < table_size h" "table_size h < 2 ^ 31" using assms by (auto simp: hash_rep_def)
  then have "table_size h < 2 ^ 64" using less_trans [of "table_size h" "2 ^ 31" "2 ^ 64"] by simp
  then show 1: "lu_hash_function k (table_size h) < table_size h" using lu_hash_function_less n by blast
  show "bucket_ok (\<lambda>k. lu_hash_function k (table_size h)) m (lu_hash_function k (table_size h)) (buckets h ! lu_hash_function k (table_size h))"
    using assms 1 by (auto simp: hash_rep_def)
qed

text \<open>A new bucket at the index of \<open>k\<close> leaves the others as they are.\<close>

lemma hash_rep_set_bucket:
  assumes h: "hash_rep h m" and b: "bucket_ok (\<lambda>k. lu_hash_function k (table_size h)) m' i b"
    and o: "\<And>k. lu_hash_function k (table_size h) \<noteq> i \<Longrightarrow> m' k = m k"
    and h': "table_size h' = table_size h" "buckets h' = (buckets h)[i := b]"
  shows "hash_rep h' m'"
proof -
  have n: "0 < table_size h" "table_size h < 2 ^ 31" "length (buckets h) = table_size h" using h by (auto simp: hash_rep_def)
  have "bucket_ok (\<lambda>k. lu_hash_function k (table_size h)) m' j ((buckets h)[i := b] ! j)" if j: "j < table_size h" for j
  proof (cases "j = i")
    case True
    then show ?thesis using b j n by simp
  next
    case False
    then have "(buckets h)[i := b] ! j = buckets h ! j" by simp
    moreover have "bucket_ok (\<lambda>k. lu_hash_function k (table_size h)) m j (buckets h ! j)" using h j by (auto simp: hash_rep_def)
    ultimately show ?thesis using o False unfolding bucket_ok_def by metis
  qed
  then show ?thesis using n h' by (simp add: hash_rep_def)
qed

lemma hash_find_rep:
  assumes h: "hash_rep h m"
  shows "lu_hash_table_find (Some h) k = Some (case m k of Some v \<Rightarrow> v | None \<Rightarrow> None)"
proof -
  let ?i = "lu_hash_function k (table_size h)"
  let ?b = "buckets h ! ?i"
  obtain xs where xs: "bucket_rep ?b xs" "distinct (map fst xs)" "map_of xs k = m k"
    using hash_rep_bucket(2) [OF h] unfolding bucket_ok_def by blast
  show ?thesis
  proof (cases "bucket_data ?b")
    case (LU_HASH_BUCKET_LIST es)
    then show ?thesis using xs by (simp add: lu_hash_table_find_def bucket_rep_def list_find_case)
  next
    case (LU_HASH_BUCKET_RBTREE tree)
    then obtain t where t: "tree = Some t" "rb_rep t xs" using xs by (cases tree) (simp_all add: bucket_rep_def)
    obtain r where r: "lu_hash_rb_tree_find t k = Some r"
      "case r of None \<Rightarrow> k \<notin> fst ` set xs | Some x \<Rightarrow> (k, rb_value (rb_mem t x)) \<in> set xs"
      using rb_find_rep [OF t(2)] by blast
    have "(case r of Some x \<Rightarrow> rb_value (rb_mem t x) | None \<Rightarrow> None) = (case map_of xs k of Some v \<Rightarrow> v | None \<Rightarrow> None)"
    proof (cases r)
      case None
      then have "map_of xs k = None" using r by (simp add: map_of_eq_None_iff)
      then show ?thesis using None by simp
    next
      case (Some x)
      then have "map_of xs k = Some (rb_value (rb_mem t x))" using r xs(2) by simp
      then show ?thesis using Some by simp
    qed
    then show ?thesis using LU_HASH_BUCKET_RBTREE t(1) r(1) xs(3) by (simp add: lu_hash_table_find_def)
  qed
qed

text \<open>In a list bucket the value of a key that is there is replaced; a tree bucket would store the
  key twice.\<close>

lemma hash_insert_rep:
  assumes h: "hash_rep h m"
    and k: "m k = None \<or> (\<exists>es. bucket_data (buckets h ! lu_hash_function k (table_size h)) = LU_HASH_BUCKET_LIST es)"
  shows "\<exists>h'. lu_hash_table_insert raw h k v = Some h' \<and> hash_rep h' (m(k \<mapsto> v)) \<and> table_size h' = table_size h \<and>
    element_count h' = (if m k = None then element_count h + 1 else element_count h)"
proof -
  let ?hf = "\<lambda>k. lu_hash_function k (table_size h)"
  let ?i = "?hf k"
  let ?b = "buckets h ! ?i"
  obtain xs where xs: "bucket_rep ?b xs" "distinct (map fst xs)" "\<forall>k'. ?hf k' = ?i \<longrightarrow> map_of xs k' = m k'" "\<forall>e\<in>set xs. ?hf (fst e) = ?i"
    using hash_rep_bucket(2) [OF h] unfolding bucket_ok_def by blast
  have absent: "m k = None \<longleftrightarrow> k \<notin> fst ` set xs" using xs(3) by (metis map_of_eq_None_iff)
  have other: "?hf k' \<noteq> ?i \<Longrightarrow> (m(k \<mapsto> v)) k' = m k'" for k' by auto
  text \<open>A bucket that stores the new pair and the old ones.\<close>
  have new: "bucket_ok ?hf (m(k \<mapsto> v)) ?i b" if ab: "m k = None" and b: "bucket_rep b ys" "mset ys = mset ((k, v) # xs)" for b ys
  proof -
    have d: "distinct (map fst ((k, v) # xs))" using xs(2) absent ab by simp
    have "distinct (map fst ys)" using d mset_eq_imp_distinct_iff [of "map fst ys" "map fst ((k, v) # xs)"] b(2) by (metis mset_map)
    moreover have "map_of ys = map_of ((k, v) # xs)" using mset_map_of [OF b(2) calculation] .
    moreover have "set ys = set ((k, v) # xs)" using mset_eq_setD [OF b(2)] .
    ultimately show ?thesis using b(1) xs(3,4) unfolding bucket_ok_def by (intro exI [of _ ys]) auto
  qed
  show ?thesis
  proof (cases "bucket_data ?b")
    case (LU_HASH_BUCKET_LIST es)
    then have es: "es = xs" using xs(1) by (simp add: bucket_rep_def)
    have ins: "lu_hash_table_insert raw h k v = hash_insert_list raw h ?i xs k v"
      using LU_HASH_BUCKET_LIST es by (simp add: lu_hash_table_insert_def)
    show ?thesis
    proof (cases "hash_list_update xs k v")
      case (Some es')
      have u: "map fst es' = map fst xs" "map_of es' = (map_of xs)(k \<mapsto> v)" using hash_list_update_ok(2) [OF Some] by auto
      let ?h = "set_bucket ?i (?b\<lparr>bucket_data := LU_HASH_BUCKET_LIST es'\<rparr>) h"
      have fs: "fst ` set es' = fst ` set xs" using u(1) by (metis set_map)
      have "?hf k' = ?i" if "k' \<in> fst ` set xs" for k' using that xs(4) by (elim imageE) simp
      then have "\<forall>e\<in>set es'. ?hf (fst e) = ?i" using fs by (metis image_eqI)
      then have "bucket_ok ?hf (m(k \<mapsto> v)) ?i (?b\<lparr>bucket_data := LU_HASH_BUCKET_LIST es'\<rparr>)"
        using u xs(2,3) unfolding bucket_ok_def by (intro exI [of _ es']) auto
      then have "hash_rep ?h (m(k \<mapsto> v))"
        by (intro hash_rep_set_bucket [where m' = "m(k \<mapsto> v)", OF h _ other]) (simp_all add: set_bucket_def)
      moreover have "m k \<noteq> None" using hash_list_update_ok(1) [of xs k v] Some absent by simp
      ultimately show ?thesis using ins Some by (intro exI [of _ ?h]) (simp add: hash_insert_list_def set_bucket_def)
    next
      case None
      then have ab: "m k = None" using hash_list_update_ok(1) absent by metis
      define b1 :: "'a lu_hash_bucket_t" where "b1 = \<lparr>bucket_data = LU_HASH_BUCKET_LIST ((k, v) # xs), esize_bucket = esize_bucket ?b + 1\<rparr>"
      define h1 where "h1 = h\<lparr>element_count := element_count h + 1\<rparr>"
      have bd: "bucket_data b1 = LU_HASH_BUCKET_LIST ((k, v) # xs)" by (simp add: b1_def)
      obtain b2 ys where c: "lu_convert_bucket_to_rbtree raw b1 = Some (1, b2)" "bucket_rep b2 ys" "mset ys = mset ((k, v) # xs)"
        using convert_ok [OF bd] by blast
      define b3 where "b3 = (if esize_bucket b1 > word_of_nat LU_HASH_BUCKET_LIST_THRESHOLD then b2 else b1)"
      have r: "hash_insert_list raw h ?i xs k v = Some (set_bucket ?i b3 h1)"
        
        unfolding hash_insert_list_def Let_def b1_def [symmetric] h1_def [symmetric] using None c(1) by (simp add: b3_def)
      have "bucket_ok ?hf (m(k \<mapsto> v)) ?i b1" using new [OF ab, of b1 "(k, v) # xs"] by (simp add: b1_def)
      then have "bucket_ok ?hf (m(k \<mapsto> v)) ?i b3" using new [OF ab c(2,3)] by (simp add: b3_def)
      then have "hash_rep (set_bucket ?i b3 h1) (m(k \<mapsto> v))"
        by (intro hash_rep_set_bucket [where m' = "m(k \<mapsto> v)", OF h _ other]) (simp_all add: set_bucket_def h1_def)
      then show ?thesis using ins r ab by (intro exI [of _ "set_bucket ?i b3 h1"]) (simp add: set_bucket_def h1_def)
    qed
  next
    case (LU_HASH_BUCKET_RBTREE tree)
    then obtain t where t: "tree = Some t" "rb_rep t xs" using xs by (cases tree) (simp_all add: bucket_rep_def)
    have ab: "m k = None" using k LU_HASH_BUCKET_RBTREE by auto
    let ?ys = "filter (\<lambda>e. fst e \<le> k) xs @ (k, v) # filter (\<lambda>e. k < fst e) xs"
    obtain t' where t': "lu_rb_tree_insert t k v = Some t'" "rb_rep t' ?ys" using rb_insert_rep [OF t(2)] by blast
    let ?b' = "\<lparr>bucket_data = LU_HASH_BUCKET_RBTREE (Some t'), esize_bucket = esize_bucket ?b + 1\<rparr>"
    let ?h = "set_bucket ?i ?b' (h\<lparr>element_count := element_count h + 1\<rparr>)"
    have "mset ?ys = mset ((k, v) # xs)" using multiset_partition [of "mset xs" "\<lambda>x. fst x \<le> k"] by (simp add: not_le)
    then have "bucket_ok ?hf (m(k \<mapsto> v)) ?i ?b'" using new [OF ab, of ?b' ?ys] t'(2) by simp
    then have "hash_rep ?h (m(k \<mapsto> v))"
        by (intro hash_rep_set_bucket [where m' = "m(k \<mapsto> v)", OF h _ other]) (simp_all add: set_bucket_def)
    then show ?thesis using LU_HASH_BUCKET_RBTREE t(1) t'(1) ab
      by (intro exI [of _ ?h]) (simp add: lu_hash_table_insert_def hash_insert_rbtree_def set_bucket_def Let_def)
  qed
qed

lemma hash_delete_rep:
  assumes h: "hash_rep h m"
    and k: "m k = None \<or> (case bucket_data (buckets h ! lu_hash_function k (table_size h)) of
      LU_HASH_BUCKET_LIST es \<Rightarrow> True | LU_HASH_BUCKET_RBTREE t \<Rightarrow> \<exists>t'. t = Some t' \<and> rb_balanced t')"
  shows "\<exists>h'. lu_hash_table_delete h k = Some h' \<and> hash_rep h' (m(k := None)) \<and> element_count h' = element_count h - 1"
proof -
  let ?hf = "\<lambda>k. lu_hash_function k (table_size h)"
  let ?i = "?hf k"
  let ?b = "buckets h ! ?i"
  obtain xs where xs: "bucket_rep ?b xs" "distinct (map fst xs)" "\<forall>k'. ?hf k' = ?i \<longrightarrow> map_of xs k' = m k'" "\<forall>e\<in>set xs. ?hf (fst e) = ?i"
    using hash_rep_bucket(2) [OF h] unfolding bucket_ok_def by blast
  have absent: "m k = None \<longleftrightarrow> k \<notin> fst ` set xs" using xs(3) by (metis map_of_eq_None_iff)
  have other: "?hf k' \<noteq> ?i \<Longrightarrow> (m(k := None)) k' = m k'" for k' by auto
  have keep: "bucket_ok ?hf (m(k := None)) ?i b" if "m k = None" "bucket_rep b xs" for b
    using that xs by (auto simp: bucket_ok_def fun_upd_idem)
  have fin: "\<exists>h'. map_option (\<lambda>b. (set_bucket ?i b h)\<lparr>element_count := element_count h - 1\<rparr>) (Some b) = Some h' \<and>
      hash_rep h' (m(k := None)) \<and> element_count h' = element_count h - 1" if b: "bucket_ok ?hf (m(k := None)) ?i b" for b
  proof -
    have "hash_rep ((set_bucket ?i b h)\<lparr>element_count := element_count h - 1\<rparr>) (m(k := None))"
      by (rule hash_rep_set_bucket [OF h b other]) (simp_all add: set_bucket_def)
    then show ?thesis by simp
  qed
  show ?thesis
  proof (cases "bucket_data ?b")
    case (LU_HASH_BUCKET_LIST es)
    then have es: "es = xs" using xs(1) by (simp add: bucket_rep_def)
    have "bucket_ok ?hf (m(k := None)) ?i (lu_hash_list_delete xs ?b k)"
    proof (cases "hash_list_remove xs k")
      case None
      then have "m k = None" using hash_list_remove_ok(1) absent by metis
      then show ?thesis using None keep [of "?b\<lparr>esize_bucket := esize_bucket ?b - 1\<rparr>"] xs(1) by (simp add: lu_hash_list_delete_def)
    next
      case (Some es')
      have u: "set es' \<subseteq> set xs" "distinct (map fst es')" "map_of es' = (map_of xs)(k := None)"
        using hash_list_remove_ok(2) [OF Some xs(2)] by auto
      show ?thesis using u xs(3,4) Some unfolding bucket_ok_def by (intro exI [of _ es']) (auto simp: lu_hash_list_delete_def)
    qed
    then show ?thesis using fin LU_HASH_BUCKET_LIST es by (simp add: lu_hash_table_delete_def Let_def)
  next
    case (LU_HASH_BUCKET_RBTREE tree)
    then obtain t where t: "tree = Some t" "rb_rep t xs" using xs by (cases tree) (simp_all add: bucket_rep_def)
    show ?thesis
    proof (cases "m k = None")
      case ab: True
      obtain r where r: "lu_hash_rb_tree_find t k = Some r"
        "case r of None \<Rightarrow> k \<notin> fst ` set xs | Some x \<Rightarrow> (k, rb_value (rb_mem t x)) \<in> set xs"
        using rb_find_rep [OF t(2)] by blast
      have "r = None" using r(2) ab absent by (cases r) (auto intro: rev_image_eqI)
      then have "rb_tree_delete t k = Some (False, t)" using r(1) by (simp add: rb_tree_delete_def)
      then show ?thesis using fin [OF keep [OF ab xs(1)]] LU_HASH_BUCKET_RBTREE t(1)
        by (simp add: lu_hash_table_delete_def lu_hash_rb_tree_delete_def Let_def)
    next
      case False
      then have "rb_balanced t" "k \<in> fst ` set xs" using k LU_HASH_BUCKET_RBTREE t(1) absent by auto
      then obtain t' us v vs where d: "rb_tree_delete t k = Some (True, t')" "xs = us @ (k, v) # vs" "rb_rep t' (us @ vs)"
        using rb_tree_delete_ok [OF t(2)] by blast
      let ?c = "?b\<lparr>bucket_data := LU_HASH_BUCKET_RBTREE (Some t'), esize_bucket := esize_bucket ?b - 1\<rparr>"
      have "map_of (us @ vs) k' = (if k' = k then None else map_of xs k')" for k'
      proof -
        have "map_of us k = None" "map_of vs k = None" using xs(2) unfolding d(2) map_of_eq_None_iff by auto
        then show ?thesis unfolding d(2) by (simp add: map_add_def split: option.split)
      qed
      then have "bucket_ok ?hf (m(k := None)) ?i ?c"
        using d(3) xs(2-4) unfolding bucket_ok_def d(2) by (intro exI [of _ "us @ vs"]) (auto simp: d(2) bucket_rep_def)
      then show ?thesis using fin LU_HASH_BUCKET_RBTREE t(1) d(1) by (simp add: lu_hash_table_delete_def lu_hash_rb_tree_delete_def Let_def)
    qed
  qed
qed

end
