(* ===== verification/LuHashGrow.thy ===== *)
theory LuHashGrow
  imports LuHashTableProps
begin

text \<open>
  The table as a whole: growing puts each entry into the bucket that the larger size gives it and
  keeps the map; destroying the table frees each node, each sentinel and each tree once.
\<close>

section \<open>Growing\<close>

definition bucket_list :: "'v lu_hash_bucket_t \<Rightarrow> (int \<times> 'v option) list" where
  "bucket_list b = (case bucket_data b of LU_HASH_BUCKET_LIST es \<Rightarrow> es | LU_HASH_BUCKET_RBTREE _ \<Rightarrow> [])"

definition all_lists :: "'v lu_hash_bucket_t list \<Rightarrow> bool" where
  "all_lists bs \<longleftrightarrow> (\<forall>b\<in>set bs. \<exists>es. bucket_data b = LU_HASH_BUCKET_LIST es)"

lemma all_lists_nth: "all_lists bs \<Longrightarrow> i < length bs \<Longrightarrow> \<exists>es. bucket_data (bs ! i) = LU_HASH_BUCKET_LIST es"
  by (simp add: all_lists_def)

lemma rehash_entry_ok:
  assumes "all_lists bs" "length bs = n" "0 < n" "n < 2 ^ 31"
  shows "\<exists>bs'. rehash_list_entry n bs e = Some bs' \<and> all_lists bs' \<and> length bs' = n \<and>
    (\<forall>i<n. bucket_list (bs' ! i) = (if lu_hash_function (fst e) n = i then e # bucket_list (bs ! i) else bucket_list (bs ! i)))"
proof -
  let ?i = "lu_hash_function (fst e) n"
  have i: "?i < n" using lu_hash_function_less [of n "fst e"] assms(3,4) by simp
  then obtain es where es: "bucket_data (bs ! ?i) = LU_HASH_BUCKET_LIST es" using all_lists_nth [OF assms(1)] assms(2) by blast
  let ?b = "\<lparr>bucket_data = LU_HASH_BUCKET_LIST (e # es), esize_bucket = esize_bucket (bs ! ?i) + 1\<rparr>"
  have "rehash_list_entry n bs e = Some (bs[?i := ?b])" using es by (simp add: rehash_list_entry_def Let_def)
  moreover have "all_lists (bs[?i := ?b])" using assms(1) unfolding all_lists_def by (auto dest!: set_update_subset_insert [THEN subsetD])
  ultimately show ?thesis using assms(2) i es by (intro exI [of _ "bs[?i := ?b]"]) (auto simp: bucket_list_def nth_list_update)
qed

lemma rehash_list_ok:
  assumes "all_lists bs" "length bs = n" "0 < n" "n < 2 ^ 31"
  shows "\<exists>bs'. rehash_list n bs es = Some bs' \<and> all_lists bs' \<and> length bs' = n \<and>
    (\<forall>i<n. bucket_list (bs' ! i) = rev (filter (\<lambda>e. lu_hash_function (fst e) n = i) es) @ bucket_list (bs ! i))"
  using assms(1,2)
proof (induction es arbitrary: bs)
  case (Cons e es)
  obtain b1 where b1: "rehash_list_entry n bs e = Some b1" "all_lists b1" "length b1 = n"
    "\<forall>i<n. bucket_list (b1 ! i) = (if lu_hash_function (fst e) n = i then e # bucket_list (bs ! i) else bucket_list (bs ! i))"
    using rehash_entry_ok [OF Cons.prems assms(3,4)] by blast
  obtain b2 where "rehash_list n b1 es = Some b2" "all_lists b2" "length b2 = n"
    "\<forall>i<n. bucket_list (b2 ! i) = rev (filter (\<lambda>e. lu_hash_function (fst e) n = i) es) @ bucket_list (b1 ! i)"
    using Cons.IH [OF b1(2,3)] by blast
  then show ?case using b1 by (intro exI [of _ b2]) auto
qed auto

lemma rehash_list_append: "rehash_list n bs (xs @ ys) = Option.bind (rehash_list n bs xs) (\<lambda>b. rehash_list n b ys)"
  by (induction xs arbitrary: bs) (auto split: option.split)

definition tree_entries :: "'v lu_rb_tree_t \<Rightarrow> rbptr tree \<Rightarrow> (int \<times> 'v option) list" where
  "tree_entries t T = map (\<lambda>x. (key t x, rb_value (rb_mem t x))) (postorder T)"

lemma rb_rehash_loop_ok:
  assumes "tree_at (lft t) (rgt t) (par t) (rb_nil t) q p T" "size T < fuel"
  shows "rb_rehash_loop fuel t p bs n = rehash_list n bs (tree_entries t T)"
  using assms
proof (induction T arbitrary: q p fuel bs)
  case Leaf
  then show ?case by (cases fuel) (auto simp: tree_entries_def)
next
  case (Node L a R)
  obtain f where f: "fuel = Suc f" using Node.prems(2) by (cases fuel) auto
  have te: "tree_entries t (Node L a R) = tree_entries t L @ tree_entries t R @ [(key t a, rb_value (rb_mem t a))]"
    by (simp add: tree_entries_def)
  have "rb_rehash_loop f t (lft t a) bs n = rehash_list n bs (tree_entries t L)"
    "rb_rehash_loop f t (rgt t a) b n = rehash_list n b (tree_entries t R)" for b
    using Node.IH(1) [of a "lft t a" f bs] Node.IH(2) [of a "rgt t a" f b] Node.prems f by auto
  then show ?case using Node.prems f unfolding te by (auto simp: rehash_list_append split: option.split)
qed

lemma bucket_entries:
  assumes "bucket_rep b xs"
  shows "\<exists>es. mset es = mset xs \<and>
    (\<forall>bs n. (case bucket_data b of
        LU_HASH_BUCKET_LIST es \<Rightarrow> rehash_list n bs es
      | LU_HASH_BUCKET_RBTREE None \<Rightarrow> None
      | LU_HASH_BUCKET_RBTREE (Some t) \<Rightarrow> lu_rb_tree_rehash t (rb_root t) bs n) = rehash_list n bs es)"
proof (cases "bucket_data b")
  case (LU_HASH_BUCKET_LIST es)
  then show ?thesis using assms by (auto simp: bucket_rep_def)
next
  case (LU_HASH_BUCKET_RBTREE tree)
  then obtain t where t: "tree = Some t" "rb_rep t xs" using assms by (cases tree) (simp_all add: bucket_rep_def)
  then obtain T where T: "rb_shape t T" "rb_seq t T = xs" by (auto simp: rb_rep_def)
  have p: "mset (postorder T) = mset (inorder T)" for T :: "rbptr tree" by (induction T) auto
  have "mset (tree_entries t T) = mset xs" unfolding T(2) [symmetric] tree_entries_def rb_seq_def by (simp add: p)
  moreover have "lu_rb_tree_rehash t (rb_root t) bs n = rehash_list n bs (tree_entries t T)" for bs n
    unfolding lu_rb_tree_rehash_def by (rule rb_rehash_loop_ok [OF rb_shape_tree [OF T(1)]]) (use rb_size [OF T(1)] in simp)
  ultimately show ?thesis using LU_HASH_BUCKET_RBTREE t(1) by (intro exI [of _ "tree_entries t T"]) simp
qed

text \<open>The loop over the old buckets, from the bucket of index \<open>j\<close> on: all their entries, in some order.\<close>

lemma resize_loop_entries:
  assumes "\<forall>i<length olds. bucket_ok hf m (j + i) (olds ! i)"
  shows "\<exists>es. (\<forall>bs n. resize_loop n bs olds = rehash_list n bs es) \<and> distinct (map fst es) \<and>
    (\<forall>k. map_of es k = (if j \<le> hf k \<and> hf k < j + length olds then m k else None))"
  using assms
proof (induction olds arbitrary: j)
  case Nil
  show ?case by (rule exI [of _ "[]"]) auto
next
  case (Cons b olds)
  have b: "bucket_ok hf m j b" and rest: "\<forall>i<length olds. bucket_ok hf m (Suc j + i) (olds ! i)"
    using Cons.prems by (force, auto)
  obtain xs where xs: "bucket_rep b xs" "distinct (map fst xs)" "\<forall>k. hf k = j \<longrightarrow> map_of xs k = m k" "\<forall>e\<in>set xs. hf (fst e) = j"
    using b unfolding bucket_ok_def by blast
  obtain es1 where e1: "mset es1 = mset xs" "\<forall>bs n. (case bucket_data b of
        LU_HASH_BUCKET_LIST es \<Rightarrow> rehash_list n bs es
      | LU_HASH_BUCKET_RBTREE None \<Rightarrow> None
      | LU_HASH_BUCKET_RBTREE (Some t) \<Rightarrow> lu_rb_tree_rehash t (rb_root t) bs n) = rehash_list n bs es1"
    using bucket_entries [OF xs(1)] by blast
  obtain es2 where e2: "\<forall>bs n. resize_loop n bs olds = rehash_list n bs es2" "distinct (map fst es2)"
    "\<forall>k. map_of es2 k = (if Suc j \<le> hf k \<and> hf k < Suc j + length olds then m k else None)"
    using Cons.IH [OF rest] by blast
  have k2: "k \<in> fst ` set es2 \<Longrightarrow> Suc j \<le> hf k" for k using e2(3) by (metis map_of_eq_None_iff)
  have d1: "distinct (map fst es1)" using e1(1) xs(2) by (metis mset_eq_imp_distinct_iff mset_map)
  have s1: "set es1 = set xs" using mset_eq_setD [OF e1(1)] .
  have m1: "map_of es1 = map_of xs" using mset_map_of [OF e1(1) d1] .
  have n1: "map_of es1 k = (if hf k = j then m k else None)" for k
  proof (cases "hf k = j")
    case True
    then show ?thesis using m1 xs(3) by simp
  next
    case False
    then have "k \<notin> fst ` set es1" using xs(4) s1 by auto
    then show ?thesis using False by (simp add: map_of_eq_None_iff)
  qed
  have "fst ` set es1 \<inter> fst ` set es2 = {}" using k2 xs(4) s1 by force
  then have "distinct (map fst (es1 @ es2))" using d1 e2(2) by simp
  moreover have "resize_loop n bs (b # olds) = rehash_list n bs (es1 @ es2)" for n bs
    using e1(2) e2(1) by (simp add: rehash_list_append split: option.split)
  moreover have "map_of (es1 @ es2) k = (if j \<le> hf k \<and> hf k < j + length (b # olds) then m k else None)" for k
    using n1 [of k] e2(3) by (auto simp: map_add_def split: option.split)
  ultimately show ?case by blast
qed

lemma map_of_filter: "map_of (filter (\<lambda>e. P (fst e)) es) k = (if P k then map_of es k else None)"
  by (induction es) auto

lemma hash_resize_rep:
  assumes h: "hash_rep h m" and n: "2 * table_size h < 2 ^ 31"
  shows "\<exists>h'. lu_hash_table_resize h = Some h' \<and> hash_rep h' m \<and> table_size h' = 2 * table_size h"
proof -
  define n' where "n' = table_size h * 2"
  let ?hf = "\<lambda>k. lu_hash_function k (table_size h)"
  have n': "0 < n'" "n' < 2 ^ 31" using h n by (auto simp: hash_rep_def n'_def)
  have "\<forall>i<length (buckets h). bucket_ok ?hf m (0 + i) (buckets h ! i)" using h by (simp add: hash_rep_def)
  then obtain es where es: "\<forall>bs n. resize_loop n bs (buckets h) = rehash_list n bs es" "distinct (map fst es)"
    "\<forall>k. map_of es k = (if 0 \<le> ?hf k \<and> ?hf k < 0 + length (buckets h) then m k else None)"
    using resize_loop_entries by blast
  have me: "map_of es k = m k" for k using es(3) hash_rep_bucket(1) [OF h, of k] h by (simp add: hash_rep_def)
  have "all_lists (replicate n' empty_bucket)" by (simp add: all_lists_def empty_bucket_def)
  then obtain bs where bs: "rehash_list n' (replicate n' empty_bucket) es = Some bs" "all_lists bs" "length bs = n'"
    "\<forall>i<n'. bucket_list (bs ! i) = rev (filter (\<lambda>e. lu_hash_function (fst e) n' = i) es) @ bucket_list (replicate n' empty_bucket ! i)"
    using rehash_list_ok [of "replicate n' empty_bucket" n' es] n' by auto
  have "bucket_ok (\<lambda>k. lu_hash_function k n') m i (bs ! i)" if i: "i < n'" for i
  proof -
    let ?es = "filter (\<lambda>e. lu_hash_function (fst e) n' = i) es"
    have d: "distinct (map fst ?es)" using es(2) by (simp add: distinct_map_filter)
    have l: "bucket_list (bs ! i) = rev ?es" using bs(4) i by (simp add: empty_bucket_def bucket_list_def)
    obtain ys where ys: "bucket_data (bs ! i) = LU_HASH_BUCKET_LIST ys" using all_lists_nth [OF bs(2)] bs(3) i by blast
    then have r: "bucket_rep (bs ! i) (rev ?es)" using l by (simp add: bucket_rep_def bucket_list_def)
    have "map_of (rev ?es) = map_of ?es" using mset_map_of [of "?es" "rev ?es"] d by simp
    then show ?thesis unfolding bucket_ok_def using r d me map_of_filter [of "\<lambda>k. lu_hash_function k n' = i" es]
      by (intro exI [of _ "rev ?es"]) (auto simp: rev_map [symmetric])
  qed
  then have "hash_rep (h\<lparr>buckets := bs, table_size := n'\<rparr>) m" using n' bs(3) by (simp add: hash_rep_def)
  moreover have "lu_hash_table_resize h = Some (h\<lparr>buckets := bs, table_size := n'\<rparr>)"
    using es(1) bs(1) unfolding lu_hash_table_resize_def Let_def n'_def [symmetric] by simp
  ultimately show ?thesis by (intro exI [of _ "h\<lparr>buckets := bs, table_size := n'\<rparr>"]) (simp add: n'_def)
qed

section \<open>Destruction\<close>

fun is_node :: "hash_free \<Rightarrow> bool" where
  "is_node (Free_list_node i j) = True"
| "is_node (Free_tree_node i j) = True"
| "is_node _ = False"

fun free_index :: "hash_free \<Rightarrow> nat option" where
  "free_index (Free_list_node i j) = Some i"
| "free_index (Free_tree_node i j) = Some i"
| "free_index (Free_nil i) = Some i"
| "free_index (Free_tree i) = Some i"
| "free_index _ = None"

lemma destroy_bucket_ok:
  assumes "bucket_rep b xs"
  shows "\<exists>fs. hash_destroy_bucket i b = Some fs \<and> distinct fs \<and> (\<forall>f\<in>set fs. free_index f = Some i) \<and>
    length (filter is_node fs) = length xs"
proof (cases "bucket_data b")
  case (LU_HASH_BUCKET_LIST es)
  then show ?thesis using assms
    by (auto simp: bucket_rep_def hash_destroy_bucket_def lu_hash_list_destory_def distinct_map inj_on_def filter_map comp_def)
next
  case (LU_HASH_BUCKET_RBTREE tree)
  then obtain t where t: "tree = Some t" "rb_rep t xs" using assms by (cases tree) (simp_all add: bucket_rep_def)
  obtain ws where ws: "lu_rb_tree_destroy_node t (rb_root t) = Some ws" "distinct ws" "length ws = length xs"
    using rb_destroy_rep [OF t(2)] by blast
  have "hash_destroy_bucket i b = Some (map (Free_tree_node i) ws @ [Free_nil i, Free_tree i])"
    using LU_HASH_BUCKET_RBTREE t ws(1) by (simp add: hash_destroy_bucket_def lu_hash_rb_tree_destory_def)
  then show ?thesis using ws(2,3) by (auto simp: distinct_map inj_on_def filter_map comp_def)
qed

lemma bucket_card:
  assumes "bucket_ok hf m i b"
  shows "\<exists>xs. bucket_rep b xs \<and> length xs = card {k \<in> dom m. hf k = i} \<and> finite {k \<in> dom m. hf k = i}"
proof -
  obtain xs where xs: "bucket_rep b xs" "distinct (map fst xs)" "\<forall>k. hf k = i \<longrightarrow> map_of xs k = m k" "\<forall>e\<in>set xs. hf (fst e) = i"
    using assms unfolding bucket_ok_def by blast
  have "k \<in> fst ` set xs \<longleftrightarrow> k \<in> dom m \<and> hf k = i" for k
  proof (cases "hf k = i")
    case True
    then show ?thesis using xs(3) map_of_eq_None_iff [of xs k] by auto
  next
    case False
    then show ?thesis using xs(4) by auto
  qed
  then have e: "{k \<in> dom m. hf k = i} = fst ` set xs" by auto
  then show ?thesis using xs(1) distinct_card [OF xs(2)] by (intro exI [of _ xs]) simp
qed

lemma destroy_loop_ok:
  assumes "\<forall>i<length bs. bucket_ok hf m (j + i) (bs ! i)"
  shows "\<exists>fs. hash_destroy_loop j bs = Some fs \<and> distinct fs \<and> (\<forall>f\<in>set fs. \<forall>i. free_index f = Some i \<longrightarrow> j \<le> i) \<and>
    Free_table \<in> set fs \<and> Free_buckets \<in> set fs \<and>
    length (filter is_node fs) = card {k \<in> dom m. j \<le> hf k \<and> hf k < j + length bs} \<and>
    finite {k \<in> dom m. j \<le> hf k \<and> hf k < j + length bs}"
  using assms
proof (induction bs arbitrary: j)
  case (Cons b bs)
  have b: "bucket_ok hf m j b" and rest: "\<forall>i<length bs. bucket_ok hf m (Suc j + i) (bs ! i)" using Cons.prems by (force, auto)
  let ?A = "{k \<in> dom m. hf k = j}"
  let ?B = "{k \<in> dom m. Suc j \<le> hf k \<and> hf k < Suc j + length bs}"
  obtain xs where xs: "bucket_rep b xs" "length xs = card ?A" "finite ?A" using bucket_card [OF b] by blast
  obtain f1 where f1: "hash_destroy_bucket j b = Some f1" "distinct f1" "\<forall>f\<in>set f1. free_index f = Some j"
    "length (filter is_node f1) = length xs" using destroy_bucket_ok [OF xs(1)] by blast
  obtain f2 where f2: "hash_destroy_loop (Suc j) bs = Some f2" "distinct f2" "\<forall>f\<in>set f2. \<forall>i. free_index f = Some i \<longrightarrow> Suc j \<le> i"
    "Free_table \<in> set f2" "Free_buckets \<in> set f2" "length (filter is_node f2) = card ?B" "finite ?B" using Cons.IH [OF rest] by blast
  have "{k \<in> dom m. j \<le> hf k \<and> hf k < j + length (b # bs)} = ?A \<union> ?B" by auto
  moreover have "card (?A \<union> ?B) = card ?A + card ?B" using xs(3) f2(7) by (intro card_Un_disjoint) auto
  moreover have "set f1 \<inter> set f2 = {}" using f1(3) f2(3) by fastforce
  ultimately show ?case using f1 f2 xs by (intro exI [of _ "f1 @ f2"]) (auto dest: Suc_leD)
next
  case Nil
  have e: "{k \<in> dom m. j \<le> hf k \<and> hf k < j} = {}" by auto
  show ?case by (simp add: e)
qed

lemma hash_destroy_rep:
  assumes h: "hash_rep h m"
  shows "\<exists>fs. lu_hash_table_destroy (Some h) = Some fs \<and> distinct fs \<and> Free_table \<in> set fs \<and> Free_buckets \<in> set fs \<and>
    length (filter is_node fs) = card (dom m)"
proof -
  let ?hf = "\<lambda>k. lu_hash_function k (table_size h)"
  have "\<forall>i<length (buckets h). bucket_ok ?hf m (0 + i) (buckets h ! i)" using h by (simp add: hash_rep_def)
  then obtain fs where fs: "hash_destroy_loop 0 (buckets h) = Some fs" "distinct fs" "Free_table \<in> set fs" "Free_buckets \<in> set fs"
    "length (filter is_node fs) = card {k \<in> dom m. 0 \<le> ?hf k \<and> ?hf k < 0 + length (buckets h)}"
    using destroy_loop_ok [of "buckets h" ?hf m 0] by blast
  have "{k \<in> dom m. 0 \<le> ?hf k \<and> ?hf k < 0 + length (buckets h)} = dom m" using hash_rep_bucket(1) [OF h] h by (auto simp: hash_rep_def)
  then show ?thesis using fs by (intro exI [of _ fs]) (simp add: lu_hash_table_destroy_def)
qed

end
