(* ===== verification/LuHashMap.thy ===== *)
theory LuHashMap
  imports LuHashGrow
begin

text \<open>
  The table as its clients use it: they look a key up and insert it when it is missing, which the
  locale \<open>missing_key_map\<close> states and the table provides. Then the properties of the hash
  table and of its trees, and what the deletion code does on small trees.
\<close>

section \<open>The interface of the clients\<close>

locale missing_key_map =
  fixes lookup :: "'h \<Rightarrow> int \<Rightarrow> 'v option option"
    and insert_new :: "'h \<Rightarrow> int \<Rightarrow> 'v \<Rightarrow> 'h option"
    and rep :: "'h \<Rightarrow> (int \<rightharpoonup> 'v) \<Rightarrow> bool"
  assumes lookup_rep: "rep h m \<Longrightarrow> lookup h k = Some (m k)"
    and insert_new_rep: "rep h m \<Longrightarrow> m k = None \<Longrightarrow> \<exists>h'. insert_new h k v = Some h' \<and> rep h' (m(k \<mapsto> v))"
begin

text \<open>Find, and insert when nothing is found: the map has the value that is given back.\<close>

lemma find_or_insert:
  assumes "rep h m"
  shows "\<exists>h' v'. (case lookup h k of
        None \<Rightarrow> None
      | Some (Some w) \<Rightarrow> Some (h, w)
      | Some None \<Rightarrow> map_option (\<lambda>h'. (h', v)) (insert_new h k v)) = Some (h', v') \<and>
    rep h' (m(k \<mapsto> v')) \<and> (m k = Some v' \<or> m k = None \<and> v' = v)"
proof (cases "m k")
  case None
  then show ?thesis using lookup_rep [OF assms, of k] insert_new_rep [OF assms None, of v] by auto
next
  case (Some w)
  then have "m(k \<mapsto> w) = m" by auto
  then show ?thesis using lookup_rep [OF assms, of k] assms Some by auto
qed

lemma find_again: "rep h m \<Longrightarrow> m k = Some v \<Longrightarrow> lookup h k = Some (Some v)"
  by (simp add: lookup_rep)

end

text \<open>The pointers that the clients store are not null.\<close>

definition hash_map_rep :: "'v lu_hash_table_t \<Rightarrow> (int \<rightharpoonup> 'v) \<Rightarrow> bool" where
  "hash_map_rep h m \<longleftrightarrow> hash_rep h (\<lambda>k. map_option Some (m k))"

interpretation hash_map: missing_key_map "\<lambda>h. lu_hash_table_find (Some h)" "\<lambda>h k v. lu_hash_table_insert raw h k (Some v)"
  hash_map_rep for raw
proof
  fix h :: "'a lu_hash_table_t" and m :: "int \<rightharpoonup> 'a" and k :: int and v :: 'a
  assume h: "hash_map_rep h m"
  show "lu_hash_table_find (Some h) k = Some (m k)"
    using hash_find_rep [OF h [unfolded hash_map_rep_def], of k] by (cases "m k") simp_all
  assume "m k = None"
  then obtain h' where "lu_hash_table_insert raw h k (Some v) = Some h'" "hash_rep h' ((\<lambda>k. map_option Some (m k))(k \<mapsto> Some v))"
    using hash_insert_rep [OF h [unfolded hash_map_rep_def], of k raw "Some v"] by auto
  moreover have "(\<lambda>k. map_option Some (m k))(k \<mapsto> Some v) = (\<lambda>j. map_option Some ((m(k \<mapsto> v)) j))" by (simp add: fun_eq_iff)
  ultimately show "\<exists>h'. lu_hash_table_insert raw h k (Some v) = Some h' \<and> hash_map_rep h' (m(k \<mapsto> v))"
    unfolding hash_map_rep_def by metis
qed

lemma hash_map_rep_init: "n < 2 ^ 31 \<Longrightarrow> hash_map_rep (lu_hash_table_init n) Map.empty"
  using hash_init_rep(1) [of n] by (simp add: hash_map_rep_def)

section \<open>Deleting from a tree\<close>

text \<open>
  Concrete trees: the nodes of the addresses from 0 on, the sentinel first. The evaluation below
  inserts the keys 0, 3, 2 and 1, which leaves the sentinel red; the deletion of 2 needs no repair;
  the repair after the deletion of 1 takes the red sentinel for a red sibling and rotates it to the
  root, and the keys 0 and 3 are lost.
\<close>

definition rb_zero :: "rbptr \<Rightarrow> nat lu_rb_tree_node_t" where
  "rb_zero x = \<lparr>rb_left = 0, rb_right = 0, rb_parent = 0, rb_color = RED, rb_key = 0, rb_value = None\<rparr>"

definition nd :: "rbptr \<Rightarrow> rbptr \<Rightarrow> rbptr \<Rightarrow> rb_color \<Rightarrow> int \<Rightarrow> nat lu_rb_tree_node_t" where
  "nd l r p c k = \<lparr>rb_left = l, rb_right = r, rb_parent = p, rb_color = c, rb_key = k, rb_value = None\<rparr>"

definition rbt :: "rbptr \<Rightarrow> nat lu_rb_tree_node_t list \<Rightarrow> nat lu_rb_tree_t" where
  "rbt rt ns = \<lparr>rb_root = rt, rb_nil = 0, rb_mem = (\<lambda>x. if x < length ns then ns ! x else rb_zero x), rb_next = length ns\<rparr>"

lemma rbt_fields:
  "rb_root (rbt a b) = a" "rb_nil (rbt a b) = 0" "rb_next (rbt a b) = length b" "x < length b \<Longrightarrow> rb_mem (rbt a b) x = b ! x"
  by (simp_all add: rbt_def)

lemma rbt_set:
  "x < length b \<Longrightarrow> set_left x z (rbt a b) = rbt a (b[x := (b ! x)\<lparr>rb_left := z\<rparr>])"
  "x < length b \<Longrightarrow> set_right x z (rbt a b) = rbt a (b[x := (b ! x)\<lparr>rb_right := z\<rparr>])"
  "x < length b \<Longrightarrow> set_parent x z (rbt a b) = rbt a (b[x := (b ! x)\<lparr>rb_parent := z\<rparr>])"
  "x < length b \<Longrightarrow> set_color x c (rbt a b) = rbt a (b[x := (b ! x)\<lparr>rb_color := c\<rparr>])"
  "(rbt a b)\<lparr>rb_root := z\<rparr> = rbt z b"
  by (auto simp: rbt_def set_field_defs fun_eq_iff nth_list_update)

lemma rbt_new: "rb_new_node (rbt a b) k None = (rbt a (b @ [nd 0 0 0 RED k]), length b)"
  by (auto simp: rbt_def rb_new_node_def fun_eq_iff nth_append nd_def)

lemma rbt_init: "lu_rb_tree_init rb_zero = rbt 0 [nd 0 0 0 BLACK 0]"
  by (auto simp: rbt_def lu_rb_tree_init_def nd_def rb_zero_def fun_eq_iff)

lemma nd_fields [simp]:
  "rb_left (nd l r p c k) = l" "rb_right (nd l r p c k) = r" "rb_parent (nd l r p c k) = p"
  "rb_color (nd l r p c k) = c" "rb_key (nd l r p c k) = k"
  "(nd l r p c k)\<lparr>rb_left := z\<rparr> = nd z r p c k" "(nd l r p c k)\<lparr>rb_right := z\<rparr> = nd l z p c k"
  "(nd l r p c k)\<lparr>rb_parent := z\<rparr> = nd l r z c k" "(nd l r p c k)\<lparr>rb_color := d\<rparr> = nd l r p d k"
  by (simp_all add: nd_def)

lemmas eval_rbt = rbt_fields rbt_set rbt_new eval_nat_numeral
lemmas eval_insert = lu_rb_tree_insert_def lu_rb_tree_insert_fixup_def rb_attach_def insert_fixup_round_def
  fixup_rotate_left_side_def fixup_rotate_right_side_def recolor_def lu_rb_tree_left_rotate_def lu_rb_tree_right_rotate_def Let_def
lemmas eval_delete = rb_tree_delete_def lu_hash_rb_tree_find_def lu_rb_tree_transplant_def lu_rb_tree_delete_fixup_def
  delete_fixup_left_def delete_fixup_right_def lu_rb_tree_left_rotate_delete_def lu_rb_tree_right_rotate_delete_def Let_def

lemma small_tree_1: "lu_rb_tree_insert (rbt 0 [nd 0 0 0 BLACK 0]) 0 None = Some (rbt 1 [nd 0 0 0 BLACK 0, nd 0 0 0 BLACK 0])"
  by (simp add: eval_insert eval_rbt)

lemma small_tree_2:
  "lu_rb_tree_insert (rbt 1 [nd 0 0 0 BLACK 0, nd 0 0 0 BLACK 0]) 3 None =
     Some (rbt 1 [nd 0 0 0 BLACK 0, nd 0 2 0 BLACK 0, nd 0 0 1 RED 3])"
  by (simp add: eval_insert eval_rbt)

lemma small_tree_3:
  "lu_rb_tree_insert (rbt 1 [nd 0 0 0 BLACK 0, nd 0 2 0 BLACK 0, nd 0 0 1 RED 3]) 2 None =
     Some (rbt 3 [nd 0 0 0 RED 0, nd 0 0 3 RED 0, nd 0 0 3 BLACK 3, nd 1 2 0 BLACK 2])"
  by (simp add: eval_insert eval_rbt)

lemma small_tree_4:
  "lu_rb_tree_insert (rbt 3 [nd 0 0 0 RED 0, nd 0 0 3 RED 0, nd 0 0 3 BLACK 3, nd 1 2 0 BLACK 2]) 1 None =
     Some (rbt 1 [nd 0 0 0 RED 0, nd 0 4 0 BLACK 0, nd 0 0 3 BLACK 3, nd 0 2 4 RED 2, nd 0 3 1 BLACK 1])"
  by (simp add: eval_insert eval_rbt)

lemma small_tree_5:
  "rb_tree_delete (rbt 1 [nd 0 0 0 RED 0, nd 0 4 0 BLACK 0, nd 0 0 3 BLACK 3, nd 0 2 4 RED 2, nd 0 3 1 BLACK 1]) 2 =
     Some (True, rbt 1 [nd 0 0 0 RED 0, nd 0 4 0 BLACK 0, nd 0 0 4 BLACK 3, nd 0 2 4 RED 2, nd 0 2 1 BLACK 1])"
  by (simp add: eval_delete eval_rbt)

lemma small_tree_6:
  "rb_tree_delete (rbt 1 [nd 0 0 0 RED 0, nd 0 4 0 BLACK 0, nd 0 0 4 BLACK 3, nd 0 2 4 RED 2, nd 0 2 1 BLACK 1]) 1 =
     Some (True, rbt 0 [nd 0 1 0 BLACK 0, nd 0 2 0 BLACK 0, nd 0 0 1 BLACK 3, nd 0 2 4 RED 2, nd 0 2 1 BLACK 1])"
  by (simp add: eval_delete eval_rbt)

theorem tree_delete_loses_keys:
  "\<exists>t u v. rb_insert_all (lu_rb_tree_init rb_zero) [(0, None), (3, None), (2, None), (1, None)] = Some t \<and>
     rb_tree_delete t 2 = Some (True, u) \<and> lu_hash_rb_tree_find u 0 = Some (Some 1) \<and> lu_hash_rb_tree_find u 3 = Some (Some 2) \<and>
     rb_tree_delete u 1 = Some (True, v) \<and> lu_hash_rb_tree_find v 0 = Some None \<and> lu_hash_rb_tree_find v 3 = Some None"
proof -
  have "rb_insert_all (lu_rb_tree_init rb_zero) [(0, None), (3, None), (2, None), (1, None)] =
      Some (rbt 1 [nd 0 0 0 RED 0, nd 0 4 0 BLACK 0, nd 0 0 3 BLACK 3, nd 0 2 4 RED 2, nd 0 3 1 BLACK 1])"
    by (simp add: rbt_init small_tree_1 small_tree_2 small_tree_3 small_tree_4 del: One_nat_def)
  moreover have "lu_hash_rb_tree_find (rbt 1 [nd 0 0 0 RED 0, nd 0 4 0 BLACK 0, nd 0 0 4 BLACK 3, nd 0 2 4 RED 2, nd 0 2 1 BLACK 1]) 0 = Some (Some 1)"
    "lu_hash_rb_tree_find (rbt 1 [nd 0 0 0 RED 0, nd 0 4 0 BLACK 0, nd 0 0 4 BLACK 3, nd 0 2 4 RED 2, nd 0 2 1 BLACK 1]) 3 = Some (Some 2)"
    "lu_hash_rb_tree_find (rbt 0 [nd 0 1 0 BLACK 0, nd 0 2 0 BLACK 0, nd 0 0 1 BLACK 3, nd 0 2 4 RED 2, nd 0 2 1 BLACK 1]) 0 = Some None"
    "lu_hash_rb_tree_find (rbt 0 [nd 0 1 0 BLACK 0, nd 0 2 0 BLACK 0, nd 0 0 1 BLACK 3, nd 0 2 4 RED 2, nd 0 2 1 BLACK 1]) 3 = Some None"
    by (simp_all add: lu_hash_rb_tree_find_def eval_rbt)
  ultimately show ?thesis using small_tree_5 small_tree_6 by blast
qed

text \<open>Two more: a red node with a red parent after three insertions, and a key stored twice.\<close>

theorem tree_insert_red_sentinel:
  "\<exists>t. rb_insert_all (lu_rb_tree_init rb_zero) [(0, None), (3, None), (2, None)] = Some t \<and> col t (rb_nil t) = RED"
  by (simp add: rbt_init small_tree_1 small_tree_2 small_tree_3 rbt_fields del: One_nat_def)

theorem tree_insert_duplicates:
  "\<exists>t x y. rb_insert_all (lu_rb_tree_init rb_zero) [(7, None), (7, None)] = Some t \<and>
     lu_rb_tree_destroy_node t (rb_root t) = Some [x, y] \<and> x \<noteq> y \<and> key t x = 7 \<and> key t y = 7"
  by (simp add: rbt_init eval_insert eval_rbt lu_rb_tree_destroy_node_def)

text \<open>A tree that the insertions of 1, 2, 3 and 4 make is balanced. Deleting 2 moves its successor up and paints the red node below black;
  deleting 1 takes a black leaf away, and nothing repairs the heights: the repair starts at the sentinel,
  whose parent was never set, and goes round there.\<close>

lemma grown_1: "lu_rb_tree_insert (rbt 0 [nd 0 0 0 BLACK 0]) 1 None = Some (rbt 1 [nd 0 0 0 BLACK 0, nd 0 0 0 BLACK 1])"
  by (simp add: eval_insert eval_rbt)

lemma grown_2:
  "lu_rb_tree_insert (rbt 1 [nd 0 0 0 BLACK 0, nd 0 0 0 BLACK 1]) 2 None = Some (rbt 1 [nd 0 0 0 BLACK 0, nd 0 2 0 BLACK 1, nd 0 0 1 RED 2])"
  by (simp add: eval_insert eval_rbt)

lemma grown_3:
  "lu_rb_tree_insert (rbt 1 [nd 0 0 0 BLACK 0, nd 0 2 0 BLACK 1, nd 0 0 1 RED 2]) 3 None =
     Some (rbt 2 [nd 0 0 0 BLACK 0, nd 0 0 2 RED 1, nd 1 3 0 BLACK 2, nd 0 0 2 RED 3])"
  by (simp add: eval_insert eval_rbt)

definition grown :: "nat lu_rb_tree_t" where
  "grown = rbt 2 [nd 0 0 0 BLACK 0, nd 0 0 2 BLACK 1, nd 1 3 0 BLACK 2, nd 0 4 2 BLACK 3, nd 0 0 3 RED 4]"

lemma grown_4:
  "lu_rb_tree_insert (rbt 2 [nd 0 0 0 BLACK 0, nd 0 0 2 RED 1, nd 1 3 0 BLACK 2, nd 0 0 2 RED 3]) 4 None = Some grown"
  by (simp add: grown_def eval_insert eval_rbt)

lemma grown_inserted: "rb_insert_all (lu_rb_tree_init rb_zero) [(1, None), (2, None), (3, None), (4, None)] = Some grown"
  by (simp add: rbt_init grown_1 grown_2 grown_3 grown_4 del: One_nat_def)

lemma grown_shape:
  "rb_shape grown (Node (Node Leaf 1 Leaf) 2 (Node Leaf 3 (Node Leaf 4 Leaf)))"
  "black_balanced grown (Node (Node Leaf 1 Leaf) 2 (Node Leaf 3 (Node Leaf 4 Leaf)))" "clean_sentinel grown"
  "rb_seq grown (Node (Node Leaf 1 Leaf) 2 (Node Leaf 3 (Node Leaf 4 Leaf))) = [(1, None), (2, None), (3, None), (4, None)]"
  by (simp_all add: grown_def rb_shape_def clean_sentinel_def rb_seq_def eval_rbt) (simp_all add: nd_def)

lemma grown_rep: "rb_rep grown [(1, None), (2, None), (3, None), (4, None)]" "rb_balanced grown"
  using grown_shape by (auto simp: rb_rep_def rb_balanced_def)

definition shrunk :: "nat lu_rb_tree_t" where
  "shrunk = rbt 3 [nd 0 0 0 BLACK 0, nd 0 0 3 BLACK 1, nd 1 3 0 BLACK 2, nd 1 4 0 BLACK 3, nd 0 0 3 BLACK 4]"

definition lopsided :: "nat lu_rb_tree_t" where
  "lopsided = rbt 3 [nd 0 0 0 BLACK 0, nd 0 0 3 BLACK 1, nd 1 3 0 BLACK 2, nd 0 4 0 BLACK 3, nd 0 0 3 BLACK 4]"

lemma grown_delete: "rb_tree_delete grown 2 = Some (True, shrunk)" "rb_tree_delete shrunk 1 = Some (True, lopsided)"
  by (simp_all add: grown_def shrunk_def lopsided_def lu_rb_tree_minimum_def rb_replace_def eval_delete eval_rbt)

theorem tree_delete_unbalances: "rb_balanced shrunk \<and> rb_tree_delete shrunk 1 = Some (True, lopsided) \<and> \<not> rb_balanced lopsided"
proof -
  have s: "rb_shape shrunk (Node (Node Leaf 1 Leaf) 3 (Node Leaf 4 Leaf))"
    "black_balanced shrunk (Node (Node Leaf 1 Leaf) 3 (Node Leaf 4 Leaf))" "clean_sentinel shrunk"
    by (simp_all add: shrunk_def rb_shape_def clean_sentinel_def eval_rbt)
  have l: "rb_shape lopsided (Node Leaf 3 (Node Leaf 4 Leaf))" "\<not> black_balanced lopsided (Node Leaf 3 (Node Leaf 4 Leaf))"
    by (simp_all add: lopsided_def rb_shape_def eval_rbt)
  show ?thesis using s l rb_shape_unique [OF l(1)] grown_delete(2) unfolding rb_balanced_def by blast
qed

text \<open>The counters: a miss decrements both, a hit in a list leaves the size of the bucket.\<close>

theorem delete_miss_decrements:
  "\<exists>h. lu_hash_table_delete (lu_hash_table_init 16 :: nat lu_hash_table_t) 5 = Some h \<and> element_count h = - 1"
  by (simp add: lu_hash_table_delete_def lu_hash_table_init_def Let_def empty_bucket_def nth_append
      lu_hash_function_less [of 16 5, simplified])

theorem list_delete_hit_keeps_size:
  "lu_hash_list_delete [(5, None)] \<lparr>bucket_data = LU_HASH_BUCKET_LIST [(5, None)], esize_bucket = 1\<rparr> 5 =
     \<lparr>bucket_data = LU_HASH_BUCKET_LIST [], esize_bucket = 1\<rparr>"
  by (simp add: lu_hash_list_delete_def)

section \<open>Properties\<close>

text \<open>C27: for every key that a C int holds and every table size below 2^31 the two casts
  of doubles to \<open>int\<close> in the hash function are defined, and the index is inside the array of buckets.\<close>

theorem hash_index_defined:
  assumes "- (2 ^ 31) \<le> k" "k < 2 ^ 31" "0 < n" "n < 2 ^ 31"
  shows "\<bar>trunc53 (hash_temp k)\<bar> < 2 ^ 31 \<and> \<bar>hash_int k n\<bar> < 2 ^ 31 \<and> lu_hash_function k n < n"
  using hash_casts [OF assms] lu_hash_function_less [OF assms(3), of k] assms(4) by simp

theorem hash_index_defined_witness: "lu_hash_function (- 5) 10 < 10 \<and> \<bar>hash_int (- 5) 10\<bar> < 2 ^ 31"
  using hash_index_defined [of "- 5" 10] by simp

text \<open>C25: inserting into a red-black tree that stores a sorted sequence of keys and values
  returns within the fuel, whatever the colours are, and the tree then stores the sequence with the new pair
  behind the keys that are not greater.\<close>

theorem rb_insert_sorted:
  assumes "rb_rep t xs"
  shows "\<exists>t'. lu_rb_tree_insert t k v = Some t' \<and>
    rb_rep t' (filter (\<lambda>e. fst e \<le> k) xs @ (k, v) # filter (\<lambda>e. k < fst e) xs)"
  using rb_insert_rep [OF assms] .

theorem rb_insert_sorted_witness:
  "\<exists>t'. lu_rb_tree_insert (lu_rb_tree_init rb_zero) 4 (Some 9) = Some t' \<and> rb_rep t' [(4, Some 9)]"
  using rb_insert_sorted [OF rb_init_rep [of rb_zero], of 4 "Some 9"] by simp

text \<open>The search in a tree returns within the fuel: null exactly when no stored pair has
  the key, and otherwise a node whose key and value are a stored pair.\<close>

theorem rb_find_decides:
  assumes "rb_rep t xs"
  shows "\<exists>r. lu_hash_rb_tree_find t k = Some r \<and>
    (case r of None \<Rightarrow> k \<notin> fst ` set xs | Some x \<Rightarrow> (k, rb_value (rb_mem t x)) \<in> set xs)"
  using rb_find_rep [OF assms] .

theorem rb_find_decides_witness: "\<exists>r. lu_hash_rb_tree_find (lu_rb_tree_init rb_zero) 4 = Some r \<and> r = None"
  using rb_find_decides [OF rb_init_rep [of rb_zero], of 4] by (auto split: option.splits)

text \<open>C26: deleting a key that is stored from a red-black tree with balanced black heights and a black sentinel
  returns within the fuel: one pair with that key is gone, the others are stored in the same order, and the sentinel is
  still black with no parent.\<close>

theorem rb_delete_removes:
  assumes "rb_rep t xs" "rb_balanced t" "k \<in> fst ` set xs"
  shows "\<exists>t' us v vs. rb_tree_delete t k = Some (True, t') \<and> xs = us @ (k, v) # vs \<and> rb_rep t' (us @ vs) \<and> clean_sentinel t'"
  using rb_tree_delete_ok [OF assms] .

theorem rb_delete_removes_witness:
  "\<exists>t'. rb_tree_delete grown 2 = Some (True, t') \<and> rb_rep t' [(1, None), (3, None), (4, None)]"
proof -
  obtain t' us v vs where d: "rb_tree_delete grown 2 = Some (True, t')" "[(1, None), (2, None), (3, None), (4, None)] = us @ (2, v) # vs"
    "rb_rep t' (us @ vs)"
    using rb_delete_removes [OF grown_rep, of 2] by auto
  have "us = [(1, None)] \<and> vs = [(3, None), (4, None)]" using d(2) by (auto simp: Cons_eq_append_conv)
  then show ?thesis using d by auto
qed

text \<open>C23: on a table that represents the map \<open>m\<close> from keys to pointers, find returns the
  pointer that \<open>m\<close> gives, and null for a key that is not there, from list and tree buckets alike.\<close>

theorem hash_find_looks_up:
  assumes "hash_rep h m"
  shows "lu_hash_table_find (Some h) k = Some (case m k of Some v \<Rightarrow> v | None \<Rightarrow> None)"
  using hash_find_rep [OF assms] .

theorem hash_find_looks_up_witness: "lu_hash_table_find (Some (lu_hash_table_init 16)) 3 = Some None"
  using hash_find_looks_up [OF hash_init_rep(1) [of 16], of 3] by simp



text \<open>C24: deleting a key that is absent, one whose bucket is a list, or one whose bucket is a tree with balanced black heights
  and a black sentinel, returns and removes the key and no other.\<close>

theorem hash_delete_removes:
  assumes "hash_rep h m"
    and "m k = None \<or> (case bucket_data (buckets h ! lu_hash_function k (table_size h)) of
      LU_HASH_BUCKET_LIST es \<Rightarrow> True | LU_HASH_BUCKET_RBTREE t \<Rightarrow> \<exists>t'. t = Some t' \<and> rb_balanced t')"
  shows "\<exists>h'. lu_hash_table_delete h k = Some h' \<and> hash_rep h' (m(k := None))"
  using hash_delete_rep [OF assms] by blast

theorem hash_delete_removes_witness:
  "\<exists>h'. lu_hash_table_delete (lu_hash_table_init 16 :: nat lu_hash_table_t) 3 = Some h' \<and> hash_rep h' Map.empty"
  using hash_delete_removes [OF hash_init_rep(1) [of 16, where 'a = nat], of 3] by simp

text \<open>C28: growing a table below half the bound doubles the number of buckets, puts every
  entry into the bucket that the new size gives its key, and keeps the map.\<close>

theorem hash_resize_keeps_map:
  assumes "hash_rep h m" "2 * table_size h < 2 ^ 31"
  shows "\<exists>h'. lu_hash_table_resize h = Some h' \<and> hash_rep h' m \<and> table_size h' = 2 * table_size h"
  using hash_resize_rep [OF assms] .

theorem hash_resize_keeps_map_witness:
  "\<exists>h'. lu_hash_table_resize (lu_hash_table_init 16 :: nat lu_hash_table_t) = Some h' \<and> hash_rep h' Map.empty \<and> table_size h' = 32"
  using hash_resize_keeps_map [OF hash_init_rep(1) [of 16, where 'a = nat]] by (simp add: hash_init_rep(2))

text \<open>C29: destroying a table frees the array, the table and one node for each key of
  the map, and nothing twice.\<close>

theorem hash_destroy_frees_once:
  assumes "hash_rep h m"
  shows "\<exists>fs. lu_hash_table_destroy (Some h) = Some fs \<and> distinct fs \<and> Free_table \<in> set fs \<and> Free_buckets \<in> set fs \<and>
    length (filter is_node fs) = card (dom m)"
  using hash_destroy_rep [OF assms] .

theorem hash_destroy_frees_once_witness:
  "\<exists>fs. lu_hash_table_destroy (Some (lu_hash_table_init 16 :: nat lu_hash_table_t)) = Some fs \<and> length (filter is_node fs) = 0"
  using hash_destroy_frees_once [OF hash_init_rep(1) [of 16, where 'a = nat]] by auto

end
