(* ===== verification/LuError.thy ===== *)
theory LuError
  imports LuHashMap LuUtil
begin

text \<open>
  The two users of the hash table: the error strings of \<open>src/lu_error.c\<close> with their array and
  their lazily filled table, and the socket error strings that \<open>src/lu_util.c\<close> caches. An
  allocation, a lock or \<open>strerror\<close> is an argument; what the code does with a mutex is recorded
  as the sequence of its calls.
\<close>

section \<open>Results\<close>

text \<open>\<open>Outside i\<close>: a read of the array at index \<open>i\<close>, which it does not have. \<open>Out_of_steps\<close>: the fuel
  of a tree operation is used up.\<close>

datatype 'a error_result = Ret 'a | Exits int | Outside int | Null_deref | Out_of_steps

fun error_bind :: "'a error_result \<Rightarrow> ('a \<Rightarrow> 'b error_result) \<Rightarrow> 'b error_result" where
  "error_bind (Ret a) f = f a"
| "error_bind (Exits c) f = Exits c"
| "error_bind (Outside i) f = Outside i"
| "error_bind Null_deref f = Null_deref"
| "error_bind Out_of_steps f = Out_of_steps"

datatype mutex_op = Mutex_lock | Mutex_unlock | Mutex_init | Mutex_destroy

section \<open>The array of error strings\<close>

definition LU_ERROR_CODE_START_VALUE :: int where "LU_ERROR_CODE_START_VALUE = 0xFF"
definition LU_MAX_ERROR_CODE :: int where "LU_MAX_ERROR_CODE = 0x12A"
definition LU_EVENT_HASH_TABLE_SIZE :: nat where "LU_EVENT_HASH_TABLE_SIZE = 32"

definition LU_ERROR_INDEX :: "int \<Rightarrow> int" where
  "LU_ERROR_INDEX x = x - LU_ERROR_CODE_START_VALUE"

text \<open>The codes from 0xFF to 0x129 in order; the last element, of 0x12A, has no initialiser.\<close>

definition lu_error_strings_global :: "string option list" where
  "lu_error_strings_global = map Some
    [''lu errrocode start value'', ''Operation not permitted'', ''No such file or directory'', ''No such process'',
     ''Interrupted system call'', ''Input/output error'', ''No such device or address'', ''Argument list too long'',
     ''Exec format error'', ''Bad file descriptor'', ''No child processes'', ''Try again'', ''Out of memory'',
     ''Permission denied'', ''Bad address'', ''Block device required'', ''Device or resource busy'', ''File exists'',
     ''Cross-device link'', ''No such device'', ''Not a directory'', ''Is a directory'', ''Invalid argument'',
     ''File table overflow'', ''Too many open files'', ''Not a typewriter'', ''Text file busy'', ''File too large'',
     ''No space left on device'', ''Illegal seek'', ''Read-only file system'', ''Too many links'', ''Broken pipe'',
     ''Math argument out of domain of function'', ''Result too representable'', ''Luevent MemoyPool OK'',
     ''Luevent MemoyPool ERROR'', ''Luevent MemoryPool AGAIN'', ''Luevent MemoryPool BUSY'', ''Luevent MemoryPool DONE'',
     ''Luevent MemoryPool DECLINED'', ''Luevent MemoryPool ABORT'', ''INVALID PATH''] @ [None]"

definition get_error_message :: "int \<Rightarrow> string option error_result" where
  "get_error_message index =
     (if 0 \<le> index \<and> index < int (length lu_error_strings_global) then Ret (lu_error_strings_global ! nat index)
      else Outside index)"

definition lu_get_error_string :: "int \<Rightarrow> string option error_result" where
  "lu_get_error_string error_code =
     (if error_code < 0 \<or> error_code > LU_MAX_ERROR_CODE
      then Ret (Some (fst (lu_evutil_snprintf True 64 (Some (''Unknown error: '' @ dec_int error_code)))))
      else get_error_message (LU_ERROR_INDEX error_code))"

section \<open>The table of error strings\<close>

record lu_error_info_t =
  info_error_code :: int
  error_message :: "string option"
  is_loaded :: int

text \<open>The static variables: the table (whose values are addresses), the entries that are allocated,
  the next address, \<open>initialized\<close>, and the calls on \<open>error_table_mutex\<close>, oldest first.\<close>

record lu_error_state =
  lu_error_hash_table :: "nat lu_hash_table_t option"
  error_infos :: "nat \<rightharpoonup> lu_error_info_t"
  error_next :: nat
  error_initialized :: bool
  error_mutex_ops :: "mutex_op list"
  error_table_freed :: "hash_free list"

definition error_state_0 :: lu_error_state where
  "error_state_0 = \<lparr>lu_error_hash_table = None, error_infos = Map.empty, error_next = 0, error_initialized = False,
     error_mutex_ops = [], error_table_freed = []\<rparr>"

definition error_mutex :: "mutex_op \<Rightarrow> lu_error_state \<Rightarrow> lu_error_state" where
  "error_mutex op st = st\<lparr>error_mutex_ops := error_mutex_ops st @ [op]\<rparr>"

definition get_or_create_error_entry ::
    "(rbptr \<Rightarrow> nat lu_rb_tree_node_t) \<Rightarrow> bool \<Rightarrow> int \<Rightarrow> lu_error_state \<Rightarrow> (lu_error_state \<times> nat) error_result" where
  "get_or_create_error_entry raw malloc_ok code st =
     (case lu_hash_table_find (lu_error_hash_table st) code of
        None \<Rightarrow> Out_of_steps
      | Some (Some entry) \<Rightarrow> Ret (st, entry)
      | Some None \<Rightarrow>
          (if \<not> malloc_ok then Exits 1
           else
             (case lu_error_hash_table st of
                None \<Rightarrow> Null_deref
              | Some h \<Rightarrow>
                  (case lu_hash_table_insert raw h code (Some (error_next st)) of
                     None \<Rightarrow> Out_of_steps
                   | Some h' \<Rightarrow>
                       Ret (st\<lparr>lu_error_hash_table := Some h',
                               error_infos := (error_infos st)(error_next st \<mapsto>
                                  \<lparr>info_error_code = code, error_message = None, is_loaded = 0\<rparr>),
                               error_next := Suc (error_next st)\<rparr>, error_next st)))))"

text \<open>The entry of a pointer; it is filled on first use.\<close>

definition load_error_entry :: "int \<Rightarrow> nat \<Rightarrow> lu_error_state \<Rightarrow> (lu_error_state \<times> string option) error_result" where
  "load_error_entry code entry st =
     (case error_infos st entry of
        None \<Rightarrow> Null_deref
      | Some e \<Rightarrow>
          (if is_loaded e \<noteq> 0 then Ret (st, error_message e)
           else
             error_bind (get_error_message (LU_ERROR_INDEX code))
               (\<lambda>msg. Ret (st\<lparr>error_infos := (error_infos st)(entry \<mapsto>
                              \<lparr>info_error_code = code, error_message = msg, is_loaded = 1\<rparr>)\<rparr>, msg))))"

definition lu_get_error_string_hash ::
    "(rbptr \<Rightarrow> nat lu_rb_tree_node_t) \<Rightarrow> int \<Rightarrow> bool \<Rightarrow> int \<Rightarrow> lu_error_state \<Rightarrow> (lu_error_state \<times> string option) error_result" where
  "lu_get_error_string_hash raw lock_status malloc_ok code st =
     (if code < 0 \<or> code > LU_MAX_ERROR_CODE
      then Ret (st, Some (fst (lu_evutil_snprintf True 64 (Some (''Unknown error: '' @ dec_int code)))))
      else if lock_status \<noteq> 0
      then Ret (st, Some (fst (lu_evutil_snprintf True 64
             (Some (''Unable to lock error table (status: '' @ dec_int lock_status @ '')'')))))
      else
        error_bind (get_or_create_error_entry raw malloc_ok code (error_mutex Mutex_lock st))
          (\<lambda>(st1, entry). error_bind (load_error_entry code entry st1)
             (\<lambda>(st2, msg). Ret (error_mutex Mutex_unlock st2, msg))))"

definition initialize_error_table :: "int \<Rightarrow> lu_error_state \<Rightarrow> lu_error_state error_result" where
  "initialize_error_table init_status st =
     (if error_initialized st then Ret st
      else
        (let st1 = error_mutex Mutex_init (error_mutex Mutex_lock st)
         in if init_status \<noteq> 0 then Exits 1
            else
              (let st2 = (if lu_error_hash_table st1 = None
                          then st1\<lparr>lu_error_hash_table := Some (lu_hash_table_init LU_EVENT_HASH_TABLE_SIZE)\<rparr> else st1)
               in Ret (error_mutex Mutex_unlock (st2\<lparr>error_initialized := True\<rparr>)))))"

text \<open>The loop of \<open>cleanup_error_table_\<close> over the codes; the last code is not one of them.\<close>

fun cleanup_entries :: "int list \<Rightarrow> lu_error_state \<Rightarrow> lu_error_state error_result" where
  "cleanup_entries [] st = Ret st"
| "cleanup_entries (i # is) st =
     (case lu_hash_table_find (lu_error_hash_table st) i of
        None \<Rightarrow> Out_of_steps
      | Some None \<Rightarrow> cleanup_entries is st
      | Some (Some entry) \<Rightarrow>
          (case lu_error_hash_table st of
             None \<Rightarrow> Null_deref
           | Some h \<Rightarrow>
               (case lu_hash_table_delete h i of
                  None \<Rightarrow> Out_of_steps
                | Some h' \<Rightarrow> cleanup_entries is (st\<lparr>error_infos := (error_infos st)(entry := None),
                                                 lu_error_hash_table := Some h'\<rparr>))))"

definition cleanup_error_table :: "lu_error_state \<Rightarrow> lu_error_state error_result" where
  "cleanup_error_table st =
     error_bind (cleanup_entries [LU_ERROR_CODE_START_VALUE..LU_MAX_ERROR_CODE - 1] (error_mutex Mutex_lock st))
       (\<lambda>st1. case lu_hash_table_destroy (lu_error_hash_table st1) of
                None \<Rightarrow> Out_of_steps
              | Some fs \<Rightarrow> Ret (error_mutex Mutex_destroy (error_mutex Mutex_unlock (st1\<lparr>error_table_freed := fs\<rparr>))))"

section \<open>Socket error strings\<close>

text \<open>An entry is never written after it is stored, so the table holds it itself. \<open>dup1\<close> to \<open>dup3\<close>
  and \<open>entry_ok\<close> tell which of the allocations succeed.\<close>

record lu_cached_sock_errs_entry_t =
  sock_code :: int
  sock_msg :: string

definition sock_err_msg :: "(int \<Rightarrow> string) \<Rightarrow> int \<Rightarrow> string" where
  "sock_err_msg strerror errcode =
     (if errcode = EAGAIN \<or> errcode = EWOULDBLOCK then ''Operation would block'' else strerror errcode)"

definition lu_util_sock_hash_table_constructor :: "lu_cached_sock_errs_entry_t lu_hash_table_t" where
  "lu_util_sock_hash_table_constructor = lu_hash_table_init LU_HASH_TABLE_DEFAULT_SIZE"

record sock_err_env =
  dup1 :: bool
  dup2 :: bool
  entry_ok :: bool
  dup3 :: bool

text \<open>The calls on the mutex, the table and the string (\<open>None\<close>: null).\<close>

definition lu_evutil_socket_error_to_string ::
    "(rbptr \<Rightarrow> lu_cached_sock_errs_entry_t lu_rb_tree_node_t) \<Rightarrow> (int \<Rightarrow> string) \<Rightarrow> sock_err_env \<Rightarrow> int \<Rightarrow>
     lu_cached_sock_errs_entry_t lu_hash_table_t \<Rightarrow>
     (mutex_op list \<times> lu_cached_sock_errs_entry_t lu_hash_table_t \<times> string option) option" where
  "lu_evutil_socket_error_to_string raw strerror env errcode h =
     (case lu_hash_table_find (Some h) errcode of
        None \<Rightarrow> None
      | Some (Some errs) \<Rightarrow> Some ([Mutex_lock, Mutex_unlock], h, Some (sock_msg errs))
      | Some None \<Rightarrow>
          (let msg = sock_err_msg strerror errcode
           in if \<not> dup1 env
              then Some ([Mutex_lock, Mutex_unlock], h,
                     if dup2 env then Some ''Memory allocation failed during socket error'' else None)
              else if \<not> entry_ok env
              then Some ([Mutex_lock, Mutex_unlock], h, if dup3 env then Some ''malloc failed during socket error'' else None)
              else map_option (\<lambda>h'. ([Mutex_lock, Mutex_unlock], h', Some msg))
                     (lu_hash_table_insert raw h errcode (Some \<lparr>sock_code = errcode, sock_msg = msg\<rparr>))))"


section \<open>The table agrees with the array\<close>

text \<open>Every stored address is an allocated entry of its code, and a loaded entry has the string of
  the array.\<close>

definition error_inv :: "lu_error_state \<Rightarrow> bool" where
  "error_inv st \<longleftrightarrow> (\<exists>h m. lu_error_hash_table st = Some h \<and> hash_map_rep h m \<and>
     (\<forall>k p. m k = Some p \<longrightarrow> p < error_next st \<and>
        (\<exists>e. error_infos st p = Some e \<and> info_error_code e = k \<and>
             (is_loaded e \<noteq> 0 \<longrightarrow> get_error_message (LU_ERROR_INDEX k) = Ret (error_message e)))))"

lemma error_mutex_fields [simp]:
  "lu_error_hash_table (error_mutex op st) = lu_error_hash_table st" "error_infos (error_mutex op st) = error_infos st"
  "error_next (error_mutex op st) = error_next st" "error_initialized (error_mutex op st) = error_initialized st"
  by (simp_all add: error_mutex_def)

lemma error_inv_mutex [simp]: "error_inv (error_mutex op st) = error_inv st"
  by (simp add: error_inv_def)

lemma error_inv_initialized: "\<exists>st. initialize_error_table 0 error_state_0 = Ret st \<and> error_inv st \<and> error_initialized st"
  using hash_map_rep_init [of 32]
  by (auto simp: initialize_error_table_def error_state_0_def error_inv_def error_mutex_def LU_EVENT_HASH_TABLE_SIZE_def Let_def
      intro!: exI [of _ Map.empty])

text \<open>Looking an entry up or creating it, through the interface of the table.\<close>

lemma get_or_create_ok:
  assumes "error_inv st"
  shows "\<exists>st1 p e. get_or_create_error_entry raw True code st = Ret (st1, p) \<and> error_inv st1 \<and>
    error_infos st1 p = Some e \<and> info_error_code e = code \<and> error_mutex_ops st1 = error_mutex_ops st \<and>
    (is_loaded e \<noteq> 0 \<longrightarrow> get_error_message (LU_ERROR_INDEX code) = Ret (error_message e))"
proof -
  obtain h m where h: "lu_error_hash_table st = Some h" "hash_map_rep h m"
    and m: "\<And>k p. m k = Some p \<Longrightarrow> p < error_next st \<and> (\<exists>e. error_infos st p = Some e \<and> info_error_code e = k \<and>
             (is_loaded e \<noteq> 0 \<longrightarrow> get_error_message (LU_ERROR_INDEX k) = Ret (error_message e)))"
    using assms unfolding error_inv_def by blast
  show ?thesis
  proof (cases "m code")
    case (Some p)
    then have "get_or_create_error_entry raw True code st = Ret (st, p)"
      using hash_map.find_again [OF h(2)] h(1) by (simp add: get_or_create_error_entry_def)
    then show ?thesis using m [OF Some] assms by blast
  next
    case None
    let ?n = "error_next st"
    obtain h' where h': "lu_hash_table_insert raw h code (Some ?n) = Some h'" "hash_map_rep h' (m(code \<mapsto> ?n))"
      using hash_map.insert_new_rep [OF h(2) None, of raw ?n] by blast
    let ?e = "\<lparr>info_error_code = code, error_message = None, is_loaded = 0\<rparr>"
    let ?st = "st\<lparr>lu_error_hash_table := Some h', error_infos := (error_infos st)(?n \<mapsto> ?e), error_next := Suc ?n\<rparr>"
    have "get_or_create_error_entry raw True code st = Ret (?st, ?n)"
      using hash_map.lookup_rep [OF h(2), of code] None h(1) h'(1) by (simp add: get_or_create_error_entry_def)
    moreover have "error_inv ?st"
      unfolding error_inv_def using h'(2) m by (intro exI [of _ h'] exI [of _ "m(code \<mapsto> ?n)"]) (fastforce split: if_splits)
    ultimately show ?thesis by (intro exI [of _ ?st] exI [of _ ?n] exI [of _ ?e]) simp
  qed
qed

lemma error_inv_load:
  assumes "error_inv st" "error_infos st p = Some e" "info_error_code e = code" "get_error_message (LU_ERROR_INDEX code) = Ret msg"
  shows "error_inv (st\<lparr>error_infos := (error_infos st)(p \<mapsto> \<lparr>info_error_code = code, error_message = msg, is_loaded = 1\<rparr>)\<rparr>)"
proof -
  obtain h m where h: "lu_error_hash_table st = Some h" "hash_map_rep h m"
    and m: "\<And>k p. m k = Some p \<Longrightarrow> p < error_next st \<and> (\<exists>e. error_infos st p = Some e \<and> info_error_code e = k \<and>
             (is_loaded e \<noteq> 0 \<longrightarrow> get_error_message (LU_ERROR_INDEX k) = Ret (error_message e)))"
    using assms(1) unfolding error_inv_def by blast
  have "m k = Some p \<Longrightarrow> k = code" for k using m [of k p] assms(2,3) by simp
  then show ?thesis unfolding error_inv_def using h m assms(4)
    by (intro exI [of _ h] exI [of _ m] conjI allI impI) (auto split: if_splits)
qed

lemma get_error_string_hash_ok:
  assumes inv: "error_inv st" and c: "LU_ERROR_CODE_START_VALUE \<le> code" "code \<le> LU_MAX_ERROR_CODE"
  shows "\<exists>st' r. lu_get_error_string_hash raw 0 True code st = Ret (st', r) \<and> lu_get_error_string code = Ret r \<and> error_inv st' \<and>
    error_mutex_ops st' = error_mutex_ops st @ [Mutex_lock, Mutex_unlock]"
proof -
  have c0: "\<not> (code < 0 \<or> code > LU_MAX_ERROR_CODE)" using c by (simp add: LU_ERROR_CODE_START_VALUE_def)
  have "0 \<le> LU_ERROR_INDEX code \<and> LU_ERROR_INDEX code < int (length lu_error_strings_global)"
    using c by (simp add: LU_ERROR_INDEX_def LU_ERROR_CODE_START_VALUE_def LU_MAX_ERROR_CODE_def lu_error_strings_global_def)
  then obtain msg where msg: "get_error_message (LU_ERROR_INDEX code) = Ret msg" by (simp add: get_error_message_def)
  let ?st0 = "error_mutex Mutex_lock st"
  have ops0: "error_mutex_ops ?st0 = error_mutex_ops st @ [Mutex_lock]" by (simp add: error_mutex_def)
  obtain st1 p e where g: "get_or_create_error_entry raw True code ?st0 = Ret (st1, p)" "error_inv st1"
    "error_infos st1 p = Some e" "info_error_code e = code" "error_mutex_ops st1 = error_mutex_ops ?st0"
    "is_loaded e \<noteq> 0 \<Longrightarrow> get_error_message (LU_ERROR_INDEX code) = Ret (error_message e)"
    using get_or_create_ok [of ?st0 raw code] inv by auto
  have "\<exists>st2. load_error_entry code p st1 = Ret (st2, msg) \<and> error_inv st2 \<and> error_mutex_ops st2 = error_mutex_ops st1"
  proof (cases "is_loaded e \<noteq> 0")
    case True
    then have "msg = error_message e" using g(6) msg by simp
    then show ?thesis using g True by (simp add: load_error_entry_def)
  next
    case False
    then show ?thesis using g msg error_inv_load [OF g(2-4) msg] by (simp add: load_error_entry_def)
  qed
  then obtain st2 where st2: "load_error_entry code p st1 = Ret (st2, msg)" "error_inv st2" "error_mutex_ops st2 = error_mutex_ops st1"
    by blast
  have "lu_get_error_string_hash raw 0 True code st = Ret (error_mutex Mutex_unlock st2, msg)"
    using c0 g(1) st2(1) by (simp add: lu_get_error_string_hash_def)
  moreover have "lu_get_error_string code = Ret msg" using c0 msg by (simp add: lu_get_error_string_def)
  moreover have "error_mutex_ops (error_mutex Mutex_unlock st2) = error_mutex_ops st @ [Mutex_lock, Mutex_unlock]"
    using st2(3) g(5) ops0 by (simp add: error_mutex_def)
  ultimately show ?thesis using st2(2) by simp
qed

section \<open>Cleaning the table up\<close>

lemma hash_delete_lists:
  assumes "all_lists (buckets h)" "lu_hash_table_delete h k = Some h'" "lu_hash_function k (table_size h) < length (buckets h)"
  shows "all_lists (buckets h')" "table_size h' = table_size h"
proof -
  let ?i = "lu_hash_function k (table_size h)"
  obtain es where es: "bucket_data (buckets h ! ?i) = LU_HASH_BUCKET_LIST es" using all_lists_nth [OF assms(1,3)] by blast
  have h': "h' = (set_bucket ?i (lu_hash_list_delete es (buckets h ! ?i) k) h)\<lparr>element_count := element_count h - 1\<rparr>"
    using assms(2) es by (simp add: lu_hash_table_delete_def Let_def)
  have "\<exists>es'. bucket_data (lu_hash_list_delete es (buckets h ! ?i) k) = LU_HASH_BUCKET_LIST es'"
    using es by (simp add: lu_hash_list_delete_def split: option.split)
  then show "all_lists (buckets h')"
    using assms(1) unfolding all_lists_def h' by (auto simp: set_bucket_def dest!: set_update_subset_insert [THEN subsetD])
  show "table_size h' = table_size h" by (simp add: h' set_bucket_def)
qed

text \<open>The map the loop leaves: without the codes it has passed; the entries of those are freed.\<close>

lemma cleanup_entries_ok:
  assumes "lu_error_hash_table st = Some h" "hash_map_rep h m" "all_lists (buckets h)"
  shows "\<exists>st' h'. cleanup_entries is st = Ret st' \<and> lu_error_hash_table st' = Some h' \<and> hash_map_rep h' (m |` (- set is)) \<and>
    error_infos st' = error_infos st |` (- {p. \<exists>k\<in>set is. m k = Some p}) \<and> error_mutex_ops st' = error_mutex_ops st"
  using assms
proof (induction "is" arbitrary: st h m)
  case Nil
  then show ?case by simp
next
  case (Cons i "is")
  show ?case
  proof (cases "m i")
    case None
    then have "m |` (- set (i # is)) = m |` (- set is)" by (auto simp: restrict_map_def fun_eq_iff)
    moreover have "{p. \<exists>k\<in>set (i # is). m k = Some p} = {p. \<exists>k\<in>set is. m k = Some p}" using None by auto
    moreover have "cleanup_entries (i # is) st = cleanup_entries is st"
      using hash_map.lookup_rep [OF Cons.prems(2), of i] None Cons.prems(1) by simp
    ultimately show ?thesis using Cons.IH [OF Cons.prems] by simp
  next
    case (Some p)
    note hr = Cons.prems(2) [unfolded hash_map_rep_def]
    have len: "lu_hash_function i (table_size h) < length (buckets h)" using hash_rep_bucket(1) [OF hr] hr by (simp add: hash_rep_def)
    obtain h' where h': "lu_hash_table_delete h i = Some h'" "hash_rep h' ((\<lambda>k. map_option Some (m k))(i := None))"
    proof -
      obtain es where "bucket_data (buckets h ! lu_hash_function i (table_size h)) = LU_HASH_BUCKET_LIST es"
        using all_lists_nth [OF Cons.prems(3) len] by blast
      then have "case bucket_data (buckets h ! lu_hash_function i (table_size h)) of
          LU_HASH_BUCKET_LIST es \<Rightarrow> True | LU_HASH_BUCKET_RBTREE t \<Rightarrow> \<exists>t'. t = Some t' \<and> rb_balanced t'"
        by simp
      then show thesis using hash_delete_rep [OF hr, of i] that by blast
    qed
    have "(\<lambda>k. map_option Some (m k))(i := None) = (\<lambda>k. map_option Some ((m(i := None)) k))" by (simp add: fun_eq_iff)
    then have rep: "hash_map_rep h' (m(i := None))" using h'(2) unfolding hash_map_rep_def by metis
    define m' where "m' = m(i := None)"
    let ?st = "st\<lparr>error_infos := (error_infos st)(p := None), lu_error_hash_table := Some h'\<rparr>"
    have st: "lu_error_hash_table ?st = Some h'" by simp
    obtain st' h2 where r: "cleanup_entries is ?st = Ret st'" "lu_error_hash_table st' = Some h2" "hash_map_rep h2 (m' |` (- set is))"
      "error_infos st' = error_infos ?st |` (- {p. \<exists>k\<in>set is. m' k = Some p})" "error_mutex_ops st' = error_mutex_ops ?st"
      using Cons.IH [OF st rep [folded m'_def] hash_delete_lists(1) [OF Cons.prems(3) h'(1) len]] by blast
    have "cleanup_entries (i # is) st = Ret st'"
      using hash_map.lookup_rep [OF Cons.prems(2), of i] Some Cons.prems(1) h'(1) r(1) by simp
    moreover have "m' |` (- set is) = m |` (- set (i # is))" by (auto simp: m'_def restrict_map_def fun_eq_iff)
    moreover have "error_infos ?st |` (- {p. \<exists>k\<in>set is. m' k = Some p}) =
        error_infos st |` (- {p. \<exists>k\<in>set (i # is). m k = Some p})"
    proof
      fix q
      show "(error_infos ?st |` (- {p. \<exists>k\<in>set is. m' k = Some p})) q =
          (error_infos st |` (- {p. \<exists>k\<in>set (i # is). m k = Some p})) q"
      proof (cases "q = p")
        case True
        then show ?thesis using Some by (simp add: restrict_map_def)
      next
        case False
        have "(\<exists>k\<in>set is. m' k = Some q) \<longleftrightarrow> (\<exists>k\<in>set (i # is). m k = Some q)" using Some False unfolding m'_def
          by (metis fun_upd_apply list.set_intros(1,2) option.inject option.simps(3) set_ConsD)
        moreover have "error_infos ?st q = error_infos st q" using False by simp
        ultimately show ?thesis unfolding restrict_map_def by (simp only: Compl_iff mem_Collect_eq)
      qed
    qed
    ultimately show ?thesis using r by simp
  qed
qed

section \<open>The socket strings\<close>

definition sock_cache_inv :: "(int \<Rightarrow> string) \<Rightarrow> lu_cached_sock_errs_entry_t lu_hash_table_t \<Rightarrow> (int \<rightharpoonup> lu_cached_sock_errs_entry_t) \<Rightarrow> bool" where
  "sock_cache_inv strerror h m \<longleftrightarrow> hash_map_rep h m \<and>
     (\<forall>k e. m k = Some e \<longrightarrow> sock_code e = k \<and> sock_msg e = sock_err_msg strerror k)"

lemma sock_cache_inv_init: "sock_cache_inv strerror lu_util_sock_hash_table_constructor Map.empty"
  using hash_map_rep_init [of 16] by (simp add: sock_cache_inv_def lu_util_sock_hash_table_constructor_def LU_HASH_TABLE_DEFAULT_SIZE_def)

lemma sock_error_ok:
  assumes "sock_cache_inv strerror h m"
  shows "\<exists>h' m' r. lu_evutil_socket_error_to_string raw strerror env code h = Some ([Mutex_lock, Mutex_unlock], h', r) \<and>
    sock_cache_inv strerror h' m' \<and> m \<subseteq>\<^sub>m m' \<and>
    (m code \<noteq> None \<or> dup1 env \<and> entry_ok env \<longrightarrow> r = Some (sock_err_msg strerror code) \<and> m' code \<noteq> None)"
proof (cases "m code")
  case (Some e)
  have rep: "hash_map_rep h m" and e: "sock_msg e = sock_err_msg strerror code"
    using assms Some unfolding sock_cache_inv_def by auto
  have "lu_evutil_socket_error_to_string raw strerror env code h = Some ([Mutex_lock, Mutex_unlock], h, Some (sock_msg e))"
    using hash_map.find_again [OF rep Some] by (simp add: lu_evutil_socket_error_to_string_def)
  then show ?thesis using assms Some e
    by (intro exI [of _ h] exI [of _ m] exI [of _ "Some (sock_msg e)"]) simp
next
  case None
  let ?e = "\<lparr>sock_code = code, sock_msg = sock_err_msg strerror code\<rparr>"
  have rep: "hash_map_rep h m" using assms unfolding sock_cache_inv_def by simp
  have f: "lu_hash_table_find (Some h) code = Some None" using hash_map.lookup_rep [OF rep, of code] None by simp
  show ?thesis
  proof (cases "dup1 env \<and> entry_ok env")
    case True
    obtain h' where h': "lu_hash_table_insert raw h code (Some ?e) = Some h'" "hash_map_rep h' (m(code \<mapsto> ?e))"
      using hash_map.insert_new_rep [OF rep None] by blast
    have "sock_cache_inv strerror h' (m(code \<mapsto> ?e))" using assms h'(2) by (simp add: sock_cache_inv_def)
    moreover have "m \<subseteq>\<^sub>m m(code \<mapsto> ?e)" using None by (auto simp: map_le_def)
    moreover have "lu_evutil_socket_error_to_string raw strerror env code h =
        Some ([Mutex_lock, Mutex_unlock], h', Some (sock_err_msg strerror code))"
      using f True h'(1) by (simp add: lu_evutil_socket_error_to_string_def)
    ultimately show ?thesis by (intro exI [of _ h'] exI [of _ "m(code \<mapsto> ?e)"]) simp
  next
    case False
    then show ?thesis using assms f None
      by (intro exI [of _ h] exI [of _ m]) (auto simp: lu_evutil_socket_error_to_string_def Let_def)
  qed
qed


lemma hash_insert_lists:
  assumes l: "all_lists (buckets h)" and i: "lu_hash_function k (table_size h) < length (buckets h)"
    and e: "esize_bucket (buckets h ! lu_hash_function k (table_size h)) + 1 \<le> word_of_nat LU_HASH_BUCKET_LIST_THRESHOLD"
    and ins: "lu_hash_table_insert raw h k v = Some h'"
  shows "all_lists (buckets h')"
proof -
  let ?i = "lu_hash_function k (table_size h)"
  obtain es where es: "bucket_data (buckets h ! ?i) = LU_HASH_BUCKET_LIST es" using all_lists_nth [OF l i] by blast
  have "\<exists>b xs. buckets h' = (buckets h)[?i := b] \<and> bucket_data b = LU_HASH_BUCKET_LIST xs"
    using ins es e by (auto simp: lu_hash_table_insert_def hash_insert_list_def Let_def set_bucket_def split: option.splits if_splits)
  then show ?thesis using l unfolding all_lists_def by (auto dest!: set_update_subset_insert [THEN subsetD])
qed

section \<open>Properties\<close>

text \<open>C30: for every code of the range, in every state that the initialisation and earlier
  requests leave, the lazily filled table gives the string that the array gives, keeps the invariant of the
  table, and takes and releases the mutex once.\<close>

theorem error_hash_agrees:
  assumes "error_inv st" "LU_ERROR_CODE_START_VALUE \<le> code" "code \<le> LU_MAX_ERROR_CODE"
  shows "\<exists>st' r. lu_get_error_string_hash raw 0 True code st = Ret (st', r) \<and> lu_get_error_string code = Ret r \<and> error_inv st' \<and>
    error_mutex_ops st' = error_mutex_ops st @ [Mutex_lock, Mutex_unlock]"
  using get_error_string_hash_ok [OF assms] .

theorem error_hash_agrees_witness:
  "\<exists>st st'. initialize_error_table 0 error_state_0 = Ret st \<and>
     lu_get_error_string_hash rb_zero 0 True 0x129 st = Ret (st', Some ''INVALID PATH'')"
proof -
  obtain st where st: "initialize_error_table 0 error_state_0 = Ret st" "error_inv st" using error_inv_initialized by blast
  obtain st' r where "lu_get_error_string_hash rb_zero 0 True 0x129 st = Ret (st', r)" "lu_get_error_string 0x129 = Ret r"
    using error_hash_agrees [OF st(2), of "0x129" rb_zero] by (auto simp: LU_ERROR_CODE_START_VALUE_def LU_MAX_ERROR_CODE_def)
  moreover have "lu_get_error_string 0x129 = Ret (Some ''INVALID PATH'')"
    by (simp add: lu_get_error_string_def get_error_message_def LU_ERROR_INDEX_def LU_ERROR_CODE_START_VALUE_def
        LU_MAX_ERROR_CODE_def lu_error_strings_global_def)
  ultimately show ?thesis using st(1) by auto
qed

lemma cleanup_ok:
  assumes inv: "error_inv st" and h: "lu_error_hash_table st = Some h" and l: "all_lists (buckets h)"
    and p: "lu_hash_table_find (Some h) code = Some (Some p)"
  shows "\<exists>st'. cleanup_error_table st = Ret st' \<and> Free_table \<in> set (error_table_freed st') \<and>
    error_mutex_ops st' = error_mutex_ops st @ [Mutex_lock, Mutex_unlock, Mutex_destroy] \<and>
    (error_infos st' p = None \<longleftrightarrow> LU_ERROR_CODE_START_VALUE \<le> code \<and> code < LU_MAX_ERROR_CODE)"
proof -
  obtain m where m: "hash_map_rep h m" "\<And>k p. m k = Some p \<Longrightarrow> (\<exists>e. error_infos st p = Some e \<and> info_error_code e = k)"
    using inv h unfolding error_inv_def by (metis option.inject)
  have mc: "m code = Some p" using hash_map.lookup_rep [OF m(1), of code] p by simp
  let ?is = "[LU_ERROR_CODE_START_VALUE..LU_MAX_ERROR_CODE - 1]"
  let ?st = "error_mutex Mutex_lock st"
  have "lu_error_hash_table ?st = Some h" using h by simp
  then obtain st1 h1 where st1: "cleanup_entries ?is ?st = Ret st1" "lu_error_hash_table st1 = Some h1" "hash_map_rep h1 (m |` (- set ?is))"
    "error_infos st1 = error_infos ?st |` (- {p. \<exists>k\<in>set ?is. m k = Some p})" "error_mutex_ops st1 = error_mutex_ops ?st"
    using cleanup_entries_ok [OF _ m(1) l, of ?st ?is] by blast
  obtain fs where fs: "lu_hash_table_destroy (Some h1) = Some fs" "Free_table \<in> set fs"
    using hash_destroy_rep [OF st1(3) [unfolded hash_map_rep_def]] by blast
  have same: "m k = Some p \<Longrightarrow> k = code" for k using m(2) [of k p] m(2) [OF mc] by auto
  obtain e where e: "error_infos st p = Some e" using m(2) [OF mc] by blast
  have "(\<exists>k\<in>set ?is. m k = Some p) \<longleftrightarrow> code \<in> set ?is" using same mc by blast
  then have "error_infos st1 p = None \<longleftrightarrow> LU_ERROR_CODE_START_VALUE \<le> code \<and> code < LU_MAX_ERROR_CODE"
    using e unfolding st1(4) restrict_map_def set_upto by simp
  moreover have "cleanup_error_table st = Ret (error_mutex Mutex_destroy (error_mutex Mutex_unlock (st1\<lparr>error_table_freed := fs\<rparr>)))"
    using st1(1,2) fs(1) by (simp add: cleanup_error_table_def)
  moreover have "error_mutex_ops st1 = error_mutex_ops st @ [Mutex_lock]" using st1(5) by (simp add: error_mutex_def)
  ultimately show ?thesis using fs(2) by (simp add: error_mutex_def)
qed

text \<open>While the buckets of the error table are lists, the destructor returns, frees the
  entry of every code that was requested below the last code, and the table, and releases and destroys
  the mutex.\<close>

theorem error_cleanup_frees:
  assumes "error_inv st" "lu_error_hash_table st = Some h" "all_lists (buckets h)"
    and "lu_hash_table_find (Some h) code = Some (Some p)" "LU_ERROR_CODE_START_VALUE \<le> code" "code < LU_MAX_ERROR_CODE"
  shows "\<exists>st'. cleanup_error_table st = Ret st' \<and> error_infos st' p = None \<and> Free_table \<in> set (error_table_freed st') \<and>
    error_mutex_ops st' = error_mutex_ops st @ [Mutex_lock, Mutex_unlock, Mutex_destroy]"
  using cleanup_ok [OF assms(1-4)] assms(5,6) by blast

text \<open>A state with the entry of one code.\<close>

lemma one_entry_state:
  "\<exists>st h p. error_inv st \<and> lu_error_hash_table st = Some h \<and> all_lists (buckets h) \<and> error_infos st p \<noteq> None \<and>
     lu_hash_table_find (Some h) code = Some (Some p)"
proof -
  let ?h = "lu_hash_table_init 32 :: nat lu_hash_table_t"
  obtain h where h: "lu_hash_table_insert rb_zero ?h code (Some 0) = Some h" "hash_map_rep h [code \<mapsto> 0]"
    using hash_map.insert_new_rep [OF hash_map_rep_init [of 32], of rb_zero code 0] by auto
  have i: "lu_hash_function code 32 < 32" by (rule lu_hash_function_less) simp_all
  have b: "buckets ?h = replicate 32 empty_bucket" "table_size ?h = 32" by (simp_all add: lu_hash_table_init_def Let_def)
  have "all_lists (buckets ?h)" by (simp add: b all_lists_def empty_bucket_def)
  moreover have "esize_bucket (buckets ?h ! lu_hash_function code 32) = 0" using i by (simp add: b empty_bucket_def)
  ultimately have l: "all_lists (buckets h)"
    using hash_insert_lists [OF _ _ _ h(1)] i by (simp add: b LU_HASH_BUCKET_LIST_THRESHOLD_def)
  let ?e = "\<lparr>info_error_code = code, error_message = None, is_loaded = 0\<rparr>"
  let ?st = "error_state_0\<lparr>lu_error_hash_table := Some h, error_infos := [0 \<mapsto> ?e], error_next := 1\<rparr>"
  have "error_inv ?st" using h(2) unfolding error_inv_def by (intro exI [of _ h] exI [of _ "[code \<mapsto> 0]"]) simp
  moreover have "lu_hash_table_find (Some h) code = Some (Some 0)" using hash_map.find_again [OF h(2), of code 0] by simp
  ultimately show ?thesis using l by (intro exI [of _ ?st] exI [of _ h] exI [of _ 0]) simp
qed

theorem error_cleanup_frees_witness:
  "\<exists>st st' p. cleanup_error_table st = Ret st' \<and> error_infos st p \<noteq> None \<and> error_infos st' p = None"
proof -
  obtain st h p where st: "error_inv st" "lu_error_hash_table st = Some h" "all_lists (buckets h)" "error_infos st p \<noteq> None"
    "lu_hash_table_find (Some h) 0x100 = Some (Some p)" using one_entry_state by blast
  have "\<exists>st'. cleanup_error_table st = Ret st' \<and> error_infos st' p = None"
    using error_cleanup_frees [OF st(1-3) st(5)] by (auto simp: LU_ERROR_CODE_START_VALUE_def LU_MAX_ERROR_CODE_def)
  then show ?thesis using st(4) by blast
qed

text \<open>With memory for a new entry, or with none when the code was asked before, the socket
  error string is the one of \<open>strerror\<close> (or the fixed text for a blocking operation); the code is cached from
  then on, nothing that was cached is lost, and on every path the mutex is taken and released once.\<close>

theorem sock_error_cached:
  assumes "sock_cache_inv strerror h m"
  shows "\<exists>h' m' r. lu_evutil_socket_error_to_string raw strerror env code h = Some ([Mutex_lock, Mutex_unlock], h', r) \<and>
    sock_cache_inv strerror h' m' \<and> m \<subseteq>\<^sub>m m' \<and>
    (m code \<noteq> None \<or> dup1 env \<and> entry_ok env \<longrightarrow> r = Some (sock_err_msg strerror code) \<and> m' code \<noteq> None)"
  using sock_error_ok [OF assms] .

definition sock_zero :: "rbptr \<Rightarrow> lu_cached_sock_errs_entry_t lu_rb_tree_node_t" where
  "sock_zero x = \<lparr>rb_left = 0, rb_right = 0, rb_parent = 0, rb_color = RED, rb_key = 0, rb_value = None\<rparr>"

theorem sock_error_cached_witness:
  "\<exists>h'. lu_evutil_socket_error_to_string sock_zero dec_int \<lparr>dup1 = True, dup2 = True, entry_ok = True, dup3 = True\<rparr> 11
      lu_util_sock_hash_table_constructor = Some ([Mutex_lock, Mutex_unlock], h', Some ''Operation would block'')"
  using sock_error_cached [OF sock_cache_inv_init, of sock_zero dec_int "\<lparr>dup1 = True, dup2 = True, entry_ok = True, dup3 = True\<rparr>" 11]
  by (auto simp: sock_err_msg_def EAGAIN_def)

section \<open>What the code does not check\<close>

theorem error_string_outside: "0 \<le> code \<Longrightarrow> code < 0xFF \<Longrightarrow> lu_get_error_string code = Outside (code - 0xFF)"
  by (simp add: lu_get_error_string_def get_error_message_def LU_ERROR_INDEX_def LU_ERROR_CODE_START_VALUE_def LU_MAX_ERROR_CODE_def)

theorem error_mutex_locked_before_init:
  "\<exists>st. initialize_error_table 0 error_state_0 = Ret st \<and> error_mutex_ops st = [Mutex_lock, Mutex_init, Mutex_unlock]"
  by (simp add: initialize_error_table_def error_state_0_def error_mutex_def Let_def)

theorem error_cleanup_leaks_last:
  assumes "error_inv st" "lu_error_hash_table st = Some h" "all_lists (buckets h)"
    and "lu_hash_table_find (Some h) LU_MAX_ERROR_CODE = Some (Some p)"
  shows "\<exists>st'. cleanup_error_table st = Ret st' \<and> error_infos st' p \<noteq> None"
  using cleanup_ok [OF assms] by (auto simp: LU_MAX_ERROR_CODE_def)

end
