(* ===== verification/LuErrorStrings.thy ===== *)
theory LuErrorStrings
  imports LuError
begin

text \<open>
  The designated initialisers of \<open>src/lu_error.c\<close>, which give each error code its string: the array of
  \<open>LuError\<close> is what they initialise, every code has its own string, and the only element without one is that
  of \<open>LU_MAX_ERROR_CODE\<close>. Then the functions that run at the start and the end of the program.
\<close>

section \<open>The initialisers\<close>

definition lu_error_initializers :: "(int \<times> string) list" where
  "lu_error_initializers =
    [(LU_ERROR_CODE_START_VALUE, ''lu errrocode start value''),
     (LU_ERROR_OPERATION_NOT_PERMITTED, ''Operation not permitted''),
     (LU_ERROR_NO_SUCH_FILE_OR_DIRECTORY, ''No such file or directory''),
     (LU_ERROR_NO_SUCH_PROCESS, ''No such process''),
     (LU_ERROR_INTERRUPTED_SYSTEM_CALL, ''Interrupted system call''),
     (LU_ERROR_INPUT_OUTPUT_ERROR, ''Input/output error''),
     (LU_ERROR_NO_SUCH_DEVICE_OR_ADDRESS, ''No such device or address''),
     (LU_ERROR_ARGUMENT_LIST_TOO_LONG, ''Argument list too long''),
     (LU_ERROR_EXEC_FORMAT_ERROR, ''Exec format error''),
     (LU_ERROR_BAD_FILE_DESCRIPTOR, ''Bad file descriptor''),
     (LU_ERROR_NO_CHILD_PROCESSES, ''No child processes''),
     (LU_ERROR_TRY_AGAIN, ''Try again''),
     (LU_ERROR_OUT_OF_MEMORY, ''Out of memory''),
     (LU_ERROR_PERMISSION_DENIED, ''Permission denied''),
     (LU_ERROR_BAD_ADDRESS, ''Bad address''),
     (LU_ERROR_BLOCK_DEVICE_REQUIRED, ''Block device required''),
     (LU_ERROR_DEVICE_OR_RESOURCE_BUSY, ''Device or resource busy''),
     (LU_ERROR_FILE_EXISTS, ''File exists''),
     (LU_ERROR_CROSS_DEVICE_LINK, ''Cross-device link''),
     (LU_ERROR_NO_SUCH_DEVICE, ''No such device''),
     (LU_ERROR_NOT_A_DIRECTORY, ''Not a directory''),
     (LU_ERROR_IS_A_DIRECTORY, ''Is a directory''),
     (LU_ERROR_INVALID_ARGUMENT, ''Invalid argument''),
     (LU_ERROR_FILE_TABLE_OVERFLOW, ''File table overflow''),
     (LU_ERROR_TOO_MANY_OPEN_FILES, ''Too many open files''),
     (LU_ERROR_NOT_A_TYPEWRITER, ''Not a typewriter''),
     (LU_ERROR_TEXT_FILE_BUSY, ''Text file busy''),
     (LU_ERROR_FILE_TOO_LARGE, ''File too large''),
     (LU_ERROR_NO_SPACE_LEFT_ON_DEVICE, ''No space left on device''),
     (LU_ERROR_ILLEGAL_SEEK, ''Illegal seek''),
     (LU_ERROR_READ_ONLY_FILE_SYSTEM, ''Read-only file system''),
     (LU_ERROR_TOO_MANY_LINKS, ''Too many links''),
     (LU_ERROR_BROKEN_PIPE, ''Broken pipe''),
     (LU_ERROR_MATH_ARGUMENT_OUT_OF_DOMAIN_OF_FUNCTION, ''Math argument out of domain of function''),
     (LU_ERROR_RESULT_TOO_REPRESENTABLE, ''Result too representable''),
     (LU_ERROR_LUEVENT_MEMORY_POOL_OK, ''Luevent MemoyPool OK''),
     (LU_ERROR_LUEVENT_MEMORY_POOL_ERROR, ''Luevent MemoyPool ERROR''),
     (LU_ERROR_LUEVENT_MEMORY_POOL_AGAGIN, ''Luevent MemoryPool AGAIN''),
     (LU_ERROR_LUEVENT_MEMORY_POOL_BUSY, ''Luevent MemoryPool BUSY''),
     (LU_ERROR_LUEVENT_MEMORY_POOL_DONE, ''Luevent MemoryPool DONE''),
     (LU_ERROR_LUEVENT_MEMORY_POOL_DECLINED, ''Luevent MemoryPool DECLINED''),
     (LU_ERROR_LUEVENT_MEMORY_POOL_ABORT, ''Luevent MemoryPool ABORT''),
     (LU_ERROR_INVALID_PATH, ''INVALID PATH'')]"

text \<open>\<open>[i] = s\<close> writes element \<open>i\<close>; the others are null.\<close>

definition designated :: "nat \<Rightarrow> (int \<times> string) list \<Rightarrow> string option list" where
  "designated n inits = fold (\<lambda>(code, s) a. a[nat (LU_ERROR_INDEX code) := Some s]) inits (replicate n None)"

lemma error_strings_designated:
  "lu_error_strings_global = designated (nat (LU_MAX_ERROR_CODE - LU_ERROR_CODE_START_VALUE + 1)) lu_error_initializers"
  by (simp add: designated_def lu_error_initializers_def lu_error_strings_global_def lu_error_codes LU_ERROR_INDEX_def
      LU_ERROR_CODE_START_VALUE_def LU_MAX_ERROR_CODE_def eval_nat_numeral)

lemma error_codes_distinct: "distinct (map fst lu_error_initializers)"
  by (simp add: lu_error_initializers_def lu_error_codes LU_ERROR_CODE_START_VALUE_def)

lemma every_code_has_its_string:
  "\<forall>(code, s)\<in>set lu_error_initializers. lu_get_error_string code = Ret (Some s)"
  by (simp add: lu_error_initializers_def lu_error_codes LU_ERROR_CODE_START_VALUE_def lu_get_error_string_def
      get_error_message_def LU_ERROR_INDEX_def LU_MAX_ERROR_CODE_def lu_error_strings_global_def)

lemma last_code_has_no_string: "lu_get_error_string LU_MAX_ERROR_CODE = Ret None"
  by (simp add: lu_get_error_string_def get_error_message_def LU_ERROR_INDEX_def LU_MAX_ERROR_CODE_def
      LU_ERROR_CODE_START_VALUE_def lu_error_strings_global_def)

text \<open>The hash table has a code of its own with a value that is taken: its string is that of another error.\<close>

lemma tree_error_reads_permission_denied:
  "LU_ERROR_TREE_OR_NIL_NOT_INIT = LU_ERROR_PERMISSION_DENIED"
  "lu_get_error_string LU_ERROR_TREE_OR_NIL_NOT_INIT = Ret (Some ''Permission denied'')"
  by (simp_all add: LU_ERROR_TREE_OR_NIL_NOT_INIT_def LU_ERROR_PERMISSION_DENIED_def lu_get_error_string_def
      get_error_message_def LU_ERROR_INDEX_def LU_MAX_ERROR_CODE_def LU_ERROR_CODE_START_VALUE_def lu_error_strings_global_def)

section \<open>Start and end of the program\<close>

text \<open>The constructor and the destructors; a mutex of the constructor that cannot be initialised ends the program.\<close>

definition error_table_initializer :: "int \<Rightarrow> lu_error_state \<Rightarrow> lu_error_state error_result" where
  "error_table_initializer init_status st = initialize_error_table init_status st"

definition error_table_finalizer :: "lu_error_state \<Rightarrow> lu_error_state error_result" where
  "error_table_finalizer st = cleanup_error_table st"

definition lu_util_sock_hash_table_destructor :: "lu_cached_sock_errs_entry_t lu_hash_table_t \<Rightarrow> hash_free list option" where
  "lu_util_sock_hash_table_destructor h = lu_hash_table_destroy (Some h)"

end
