(* ===== verification/LuPool.thy ===== *)
theory LuPool
  imports LuErrorCodes
begin

text \<open>
  The memory pool of \<open>src/lu_mm_pool_palloc.c\<close> on the allocators of \<open>src/lu_mm_alloc.c\<close>. An
  address is a number below 2^64. A pool is the chain of its blocks (the first is the pool itself;
  \<open>current\<close> is the place in the chain of the block it points to) and the list of its large
  allocations, whose headers lie in the pool. What \<open>malloc\<close> and \<open>posix_memalign\<close> give is an
  argument of each operation: an address, or \<open>None\<close> for null.
\<close>

section \<open>Addresses\<close>

definition LU_MM_POOL_ALIGNMENT :: nat where "LU_MM_POOL_ALIGNMENT = 16"

text \<open>The sizes of the structures on the 64-bit target.\<close>

definition sizeof_pool_t :: nat where "sizeof_pool_t = 56"
definition sizeof_pool_data_t :: nat where "sizeof_pool_data_t = 32"
definition sizeof_pool_large_t :: nat where "sizeof_pool_large_t = 16"

definition lu_mm_align_ptr :: "nat \<Rightarrow> nat \<Rightarrow> nat" where
  "lu_mm_align_ptr p a = unat ((word_of_nat p + (word_of_nat a - 1) :: 64 word) AND NOT (word_of_nat a - 1))"

text \<open>The difference of two pointers, converted to \<open>size_t\<close>.\<close>

definition ptr_room :: "nat \<Rightarrow> nat \<Rightarrow> nat" where
  "ptr_room end_p m = unat (word_of_nat end_p - word_of_nat m :: 64 word)"

section \<open>Pools\<close>

record lu_mm_pool_data_t =
  d_addr :: nat
  d_last :: nat
  d_end :: nat
  d_failed :: c_size_t

record lu_mm_pool_large_t =
  large_addr :: nat
  large_alloc :: "nat option"

record lu_mm_pool_t =
  pool_blocks :: "lu_mm_pool_data_t list"
  pool_max :: nat
  pool_current :: nat
  pool_large :: "lu_mm_pool_large_t list"

text \<open>\<open>lu_mm_pagesize\<close> is an argument: the global variable, which nothing in the library sets.\<close>

definition LU_MM_MAX_ALLOC_FROM_POOL :: "c_size_t \<Rightarrow> nat" where
  "LU_MM_MAX_ALLOC_FROM_POOL pagesize = unat (pagesize - 1)"

text \<open>\<open>lu_mm_alloc\<close> and \<open>lu_mm_memalign\<close> give what the system gave; \<open>lu_mm_calloc\<close> also
  says which bytes it set to zero.\<close>

definition lu_mm_alloc :: "nat option \<Rightarrow> nat option" where
  "lu_mm_alloc p = p"

definition lu_mm_memalign :: "int \<times> nat \<Rightarrow> nat option" where
  "lu_mm_memalign r = (if fst r \<noteq> 0 then None else Some (snd r))"

definition lu_mm_calloc :: "nat option \<Rightarrow> nat \<Rightarrow> nat option \<times> (nat \<times> nat) option" where
  "lu_mm_calloc r sz = (case lu_mm_alloc r of None \<Rightarrow> (None, None) | Some p \<Rightarrow> (Some p, Some (p, sz)))"

definition lu_mm_create_pool :: "c_size_t \<Rightarrow> int \<times> nat \<Rightarrow> nat \<Rightarrow> lu_mm_pool_t option" where
  "lu_mm_create_pool pagesize mem sz =
     (case lu_mm_memalign mem of
        None \<Rightarrow> None
      | Some p \<Rightarrow>
          (let rest = unat (word_of_nat sz - word_of_nat sizeof_pool_t :: c_size_t)
           in Some \<lparr>pool_blocks = [\<lparr>d_addr = p, d_last = p + sizeof_pool_t, d_end = p + sz, d_failed = 0\<rparr>],
                    pool_max = (if rest < LU_MM_MAX_ALLOC_FROM_POOL pagesize then rest else LU_MM_MAX_ALLOC_FROM_POOL pagesize),
                    pool_current = 0, pool_large = []\<rparr>))"

section \<open>Small allocations\<close>

text \<open>The loop of \<open>lu_mm_palloc_small\<close> over the blocks from \<open>i\<close> on.\<close>

fun palloc_scan :: "lu_mm_pool_data_t list \<Rightarrow> nat \<Rightarrow> bool \<Rightarrow> (lu_mm_pool_data_t list \<times> nat) option" where
  "palloc_scan [] sz align = None"
| "palloc_scan (p # ps) sz align =
     (let m = (if align then lu_mm_align_ptr (d_last p) LU_MM_POOL_ALIGNMENT else d_last p)
      in if ptr_room (d_end p) m \<ge> sz then Some (p\<lparr>d_last := m + sz\<rparr> # ps, m)
         else map_option (\<lambda>(ps', r). (p # ps', r)) (palloc_scan ps sz align))"

text \<open>The loop of \<open>lu_mm_palloc_block\<close>: the counters of the blocks from \<open>current\<close> to the last but
  one, and the new \<open>current\<close>.\<close>

fun palloc_fail :: "lu_mm_pool_data_t list \<Rightarrow> nat \<Rightarrow> nat \<Rightarrow> lu_mm_pool_data_t list \<times> nat" where
  "palloc_fail [] i current = ([], current)"
| "palloc_fail [p] i current = ([p], current)"
| "palloc_fail (p # q # ps) i current =
     (let (ps', c) = palloc_fail (q # ps) (Suc i) (if d_failed p > 4 then Suc i else current)
      in (p\<lparr>d_failed := d_failed p + 1\<rparr> # ps', c))"

definition lu_mm_palloc_block :: "int \<times> nat \<Rightarrow> lu_mm_pool_t \<Rightarrow> nat \<Rightarrow> lu_mm_pool_t \<times> nat option" where
  "lu_mm_palloc_block mem pool sz =
     (let psize = d_end (hd (pool_blocks pool)) - d_addr (hd (pool_blocks pool))
      in case lu_mm_memalign mem of
           None \<Rightarrow> (pool, None)
         | Some new \<Rightarrow>
             (let m = lu_mm_align_ptr (new + sizeof_pool_data_t) LU_MM_POOL_ALIGNMENT;
                  b = \<lparr>d_addr = new, d_last = m + sz, d_end = new + psize, d_failed = 0\<rparr>;
                  c = pool_current pool;
                  (tail, c') = palloc_fail (drop c (pool_blocks pool)) c c
              in (pool\<lparr>pool_blocks := take c (pool_blocks pool) @ tail @ [b], pool_current := c'\<rparr>, Some m)))"

definition lu_mm_palloc_small :: "int \<times> nat \<Rightarrow> lu_mm_pool_t \<Rightarrow> nat \<Rightarrow> bool \<Rightarrow> lu_mm_pool_t \<times> nat option" where
  "lu_mm_palloc_small mem pool sz align =
     (let c = pool_current pool
      in case palloc_scan (drop c (pool_blocks pool)) sz align of
           Some (bs, m) \<Rightarrow> (pool\<lparr>pool_blocks := take c (pool_blocks pool) @ bs\<rparr>, Some m)
         | None \<Rightarrow> lu_mm_palloc_block mem pool sz)"

section \<open>Large allocations\<close>

text \<open>The search for a header without allocation: \<open>n\<close> counts the headers passed.\<close>

fun large_reuse :: "lu_mm_pool_large_t list \<Rightarrow> nat \<Rightarrow> nat \<Rightarrow> lu_mm_pool_large_t list option" where
  "large_reuse [] n p = None"
| "large_reuse (l # ls) n p =
     (if large_alloc l = None then Some (l\<lparr>large_alloc := Some p\<rparr> # ls)
      else if n > 3 then None
      else map_option ((#) l) (large_reuse ls (Suc n) p))"

text \<open>The header of a new large allocation comes from the pool; without one the allocation is given
  back. The last component is what was freed.\<close>

definition pool_add_large :: "int \<times> nat \<Rightarrow> lu_mm_pool_t \<Rightarrow> nat \<Rightarrow> lu_mm_pool_t \<times> nat option \<times> nat list" where
  "pool_add_large mem pool p =
     (case lu_mm_palloc_small mem pool sizeof_pool_large_t True of
        (pool', None) \<Rightarrow> (pool', None, [p])
      | (pool', Some hdr) \<Rightarrow>
          (pool'\<lparr>pool_large := \<lparr>large_addr = hdr, large_alloc = Some p\<rparr> # pool_large pool'\<rparr>, Some p, []))"

definition lu_mm_palloc_large :: "nat option \<Rightarrow> int \<times> nat \<Rightarrow> lu_mm_pool_t \<Rightarrow> nat \<Rightarrow> lu_mm_pool_t \<times> nat option \<times> nat list" where
  "lu_mm_palloc_large big mem pool sz =
     (case lu_mm_alloc big of
        None \<Rightarrow> (pool, None, [])
      | Some p \<Rightarrow>
          (case large_reuse (pool_large pool) 0 p of
             Some ls \<Rightarrow> (pool\<lparr>pool_large := ls\<rparr>, Some p, [])
           | None \<Rightarrow> pool_add_large mem pool p))"

definition lu_mm_pool_alloc :: "nat option \<Rightarrow> int \<times> nat \<Rightarrow> lu_mm_pool_t \<Rightarrow> nat \<Rightarrow> lu_mm_pool_t \<times> nat option \<times> nat list" where
  "lu_mm_pool_alloc big mem pool sz =
     (if sz \<le> pool_max pool then (let (pool', r) = lu_mm_palloc_small mem pool sz True in (pool', r, []))
      else lu_mm_palloc_large big mem pool sz)"

definition lu_mm_pool_nalloc :: "nat option \<Rightarrow> int \<times> nat \<Rightarrow> lu_mm_pool_t \<Rightarrow> nat \<Rightarrow> lu_mm_pool_t \<times> nat option \<times> nat list" where
  "lu_mm_pool_nalloc big mem pool sz =
     (if sz \<le> pool_max pool then (let (pool', r) = lu_mm_palloc_small mem pool sz False in (pool', r, []))
      else lu_mm_palloc_large big mem pool sz)"

definition lu_mm_pool_memalign :: "int \<times> nat \<Rightarrow> int \<times> nat \<Rightarrow> lu_mm_pool_t \<Rightarrow> lu_mm_pool_t \<times> nat option \<times> nat list" where
  "lu_mm_pool_memalign big mem pool =
     (case lu_mm_memalign big of None \<Rightarrow> (pool, None, []) | Some p \<Rightarrow> pool_add_large mem pool p)"

text \<open>\<open>lu_mm_pool_calloc\<close>: with the bytes it set to zero.\<close>

definition lu_mm_pool_calloc ::
    "nat option \<Rightarrow> int \<times> nat \<Rightarrow> lu_mm_pool_t \<Rightarrow> nat \<Rightarrow> lu_mm_pool_t \<times> nat option \<times> nat list \<times> (nat \<times> nat) option" where
  "lu_mm_pool_calloc big mem pool sz =
     (case lu_mm_pool_alloc big mem pool sz of
        (pool', Some p, fr) \<Rightarrow> (pool', Some p, fr, Some (p, sz))
      | (pool', None, fr) \<Rightarrow> (pool', None, fr, None))"

section \<open>Giving memory back\<close>

fun pool_free_loop :: "lu_mm_pool_large_t list \<Rightarrow> nat option \<Rightarrow> (lu_mm_pool_large_t list \<times> nat list) option" where
  "pool_free_loop [] p = None"
| "pool_free_loop (l # ls) p =
     (if p = large_alloc l
      then Some (l\<lparr>large_alloc := None\<rparr> # ls, case large_alloc l of None \<Rightarrow> [] | Some a \<Rightarrow> [a])
      else map_option (\<lambda>(ls', fr). (l # ls', fr)) (pool_free_loop ls p))"

definition lu_mm_pool_free :: "lu_mm_pool_t \<Rightarrow> nat option \<Rightarrow> lu_mm_pool_t \<times> int \<times> nat list" where
  "lu_mm_pool_free pool p =
     (case pool_free_loop (pool_large pool) p of
        Some (ls, fr) \<Rightarrow> (pool\<lparr>pool_large := ls\<rparr>, LU_ERROR_LUEVENT_MEMORY_POOL_OK, fr)
      | None \<Rightarrow> (pool, LU_ERROR_LUEVENT_MEMORY_POOL_DECLINED, []))"

definition large_allocs :: "lu_mm_pool_t \<Rightarrow> nat list" where
  "large_allocs pool = map (the \<circ> large_alloc) (filter (\<lambda>l. large_alloc l \<noteq> None) (pool_large pool))"

definition lu_mm_destroy_pool :: "lu_mm_pool_t \<Rightarrow> nat list" where
  "lu_mm_destroy_pool pool = large_allocs pool @ map d_addr (pool_blocks pool)"

definition lu_mm_reset_pool :: "lu_mm_pool_t \<Rightarrow> lu_mm_pool_t \<times> nat list" where
  "lu_mm_reset_pool pool =
     (pool\<lparr>pool_blocks := map (\<lambda>b. b\<lparr>d_last := d_addr b + sizeof_pool_t, d_failed := 0\<rparr>) (pool_blocks pool),
           pool_current := 0, pool_large := []\<rparr>, large_allocs pool)"

end
