(* ===== verification/LuPoolProps.thy ===== *)
theory LuPoolProps
  imports LuPool
begin

text \<open>
  What the pool promises: the memory it hands out is aligned, inside one of its blocks, away from the
  headers and from everything handed out before (\<open>pool_inv\<close> over the list of what was handed
  out); a large allocation is found again when it is freed; destroying and resetting free every large
  allocation that is left and every block. The blocks must be a multiple of the alignment long, which
  the code does not check.
\<close>

section \<open>Alignment\<close>

lemma and_not_mask: "(w :: 64 word) AND NOT (mask n) = push_bit n (drop_bit n w)"
  by (rule bit_word_eqI) (auto simp: bit_simps)

lemma unat_small: "n < 2 ^ 64 \<Longrightarrow> unat (word_of_nat n :: 64 word) = n"
  by (simp only: unsigned_of_nat) (simp add: take_bit_nat_eq_self)

lemma align_ptr_eq:
  assumes "p + 15 < 2 ^ 64"
  shows "lu_mm_align_ptr p LU_MM_POOL_ALIGNMENT = (p + 15) div 16 * 16"
proof -
  define w where "w = (word_of_nat (p + 15) :: 64 word)"
  have u: "unat w = p + 15" unfolding w_def by (rule unat_small) (rule assms)
  have "lu_mm_align_ptr p LU_MM_POOL_ALIGNMENT = unat (w AND NOT (mask 4))"
    by (simp add: lu_mm_align_ptr_def LU_MM_POOL_ALIGNMENT_def mask_eq_exp_minus_1 w_def)
  also have "\<dots> = take_bit 64 (push_bit 4 (drop_bit 4 (p + 15)))"
    unfolding and_not_mask using take_bit_nat_eq_self [OF assms] by (simp only: unsigned_push_bit_eq unsigned_drop_bit_eq u) simp
  also have "\<dots> = (p + 15) div 16 * 16"
  proof -
    have "(p + 15) div 16 * 16 < 2 ^ 64" using assms by (metis div_times_less_eq_dividend le_less_trans)
    then show ?thesis by (simp add: push_bit_eq_mult drop_bit_eq_div take_bit_nat_eq_self)
  qed
  finally show ?thesis .
qed

lemma align_ptr_bounds:
  assumes "p \<le> e" "16 dvd e" "e + 15 < 2 ^ 64"
  shows "p \<le> lu_mm_align_ptr p LU_MM_POOL_ALIGNMENT" "lu_mm_align_ptr p LU_MM_POOL_ALIGNMENT \<le> e"
    "16 dvd lu_mm_align_ptr p LU_MM_POOL_ALIGNMENT"
proof -
  have eq: "lu_mm_align_ptr p LU_MM_POOL_ALIGNMENT = (p + 15) div 16 * 16" using assms by (intro align_ptr_eq) simp
  obtain k where k: "e = 16 * k" using assms(2) by (auto elim: dvdE)
  show "p \<le> lu_mm_align_ptr p LU_MM_POOL_ALIGNMENT" unfolding eq by linarith
  show "lu_mm_align_ptr p LU_MM_POOL_ALIGNMENT \<le> e"
  proof -
    have "(p + 15) div 16 < k + 1" using assms(1) k by (simp add: div_less_iff_less_mult)
    then show ?thesis unfolding eq k by simp
  qed
  show "16 dvd lu_mm_align_ptr p LU_MM_POOL_ALIGNMENT" unfolding eq by simp
qed

lemma ptr_room_eq: "m \<le> e \<Longrightarrow> e < 2 ^ 64 \<Longrightarrow> ptr_room e m = e - m"
proof -
  assume a: "m \<le> e" "e < 2 ^ 64"
  then have "(word_of_nat e - word_of_nat m :: 64 word) = word_of_nat (e - m)" by (simp add: of_nat_diff)
  then show ?thesis using a unat_small [of "e - m"] by (simp add: ptr_room_def)
qed

section \<open>Blocks and what was handed out\<close>

type_synonym span = "nat \<times> nat \<times> nat"

definition spans :: "lu_mm_pool_data_t list \<Rightarrow> span list" where
  "spans bs = map (\<lambda>b. (d_addr b, d_last b, d_end b)) bs"

definition apart :: "nat \<times> nat \<Rightarrow> nat \<times> nat \<Rightarrow> bool" where
  "apart x y \<longleftrightarrow> fst x + snd x \<le> fst y \<or> fst y + snd y \<le> fst x"

definition span_ok :: "nat \<Rightarrow> span \<Rightarrow> bool" where
  "span_ok psize s = (case s of (a, l, e) \<Rightarrow>
     16 dvd a \<and> e = a + psize \<and> a + sizeof_pool_data_t \<le> l \<and> l \<le> e \<and> e + 15 < 2 ^ 64)"

definition held :: "span list \<Rightarrow> nat \<times> nat \<Rightarrow> bool" where
  "held ss x \<longleftrightarrow> (\<exists>(a, l, e)\<in>set ss. a \<le> fst x \<and> fst x + snd x \<le> l)"

definition spans_apart :: "span list \<Rightarrow> bool" where
  "spans_apart ss \<longleftrightarrow> sorted_wrt (\<lambda>(a, l, e) (a', l', e'). e \<le> a' \<or> e' \<le> a) ss"

definition chunks_ok :: "nat \<Rightarrow> span list \<Rightarrow> (nat \<times> nat) list \<Rightarrow> bool" where
  "chunks_ok psize ss xs \<longleftrightarrow> (\<forall>s\<in>set ss. span_ok psize s) \<and> spans_apart ss \<and> (\<forall>x\<in>set xs. held ss x) \<and> sorted_wrt apart xs"

text \<open>Two blocks of a pool do not overlap.\<close>

lemma spans_apart_mem:
  assumes "spans_apart (ss @ (a, l, e) # ts)" "(a', l', e') \<in> set ss \<union> set ts"
  shows "e \<le> a' \<or> e' \<le> a"
  using assms by (fastforce simp: spans_apart_def sorted_wrt_append)

lemma chunks_carve:
  assumes c: "chunks_ok psize (ss @ (a, l, e) # ts) xs" and m: "l \<le> m" "m + s \<le> e"
  shows "chunks_ok psize (ss @ (a, m + s, e) # ts) ((m, s) # xs)"
proof -
  have b: "span_ok psize (a, l, e)" using c by (simp add: chunks_ok_def)
  have ap: "spans_apart (ss @ (a, l, e) # ts)" using c by (simp add: chunks_ok_def)
  have new: "apart (m, s) x" "held (ss @ (a, m + s, e) # ts) x" if x: "x \<in> set xs" for x
  proof -
    obtain a' l' e' where h: "(a', l', e') \<in> set (ss @ (a, l, e) # ts)" "a' \<le> fst x" "fst x + snd x \<le> l'"
      using c x by (fastforce simp: chunks_ok_def held_def)
    consider (same) "(a', l', e') = (a, l, e)" | (other) "(a', l', e') \<in> set ss \<union> set ts" using h(1) by auto
    then have "apart (m, s) x \<and> held (ss @ (a, m + s, e) # ts) x"
    proof cases
      case same
      then show ?thesis using h m by (auto simp: apart_def held_def)
    next
      case other
      have "span_ok psize (a', l', e')" using c h(1) unfolding chunks_ok_def by blast
      then have "apart (m, s) x" using spans_apart_mem [OF ap other] h(2,3) m b by (auto simp: apart_def span_ok_def)
      moreover have "held (ss @ (a, m + s, e) # ts) x" using other h unfolding held_def by (intro bexI [of _ "(a', l', e')"]) auto
      ultimately show ?thesis by blast
    qed
    then show "apart (m, s) x" "held (ss @ (a, m + s, e) # ts) x" by auto
  qed
  have "held (ss @ (a, m + s, e) # ts) (m, s)"
    unfolding held_def using b m by (intro bexI [of _ "(a, m + s, e)"]) (auto simp: span_ok_def)
  moreover have "spans_apart (ss @ (a, m + s, e) # ts)" using ap by (auto simp: spans_apart_def sorted_wrt_append)
  moreover have "span_ok psize (a, m + s, e)" using b m by (auto simp: span_ok_def)
  ultimately show ?thesis using c new unfolding chunks_ok_def by auto
qed

lemma chunks_new_block:
  assumes c: "chunks_ok psize ss xs" and b: "16 dvd a" "a + psize + 15 < 2 ^ 64" "sizeof_pool_data_t \<le> psize"
    and f: "\<forall>(a', l', e')\<in>set ss. a + psize \<le> a' \<or> e' \<le> a"
  shows "chunks_ok psize (ss @ [(a, a + sizeof_pool_data_t, a + psize)]) ((a, sizeof_pool_data_t) # xs)"
proof -
  let ?s = "(a, a + sizeof_pool_data_t, a + psize)"
  have new: "apart (a, sizeof_pool_data_t) x" if x: "x \<in> set xs" for x
  proof -
    obtain a' l' e' where h: "(a', l', e') \<in> set ss" "a' \<le> fst x" "fst x + snd x \<le> l'"
      using c x by (fastforce simp: chunks_ok_def held_def)
    then have "a + psize \<le> a' \<or> e' \<le> a" "span_ok psize (a', l', e')" using f c unfolding chunks_ok_def by auto
    then show ?thesis using h(2,3) b by (auto simp: apart_def span_ok_def)
  qed
  have "held (ss @ [?s]) x" if "x \<in> set xs" for x using c that unfolding chunks_ok_def held_def by auto
  moreover have "held (ss @ [?s]) (a, sizeof_pool_data_t)" unfolding held_def by auto
  moreover have "spans_apart (ss @ [?s])" using c f unfolding chunks_ok_def spans_apart_def sorted_wrt_append by auto
  moreover have "span_ok psize ?s" using b by (simp add: span_ok_def)
  ultimately show ?thesis using c new unfolding chunks_ok_def by auto
qed

section \<open>The loops\<close>

lemma palloc_scan_ok:
  assumes "palloc_scan bs sz align = Some (bs', m)" "\<forall>s\<in>set (spans bs). span_ok psize s" "16 dvd psize"
  shows "\<exists>ss a l e ts. spans bs = ss @ (a, l, e) # ts \<and> spans bs' = ss @ (a, m + sz, e) # ts \<and> l \<le> m \<and> m + sz \<le> e \<and>
    (align \<longrightarrow> 16 dvd m) \<and> length bs' = length bs"
  using assms(1,2)
proof (induction bs arbitrary: bs')
  case (Cons p ps)
  define q where "q = (if align then lu_mm_align_ptr (d_last p) LU_MM_POOL_ALIGNMENT else d_last p)"
  have ok: "span_ok psize (d_addr p, d_last p, d_end p)" using Cons.prems(2) by (simp add: spans_def)
  have e: "16 dvd d_end p" "d_last p \<le> d_end p" "d_end p + 15 < 2 ^ 64" using ok assms(3) by (auto simp: span_ok_def)
  have q: "d_last p \<le> q" "q \<le> d_end p" "align \<longrightarrow> 16 dvd q" using align_ptr_bounds [OF e(2,1,3)] e(2) by (auto simp: q_def)
  show ?case
  proof (cases "ptr_room (d_end p) q \<ge> sz")
    case True
    then have "bs' = p\<lparr>d_last := q + sz\<rparr> # ps" "m = q" using Cons.prems(1) by (auto simp: Let_def simp flip: q_def)
    moreover have "q + sz \<le> d_end p" using True ptr_room_eq [OF q(2)] e(3) q(2) by simp
    ultimately show ?thesis using q by (intro exI [of _ "[]"]) (auto simp: spans_def)
  next
    case False
    then obtain ps' where ps: "palloc_scan ps sz align = Some (ps', m)" "bs' = p # ps'"
      using Cons.prems(1) by (auto simp: Let_def simp flip: q_def)
    obtain ss a l e ts where "spans ps = ss @ (a, l, e) # ts" "spans ps' = ss @ (a, m + sz, e) # ts" "l \<le> m" "m + sz \<le> e"
      "align \<longrightarrow> 16 dvd m" "length ps' = length ps"
      using Cons.IH [OF ps(1)] Cons.prems(2) by (auto simp: spans_def)
    then show ?thesis using ps(2) by (intro exI [of _ "(d_addr p, d_last p, d_end p) # ss"]) (auto simp: spans_def)
  qed
qed simp

lemma palloc_fail_ok:
  assumes "palloc_fail bs i c = (bs', c')" "bs \<noteq> []"
  shows "spans bs' = spans bs \<and> length bs' = length bs \<and> (c' = c \<or> i < c' \<and> c' < i + length bs)"
  using assms
proof (induction bs i c arbitrary: bs' c' rule: palloc_fail.induct)
  case (3 p q ps i c)
  obtain qs d where r: "palloc_fail (q # ps) (Suc i) (if d_failed p > 4 then Suc i else c) = (qs, d)" by fastforce
  then have b: "bs' = p\<lparr>d_failed := d_failed p + 1\<rparr> # qs" "c' = d" using 3(2) by (auto simp: Let_def)
  have "spans qs = spans (q # ps) \<and> length qs = length (q # ps) \<and>
      (d = (if d_failed p > 4 then Suc i else c) \<or> Suc i < d \<and> d < Suc i + length (q # ps))"
    using 3(1) [OF r] by simp
  then show ?case using b by (auto simp: spans_def split: if_splits)
qed auto

section \<open>The pool\<close>

definition pool_psize :: "lu_mm_pool_t \<Rightarrow> nat" where
  "pool_psize pool = d_end (hd (pool_blocks pool)) - d_addr (hd (pool_blocks pool))"

text \<open>The headers of the blocks at the addresses \<open>as\<close>, which the pool keeps to itself.\<close>

definition headers :: "nat list \<Rightarrow> (nat \<times> nat) list" where
  "headers as = (hd as, sizeof_pool_t) # map (\<lambda>a. (a, sizeof_pool_data_t)) (tl as)"

definition pool_inv :: "lu_mm_pool_t \<Rightarrow> (nat \<times> nat) list \<Rightarrow> bool" where
  "pool_inv pool xs \<longleftrightarrow> pool_blocks pool \<noteq> [] \<and> pool_current pool < length (pool_blocks pool) \<and>
     16 dvd pool_psize pool \<and> sizeof_pool_t \<le> pool_psize pool \<and> pool_max pool \<le> pool_psize pool - sizeof_pool_t \<and>
     set (headers (map d_addr (pool_blocks pool))) \<subseteq> set xs \<and> chunks_ok (pool_psize pool) (spans (pool_blocks pool)) xs"

text \<open>What \<open>posix_memalign\<close> promises: an aligned address of a piece of memory of the size of a block
  that overlaps no block of the pool.\<close>

definition memalign_ok :: "int \<times> nat \<Rightarrow> lu_mm_pool_t \<Rightarrow> bool" where
  "memalign_ok mem pool \<longleftrightarrow> fst mem = 0 \<longrightarrow> 16 dvd snd mem \<and> snd mem + pool_psize pool + 15 < 2 ^ 64 \<and>
     (\<forall>b\<in>set (pool_blocks pool). snd mem + pool_psize pool \<le> d_addr b \<or> d_end b \<le> snd mem)"

lemma spans_append [simp]: "spans (xs @ ys) = spans xs @ spans ys" "spans (x # xs) = (d_addr x, d_last x, d_end x) # spans xs" "spans [] = []"
  by (simp_all add: spans_def)

lemma spans_split: "spans bs = spans (take n bs) @ spans (drop n bs)"
  by (metis append_take_drop_id spans_append(1))

lemma hd_span_update:
  "fst (hd (ss @ (a, l', e) # ts)) = fst (hd (ss @ (a, l, e) # ts)) \<and> snd (snd (hd (ss @ (a, l', e) # ts))) = snd (snd (hd (ss @ (a, l, e) # ts)))"
  by (cases ss) auto

lemma hd_spans: "bs \<noteq> [] \<Longrightarrow> fst (hd (spans bs)) = d_addr (hd bs) \<and> snd (snd (hd (spans bs))) = d_end (hd bs)"
  by (cases bs) auto

lemma addrs_spans: "map d_addr bs = map fst (spans bs)"
  by (simp add: spans_def comp_def)

text \<open>A pool whose blocks have the same addresses and the same first block.\<close>

lemma pool_inv_update:
  assumes inv: "pool_inv pool xs" and a: "map d_addr bs' = map d_addr (pool_blocks pool) @ as"
    and e: "d_end (hd bs') = d_end (hd (pool_blocks pool))" and c: "c' < length bs'"
    and ch: "chunks_ok (pool_psize pool) (spans bs') ys" and ys: "set xs \<union> (\<lambda>a. (a, sizeof_pool_data_t)) ` set as \<subseteq> set ys"
  shows "pool_inv (pool\<lparr>pool_blocks := bs', pool_current := c'\<rparr>) ys"
    "pool_psize (pool\<lparr>pool_blocks := bs', pool_current := c'\<rparr>) = pool_psize pool"
proof -
  obtain b bs where bs: "pool_blocks pool = b # bs" using inv by (cases "pool_blocks pool") (auto simp: pool_inv_def)
  obtain b' rest where bs': "bs' = b' # rest" using c by (cases bs') auto
  have h: "d_addr b' = d_addr b" "map d_addr rest = map d_addr bs @ as" using a bs bs' by auto
  show ps: "pool_psize (pool\<lparr>pool_blocks := bs', pool_current := c'\<rparr>) = pool_psize pool"
    using e h by (simp add: pool_psize_def bs bs')
  show "pool_inv (pool\<lparr>pool_blocks := bs', pool_current := c'\<rparr>) ys"
    unfolding pool_inv_def ps using inv c ch ys h by (auto simp: pool_inv_def headers_def bs bs')
qed

lemma palloc_block_ok:
  assumes inv: "pool_inv pool xs" and mem: "memalign_ok mem pool" and sz: "sz \<le> pool_psize pool - sizeof_pool_data_t"
    and r: "lu_mm_palloc_block mem pool sz = (pool', r)"
  shows "case r of None \<Rightarrow> fst mem \<noteq> 0 \<and> pool' = pool
    | Some m \<Rightarrow> (\<exists>ys. pool_inv pool' ((m, sz) # ys) \<and> set xs \<subseteq> set ys) \<and> 16 dvd m \<and> pool_psize pool' = pool_psize pool \<and>
        pool_max pool' = pool_max pool \<and> pool_large pool' = pool_large pool"
proof (cases "fst mem = 0")
  case False
  then show ?thesis using r by (auto simp: lu_mm_palloc_block_def lu_mm_memalign_def Let_def)
next
  case True
  let ?P = "pool_psize pool" and ?c = "pool_current pool" and ?bs = "pool_blocks pool" and ?new = "snd mem"
  define m where "m = lu_mm_align_ptr (?new + sizeof_pool_data_t) LU_MM_POOL_ALIGNMENT"
  obtain tail c' where f: "palloc_fail (drop ?c ?bs) ?c ?c = (tail, c')" by fastforce
  define b where "b = \<lparr>d_addr = ?new, d_last = m + sz, d_end = ?new + ?P, d_failed = 0\<rparr>"
  have P: "16 dvd ?P" "sizeof_pool_t \<le> ?P" and bs: "?bs \<noteq> []" "?c < length ?bs" and ch: "chunks_ok ?P (spans ?bs) xs"
    using inv by (auto simp: pool_inv_def)
  have n: "16 dvd ?new" "?new + ?P + 15 < 2 ^ 64"
    "\<forall>b\<in>set ?bs. ?new + ?P \<le> d_addr b \<or> d_end b \<le> ?new" using mem True by (auto simp: memalign_ok_def)
  have eq: "r = Some m" "pool' = pool\<lparr>pool_blocks := take ?c ?bs @ tail @ [b], pool_current := c'\<rparr>"
    using r True f by (auto simp: lu_mm_palloc_block_def lu_mm_memalign_def Let_def m_def pool_psize_def b_def)
  have t: "spans tail = spans (drop ?c ?bs)" "length tail = length (drop ?c ?bs)" "c' < length ?bs"
    using palloc_fail_ok [OF f] bs(2) by auto
  have "16 dvd ?new + sizeof_pool_data_t" using n(1) by (simp add: sizeof_pool_data_t_def)
  then have m: "m = ?new + sizeof_pool_data_t" "16 dvd m"
    using align_ptr_bounds [of "?new + sizeof_pool_data_t" "?new + sizeof_pool_data_t"] n(2) P(2) unfolding m_def
    by (auto simp: sizeof_pool_t_def sizeof_pool_data_t_def intro: antisym)
  have sp: "spans (take ?c ?bs @ tail @ [b]) = spans ?bs @ [(?new, m + sz, ?new + ?P)]"
    using spans_split [of ?bs ?c] t(1) by (simp add: b_def)
  have "\<forall>(a', l', e')\<in>set (spans ?bs). ?new + ?P \<le> a' \<or> e' \<le> ?new" using n(3) by (auto simp: spans_def)
  then have "chunks_ok ?P (spans ?bs @ [(?new, ?new + sizeof_pool_data_t, ?new + ?P)]) ((?new, sizeof_pool_data_t) # xs)"
    using n P(2) by (intro chunks_new_block [OF ch]) (auto simp: sizeof_pool_t_def sizeof_pool_data_t_def)
  then have ch': "chunks_ok ?P (spans (take ?c ?bs @ tail @ [b])) ((m, sz) # (?new, sizeof_pool_data_t) # xs)"
    using chunks_carve [of ?P "spans ?bs" ?new "?new + sizeof_pool_data_t" "?new + ?P" "[]" _ m sz] m(1) sz P(2) unfolding sp
    by (simp add: sizeof_pool_t_def sizeof_pool_data_t_def)
  have a: "map d_addr (take ?c ?bs @ tail @ [b]) = map d_addr ?bs @ [?new]" unfolding addrs_spans sp by simp
  have "snd (snd (hd (spans (take ?c ?bs @ tail @ [b])))) = d_end (hd ?bs)" unfolding sp using bs(1) by (cases ?bs) auto
  then have e: "d_end (hd (take ?c ?bs @ tail @ [b])) = d_end (hd ?bs)" using hd_spans [of "take ?c ?bs @ tail @ [b]"] by simp
  have len: "c' < length (take ?c ?bs @ tail @ [b])" using t by simp
  note U = pool_inv_update [OF inv a e len ch']
  have "pool_inv pool' ((m, sz) # (?new, sizeof_pool_data_t) # xs)" "pool_psize pool' = ?P" unfolding eq using U by auto
  then show ?thesis using m(2) unfolding eq(1) by (auto simp: eq(2) intro!: exI [of _ "(?new, sizeof_pool_data_t) # xs"])
qed

lemma palloc_small_ok:
  assumes inv: "pool_inv pool xs" and mem: "memalign_ok mem pool" and sz: "sz \<le> pool_psize pool - sizeof_pool_data_t"
    and r: "lu_mm_palloc_small mem pool sz align = (pool', r)"
  shows "case r of None \<Rightarrow> fst mem \<noteq> 0 \<and> pool' = pool
    | Some m \<Rightarrow> (\<exists>ys. pool_inv pool' ((m, sz) # ys) \<and> set xs \<subseteq> set ys) \<and> (align \<longrightarrow> 16 dvd m) \<and> pool_psize pool' = pool_psize pool \<and>
        pool_max pool' = pool_max pool \<and> pool_large pool' = pool_large pool"
proof (cases "palloc_scan (drop (pool_current pool) (pool_blocks pool)) sz align")
  case None
  then have "lu_mm_palloc_block mem pool sz = (pool', r)" using r by (simp add: lu_mm_palloc_small_def)
  then show ?thesis using palloc_block_ok [OF inv mem sz] by (auto split: option.splits)
next
  case (Some z)
  obtain bs m where z: "z = (bs, m)" by fastforce
  let ?c = "pool_current pool" and ?bs = "pool_blocks pool" and ?P = "pool_psize pool"
  have eq: "r = Some m" "pool' = pool\<lparr>pool_blocks := take ?c ?bs @ bs, pool_current := ?c\<rparr>"
    using r Some z by (auto simp: lu_mm_palloc_small_def)
  have ch: "chunks_ok ?P (spans ?bs) xs" and P: "16 dvd ?P" and ne: "?bs \<noteq> []" "?c < length ?bs" using inv by (auto simp: pool_inv_def)
  have "\<forall>s\<in>set (spans (drop ?c ?bs)). span_ok ?P s" using ch by (auto simp: chunks_ok_def spans_def dest: in_set_dropD)
  then obtain ss a l e ts where s: "spans (drop ?c ?bs) = ss @ (a, l, e) # ts" "spans bs = ss @ (a, m + sz, e) # ts" "l \<le> m" "m + sz \<le> e"
    "align \<longrightarrow> 16 dvd m" "length bs = length (drop ?c ?bs)"
    using palloc_scan_ok [OF Some [unfolded z] _ P] by blast
  have sp: "spans ?bs = (spans (take ?c ?bs) @ ss) @ (a, l, e) # ts" using spans_split [of ?bs ?c] s(1) by simp
  have sp': "spans (take ?c ?bs @ bs) = (spans (take ?c ?bs) @ ss) @ (a, m + sz, e) # ts" using s(2) by simp
  have ch': "chunks_ok ?P (spans (take ?c ?bs @ bs)) ((m, sz) # xs)" unfolding sp' using chunks_carve [OF ch [unfolded sp] s(3,4)] .
  have addr: "map d_addr (take ?c ?bs @ bs) = map d_addr ?bs @ []" unfolding addrs_spans sp sp' by simp
  have "take ?c ?bs @ bs \<noteq> []" using s(6) ne by auto
  then have fin: "d_end (hd (take ?c ?bs @ bs)) = d_end (hd ?bs)"
    using hd_spans [OF ne(1)] hd_spans [of "take ?c ?bs @ bs"] hd_span_update [of "spans (take ?c ?bs) @ ss" a "m + sz" e ts l]
    unfolding sp sp' by simp
  have len: "?c < length (take ?c ?bs @ bs)" using s(6) ne(2) by simp
  note U = pool_inv_update [OF inv addr fin len ch']
  have "pool_inv pool' ((m, sz) # xs)" "pool_psize pool' = ?P" unfolding eq using U by auto
  then show ?thesis using s(5) unfolding eq(1) by (auto simp: eq(2) intro!: exI [of _ xs])
qed

lemma create_pool_inv:
  assumes c: "lu_mm_create_pool pagesize (0, p) sz = Some pool" and a: "16 dvd p" "p + sz + 15 < 2 ^ 64" "16 dvd sz" "sizeof_pool_t \<le> sz"
  shows "pool_inv pool [(p, sizeof_pool_t)]" "pool_psize pool = sz"
proof -
  have w: "(word_of_nat sz - word_of_nat sizeof_pool_t :: 64 word) = word_of_nat (sz - sizeof_pool_t)" using a(4) by (simp add: of_nat_diff)
  have "unat (word_of_nat sz - word_of_nat sizeof_pool_t :: 64 word) = sz - sizeof_pool_t" unfolding w using a(2) by (intro unat_small) simp
  then have pool: "pool_blocks pool = [\<lparr>d_addr = p, d_last = p + sizeof_pool_t, d_end = p + sz, d_failed = 0\<rparr>]"
    "pool_max pool \<le> sz - sizeof_pool_t" "pool_current pool = 0"
    using c by (auto simp: lu_mm_create_pool_def lu_mm_memalign_def Let_def)
  show ps: "pool_psize pool = sz" by (simp add: pool_psize_def pool)
  show "pool_inv pool [(p, sizeof_pool_t)]" unfolding pool_inv_def ps
    using pool a by (auto simp: chunks_ok_def span_ok_def spans_apart_def held_def headers_def sizeof_pool_t_def sizeof_pool_data_t_def)
qed


lemma pool_inv_head_apart: "pool_inv pool ((m, sz) # ys) \<Longrightarrow> x \<in> set ys \<Longrightarrow> apart (m, sz) x"
  by (simp add: pool_inv_def chunks_ok_def)

lemma small_alloc_safe:
  assumes inv: "pool_inv pool xs" and mem: "memalign_ok mem pool" and sz: "sz \<le> pool_max pool"
    and r: "lu_mm_palloc_small mem pool sz align = (pool', r)"
  shows "case r of None \<Rightarrow> fst mem \<noteq> 0 \<and> pool' = pool
    | Some m \<Rightarrow> (align \<longrightarrow> 16 dvd m) \<and> (\<forall>x\<in>set xs. apart (m, sz) x) \<and> (\<exists>ys. pool_inv pool' ((m, sz) # ys) \<and> set xs \<subseteq> set ys)"
proof -
  have "sz \<le> pool_psize pool - sizeof_pool_data_t"
    using sz inv by (auto simp: pool_inv_def sizeof_pool_t_def sizeof_pool_data_t_def)
  from palloc_small_ok [OF inv mem this r] show ?thesis
    by (auto split: option.splits dest!: pool_inv_head_apart)
qed

section \<open>Large allocations\<close>

lemma large_reuse_ok:
  "large_reuse ls n p = Some ls' \<Longrightarrow> Some p \<notin> large_alloc ` set ls \<Longrightarrow>
     \<exists>us l vs. ls = us @ l # vs \<and> ls' = us @ l\<lparr>large_alloc := Some p\<rparr> # vs \<and> large_alloc l = None"
proof (induction ls arbitrary: n ls')
  case (Cons l ls)
  show ?case
  proof (cases "large_alloc l = None")
    case True
    then show ?thesis using Cons.prems by (intro exI [of _ "[]"]) auto
  next
    case False
    then obtain ks where ks: "large_reuse ls (Suc n) p = Some ks" "ls' = l # ks" using Cons.prems(1) by (auto split: if_splits)
    obtain us k vs where "ls = us @ k # vs" "ks = us @ k\<lparr>large_alloc := Some p\<rparr> # vs" "large_alloc k = None"
      using Cons.IH [OF ks(1)] Cons.prems(2) by auto
    then show ?thesis using ks(2) by (intro exI [of _ "l # us"]) auto
  qed
qed simp

lemma pool_free_found:
  "Some p \<notin> large_alloc ` set us \<Longrightarrow> large_alloc l = Some p \<Longrightarrow>
     pool_free_loop (us @ l # vs) (Some p) = Some (us @ l\<lparr>large_alloc := None\<rparr> # vs, [p])"
  by (induction us) auto

lemma large_allocs_set: "p \<in> set (large_allocs pool) \<longleftrightarrow> Some p \<in> large_alloc ` set (pool_large pool)"
proof -
  have "p \<in> set (map (the \<circ> large_alloc) (filter (\<lambda>l. large_alloc l \<noteq> None) ls)) \<longleftrightarrow> Some p \<in> large_alloc ` set ls" for ls
    by (induction ls) auto
  then show ?thesis by (simp add: large_allocs_def)
qed

text \<open>The large part of a pool after an allocation: one entry has the new address.\<close>

lemma palloc_large_ok:
  assumes inv: "pool_inv pool xs" and mem: "memalign_ok mem pool" and new: "p \<notin> set (large_allocs pool)"
    and r: "lu_mm_palloc_large (Some p) mem pool sz = (pool', Some q, fr)"
  obtains us l vs where "q = p" "fr = []" "pool_large pool' = us @ l # vs" "large_alloc l = Some p" "Some p \<notin> large_alloc ` set us"
    "pool_large pool = us @ l\<lparr>large_alloc := None\<rparr> # vs \<or> us = [] \<and> pool_large pool = vs"
proof (cases "large_reuse (pool_large pool) 0 p")
  case (Some ls)
  have n: "Some p \<notin> large_alloc ` set (pool_large pool)" using new by (simp add: large_allocs_set)
  obtain us l vs where l: "pool_large pool = us @ l # vs" "ls = us @ l\<lparr>large_alloc := Some p\<rparr> # vs" "large_alloc l = None"
    using large_reuse_ok [OF Some n] by blast
  have q: "q = p" "fr = []" "pool_large pool' = ls" using r Some by (auto simp: lu_mm_palloc_large_def lu_mm_alloc_def)
  define k where "k = l\<lparr>large_alloc := Some p\<rparr>"
  have k: "pool_large pool = us @ k\<lparr>large_alloc := None\<rparr> # vs" unfolding l(1) k_def using l(3) by (cases l) simp
  have a: "large_alloc k = Some p" by (simp add: k_def)
  have u: "Some p \<notin> large_alloc ` set us" using n unfolding l(1) by auto
  have ls: "pool_large pool' = us @ k # vs" unfolding q(3) l(2) k_def ..
  show ?thesis by (rule that [OF q(1,2) ls a u disjI1 [OF k]])
next
  case None
  have "sizeof_pool_t \<le> pool_psize pool" using inv by (simp add: pool_inv_def)
  then have z: "sizeof_pool_large_t \<le> pool_psize pool - sizeof_pool_data_t"
    by (simp add: sizeof_pool_t_def sizeof_pool_data_t_def sizeof_pool_large_t_def)
  obtain p1 r1 where s: "lu_mm_palloc_small mem pool sizeof_pool_large_t True = (p1, r1)" by fastforce
  have "pool_add_large mem pool p = (pool', Some q, fr)" using r None by (auto simp: lu_mm_palloc_large_def lu_mm_alloc_def)
  then have add: "(case r1 of None \<Rightarrow> (p1, None, [p])
      | Some hdr \<Rightarrow> (p1\<lparr>pool_large := \<lparr>large_addr = hdr, large_alloc = Some p\<rparr> # pool_large p1\<rparr>, Some p, [])) = (pool', Some q, fr)"
    unfolding pool_add_large_def s by simp
  obtain hdr where r1: "r1 = Some hdr" using add by (cases r1) simp_all
  have h: "pool' = p1\<lparr>pool_large := \<lparr>large_addr = hdr, large_alloc = Some p\<rparr> # pool_large p1\<rparr>" "q = p" "fr = []"
    using add unfolding r1 by (simp_all add: eq_commute)
  have "pool_large p1 = pool_large pool" using palloc_small_ok [OF inv mem z s] r1 by simp
  then have "pool_large pool' = [] @ \<lparr>large_addr = hdr, large_alloc = Some p\<rparr> # pool_large pool" by (simp add: h(1))
  then show ?thesis by (rule that [OF h(2,3)]) auto
qed

section \<open>Properties\<close>


definition demo_pool :: lu_mm_pool_t where
  "demo_pool = \<lparr>pool_blocks = [\<lparr>d_addr = 4096, d_last = 4152, d_end = 4224, d_failed = 0\<rparr>], pool_max = 72, pool_current = 0, pool_large = []\<rparr>"

lemma demo_pool_created: "lu_mm_create_pool 0 (0, 4096) 128 = Some demo_pool"
  by (simp add: lu_mm_create_pool_def lu_mm_memalign_def sizeof_pool_t_def LU_MM_MAX_ALLOC_FROM_POOL_def demo_pool_def Let_def
      unsigned_minus_1_eq_mask mask_eq_exp_minus_1)

lemma demo_pool_inv: "pool_inv demo_pool [(4096, 56)]"
  using create_pool_inv(1) [OF demo_pool_created] by (simp add: sizeof_pool_t_def)

lemma demo_memalign: "memalign_ok (0, 8192) demo_pool"
  by (simp add: memalign_ok_def demo_pool_def pool_psize_def)


text \<open>C33: an allocation larger than the pool takes is the address that \<open>malloc\<close> gave;
  freeing it gives exactly that address back, reports success, and leaves the other large allocations as they
  were before both calls.\<close>

theorem pool_large_freed:
  assumes "pool_inv pool xs" "memalign_ok mem pool" "p \<notin> set (large_allocs pool)" "pool_max pool < sz"
    and "lu_mm_pool_alloc (Some p) mem pool sz = (pool', Some q, fr)"
  shows "q = p \<and> fr = [] \<and> (\<exists>pool''. lu_mm_pool_free pool' (Some p) = (pool'', LU_ERROR_LUEVENT_MEMORY_POOL_OK, [p]) \<and>
    large_allocs pool'' = large_allocs pool)"
proof -
  have "lu_mm_palloc_large (Some p) mem pool sz = (pool', Some q, fr)" using assms(4,5) by (simp add: lu_mm_pool_alloc_def)
  then obtain us l vs where l: "q = p" "fr = []" "pool_large pool' = us @ l # vs" "large_alloc l = Some p"
    "Some p \<notin> large_alloc ` set us" "pool_large pool = us @ l\<lparr>large_alloc := None\<rparr> # vs \<or> us = [] \<and> pool_large pool = vs"
    by (rule palloc_large_ok [OF assms(1-3)])
  have "lu_mm_pool_free pool' (Some p) = (pool'\<lparr>pool_large := us @ l\<lparr>large_alloc := None\<rparr> # vs\<rparr>, LU_ERROR_LUEVENT_MEMORY_POOL_OK, [p])"
    using pool_free_found [OF l(5,4)] by (simp add: lu_mm_pool_free_def l(3))
  moreover have "large_allocs (pool'\<lparr>pool_large := us @ l\<lparr>large_alloc := None\<rparr> # vs\<rparr>) = large_allocs pool"
    using l(6) by (auto simp: large_allocs_def)
  ultimately show ?thesis using l(1,2) by blast
qed

theorem pool_large_freed_witness:
  "\<exists>pool' pool''. lu_mm_pool_alloc (Some 65536) (0, 8192) demo_pool 1000 = (pool', Some 65536, []) \<and>
     lu_mm_pool_free pool' (Some 65536) = (pool'', LU_ERROR_LUEVENT_MEMORY_POOL_OK, [65536])"
proof -
  have n: "65536 \<notin> set (large_allocs demo_pool)" "pool_max demo_pool < 1000" by (simp_all add: demo_pool_def large_allocs_def)
  obtain pool' q fr where a: "lu_mm_pool_alloc (Some 65536) (0, 8192) demo_pool 1000 = (pool', Some q, fr)"
  proof -
    obtain p1 r1 where s: "lu_mm_palloc_small (0, 8192) demo_pool 16 True = (p1, r1)" by fastforce
    have "16 \<le> pool_max demo_pool" by (simp add: demo_pool_def)
    from small_alloc_safe [OF demo_pool_inv demo_memalign this s] obtain h where "r1 = Some h" by (cases r1) auto
    moreover have "large_reuse (pool_large demo_pool) 0 65536 = None" by (simp add: demo_pool_def)
    ultimately have "\<exists>pool'. lu_mm_pool_alloc (Some 65536) (0, 8192) demo_pool 1000 = (pool', Some 65536, [])"
      using s n by (simp add: lu_mm_pool_alloc_def lu_mm_palloc_large_def lu_mm_alloc_def pool_add_large_def sizeof_pool_large_t_def)
    then show ?thesis using that by blast
  qed
  show ?thesis using pool_large_freed [OF demo_pool_inv demo_memalign n a] a by auto
qed

lemma reset_spans: "spans (pool_blocks (fst (lu_mm_reset_pool pool))) = map (\<lambda>(a, l, e). (a, a + sizeof_pool_t, e)) (spans (pool_blocks pool))"
  by (simp add: lu_mm_reset_pool_def spans_def comp_def)

lemma reset_addrs: "map d_addr (pool_blocks (fst (lu_mm_reset_pool pool))) = map d_addr (pool_blocks pool)"
  by (simp add: lu_mm_reset_pool_def comp_def)

lemma reset_psize: "pool_blocks pool \<noteq> [] \<Longrightarrow> pool_psize (fst (lu_mm_reset_pool pool)) = pool_psize pool"
  by (cases "pool_blocks pool") (simp_all add: lu_mm_reset_pool_def pool_psize_def)

text \<open>A piece at the start of every block, no longer than the header of a pool.\<close>

lemma fresh_chunks:
  assumes "list_all2 (\<lambda>s x. fst x = fst s \<and> snd x \<le> sizeof_pool_t) ss xs"
    "\<forall>s\<in>set ss. span_ok psize s" "spans_apart ss" "sizeof_pool_t \<le> psize"
  shows "chunks_ok psize (map (\<lambda>(a, l, e). (a, a + sizeof_pool_t, e)) ss) xs"
  using assms
proof (induction rule: list_all2_induct)
  case Nil
  then show ?case by (simp add: chunks_ok_def spans_apart_def)
next
  case (Cons s ss x xs)
  obtain a l e where s: "s = (a, l, e)" by (rule prod_cases3)
  let ?f = "\<lambda>(a, l, e). (a, a + sizeof_pool_t, e)"
  have IH: "chunks_ok psize (map ?f ss) xs" using Cons by (simp add: spans_apart_def)
  have b: "span_ok psize (a, a + sizeof_pool_t, e)"
    using Cons.prems by (auto simp: s span_ok_def sizeof_pool_t_def sizeof_pool_data_t_def)
  have x: "fst x = a" "snd x \<le> sizeof_pool_t" using Cons.hyps by (auto simp: s)
  have sep': "e \<le> a' \<or> e' \<le> a" if "(a', l', e') \<in> set ss" for a' l' e'
    using Cons.prems(2) that by (force simp: spans_apart_def s)
  then have sep: "e \<le> a' \<or> e' \<le> a" if "(a', l', e') \<in> set (map ?f ss)" for a' l' e'
    using that by auto
  have "spans_apart (?f s # map ?f ss)" using IH sep' by (fastforce simp: chunks_ok_def spans_apart_def s)
  moreover have "apart x y" if "y \<in> set xs" for y
  proof -
    obtain a' l' e' where h: "(a', l', e') \<in> set (map ?f ss)" "a' \<le> fst y" "fst y + snd y \<le> l'"
      using IH \<open>y \<in> set xs\<close> unfolding chunks_ok_def held_def by blast
    moreover have "span_ok psize (a', l', e')" using IH h(1) unfolding chunks_ok_def by blast
    ultimately show ?thesis using sep [OF h(1)] x b by (auto simp: apart_def span_ok_def)
  qed
  moreover have "held (?f s # map ?f ss) y" if "y \<in> set (x # xs)" for y
    using IH that x by (auto simp: chunks_ok_def held_def s)
  ultimately show ?case using IH b by (auto simp: chunks_ok_def s)
qed

lemma headers_match:
  "bs \<noteq> [] \<Longrightarrow> list_all2 (\<lambda>s x. fst x = fst s \<and> snd x \<le> sizeof_pool_t) (spans bs) (headers (map d_addr bs))"
proof (cases bs)
  case (Cons b rest)
  have "list_all2 (\<lambda>s x. fst x = fst s \<and> snd x \<le> sizeof_pool_t) (spans rest) (map (\<lambda>b. (d_addr b, sizeof_pool_data_t)) rest)" for rest
    by (induction rest) (auto simp: sizeof_pool_t_def sizeof_pool_data_t_def)
  then show ?thesis by (simp add: Cons headers_def comp_def)
qed simp



section \<open>Runs\<close>

text \<open>A sequence of small allocations, each with what \<open>posix_memalign\<close> would answer; the pieces that were handed out.\<close>

fun pool_run :: "lu_mm_pool_t \<Rightarrow> ((int \<times> nat) \<times> nat) list \<Rightarrow> (nat \<times> nat) list" where
  "pool_run pool [] = []"
| "pool_run pool ((mem, sz) # rs) =
     (case lu_mm_pool_alloc None mem pool sz of
        (pool', None, fr) \<Rightarrow> pool_run pool' rs
      | (pool', Some m, fr) \<Rightarrow> (m, sz) # pool_run pool' rs)"

text \<open>Every size is one that the pool takes, and \<open>posix_memalign\<close> keeps its promise each time.\<close>

fun pool_run_ok :: "lu_mm_pool_t \<Rightarrow> ((int \<times> nat) \<times> nat) list \<Rightarrow> bool" where
  "pool_run_ok pool [] = True"
| "pool_run_ok pool ((mem, sz) # rs) =
     (memalign_ok mem pool \<and> sz \<le> pool_max pool \<and> pool_run_ok (fst (lu_mm_pool_alloc None mem pool sz)) rs)"

lemma pool_run_inv:
  assumes "pool_inv pool xs" "pool_run_ok pool rs"
  shows "sorted_wrt apart (pool_run pool rs) \<and> (\<forall>y\<in>set (pool_run pool rs). 16 dvd fst y \<and> (\<forall>x\<in>set xs. apart x y))"
  using assms
proof (induction pool rs arbitrary: xs rule: pool_run.induct)
  case (1 pool)
  then show ?case by simp
next
  case (2 pool mem sz rs)
  obtain pool' r fr where a: "lu_mm_pool_alloc None mem pool sz = (pool', r, fr)" by (metis prod_cases3)
  have ok: "memalign_ok mem pool" "sz \<le> pool_max pool" "pool_run_ok pool' rs" using 2(4) a by simp_all
  have "lu_mm_palloc_small mem pool sz True = (pool', r)" using a ok(2) by (auto simp: lu_mm_pool_alloc_def split: prod.splits)
  note S = small_alloc_safe [OF 2(3) ok(1,2) this]
  show ?case
  proof (cases r)
    case None
    then have "pool' = pool" using S by simp
    then show ?thesis using 2(1) [OF a [symmetric] refl None] a None 2(3) ok(3) by simp
  next
    case (Some m)
    obtain ys where ys: "16 dvd m" "\<forall>x\<in>set xs. apart (m, sz) x" "pool_inv pool' ((m, sz) # ys)" "set xs \<subseteq> set ys" using S Some by auto
    have sym: "apart x y \<Longrightarrow> apart y x" for x y by (auto simp: apart_def)
    have IH: "sorted_wrt apart (pool_run pool' rs)"
      "\<forall>y\<in>set (pool_run pool' rs). 16 dvd fst y \<and> apart (m, sz) y \<and> (\<forall>x\<in>set ys. apart x y)"
      using 2(2) [OF a [symmetric] refl Some ys(3) ok(3)] by auto
    have "pool_run pool ((mem, sz) # rs) = (m, sz) # pool_run pool' rs" by (simp add: a Some)
    then show ?thesis using IH ys sym by auto
  qed
qed



section \<open>Findings\<close>

text \<open>A pool smaller than its header: the room left wraps, and the pool takes every size as small.\<close>

theorem tiny_pool_max_wraps:
  "\<exists>pool. lu_mm_create_pool 0 (0, 4096) 48 = Some pool \<and> d_end (hd (pool_blocks pool)) < d_last (hd (pool_blocks pool)) \<and> pool_max pool > 2 ^ 63"
  by (simp add: lu_mm_create_pool_def lu_mm_memalign_def sizeof_pool_t_def LU_MM_MAX_ALLOC_FROM_POOL_def Let_def
      unsigned_minus_1_eq_mask mask_eq_exp_minus_1)

text \<open>A pool whose size is not a multiple of 16: after an allocation that ends near the end of the block, aligning goes past
  the end, the room wraps, and the address handed out is outside the block.\<close>

theorem odd_pool_hands_out_beyond:
  "\<exists>pool pool1 pool2 m1 m2. lu_mm_create_pool 0 (0, 4096) 100 = Some pool \<and>
     lu_mm_pool_alloc None (1, 0) pool 33 = (pool1, Some m1, []) \<and> lu_mm_pool_alloc None (1, 0) pool1 1 = (pool2, Some m2, []) \<and>
     d_end (hd (pool_blocks pool2)) < m2"
proof -
  have a: "lu_mm_align_ptr 4152 LU_MM_POOL_ALIGNMENT = 4160" "lu_mm_align_ptr 4193 LU_MM_POOL_ALIGNMENT = 4208" by (simp_all add: align_ptr_eq)
  have r: "ptr_room 4196 4160 = 36" by (simp add: ptr_room_eq)
  have w: "ptr_room 4196 4208 = 2 ^ 64 - 12" by (simp add: ptr_room_def)
  let ?pool = "\<lambda>l. \<lparr>pool_blocks = [\<lparr>d_addr = 4096, d_last = l, d_end = 4196, d_failed = 0\<rparr>], pool_max = 44, pool_current = 0, pool_large = []\<rparr>"
  have c: "lu_mm_create_pool 0 (0, 4096) 100 = Some (?pool 4152)"
    by (simp add: lu_mm_create_pool_def lu_mm_memalign_def sizeof_pool_t_def LU_MM_MAX_ALLOC_FROM_POOL_def Let_def
      unsigned_minus_1_eq_mask mask_eq_exp_minus_1)
  have "lu_mm_pool_alloc None (1, 0) (?pool 4152) 33 = (?pool 4193, Some 4160, [])"
    by (simp add: lu_mm_pool_alloc_def lu_mm_palloc_small_def Let_def a r)
  moreover have "lu_mm_pool_alloc None (1, 0) (?pool 4193) 1 = (?pool 4209, Some 4208, [])"
    by (simp add: lu_mm_pool_alloc_def lu_mm_palloc_small_def Let_def a w)
  moreover have "d_end (hd (pool_blocks (?pool 4209))) < 4208" by simp
  ultimately show ?thesis using c by blast
qed

text \<open>The page size the library keeps is never set, so that the bound of what a pool takes is the largest \<open>size_t\<close>.\<close>

theorem unset_pagesize_no_bound: "LU_MM_MAX_ALLOC_FROM_POOL 0 = 2 ^ 64 - 1"
  by (simp add: LU_MM_MAX_ALLOC_FROM_POOL_def unsigned_minus_1_eq_mask mask_eq_exp_minus_1)

end
