(* ===== verification/LuMM.thy ===== *)
theory LuMM
  imports LuUtil LuErrorCodes
begin

text \<open>
  The allocation wrappers of \<open>src/lu_mm-internal.c\<close> and their log. A pointer is an address, 0 for
  null. Each operation gives its result and the calls it makes, in order; what an allocator answers is
  an argument. Which of the function pointers are set is a record, the same for each operation.
\<close>

section \<open>Function pointers\<close>

datatype mm_logger = No_log | Default_memory_log | User_log nat

record mm_fns =
  lu_mm_malloc_fn :: bool
  lu_mm_calloc_fn :: bool
  lu_mm_realloc_fn :: bool
  lu_mm_free_fn :: bool
  lu_mm_aligned_malloc_fn :: bool
  lu_mm_memzero_fn :: bool
  lu_mm_memcpy_fn :: bool

record mm_logs =
  lu_mm_malloc_log_fn :: mm_logger
  lu_mm_calloc_log_fn :: mm_logger
  lu_mm_realloc_log_fn :: mm_logger
  lu_mm_free_log_fn :: mm_logger
  lu_mm_aligned_malloc_log_fn :: mm_logger
  lu_mm_memzero_log_fn :: mm_logger
  lu_mm_memcpy_log_fn :: mm_logger

text \<open>\<open>lu_log_functions_global_\<close> has the addresses of all seven, so that each gets the same value.\<close>

definition lu_enable_default_memory_logging :: "int \<Rightarrow> mm_logs \<Rightarrow> mm_logs" where
  "lu_enable_default_memory_logging enable logs =
     (let f = (if enable \<noteq> 0 then Default_memory_log else No_log)
      in \<lparr>lu_mm_malloc_log_fn = f, lu_mm_calloc_log_fn = f, lu_mm_realloc_log_fn = f, lu_mm_free_log_fn = f,
          lu_mm_aligned_malloc_log_fn = f, lu_mm_memzero_log_fn = f, lu_mm_memcpy_log_fn = f\<rparr>)"

text \<open>The calls: to the function that is set (\<open>True\<close>) or to the C library, to a log function, and the
  assignments of \<open>errno\<close>.\<close>

datatype mm_call =
    Call_malloc bool c_size_t
  | Call_calloc c_size_t c_size_t
  | Call_realloc bool c_ptr c_size_t
  | Call_free bool c_ptr
  | Call_memalign bool c_size_t c_size_t
  | Call_memset bool c_ptr c_size_t
  | Call_memcpy bool c_ptr c_ptr c_size_t
  | Copy_string c_ptr string c_size_t
  | Call_strdup string
  | Call_log mm_logger string c_ptr c_size_t
  | Set_errno int

definition mm_log :: "mm_logger \<Rightarrow> string \<Rightarrow> c_ptr \<Rightarrow> c_size_t \<Rightarrow> mm_call list" where
  "mm_log lg op p sz = (if lg = No_log then [] else [Call_log lg op p sz])"

section \<open>Names of the operations\<close>

definition MM_MALLOC_STR :: string where "MM_MALLOC_STR = ''__MM_MALLOC__''"
definition MALLOC_STR :: string where "MALLOC_STR = ''__MALLOC__''"
definition MM_CALLOC_STR :: string where "MM_CALLOC_STR = ''__MM_CALLOC__''"
definition CALLOC_STR :: string where "CALLOC_STR = ''__CALLOC__''"
definition MM_FREE_STR :: string where "MM_FREE_STR = ''__MM_FREE__''"
definition FREE_STR :: string where "FREE_STR = ''__FREE__''"
definition MM_REALLOC_STR :: string where "MM_REALLOC_STR = ''__MM_REALLOC__''"
definition REALLOC_STR :: string where "REALLOC_STR = ''__REALLOC__''"
definition MM_STRDUP_STR :: string where "MM_STRDUP_STR = ''__MM_STRDUP__''"
definition STRDUP_STR :: string where "STRDUP_STR = ''__STRDUP__''"
definition MM_ALIGEND_MALLOC_STR :: string where "MM_ALIGEND_MALLOC_STR = ''__MM_ALIG_M__''"
definition ALIGEND_MALLOC_STR :: string where "ALIGEND_MALLOC_STR = ''__ALIGNED_M__''"
definition MM_MEMZERO_STR :: string where "MM_MEMZERO_STR = ''__MM_MEMZERO__''"
definition MEMZERO_STR :: string where "MEMZERO_STR = ''__MEMZERO__''"
definition MM_MEMCPY_STR :: string where "MM_MEMCPY_STR = ''__MM_MEMCPY__''"
definition MEMCPY_STR :: string where "MEMCPY_STR = ''__MEMCPY__''"

lemmas op_strs = MM_MALLOC_STR_def MALLOC_STR_def MM_CALLOC_STR_def CALLOC_STR_def MM_FREE_STR_def FREE_STR_def
  MM_REALLOC_STR_def REALLOC_STR_def MM_STRDUP_STR_def STRDUP_STR_def MM_ALIGEND_MALLOC_STR_def ALIGEND_MALLOC_STR_def
  MM_MEMZERO_STR_def MEMZERO_STR_def MM_MEMCPY_STR_def MEMCPY_STR_def

section \<open>The wrappers\<close>

definition EINVAL :: int where "EINVAL = 22"

definition lu_event_mm_malloc :: "mm_fns \<Rightarrow> mm_logs \<Rightarrow> c_ptr \<Rightarrow> c_size_t \<Rightarrow> c_ptr \<times> mm_call list" where
  "lu_event_mm_malloc fns logs r sz =
     (if sz = 0 then (0, [])
      else if lu_mm_malloc_fn fns
      then (r, [Call_malloc True sz] @ mm_log (lu_mm_malloc_log_fn logs) MM_MALLOC_STR r sz)
      else (r, [Call_malloc False sz] @ mm_log (lu_mm_malloc_log_fn logs) MALLOC_STR r sz))"

text \<open>\<open>memset\<close> returns its first argument, which is not null.\<close>

definition lu_event_mm_calloc :: "mm_fns \<Rightarrow> mm_logs \<Rightarrow> c_ptr \<Rightarrow> c_size_t \<Rightarrow> c_size_t \<Rightarrow> c_ptr \<times> mm_call list" where
  "lu_event_mm_calloc fns logs r nitems sz1 =
     (if nitems = 0 \<or> sz1 = 0 then (0, [])
      else
        (let sz = nitems * sz1
         in if nitems > word_of_nat LU_SIZE_MAX div sz1 then (0, [Set_errno LU_ERROR_OUT_OF_MEMORY])
            else if lu_mm_calloc_fn fns
            then (case lu_event_mm_malloc fns logs r sz of
                    (p, cs) \<Rightarrow>
                      if p = 0 then (0, cs)
                      else (p, cs @ mm_log (lu_mm_calloc_log_fn logs) MM_CALLOC_STR p sz @ [Call_memset False p sz]))
            else if r = 0 then (0, [Call_calloc nitems sz1, Set_errno LU_ERROR_OUT_OF_MEMORY])
            else (r, [Call_calloc nitems sz1] @ mm_log (lu_mm_calloc_log_fn logs) CALLOC_STR r sz)))"

text \<open>\<open>strlen\<close> is a \<open>size_t\<close>; \<open>Copy_string\<close> is the \<open>memcpy\<close> of the string with its final 0.\<close>

definition lu_event_mm_strdup :: "mm_fns \<Rightarrow> c_ptr \<Rightarrow> string option \<Rightarrow> c_ptr \<times> mm_call list" where
  "lu_event_mm_strdup fns r str =
     (case str of
        None \<Rightarrow> (0, [Set_errno EINVAL])
      | Some s \<Rightarrow>
          (if lu_mm_malloc_fn fns
           then
             (let len = word_of_nat (length s) :: c_size_t
              in if len = word_of_nat LU_SIZE_MAX then (0, [Set_errno LU_ERROR_OUT_OF_MEMORY])
                 else if r \<noteq> 0 then (r, [Call_malloc True (len + 1), Copy_string r s (len + 1)])
                 else (0, [Call_malloc True (len + 1), Set_errno LU_ERROR_OUT_OF_MEMORY]))
           else (r, [Call_strdup s])))"

definition lu_event_mm_realloc :: "mm_fns \<Rightarrow> mm_logs \<Rightarrow> c_ptr \<Rightarrow> c_ptr \<Rightarrow> c_size_t \<Rightarrow> c_ptr \<times> mm_call list" where
  "lu_event_mm_realloc fns logs r ptr sz =
     (if lu_mm_realloc_fn fns
      then (r, [Call_realloc True ptr sz] @ (if r \<noteq> 0 then mm_log (lu_mm_realloc_log_fn logs) MM_REALLOC_STR r sz else []))
      else (r, [Call_realloc False ptr sz] @ (if r \<noteq> 0 then mm_log (lu_mm_realloc_log_fn logs) REALLOC_STR r sz else [])))"

definition lu_event_mm_free :: "mm_fns \<Rightarrow> c_ptr \<Rightarrow> mm_call list" where
  "lu_event_mm_free fns ptr = (if ptr = 0 then [] else [Call_free (lu_mm_free_fn fns) ptr])"

definition lu_event_mm_memzero :: "mm_fns \<Rightarrow> mm_logs \<Rightarrow> c_ptr \<Rightarrow> c_ptr \<Rightarrow> c_size_t \<Rightarrow> c_ptr \<times> mm_call list" where
  "lu_event_mm_memzero fns logs r ptr sz =
     (if lu_mm_memzero_fn fns
      then (r, [Call_memset True ptr sz] @ (if r \<noteq> 0 then mm_log (lu_mm_memzero_log_fn logs) MM_MEMZERO_STR r sz else []))
      else (ptr, [Call_memset False ptr sz] @ (if ptr \<noteq> 0 then mm_log (lu_mm_memzero_log_fn logs) MEMZERO_STR ptr sz else [])))"

definition lu_event_mm_memcpy :: "mm_fns \<Rightarrow> mm_logs \<Rightarrow> c_ptr \<Rightarrow> c_ptr \<Rightarrow> c_ptr \<Rightarrow> c_size_t \<Rightarrow> c_ptr \<times> mm_call list" where
  "lu_event_mm_memcpy fns logs r dest src sz =
     (if lu_mm_memcpy_fn fns
      then (r, [Call_memcpy True dest src sz] @ (if r \<noteq> 0 then mm_log (lu_mm_memcpy_log_fn logs) MM_MEMCPY_STR r sz else []))
      else (dest, [Call_memcpy False dest src sz] @ (if dest \<noteq> 0 then mm_log (lu_mm_memcpy_log_fn logs) MEMCPY_STR dest sz else [])))"

text \<open>The answer of the aligned allocator: its return value and what it left in the pointer, which
  was null.\<close>

definition lu_event_mm_aligned_malloc :: "mm_fns \<Rightarrow> mm_logs \<Rightarrow> int \<times> c_ptr \<Rightarrow> c_size_t \<Rightarrow> c_size_t \<Rightarrow> c_ptr \<times> mm_call list" where
  "lu_event_mm_aligned_malloc fns logs r sz alignment =
     (if alignment mod 2 \<noteq> 0 \<or> alignment mod 8 \<noteq> 0 then (0, [])
      else if lu_mm_aligned_malloc_fn fns
      then (snd r, [Call_memalign True sz alignment] @
              (if fst r = 0 then mm_log (lu_mm_aligned_malloc_log_fn logs) MM_ALIGEND_MALLOC_STR (snd r) sz else []))
      else (snd r, [Call_memalign False sz alignment] @ mm_log (lu_mm_aligned_malloc_log_fn logs) ALIGEND_MALLOC_STR (snd r) sz))"

section \<open>The default log\<close>

fun hex_nat :: "nat \<Rightarrow> string" where
  "hex_nat n = (if n < 16 then [''0123456789abcdef'' ! n] else hex_nat (n div 16) @ [''0123456789abcdef'' ! (n mod 16)])"

declare hex_nat.simps [simp del]

text \<open>The conversions \<open>%-ns\<close>, \<open>%ns\<close>, \<open>%p\<close> and \<open>%zu\<close>.\<close>

definition pad_right :: "nat \<Rightarrow> string \<Rightarrow> string" where
  "pad_right n s = s @ replicate (n - length s) CHR '' ''"

definition pad_left :: "nat \<Rightarrow> string \<Rightarrow> string" where
  "pad_left n s = replicate (n - length s) CHR '' '' @ s"

definition fmt_ptr :: "c_ptr \<Rightarrow> string" where
  "fmt_ptr p = (if p = 0 then ''(nil)'' else ''0x'' @ hex_nat (unat p))"

definition fmt_zu :: "c_size_t \<Rightarrow> string" where
  "fmt_zu n = dec_nat (unat n)"

definition newline :: string where "newline = [CHR 0x0A]"

definition log_prefix :: "string \<Rightarrow> string \<Rightarrow> c_ptr \<Rightarrow> string" where
  "log_prefix time_str op p = ''['' @ pad_right 19 time_str @ ''] '' @ pad_right 14 op @ '' '' @ pad_right 14 (fmt_ptr p) @ '' ''"

definition log_failure :: "string \<Rightarrow> c_ptr \<Rightarrow> bool" where
  "log_failure op p \<longleftrightarrow> p = 0 \<and> op \<noteq> MM_MALLOC_STR \<and> op \<noteq> MALLOC_STR \<and> op \<noteq> MM_ALIGEND_MALLOC_STR \<and> op \<noteq> ALIGEND_MALLOC_STR"

definition memory_log_line :: "string \<Rightarrow> int \<Rightarrow> (int \<Rightarrow> string) \<Rightarrow> string \<Rightarrow> c_ptr \<Rightarrow> c_size_t \<Rightarrow> string" where
  "memory_log_line time_str errno strerror op p sz =
     (if log_failure op p
      then ''['' @ pad_right 19 time_str @ ''] '' @ pad_left 10 op @ '' Failed to allocate memory (size: '' @ fmt_zu sz @
           '' bytes), errno: '' @ dec_int errno @ '', error: '' @ strerror errno @ newline
      else if op = MM_MALLOC_STR \<or> op = MALLOC_STR
      then log_prefix time_str op p @ ''allocated           (size: '' @ fmt_zu sz @ '' bytes)'' @ newline
      else if op = MM_CALLOC_STR \<or> op = CALLOC_STR
      then log_prefix time_str op p @ ''calloc allocated    (size: '' @ fmt_zu sz @ '' bytes)'' @ newline
      else if op = MM_FREE_STR \<or> op = FREE_STR
      then log_prefix time_str op p @ ''freed'' @ newline
      else if op = MM_REALLOC_STR \<or> op = REALLOC_STR
      then log_prefix time_str op p @ ''realloc allocated   (new size: '' @ fmt_zu sz @ '' bytes)'' @ newline
      else if op = MM_STRDUP_STR \<or> op = STRDUP_STR
      then log_prefix time_str op p @ ''strdup allocated    (size: '' @ fmt_zu sz @ '' bytes)'' @ newline
      else if op = MM_ALIGEND_MALLOC_STR \<or> op = ALIGEND_MALLOC_STR
      then log_prefix time_str op p @ ''aligned_malloc allocated (size: '' @ fmt_zu sz @ '' bytes)'' @ newline
      else log_prefix time_str op p @ ''allocated/freed (size: '' @ fmt_zu sz @ '' bytes)'' @ newline)"

text \<open>What happens to the file. \<open>Write_beyond n\<close>: a \<open>write\<close> of \<open>n\<close> bytes from the buffer of 256.
  \<open>log_file\<close> is what \<open>open\<close> returns, \<open>write_ok\<close> whether \<open>write\<close> works.\<close>

datatype log_file_step = Perror string | Write int string | Write_beyond int nat | Close int

definition default_memory_log ::
    "int \<Rightarrow> bool \<Rightarrow> string \<Rightarrow> int \<Rightarrow> (int \<Rightarrow> string) \<Rightarrow> string \<Rightarrow> c_ptr \<Rightarrow> c_size_t \<Rightarrow> log_file_step list" where
  "default_memory_log log_file write_ok time_str errno strerror op p sz =
     (if log_file = - 1 then [Perror ''Error opening log file'']
      else
        (let line = memory_log_line time_str errno strerror op p sz;
             message_len = length line
         in (if message_len > 0
             then (if message_len \<le> 256 then Write log_file (take message_len (take 255 line @ [CHR 0x00]))
                   else Write_beyond log_file message_len) #
                  (if write_ok then [] else [Perror ''Error writing to log file''])
             else []) @ [Close log_file]))"

end
