(* ===== verification/LuMMProps.thy ===== *)
theory LuMMProps
  imports LuMM
begin

text \<open>
  What the allocation wrappers promise: \<open>calloc\<close> asks for the exact product or refuses, the log line
  of every call fits its buffer, and the line for a failure is never written.
\<close>

section \<open>Requests\<close>

text \<open>A call of one of the wrappers, as the rest of the library makes it.\<close>

datatype mm_request =
    Malloc c_size_t | Calloc c_size_t c_size_t | Strdup "string option" | Realloc c_ptr c_size_t | Free c_ptr
  | Memzero c_ptr c_size_t | Memcpy c_ptr c_ptr c_size_t | Aligned_malloc int c_size_t c_size_t

fun mm_run :: "mm_fns \<Rightarrow> mm_logs \<Rightarrow> c_ptr \<Rightarrow> mm_request \<Rightarrow> c_ptr \<times> mm_call list" where
  "mm_run fns logs r (Malloc sz) = lu_event_mm_malloc fns logs r sz"
| "mm_run fns logs r (Calloc n sz) = lu_event_mm_calloc fns logs r n sz"
| "mm_run fns logs r (Strdup s) = lu_event_mm_strdup fns r s"
| "mm_run fns logs r (Realloc p sz) = lu_event_mm_realloc fns logs r p sz"
| "mm_run fns logs r (Free p) = (0, lu_event_mm_free fns p)"
| "mm_run fns logs r (Memzero p sz) = lu_event_mm_memzero fns logs r p sz"
| "mm_run fns logs r (Memcpy d s sz) = lu_event_mm_memcpy fns logs r d s sz"
| "mm_run fns logs r (Aligned_malloc ret sz al) = lu_event_mm_aligned_malloc fns logs (ret, r) sz al"

text \<open>The operations that the wrappers log, those of them that log a null pointer included.\<close>

definition logged_ops :: "string list" where
  "logged_ops = [MM_MALLOC_STR, MALLOC_STR, MM_CALLOC_STR, CALLOC_STR, MM_REALLOC_STR, REALLOC_STR, MM_MEMZERO_STR, MEMZERO_STR,
     MM_MEMCPY_STR, MEMCPY_STR, MM_ALIGEND_MALLOC_STR, ALIGEND_MALLOC_STR]"

lemma mm_log_iff [simp]: "Call_log lg op p sz \<in> set (mm_log lg' op' p' sz') \<longleftrightarrow> lg' \<noteq> No_log \<and> lg = lg' \<and> op = op' \<and> p = p' \<and> sz = sz'"
  by (auto simp: mm_log_def)

lemma malloc_logs:
  "Call_log lg op q sz' \<in> set (snd (lu_event_mm_malloc fns logs r sz)) \<Longrightarrow> op \<in> {MM_MALLOC_STR, MALLOC_STR}"
  by (auto simp: lu_event_mm_malloc_def split: if_splits)

lemma calloc_logs:
  "Call_log lg op q sz' \<in> set (snd (lu_event_mm_calloc fns logs r n sz)) \<Longrightarrow>
     op \<in> {MM_MALLOC_STR, MALLOC_STR} \<or> op \<in> {MM_CALLOC_STR, CALLOC_STR} \<and> q \<noteq> 0"
  using malloc_logs [of lg op q sz' fns logs r "n * sz"]
  by (auto simp: lu_event_mm_calloc_def Let_def split: if_splits prod.splits)

lemma other_logs:
  "Call_log lg op q sz' \<in> set (snd (lu_event_mm_realloc fns logs r p sz)) \<Longrightarrow> op \<in> {MM_REALLOC_STR, REALLOC_STR} \<and> q \<noteq> 0"
  "Call_log lg op q sz' \<in> set (snd (lu_event_mm_memzero fns logs r p sz)) \<Longrightarrow> op \<in> {MM_MEMZERO_STR, MEMZERO_STR} \<and> q \<noteq> 0"
  "Call_log lg op q sz' \<in> set (snd (lu_event_mm_memcpy fns logs r p s sz)) \<Longrightarrow> op \<in> {MM_MEMCPY_STR, MEMCPY_STR} \<and> q \<noteq> 0"
  "Call_log lg op q sz' \<in> set (snd (lu_event_mm_aligned_malloc fns logs ra sz al)) \<Longrightarrow> op \<in> {MM_ALIGEND_MALLOC_STR, ALIGEND_MALLOC_STR}"
  "Call_log lg op q sz' \<notin> set (snd (lu_event_mm_strdup fns r str))"
  "Call_log lg op q sz' \<notin> set (lu_event_mm_free fns p)"
  by (auto simp: lu_event_mm_realloc_def lu_event_mm_memzero_def lu_event_mm_memcpy_def lu_event_mm_aligned_malloc_def
      lu_event_mm_strdup_def lu_event_mm_free_def Let_def split: if_splits option.splits)

lemma run_logs:
  assumes "Call_log lg op q sz \<in> set (snd (mm_run fns logs r req))"
  shows "op \<in> set logged_ops \<and> (q = 0 \<longrightarrow> op \<in> {MM_MALLOC_STR, MALLOC_STR, MM_ALIGEND_MALLOC_STR, ALIGEND_MALLOC_STR})"
  using assms by (cases req) (auto simp: logged_ops_def dest: malloc_logs calloc_logs other_logs(1-4) simp: other_logs(5,6))

section \<open>The length of a line\<close>

lemma dec_nat_length: "n < 10 ^ Suc k \<Longrightarrow> length (dec_nat n) \<le> Suc k"
proof (induction k arbitrary: n)
  case 0
  then show ?case by (simp add: dec_nat.simps)
next
  case (Suc k)
  then have "n div 10 < 10 ^ Suc k" by (simp add: div_less_iff_less_mult)
  from Suc.IH [OF this] show ?case by (subst dec_nat.simps) simp
qed

lemma hex_nat_length: "n < 16 ^ Suc k \<Longrightarrow> length (hex_nat n) \<le> Suc k"
proof (induction k arbitrary: n)
  case 0
  then show ?case by (simp add: hex_nat.simps)
next
  case (Suc k)
  then have "n div 16 < 16 ^ Suc k" by (simp add: div_less_iff_less_mult)
  from Suc.IH [OF this] show ?case by (subst hex_nat.simps) simp
qed

lemma fmt_lengths: "length (fmt_zu n) \<le> 20" "length (fmt_ptr p) \<le> 18"
proof -
  have "unat n < 10 ^ Suc 19" using unsigned_less [of n, where 'a = nat] by simp
  from dec_nat_length [OF this] show "length (fmt_zu n) \<le> 20" by (simp add: fmt_zu_def)
  have "unat p < 16 ^ Suc 15" using unsigned_less [of p, where 'a = nat] by simp
  from hex_nat_length [OF this] show "length (fmt_ptr p) \<le> 18" by (simp add: fmt_ptr_def)
qed

lemma pad_right_length: "length (pad_right n s) = max n (length s)"
  by (simp add: pad_right_def)

lemma logged_op_length: "op \<in> set logged_ops \<Longrightarrow> length op \<le> 14"
  by (auto simp: logged_ops_def op_strs)

lemma log_prefix_length:
  assumes "length time_str \<le> 19" "op \<in> set logged_ops"
  shows "length (log_prefix time_str op p) \<le> 56"
  using assms(1) logged_op_length [OF assms(2)] fmt_lengths(2) [of p] by (simp add: log_prefix_def pad_right_length)

lemma line_length:
  assumes t: "length time_str \<le> 19" and op: "op \<in> set logged_ops" and f: "\<not> log_failure op p"
  shows "length (memory_log_line time_str errno strerror op p sz) \<le> 120" "last (memory_log_line time_str errno strerror op p sz) = CHR 0x0A"
    "memory_log_line time_str errno strerror op p sz \<noteq> []"
  using log_prefix_length [OF t op, of p] fmt_lengths(1) [of sz] f by (auto simp: memory_log_line_def newline_def)

section \<open>The check of the product\<close>

lemma calloc_check:
  assumes "(s :: c_size_t) \<noteq> 0"
  shows "n > word_of_nat LU_SIZE_MAX div s \<longleftrightarrow> 2 ^ 64 \<le> unat n * unat s"
proof -
  have m: "unat (word_of_nat LU_SIZE_MAX :: c_size_t) = 2 ^ 64 - 1" by (simp only: unsigned_of_nat) (simp add: LU_SIZE_MAX_def take_bit_nat_eq_self)
  have s: "0 < unat s" using assms by (simp add: unat_gt_0)
  have "n > word_of_nat LU_SIZE_MAX div s \<longleftrightarrow> (2 ^ 64 - 1) div unat s < unat n"
    by (simp only: word_less_nat_alt unat_div m)
  also have "\<dots> \<longleftrightarrow> 2 ^ 64 - 1 < unat n * unat s" using s by (simp add: div_less_iff_less_mult)
  also have "\<dots> \<longleftrightarrow> 2 ^ 64 \<le> unat n * unat s" by auto
  finally show ?thesis .
qed

lemma calloc_product:
  assumes "unat (n :: c_size_t) * unat (s :: c_size_t) < 2 ^ 64"
  shows "unat (n * s) = unat n * unat s"
  using assms by (simp add: unat_word_ariths(2))

section \<open>Properties\<close>

text \<open>C36: when the product of the two sizes does not fit \<open>size_t\<close>, \<open>calloc\<close> sets \<open>errno\<close>, asks for nothing
  and returns null; otherwise it asks for exactly the product (of the C library with both sizes, or of the allocator in one
  piece, which it then fills with zeros, all of it), and returns what it got.\<close>

theorem calloc_exact:
  assumes "n \<noteq> 0" "s \<noteq> 0"
  shows "if 2 ^ 64 \<le> unat n * unat s then lu_event_mm_calloc fns logs r n s = (0, [Set_errno LU_ERROR_OUT_OF_MEMORY])
    else \<exists>cs. lu_event_mm_calloc fns logs r n s = (r, cs) \<and>
      (hd cs = Call_calloc n s \<or>
       (\<exists>b sz. hd cs = Call_malloc b sz \<and> unat sz = unat n * unat s \<and> (r \<noteq> 0 \<longrightarrow> last cs = Call_memset False r sz)))"
proof (cases "2 ^ 64 \<le> unat n * unat s")
  case True
  then show ?thesis using assms calloc_check [OF assms(2), of n] by (simp add: lu_event_mm_calloc_def Let_def)
next
  case False
  then have p: "unat (n * s) = unat n * unat s" by (intro calloc_product) simp
  have "0 < unat n * unat s" using assms by (simp add: unat_gt_0)
  then have nz: "n * s \<noteq> 0" unfolding p [symmetric] by (simp add: unat_gt_0)
  show ?thesis
  proof (cases "lu_mm_calloc_fn fns")
    case True
    then have "\<exists>b cs. lu_event_mm_calloc fns logs r n s = (r, Call_malloc b (n * s) # cs @ (if r = 0 then [] else [Call_memset False r (n * s)]))"
      using False assms nz calloc_check [OF assms(2), of n] by (auto simp: lu_event_mm_calloc_def lu_event_mm_malloc_def Let_def)
    then show ?thesis using False p by fastforce
  next
    case no: False
    then have "\<exists>cs. lu_event_mm_calloc fns logs r n s = (r, Call_calloc n s # cs)"
      using False assms calloc_check [OF assms(2), of n] by (auto simp: lu_event_mm_calloc_def Let_def)
    then show ?thesis using False by fastforce
  qed
qed

definition no_fns :: mm_fns where
  "no_fns = \<lparr>lu_mm_malloc_fn = False, lu_mm_calloc_fn = False, lu_mm_realloc_fn = False, lu_mm_free_fn = False,
     lu_mm_aligned_malloc_fn = False, lu_mm_memzero_fn = False, lu_mm_memcpy_fn = False\<rparr>"

definition no_logs :: mm_logs where
  "no_logs = \<lparr>lu_mm_malloc_log_fn = No_log, lu_mm_calloc_log_fn = No_log, lu_mm_realloc_log_fn = No_log, lu_mm_free_log_fn = No_log,
     lu_mm_aligned_malloc_log_fn = No_log, lu_mm_memzero_log_fn = No_log, lu_mm_memcpy_log_fn = No_log\<rparr>"

theorem calloc_exact_witness:
  "lu_event_mm_calloc no_fns no_logs 4096 0x100000000 0x100000000 = (0, [Set_errno LU_ERROR_OUT_OF_MEMORY])"
  using calloc_exact [of "0x100000000" "0x100000000" no_fns no_logs 4096] by simp

text \<open>With the default log, the line of every call of the wrappers is written whole and ends
  with a newline, never more than the buffer holds, and it is never the line of a failure, even when the allocation failed.\<close>

theorem memory_log_complete:
  assumes "Call_log lg op q sz \<in> set (snd (mm_run fns logs r req))" "length time_str \<le> 19" "log_file \<noteq> - 1"
  shows "\<exists>line. default_memory_log log_file True time_str errno strerror op q sz = [Write log_file line, Close log_file] \<and>
    line = memory_log_line time_str errno strerror op q sz \<and> length line < 256 \<and> last line = CHR 0x0A \<and> \<not> log_failure op q"
proof -
  from run_logs [OF assms(1)] have op: "op \<in> set logged_ops" and f: "\<not> log_failure op q"
    by (auto simp: log_failure_def)
  note L = line_length [OF assms(2) op f, of errno strerror sz]
  then have "take 255 (memory_log_line time_str errno strerror op q sz) = memory_log_line time_str errno strerror op q sz" by simp
  then show ?thesis using L assms(3) f by (simp add: default_memory_log_def Let_def)
qed

theorem memory_log_complete_witness:
  "\<exists>line. default_memory_log 3 True ''2025-12-13 10:00:00'' 12 (\<lambda>_. ''Cannot allocate memory'') MALLOC_STR 0 64 = [Write 3 line, Close 3] \<and>
     \<not> log_failure MALLOC_STR 0"
proof -
  have "Call_log Default_memory_log MALLOC_STR 0 64 \<in> set (snd (mm_run no_fns (lu_enable_default_memory_logging 1 no_logs) 0 (Malloc 64)))"
    by (simp add: lu_event_mm_malloc_def lu_enable_default_memory_logging_def no_fns_def mm_log_def Let_def)
  from memory_log_complete [OF this, of "''2025-12-13 10:00:00''" 3 12 "\<lambda>_. ''Cannot allocate memory''"] show ?thesis by auto
qed

text \<open>The string that \<open>strdup\<close> copies, with its final 0, fits exactly what it asks for.\<close>

lemma strdup_fits:
  assumes "lu_mm_malloc_fn fns" "length s < LU_SIZE_MAX" "lu_event_mm_strdup fns r (Some s) = (p, cs)" "p \<noteq> 0"
  shows "\<exists>sz. cs = [Call_malloc True sz, Copy_string p s sz] \<and> unat sz = length s + 1"
proof -
  have l: "length s + 1 < 2 ^ 64" using assms(2) by (simp add: LU_SIZE_MAX_def)
  have "unat (word_of_nat (length s + 1) :: c_size_t) = length s + 1"
    by (simp only: unsigned_of_nat) (use l in \<open>simp add: take_bit_nat_eq_self\<close>)
  then show ?thesis using assms by (auto simp: lu_event_mm_strdup_def Let_def split: if_splits intro!: exI [of _ "word_of_nat (length s + 1)"])
qed

section \<open>Findings\<close>

text \<open>A failed allocation is logged as allocated.\<close>

theorem failed_malloc_logged_as_allocated:
  "snd (lu_event_mm_malloc no_fns (lu_enable_default_memory_logging 1 no_logs) 0 64) = [Call_malloc False 64, Call_log Default_memory_log MALLOC_STR 0 64] \<and>
   memory_log_line ''T'' 12 strerror MALLOC_STR 0 64 = log_prefix ''T'' MALLOC_STR 0 @ ''allocated           (size: 64 bytes)'' @ newline"
proof -
  have "fmt_zu 64 = ''64''" by (simp add: fmt_zu_def dec_nat.simps)
  then show ?thesis
    by (simp add: lu_event_mm_malloc_def lu_enable_default_memory_logging_def no_fns_def mm_log_def Let_def memory_log_line_def log_failure_def)
qed

text \<open>An alignment that is no power of two passes the check.\<close>

theorem alignment_24_accepted:
  "lu_event_mm_aligned_malloc no_fns no_logs (22, 0) 64 24 = (0, [Call_memalign False 64 24])"
  by (simp add: lu_event_mm_aligned_malloc_def no_fns_def no_logs_def mm_log_def)

end
