(* ===== verification/LuLog.thy ===== *)
theory LuLog
  imports LuError
begin

text \<open>
  The log of \<open>src/lu_log.c\<close>: its settings and its one handler, the message put together in a buffer of
  1024 bytes, what the two handlers print, the wrappers, and the log file. The state keeps what was
  done, oldest first. A stream is a number, \<open>None\<close> for null. The text that a format gives with its
  arguments, the time and what the file system does are arguments.
\<close>

section \<open>State\<close>

definition LU_EVENT_LOG_LEVEL_DEBUG :: int where "LU_EVENT_LOG_LEVEL_DEBUG = 0"
definition LU_EVENT_LOG_LEVEL_MSG :: int where "LU_EVENT_LOG_LEVEL_MSG = 1"
definition LU_EVENT_LOG_LEVEL_WARN :: int where "LU_EVENT_LOG_LEVEL_WARN = 2"
definition LU_EVENT_LOG_LEVEL_ERROR :: int where "LU_EVENT_LOG_LEVEL_ERROR = 3"
definition LU_EVENT_LOG_LEVEL_FATAL :: int where "LU_EVENT_LOG_LEVEL_FATAL = 4"
definition LU_EVENT_DBG_ALL :: "32 word" where "LU_EVENT_DBG_ALL = 0xffffffff"
definition LU_EVENT_ERROR_ABORT :: int where "LU_EVENT_ERROR_ABORT = 0xdeaddead - 2 ^ 32"

lemmas log_levels = LU_EVENT_LOG_LEVEL_DEBUG_def LU_EVENT_LOG_LEVEL_MSG_def LU_EVENT_LOG_LEVEL_WARN_def
  LU_EVENT_LOG_LEVEL_ERROR_def LU_EVENT_LOG_LEVEL_FATAL_def

definition lu_log_level_strings :: "string list" where
  "lu_log_level_strings = [''DEBUG'', ''MSG'', ''WARN'', ''ERROR'', ''FATAL'']"

definition esc :: "string \<Rightarrow> string" where
  "esc s = CHR 0x1B # s"

definition lu_level_colors :: "string list" where
  "lu_level_colors = map esc [''[36m'', ''[32m'', ''[33m'', ''[31m'', ''[35m'']"

text \<open>The broken-down time is what \<open>strftime\<close> makes of it for each format.\<close>

type_synonym broken_time = "string \<Rightarrow> string"

record lu_log_event_t =
  ev_fmt :: string
  ev_file :: string
  ev_time_info :: "broken_time option"
  ev_data :: "nat option"
  ev_line :: int
  ev_severity :: int

datatype lu_log_handler_t = Lu_file_handler | User_handler nat

datatype log_step =
    Lock | Unlock
  | Fprint nat string
  | Print string
  | Flush nat
  | Handler_call nat lu_log_event_t
  | Log_callback nat int string
  | Fatal_callback nat int
  | Fclose nat

record lu_log_state =
  cfg_severity :: int
  cfg_quiet :: int
  cb_handler :: "lu_log_handler_t option"
  cb_data :: "nat option"
  cb_severity :: int
  debug_mask :: "32 word"
  log_global_fn :: "nat option"
  fatal_global_fn :: "nat option"
  file_log_enabled :: int
  file_log_fp :: "nat option"
  log_trace :: "log_step list"

definition log_state_0 :: lu_log_state where
  "log_state_0 = \<lparr>cfg_severity = 0, cfg_quiet = 0, cb_handler = None, cb_data = None, cb_severity = 0,
     debug_mask = LU_EVENT_DBG_ALL, log_global_fn = None, fatal_global_fn = None, file_log_enabled = 0, file_log_fp = None,
     log_trace = []\<rparr>"

text \<open>How a call ends: it returns, it ends the process, or it does something undefined: a conversion without
  an argument, a write outside the buffer, a level outside the tables, a null stream, a null time, or a buffer that nobody
  has written.\<close>

datatype log_end = Running | Exited int | Aborted | Bad_format | Outside_buffer | Bad_level | Null_stream | Null_time | Unset_path

type_synonym log_run = "lu_log_state \<times> log_end"

definition log_seq :: "log_run \<Rightarrow> (lu_log_state \<Rightarrow> log_run) \<Rightarrow> log_run" where
  "log_seq m f = (case m of (st, e) \<Rightarrow> if e = Running then f st else (st, e))"

definition log_do :: "log_step list \<Rightarrow> lu_log_state \<Rightarrow> lu_log_state" where
  "log_do steps st = st\<lparr>log_trace := log_trace st @ steps\<rparr>"

definition stderr_fp :: nat where "stderr_fp = 2"

section \<open>Settings\<close>

definition lu_event_set_log_callback :: "nat option \<Rightarrow> lu_log_state \<Rightarrow> lu_log_state" where
  "lu_event_set_log_callback f st = st\<lparr>log_global_fn := f\<rparr>"

definition lu_event_enable_debug_logging :: "32 word \<Rightarrow> lu_log_state \<Rightarrow> lu_log_state" where
  "lu_event_enable_debug_logging which_mask st = st\<lparr>debug_mask := which_mask\<rparr>"

definition lu_event_set_fatal_callback :: "nat option \<Rightarrow> lu_log_state \<Rightarrow> lu_log_state" where
  "lu_event_set_fatal_callback f st = st\<lparr>fatal_global_fn := f\<rparr>"

definition lu_log_set_level :: "int \<Rightarrow> lu_log_state \<Rightarrow> lu_log_state" where
  "lu_log_set_level level st = st\<lparr>cfg_severity := level\<rparr>"

definition lu_log_set_quiet :: "int \<Rightarrow> lu_log_state \<Rightarrow> lu_log_state" where
  "lu_log_set_quiet enable st = st\<lparr>cfg_quiet := enable\<rparr>"

definition lu_log_add_handler :: "lu_log_handler_t option \<Rightarrow> nat option \<Rightarrow> int \<Rightarrow> lu_log_state \<Rightarrow> lu_log_state \<times> int" where
  "lu_log_add_handler handler data level st =
     (st\<lparr>cb_handler := handler, cb_data := data, cb_severity := level\<rparr>, 0)"

definition lu_log_add_fp :: "nat option \<Rightarrow> int \<Rightarrow> lu_log_state \<Rightarrow> lu_log_state \<times> int" where
  "lu_log_add_fp fp level st = lu_log_add_handler (Some Lu_file_handler) fp level st"

section \<open>The message\<close>

text \<open>A format with its arguments: null, one for which \<open>vsnprintf\<close> fails and leaves some text in the buffer, or the
  whole text it stands for.\<close>

datatype c_format = Null_format | Failing string | Text string

text \<open>The buffer after the format, and \<open>len\<close>, a \<open>size_t\<close> that takes the result of \<open>vsnprintf\<close>.\<close>

definition log_vsnprintf :: "c_format \<Rightarrow> string \<times> c_size_t" where
  "log_vsnprintf fmt =
     (case fmt of
        Null_format \<Rightarrow> ([], 0)
      | Failing rest \<Rightarrow> (take 1023 rest, - 1)
      | Text t \<Rightarrow> (case lu_evutil_vsnprintf True 1024 (Some t) of (b, ret) \<Rightarrow> (b, word_of_int ret)))"

text \<open>The message of \<open>lu_event_log_logv_\<close>; \<open>None\<close> for a write outside the buffer.\<close>

definition log_logv_message :: "c_format \<Rightarrow> string option \<Rightarrow> string option" where
  "log_logv_message fmt errstr =
     (case log_vsnprintf fmt of
        (b, len) \<Rightarrow>
          (case errstr of
             None \<Rightarrow> Some b
           | Some e \<Rightarrow>
               if len + word_of_nat (length e) + 2 < 1024
               then if unat len > 1024 then None
                    else Some (take (unat len) b @ fst (lu_evutil_snprintf True (1024 - unat len) (Some ('': '' @ e))))
               else Some b))"

text \<open>The message of \<open>lu_event_logv_\<close>, which measures the text instead.\<close>

definition logv_message :: "c_format \<Rightarrow> string option \<Rightarrow> string" where
  "logv_message fmt errstr =
     (let b = fst (log_vsnprintf fmt)
      in case errstr of
           None \<Rightarrow> b
         | Some e \<Rightarrow> if length b < 1023 then b @ fst (lu_evutil_snprintf True (1024 - length b) (Some ('': '' @ e))) else b)"

section \<open>Handlers\<close>

text \<open>A format printed without arguments: only \<open>%%\<close> needs none.\<close>

fun fmt_expand :: "string \<Rightarrow> string option" where
  "fmt_expand [] = Some []"
| "fmt_expand [c] = (if c = CHR ''%'' then None else Some [c])"
| "fmt_expand (c # d # cs) =
     (if c = CHR ''%'' then if d = CHR ''%'' then map_option ((#) c) (fmt_expand cs) else None
      else map_option ((#) c) (fmt_expand (d # cs)))"

definition strftime :: "nat \<Rightarrow> string \<Rightarrow> broken_time \<Rightarrow> string" where
  "strftime sz fmt tm = (if length (tm fmt) < sz then tm fmt else [])"

text \<open>The conversion \<open>%-5s\<close>.\<close>

definition pad5 :: "string \<Rightarrow> string" where
  "pad5 s = s @ replicate (5 - length s) CHR '' ''"

definition level_ok :: "int \<Rightarrow> bool" where
  "level_ok severity \<longleftrightarrow> 0 \<le> severity \<and> severity < int (length lu_log_level_strings)"

text \<open>The end of both handlers: the message, a newline and the flush.\<close>

definition print_message :: "nat \<Rightarrow> string \<Rightarrow> lu_log_event_t \<Rightarrow> lu_log_state \<Rightarrow> log_run" where
  "print_message fp head ev st =
     (case fmt_expand (ev_fmt ev) of
        None \<Rightarrow> (log_do [Fprint fp head] st, Bad_format)
      | Some m \<Rightarrow> (log_do [Fprint fp head, Fprint fp m, Fprint fp [CHR 0x0A], Flush fp] st, Running))"

definition stdout_head :: "bool \<Rightarrow> broken_time \<Rightarrow> lu_log_event_t \<Rightarrow> string" where
  "stdout_head tty tm ev =
     (let buf = strftime 32 ''%H:%M:%S'' tm; i = nat (ev_severity ev)
      in if tty
         then buf @ '' '' @ lu_level_colors ! i @ pad5 (lu_log_level_strings ! i) @ esc ''[0m '' @ esc ''[90m'' @
              ev_file ev @ '':'' @ dec_int (ev_line ev) @ '':'' @ esc ''[0m ''
         else buf @ '' '' @ pad5 (lu_log_level_strings ! i) @ '' '' @ ev_file ev @ '':'' @ dec_int (ev_line ev) @ '': '')"

definition lu_stdout_handler :: "(nat \<Rightarrow> bool) \<Rightarrow> lu_log_event_t \<Rightarrow> lu_log_state \<Rightarrow> log_run" where
  "lu_stdout_handler isatty ev st =
     (case ev_time_info ev of
        None \<Rightarrow> (st, Null_time)
      | Some tm \<Rightarrow>
          (case ev_data ev of
             None \<Rightarrow> (st, Null_stream)
           | Some fp \<Rightarrow> if level_ok (ev_severity ev) then print_message fp (stdout_head (isatty fp) tm ev) ev st else (st, Bad_level)))"

definition file_head :: "broken_time \<Rightarrow> lu_log_event_t \<Rightarrow> string" where
  "file_head tm ev =
     strftime 64 ''%Y-%m-%d %H:%M:%S'' tm @ '' '' @ pad5 (lu_log_level_strings ! nat (ev_severity ev)) @ '' '' @
     ev_file ev @ '':'' @ dec_int (ev_line ev) @ '': ''"

definition lu_file_handler :: "lu_log_event_t \<Rightarrow> lu_log_state \<Rightarrow> log_run" where
  "lu_file_handler ev st =
     (case ev_time_info ev of
        None \<Rightarrow> (st, Null_time)
      | Some tm \<Rightarrow>
          (case ev_data ev of
             None \<Rightarrow> (st, Null_stream)
           | Some fp \<Rightarrow> if level_ok (ev_severity ev) then print_message fp (file_head tm ev) ev st else (st, Bad_level)))"

definition run_handler :: "lu_log_handler_t \<Rightarrow> lu_log_event_t \<Rightarrow> lu_log_state \<Rightarrow> log_run" where
  "run_handler h ev st =
     (case h of Lu_file_handler \<Rightarrow> lu_file_handler ev st | User_handler n \<Rightarrow> (log_do [Handler_call n ev] st, Running))"

text \<open>\<open>lt\<close> is what \<open>localtime_r\<close> gives, \<open>None\<close> when it fails.\<close>

definition lu_init_event :: "broken_time option \<Rightarrow> lu_log_event_t \<Rightarrow> nat option \<Rightarrow> lu_log_state \<Rightarrow> lu_log_event_t \<times> lu_log_state" where
  "lu_init_event lt ev data st =
     (case lt of
        None \<Rightarrow> (ev, log_do [Fprint stderr_fp (''Error: localtime_r failed, check TZ environment variable.'' @ [CHR 0x0A])] st)
      | Some tm \<Rightarrow>
          (ev\<lparr>ev_time_info := Some tm, ev_data := data\<rparr>,
           if data = None then log_do [Fprint stderr_fp (''Warning: data pointer is NULL.'' @ [CHR 0x0A])] st else st))"

section \<open>Logging\<close>

text \<open>The surroundings of one call: the terminals and the two answers of \<open>localtime_r\<close>.\<close>

record log_env =
  env_isatty :: "nat \<Rightarrow> bool"
  env_time1 :: "broken_time option"
  env_time2 :: "broken_time option"

text \<open>The two outputs, between the lock and the unlock.\<close>

definition log_outputs :: "log_env \<Rightarrow> lu_log_event_t \<Rightarrow> lu_log_state \<Rightarrow> log_run" where
  "log_outputs env ev0 st0 =
     (let sev = ev_severity ev0;
          to_stderr = (cfg_quiet st0 = 0 \<and> sev \<ge> cfg_severity st0);
          (ev1, st1) = (if to_stderr then lu_init_event (env_time1 env) ev0 (Some stderr_fp) st0 else (ev0, st0))
      in log_seq (if to_stderr then lu_stdout_handler (env_isatty env) ev1 st1 else (st1, Running))
           (\<lambda>st2. case cb_handler st2 of
              None \<Rightarrow> (st2, Running)
            | Some h \<Rightarrow>
                if sev \<ge> cb_severity st2
                then (case lu_init_event (env_time2 env) ev1 (cb_data st2) st2 of (ev2, st3) \<Rightarrow> run_handler h ev2 st3)
                else (st2, Running)))"

definition lu_event_log_logv ::
    "log_env \<Rightarrow> int \<Rightarrow> string option \<Rightarrow> string \<Rightarrow> int \<Rightarrow> c_format \<Rightarrow> lu_log_state \<Rightarrow> log_run" where
  "lu_event_log_logv env severity errstr file line fmt st =
     (if severity = LU_EVENT_LOG_LEVEL_DEBUG \<and> debug_mask st = 0
      then (log_do [Print (''DEBUG logging is disabled is '' @ dec_int (sint (debug_mask st)) @ [CHR 0x0A])] st, Running)
      else
        (case log_logv_message fmt errstr of
           None \<Rightarrow> (st, Outside_buffer)
         | Some buff \<Rightarrow>
             log_seq (log_outputs env \<lparr>ev_fmt = buff, ev_file = file, ev_time_info = None, ev_data = None, ev_line = line, ev_severity = severity\<rparr>
                        (log_do [Lock] st))
               (\<lambda>st1. (log_do [Unlock] st1, Running))))"

definition log_severity_name :: "int \<Rightarrow> string" where
  "log_severity_name severity =
     (if severity = LU_EVENT_LOG_LEVEL_DEBUG then ''DEBUG'' else if severity = LU_EVENT_LOG_LEVEL_MSG then ''MSG''
      else if severity = LU_EVENT_LOG_LEVEL_WARN then ''WARN'' else if severity = LU_EVENT_LOG_LEVEL_ERROR then ''ERROR''
      else ''UNKNOWN_LEVEL'')"

definition lu_event_log :: "int \<Rightarrow> string \<Rightarrow> lu_log_state \<Rightarrow> lu_log_state" where
  "lu_event_log severity msg st =
     (case log_global_fn st of
        Some f \<Rightarrow> log_do [Log_callback f severity msg] st
      | None \<Rightarrow> log_do [Fprint stderr_fp (''['' @ log_severity_name severity @ ''] '' @ msg @ [CHR 0x0A])] st)"

definition lu_event_logv :: "int \<Rightarrow> string option \<Rightarrow> c_format \<Rightarrow> lu_log_state \<Rightarrow> lu_log_state" where
  "lu_event_logv severity errstr fmt st =
     (if LU_EVENT_LOG_LEVEL_DEBUG = severity \<and> debug_mask st = 0 then st
      else lu_event_log severity (logv_message fmt errstr) st)"

definition lu_event_exit :: "int \<Rightarrow> lu_log_state \<Rightarrow> log_run" where
  "lu_event_exit errcode st =
     (case fatal_global_fn st of
        Some f \<Rightarrow> (log_do [Fatal_callback f errcode] st, Exited errcode)
      | None \<Rightarrow> (st, if errcode = LU_EVENT_ERROR_ABORT then Aborted else Exited errcode))"

section \<open>The wrappers\<close>

definition lu_event_error :: "(int \<Rightarrow> string) \<Rightarrow> int \<Rightarrow> c_format \<Rightarrow> lu_log_state \<Rightarrow> lu_log_state" where
  "lu_event_error strerror errnum fmt st = lu_event_logv LU_EVENT_LOG_LEVEL_ERROR (Some (strerror errnum)) fmt st"

definition lu_event_fatal :: "log_env \<Rightarrow> string \<Rightarrow> int \<Rightarrow> c_format \<Rightarrow> lu_log_state \<Rightarrow> log_run" where
  "lu_event_fatal env file line fmt st = lu_event_log_logv env LU_EVENT_LOG_LEVEL_FATAL None file line fmt st"

definition lu_event_errorv :: "log_env \<Rightarrow> string \<Rightarrow> int \<Rightarrow> c_format \<Rightarrow> lu_log_state \<Rightarrow> log_run" where
  "lu_event_errorv env file line fmt st = lu_event_log_logv env LU_EVENT_LOG_LEVEL_ERROR None file line fmt st"

definition lu_event_warn :: "log_env \<Rightarrow> string \<Rightarrow> int \<Rightarrow> c_format \<Rightarrow> lu_log_state \<Rightarrow> log_run" where
  "lu_event_warn env file line fmt st = lu_event_log_logv env LU_EVENT_LOG_LEVEL_WARN None file line fmt st"

definition lu_event_warnx :: "log_env \<Rightarrow> string \<Rightarrow> int \<Rightarrow> c_format \<Rightarrow> lu_log_state \<Rightarrow> log_run" where
  "lu_event_warnx env file line fmt st = lu_event_log_logv env LU_EVENT_LOG_LEVEL_WARN None file line fmt st"

definition lu_event_msgx :: "log_env \<Rightarrow> string \<Rightarrow> int \<Rightarrow> c_format \<Rightarrow> lu_log_state \<Rightarrow> log_run" where
  "lu_event_msgx env file line fmt st = lu_event_log_logv env LU_EVENT_LOG_LEVEL_MSG None file line fmt st"

definition lu_event_debugx :: "log_env \<Rightarrow> string \<Rightarrow> int \<Rightarrow> c_format \<Rightarrow> lu_log_state \<Rightarrow> log_run" where
  "lu_event_debugx env file line fmt st = lu_event_log_logv env LU_EVENT_LOG_LEVEL_DEBUG None file line fmt st"

definition lu_event_errorv_u :: "log_env \<Rightarrow> string \<Rightarrow> int \<Rightarrow> c_format \<Rightarrow> lu_log_state \<Rightarrow> log_run" where
  "lu_event_errorv_u env file line fmt st = lu_event_log_logv env LU_EVENT_LOG_LEVEL_ERROR None file line fmt st"

definition lu_event_errorx ::
    "log_env \<Rightarrow> (int \<Rightarrow> string) \<Rightarrow> int \<Rightarrow> string \<Rightarrow> int \<Rightarrow> c_format \<Rightarrow> lu_log_state \<Rightarrow> log_run" where
  "lu_event_errorx env strerror eval file line fmt st =
     log_seq (lu_event_log_logv env LU_EVENT_LOG_LEVEL_ERROR (Some (strerror eval)) file line fmt st) (lu_event_exit eval)"

text \<open>The report of a failed assertion. The format is printed with its arguments before it is logged; the file
  and the line of the log are those of the call in \<open>lu_util.c\<close>. The error logged with it ends the process, so
  \<open>abort\<close> after it would only run if \<open>lu_event_errorx\<close> returned.\<close>

definition lu_evutil_assert_impl ::
    "log_env \<Rightarrow> (int \<Rightarrow> string) \<Rightarrow> string \<Rightarrow> string \<Rightarrow> int \<Rightarrow> string \<Rightarrow> string \<Rightarrow> lu_log_state \<Rightarrow> log_run" where
  "lu_evutil_assert_impl env strerror this_file file line cond func st =
     log_seq
       (lu_event_errorx env strerror LU_EVENT_ERROR_ABORT this_file 54
          (Text (file @ '':'' @ dec_int line @ '': Assertion '' @ cond @ '' failed in '' @ func))
          (log_do [Fprint stderr_fp (''Assertion '' @ cond @ '' failed in '' @ file @ '':'' @ dec_int line @ [CHR 0x0A])] st))
       (\<lambda>st1. (st1, Aborted))"

definition event_debug :: "log_env \<Rightarrow> string \<Rightarrow> int \<Rightarrow> c_format \<Rightarrow> lu_log_state \<Rightarrow> log_run" where
  "event_debug env file line fmt st = (if debug_mask st \<noteq> 0 then lu_event_debugx env file line fmt st else (st, Running))"

text \<open>The socket wrappers look the error of the socket up in the cache of error strings, which they also change.\<close>

record sock_log_env =
  sl_raw :: "rbptr \<Rightarrow> lu_cached_sock_errs_entry_t lu_rb_tree_node_t"
  sl_strerror :: "int \<Rightarrow> string"
  sl_alloc :: sock_err_env
  sl_errno :: int
  sl_sockopt :: "int \<Rightarrow> int + int"

definition log_socket ::
    "int \<Rightarrow> log_env \<Rightarrow> sock_log_env \<Rightarrow> int \<Rightarrow> string \<Rightarrow> int \<Rightarrow> c_format \<Rightarrow> lu_cached_sock_errs_entry_t lu_hash_table_t \<Rightarrow>
     lu_log_state \<Rightarrow> (lu_cached_sock_errs_entry_t lu_hash_table_t \<times> log_run) option" where
  "log_socket severity env senv sock file line fmt h st =
     map_option (\<lambda>(ops, h', msg). (h', lu_event_log_logv env severity msg file line fmt st))
       (lu_evutil_socket_error_to_string (sl_raw senv) (sl_strerror senv) (sl_alloc senv)
          (lu_evutil_socket_geterror (sl_errno senv) (sl_sockopt senv) sock) h)"

definition lu_event_sock_error ::
    "log_env \<Rightarrow> sock_log_env \<Rightarrow> int \<Rightarrow> int \<Rightarrow> string \<Rightarrow> int \<Rightarrow> c_format \<Rightarrow> lu_cached_sock_errs_entry_t lu_hash_table_t \<Rightarrow>
     lu_log_state \<Rightarrow> (lu_cached_sock_errs_entry_t lu_hash_table_t \<times> log_run) option" where
  "lu_event_sock_error env senv eval sock file line fmt h st =
     map_option (\<lambda>(h', r). (h', log_seq r (lu_event_exit eval))) (log_socket LU_EVENT_LOG_LEVEL_ERROR env senv sock file line fmt h st)"

definition lu_event_sock_warn ::
    "log_env \<Rightarrow> sock_log_env \<Rightarrow> int \<Rightarrow> string \<Rightarrow> int \<Rightarrow> c_format \<Rightarrow> lu_cached_sock_errs_entry_t lu_hash_table_t \<Rightarrow>
     lu_log_state \<Rightarrow> (lu_cached_sock_errs_entry_t lu_hash_table_t \<times> log_run) option" where
  "lu_event_sock_warn env senv sock file line fmt h st = log_socket LU_EVENT_LOG_LEVEL_WARN env senv sock file line fmt h st"

section \<open>The log file\<close>

text \<open>What \<open>lu_evutil_get_directory\<close> leaves in the buffer it is given, \<open>None\<close> when it does not write it.\<close>

definition directory_buffer :: "string \<Rightarrow> nat \<Rightarrow> string option" where
  "directory_buffer filename sz = (if has_slash filename then lu_evutil_get_directory filename sz else None)"

text \<open>\<open>fopen\<close> is asked in the file system as it is after the directories are made.\<close>

definition open_file_log :: "('fs \<Rightarrow> string \<Rightarrow> nat option) \<Rightarrow> string \<Rightarrow> int \<Rightarrow> 'fs \<Rightarrow> lu_log_state \<Rightarrow> 'fs \<times> log_run" where
  "open_file_log fopen filename level fs st =
     (let fp = fopen fs filename;
          st1 = fst (lu_log_add_fp fp level (st\<lparr>file_log_fp := fp\<rparr>));
          st2 = log_do [Print (''[ INFO ] Enable file logging to '' @ filename @ '' with level '' @ lu_log_level_strings ! nat level @
                  [CHR 0x0A])] st1
      in (fs, st2\<lparr>file_log_enabled := 1\<rparr>, Running))"

definition lu_enable_default_file_logging ::
    "('fs \<Rightarrow> string \<Rightarrow> bool) \<Rightarrow> ('fs \<Rightarrow> string \<Rightarrow> 'fs \<times> int option) \<Rightarrow> ('fs \<Rightarrow> string \<Rightarrow> nat option) \<Rightarrow>
     string option \<Rightarrow> int \<Rightarrow> 'fs \<Rightarrow> lu_log_state \<Rightarrow> 'fs \<times> log_run" where
  "lu_enable_default_file_logging stat_ok mkdir fopen filename level0 fs st =
     (let level = (if level0 < LU_EVENT_LOG_LEVEL_DEBUG \<or> level0 > LU_EVENT_LOG_LEVEL_ERROR then LU_EVENT_LOG_LEVEL_DEBUG else level0)
      in case filename of
           Some f \<Rightarrow>
             if lu_evutil_check_contain_directory (Some f) \<noteq> 0
             then (case directory_buffer f 1024 of
                     None \<Rightarrow> (fs, st, Unset_path)
                   | Some path \<Rightarrow>
                       (case lu_evutil_create_dictionay stat_ok mkdir fs path of
                          (fs1, ret) \<Rightarrow>
                            if ret \<noteq> 0
                            then (fs1, log_do [Print (''Error: create dictionary failed ret['' @ dec_int ret @ ''] str ['' @
                                    (case lu_get_error_string ret of Ret (Some s) \<Rightarrow> s | _ \<Rightarrow> ''(null)'') @ '']'' @ [CHR 0x0A])] st, Running)
                            else open_file_log fopen f level fs1 st))
             else open_file_log fopen f level fs st
         | None \<Rightarrow>
             (case lu_evutil_create_dictionay stat_ok mkdir fs ''./log/'' of
                (fs1, ret) \<Rightarrow>
                  if ret \<noteq> 0
                  then (fs1, log_do [Print (''Error: create dictionary failed ret['' @ dec_int ret @ '']'' @ [CHR 0x0A])] st, Running)
                  else open_file_log fopen ''./log/lu_event.log'' level fs1 st))"

definition init_default_file_log ::
    "('fs \<Rightarrow> string \<Rightarrow> bool) \<Rightarrow> ('fs \<Rightarrow> string \<Rightarrow> 'fs \<times> int option) \<Rightarrow> ('fs \<Rightarrow> string \<Rightarrow> nat option) \<Rightarrow>
     'fs \<Rightarrow> lu_log_state \<Rightarrow> 'fs \<times> log_run" where
  "init_default_file_log stat_ok mkdir fopen fs st =
     (if file_log_enabled st \<noteq> 0
      then lu_enable_default_file_logging stat_ok mkdir fopen None LU_EVENT_LOG_LEVEL_DEBUG fs st else (fs, st, Running))"

definition destroy_default_file_log :: "lu_log_state \<Rightarrow> log_run" where
  "destroy_default_file_log st =
     (if file_log_enabled st \<noteq> 0
      then (case file_log_fp st of
              None \<Rightarrow> (st, Null_stream)
            | Some fp \<Rightarrow> ((log_do [Fclose fp] st)\<lparr>file_log_enabled := 0\<rparr>, Running))
      else (st, Running))"

end
