(* ===== verification/LuLogProps.thy ===== *)
theory LuLogProps
  imports LuLog
begin

text \<open>
  What the log promises: the message never leaves its buffer when \<open>vsnprintf\<close> works, each message goes to
  standard error and to the handler exactly when its severity says so, between a lock and an unlock, and a message reaches
  the log file once it is enabled.
\<close>

section \<open>The message\<close>

text \<open>The message as it should be: the text cut to the buffer, and the error string if both fit.\<close>

definition log_text :: "string \<Rightarrow> string option \<Rightarrow> string" where
  "log_text t errstr = take 1023 t @
     (case errstr of None \<Rightarrow> [] | Some e \<Rightarrow> if length t + length e + 2 < 1024 then '': '' @ e else [])"

lemma log_text_length: "length (log_text t errstr) < 1024"
  by (auto simp: log_text_def split: option.splits)

lemma unat_small64: "n < 2 ^ 64 \<Longrightarrow> unat (word_of_nat n :: c_size_t) = n"
  by (simp only: unsigned_of_nat) (simp add: take_bit_nat_eq_self)

lemma log_vsnprintf_text: "log_vsnprintf (Text t) = (take 1023 t, word_of_nat (length t))"
  by (simp add: log_vsnprintf_def lu_evutil_vsnprintf_def)

lemma room_check:
  assumes "length t < 2 ^ 31" "length e < 2 ^ 63"
  shows "(word_of_nat (length t) + word_of_nat (length e) + 2 :: c_size_t) < 1024 \<longleftrightarrow> length t + length e + 2 < 1024"
proof -
  have "(word_of_nat (length t) + word_of_nat (length e) + 2 :: c_size_t) = word_of_nat (length t + length e + 2)" by simp
  moreover have "unat (word_of_nat (length t + length e + 2) :: c_size_t) = length t + length e + 2"
    using assms by (intro unat_small64) simp
  ultimately show ?thesis by (simp only: word_less_nat_alt) simp
qed

lemma log_logv_message_text:
  assumes "length t < 2 ^ 31" "\<And>e. errstr = Some e \<Longrightarrow> length e < 2 ^ 63"
  shows "log_logv_message (Text t) errstr = Some (log_text t errstr)"
proof (cases errstr)
  case None
  then show ?thesis by (simp add: log_logv_message_def log_vsnprintf_text log_text_def)
next
  case (Some e)
  have l: "unat (word_of_nat (length t) :: c_size_t) = length t" using assms(1) by (intro unat_small64) simp
  show ?thesis
  proof (cases "length t + length e + 2 < 1024")
    case True
    then show ?thesis using room_check [OF assms(1) assms(2) [OF Some]]
      by (simp add: Some log_logv_message_def log_vsnprintf_text log_text_def l lu_evutil_snprintf_def lu_evutil_vsnprintf_def)
  next
    case False
    then show ?thesis using room_check [OF assms(1) assms(2) [OF Some]]
      by (simp add: Some log_logv_message_def log_vsnprintf_text log_text_def)
  qed
qed

lemma log_logv_message_null:
  assumes "\<And>e. errstr = Some e \<Longrightarrow> length e < 2 ^ 63"
  shows "log_logv_message Null_format errstr = Some (log_text [] errstr)"
proof -
  have "log_vsnprintf Null_format = log_vsnprintf (Text [])" by (simp add: log_vsnprintf_def lu_evutil_vsnprintf_def)
  then have "log_logv_message Null_format errstr = log_logv_message (Text []) errstr" by (simp only: log_logv_message_def)
  then show ?thesis using log_logv_message_text [of "[]" errstr] assms by simp
qed

section \<open>The outputs\<close>

lemma log_do_fields [simp]:
  "cfg_quiet (log_do ss st) = cfg_quiet st" "cfg_severity (log_do ss st) = cfg_severity st" "cb_handler (log_do ss st) = cb_handler st"
  "cb_data (log_do ss st) = cb_data st" "cb_severity (log_do ss st) = cb_severity st" "debug_mask (log_do ss st) = debug_mask st"
  "log_trace (log_do ss st) = log_trace st @ ss" "log_do ss (log_do ts st) = log_do (ts @ ss) st" "log_do [] st = st"
  by (simp_all add: log_do_def)

definition printed :: "nat \<Rightarrow> string \<Rightarrow> string \<Rightarrow> log_step list" where
  "printed fp head m = [Fprint fp head, Fprint fp m, Fprint fp [CHR 0x0A], Flush fp]"

text \<open>What goes to standard error and to the handler for the event \<open>ev\<close>, whose message prints as \<open>m\<close>.\<close>

definition stderr_part :: "log_env \<Rightarrow> broken_time \<Rightarrow> lu_log_event_t \<Rightarrow> string \<Rightarrow> lu_log_state \<Rightarrow> log_step list" where
  "stderr_part env tm ev m st =
     (if cfg_quiet st = 0 \<and> ev_severity ev \<ge> cfg_severity st then printed stderr_fp (stdout_head (env_isatty env stderr_fp) tm ev) m else [])"

definition handler_part :: "broken_time \<Rightarrow> nat \<Rightarrow> lu_log_event_t \<Rightarrow> string \<Rightarrow> lu_log_state \<Rightarrow> log_step list" where
  "handler_part tm fp ev m st =
     (case cb_handler st of
        None \<Rightarrow> []
      | Some h \<Rightarrow>
          if ev_severity ev \<ge> cb_severity st
          then (case h of
                  User_handler n \<Rightarrow> [Handler_call n (ev\<lparr>ev_time_info := Some tm, ev_data := Some fp\<rparr>)]
                | Lu_file_handler \<Rightarrow> printed fp (file_head tm ev) m)
          else [])"

lemma heads_fields [simp]:
  "stdout_head tty tm (ev\<lparr>ev_time_info := x, ev_data := y\<rparr>) = stdout_head tty tm ev"
  "file_head tm (ev\<lparr>ev_time_info := x, ev_data := y\<rparr>) = file_head tm ev"
  by (simp_all add: stdout_head_def file_head_def Let_def)

lemma stdout_handler_ok:
  assumes "fmt_expand (ev_fmt ev) = Some m" "level_ok (ev_severity ev)"
  shows "lu_stdout_handler tty (ev\<lparr>ev_time_info := Some tm, ev_data := Some fp\<rparr>) st = (log_do (printed fp (stdout_head (tty fp) tm ev) m) st, Running)"
  using assms by (simp add: lu_stdout_handler_def print_message_def printed_def)

lemma run_handler_ok:
  assumes "fmt_expand (ev_fmt ev) = Some m" "level_ok (ev_severity ev)"
  shows "run_handler h (ev\<lparr>ev_time_info := Some tm, ev_data := Some fp\<rparr>) st =
    (log_do (case h of User_handler n \<Rightarrow> [Handler_call n (ev\<lparr>ev_time_info := Some tm, ev_data := Some fp\<rparr>)]
                     | Lu_file_handler \<Rightarrow> printed fp (file_head tm ev) m) st, Running)"
  using assms by (cases h) (simp_all add: run_handler_def lu_file_handler_def print_message_def printed_def)

lemma log_outputs_ok:
  assumes m: "fmt_expand (ev_fmt ev) = Some m" and l: "level_ok (ev_severity ev)"
    and t: "env_time1 env = Some tm1" "env_time2 env = Some tm2" and fp: "cb_data st = Some fp"
  shows "log_outputs env ev st = (log_do (stderr_part env tm1 ev m st @ handler_part tm2 fp ev m st) st, Running)"
proof (cases "cfg_quiet st = 0 \<and> ev_severity ev \<ge> cfg_severity st")
  case True
  let ?ev1 = "ev\<lparr>ev_time_info := Some tm1, ev_data := Some stderr_fp\<rparr>"
  have i1: "lu_init_event (env_time1 env) ev (Some stderr_fp) st = (?ev1, st)" by (simp add: lu_init_event_def t)
  have i2: "lu_init_event (env_time2 env) ?ev1 (cb_data st) st' = (ev\<lparr>ev_time_info := Some tm2, ev_data := Some fp\<rparr>, st')" for st'
    by (simp add: lu_init_event_def t fp)
  show ?thesis using True i2
    by (cases "cb_handler st")
      (simp_all add: log_outputs_def i1 stdout_handler_ok [OF m l] run_handler_ok [OF m l] log_seq_def stderr_part_def handler_part_def Let_def)
next
  case False
  then have e: "(cfg_quiet st = 0 \<and> ev_severity ev \<ge> cfg_severity st) = False" by simp
  have i2: "lu_init_event (env_time2 env) ev (cb_data st) st = (ev\<lparr>ev_time_info := Some tm2, ev_data := Some fp\<rparr>, st)"
    by (simp add: lu_init_event_def t fp)
  have "log_outputs env ev st = (case cb_handler st of None \<Rightarrow> (st, Running)
      | Some h \<Rightarrow> if ev_severity ev \<ge> cb_severity st then run_handler h (ev\<lparr>ev_time_info := Some tm2, ev_data := Some fp\<rparr>) st else (st, Running))"
    unfolding log_outputs_def Let_def e i2 [symmetric] by (cases "cb_handler st") (simp_all add: log_seq_def i2)
  then show ?thesis unfolding stderr_part_def e by (simp add: run_handler_ok [OF m l] handler_part_def split: option.split)
qed

section \<open>Properties\<close>



text \<open>The whole of a call, lock to unlock.\<close>

lemma log_filtered_aux:
  assumes "level_ok severity" "severity = LU_EVENT_LOG_LEVEL_DEBUG \<longrightarrow> debug_mask st \<noteq> 0"
    and "length t < 2 ^ 31" "\<forall>e. errstr = Some e \<longrightarrow> length e < 2 ^ 63" "fmt_expand (log_text t errstr) = Some m"
    and "env_time1 env = Some tm1" "env_time2 env = Some tm2" "cb_data st = Some fp"
    and "ev = \<lparr>ev_fmt = log_text t errstr, ev_file = file, ev_time_info = None, ev_data = None, ev_line = line, ev_severity = severity\<rparr>"
  shows "lu_event_log_logv env severity errstr file line (Text t) st =
    (log_do ([Lock] @ stderr_part env tm1 ev m st @ handler_part tm2 fp ev m st @ [Unlock]) st, Running)"
proof -
  have msg: "log_logv_message (Text t) errstr = Some (log_text t errstr)" using assms(3,4) by (intro log_logv_message_text) auto
  have f: "ev_fmt ev = log_text t errstr" "ev_severity ev = severity" by (simp_all add: assms(9))
  have p: "stderr_part env tm1 ev m (log_do [Lock] st) = stderr_part env tm1 ev m st"
    "handler_part tm2 fp ev m (log_do [Lock] st) = handler_part tm2 fp ev m st"
    by (simp_all add: stderr_part_def handler_part_def split: option.split)
  have "log_outputs env ev (log_do [Lock] st) =
      (log_do (stderr_part env tm1 ev m st @ handler_part tm2 fp ev m st) (log_do [Lock] st), Running)"
    using log_outputs_ok [of ev m env tm1 tm2 "log_do [Lock] st" fp, unfolded p] f assms(1,5-8) by simp
  then have o: "log_outputs env \<lparr>ev_fmt = log_text t errstr, ev_file = file, ev_time_info = None, ev_data = None, ev_line = line,
      ev_severity = severity\<rparr> (log_do [Lock] st) = (log_do (stderr_part env tm1 ev m st @ handler_part tm2 fp ev m st) (log_do [Lock] st), Running)"
    by (simp only: assms(9))
  have d: "(severity = LU_EVENT_LOG_LEVEL_DEBUG \<and> debug_mask st = 0) = False" using assms(2) by auto
  show ?thesis unfolding lu_event_log_logv_def msg d if_False option.case o by (simp add: log_seq_def)
qed


definition demo_time :: broken_time where
  "demo_time f = ''10:00:00''"

definition demo_log_env :: log_env where
  "demo_log_env = \<lparr>env_isatty = (\<lambda>_. False), env_time1 = Some demo_time, env_time2 = Some demo_time\<rparr>"

definition demo_log_state :: lu_log_state where
  "demo_log_state = log_state_0\<lparr>cfg_severity := 2, cb_handler := Some Lu_file_handler, cb_data := Some 7, cb_severity := 1\<rparr>"


text \<open>The log file, once it is open: what enabling it leaves.\<close>

lemma enable_file_state:
  assumes "lu_enable_default_file_logging stat_ok mkdir fopen name level fs st = (fs', st1, Running)"
    and "file_log_enabled st = 0" "file_log_enabled st1 = 1" "file_log_fp st1 = Some fp"
  shows "cb_handler st1 = Some Lu_file_handler \<and> cb_data st1 = Some fp \<and> debug_mask st1 = debug_mask st \<and>
    (level_ok severity \<and> level \<le> severity \<longrightarrow> cb_severity st1 \<le> severity)"
proof -
  define lv where "lv = (if level < LU_EVENT_LOG_LEVEL_DEBUG \<or> level > LU_EVENT_LOG_LEVEL_ERROR then LU_EVENT_LOG_LEVEL_DEBUG else level)"
  have o: "cb_handler st2 = Some Lu_file_handler \<and> cb_data st2 = file_log_fp st2 \<and> debug_mask st2 = debug_mask st \<and> cb_severity st2 = lv"
    if "open_file_log fopen f lv fs2 st = (fs3, st2, e)" for f fs2 fs3 st2 e
    using that by (auto simp: open_file_log_def lu_log_add_fp_def lu_log_add_handler_def Let_def log_do_def)
  have no: "file_log_enabled (log_do ss st) = 0" for ss using assms(2) by (simp add: log_do_def)
  have "\<exists>f fs2. open_file_log fopen f lv fs2 st = (fs', st1, Running)"
    using assms(1,3) no unfolding lu_enable_default_file_logging_def lv_def [symmetric] Let_def
    by (auto split: option.splits prod.splits if_splits)
  then have "cb_handler st1 = Some Lu_file_handler \<and> cb_data st1 = file_log_fp st1 \<and> debug_mask st1 = debug_mask st \<and> cb_severity st1 = lv"
    using o by blast
  moreover have "level_ok severity \<and> level \<le> severity \<longrightarrow> lv \<le> severity" by (auto simp: lv_def log_levels level_ok_def)
  ultimately show ?thesis using assms(4) by simp
qed



section \<open>Ending the process\<close>

text \<open>The wrappers that exit never return.\<close>

lemma exit_not_running: "snd (lu_event_exit code st) \<noteq> Running"
  by (simp add: lu_event_exit_def split: option.split)

lemma log_seq_exit: "snd (log_seq r (lu_event_exit code)) \<noteq> Running"
  using exit_not_running by (cases r) (auto simp: log_seq_def)

lemma errorx_never_returns: "snd (lu_event_errorx env strerror code file line fmt st) \<noteq> Running"
  by (simp add: lu_event_errorx_def log_seq_exit)

text \<open>Nor does a failed assertion: \<open>abort\<close> after the error is never reached. Without a fatal callback the exit
  aborts; a fatal callback turns it into an exit with the code of the abort.\<close>

lemma log_seq_stopped: "snd r \<noteq> Running \<Longrightarrow> log_seq r f = r"
  by (cases r) (simp add: log_seq_def)

lemma assert_abort_unreachable:
  "lu_evutil_assert_impl env strerror here file line cond func st =
     lu_event_errorx env strerror LU_EVENT_ERROR_ABORT here 54
       (Text (file @ '':'' @ dec_int line @ '': Assertion '' @ cond @ '' failed in '' @ func))
       (log_do [Fprint stderr_fp (''Assertion '' @ cond @ '' failed in '' @ file @ '':'' @ dec_int line @ [CHR 0x0A])] st)"
  unfolding lu_evutil_assert_impl_def by (rule log_seq_stopped) (rule errorx_never_returns)

lemma assert_never_returns: "snd (lu_evutil_assert_impl env strerror here file line cond func st) \<noteq> Running"
  unfolding assert_abort_unreachable by (rule errorx_never_returns)

lemma failed_assertion_ends:
  assumes "snd (lu_event_log_logv env LU_EVENT_LOG_LEVEL_ERROR (Some (strerror LU_EVENT_ERROR_ABORT)) here 54
      (Text (file @ '':'' @ dec_int line @ '': Assertion '' @ cond @ '' failed in '' @ func))
      (log_do [Fprint stderr_fp (''Assertion '' @ cond @ '' failed in '' @ file @ '':'' @ dec_int line @ [CHR 0x0A])] st)) = Running"
  shows "snd (lu_evutil_assert_impl env strerror here file line cond func st) \<in> {Aborted, Exited LU_EVENT_ERROR_ABORT}"
  unfolding assert_abort_unreachable lu_event_errorx_def using assms
  by (auto simp: log_seq_def lu_event_exit_def split: prod.splits option.splits)

lemma sock_error_never_returns: "lu_event_sock_error env senv code sock file line fmt h st = Some (h', r) \<Longrightarrow> snd r \<noteq> Running"
  using log_seq_exit by (auto simp: lu_event_sock_error_def)

section \<open>Findings\<close>

text \<open>A failing \<open>vsnprintf\<close> and an error string: the text goes to the byte before the buffer.\<close>

theorem failing_format_writes_before_buffer:
  assumes "length e < 1023"
  shows "lu_event_log_logv env LU_EVENT_LOG_LEVEL_ERROR (Some e) file line (Failing garbage) st = (st, Outside_buffer)"
proof -
  have "unat (word_of_nat (length e + 1) :: c_size_t) = length e + 1" using assms by (intro unat_small64) simp
  then have "(word_of_nat (length e + 1) :: c_size_t) < 1024" using assms by (simp only: word_less_nat_alt) simp
  moreover have "(- 1 + word_of_nat (length e) + 2 :: c_size_t) = word_of_nat (length e + 1)" by simp
  moreover have "unat (- 1 :: c_size_t) > 1024" by (simp add: unsigned_minus_1_eq_mask mask_eq_exp_minus_1)
  ultimately have "log_logv_message (Failing garbage) (Some e) = None" by (simp only: log_logv_message_def log_vsnprintf_def) simp
  then show ?thesis by (simp add: lu_event_log_logv_def log_levels)
qed

text \<open>A message with a per cent sign is taken for a format again, and no argument is there.\<close>

theorem percent_message_undefined:
  "snd (lu_event_warnx demo_log_env ''a.c'' 5 (Text ''load 90%'') demo_log_state) = Bad_format"
proof -
  have "log_logv_message (Text ''load 90%'') None = Some ''load 90%''" using log_logv_message_text [of "''load 90%''" None] by (simp add: log_text_def)
  then show ?thesis
    by (simp add: lu_event_warnx_def lu_event_log_logv_def log_levels log_outputs_def demo_log_state_def log_state_0_def demo_log_env_def Let_def
        log_do_def lu_init_event_def lu_stdout_handler_def level_ok_def lu_log_level_strings_def print_message_def log_seq_def)
qed

text \<open>No file in the root directory can be the log file; an empty name leads to a path that nobody has set.\<close>

theorem root_log_file_refused:
  "file_log_enabled (fst (snd (lu_enable_default_file_logging stat_ok mkdir fopen (Some ''/a.log'') 2 fs log_state_0))) = 0"
proof -
  have "directory_buffer ''/a.log'' 1024 = Some []" "lu_evutil_check_contain_directory (Some ''/a.log'') = 1"
    by (simp_all add: directory_buffer_def lu_evutil_get_directory_def is_slash_def lu_evutil_check_contain_directory_def)
  moreover have "lu_evutil_create_dictionay stat_ok mkdir fs [] = (fs, LU_ERROR_INVALID_PATH)"
    by (simp add: lu_evutil_create_dictionay.simps lu_evutil_check_dict_file_exist_def LU_ERROR_INVALID_PATH_def)
  ultimately show ?thesis
    by (simp add: lu_enable_default_file_logging_def LU_ERROR_INVALID_PATH_def log_do_def log_state_0_def Let_def)
qed

theorem empty_log_name_unset_path:
  "snd (snd (lu_enable_default_file_logging stat_ok mkdir fopen (Some []) 2 fs st)) = Unset_path"
  by (simp add: lu_enable_default_file_logging_def lu_evutil_check_contain_directory_def LU_ERROR_INVALID_PATH_def directory_buffer_def)

text \<open>When the file cannot be opened, logging is enabled all the same, and the next message uses a null stream.\<close>

theorem unopened_log_file_used:
  assumes "lu_enable_default_file_logging stat_ok mkdir (\<lambda>_ _. None) (Some ''a.log'') 2 fs log_state_0 = (fs', st1, e)"
  shows "file_log_enabled st1 = 1 \<and> snd (lu_event_warnx demo_log_env ''a.c'' 5 (Text ''up'') st1) = Null_stream"
proof -
  have "lu_evutil_check_contain_directory (Some ''a.log'') = 0"
    by (simp add: is_slash_def lu_evutil_check_contain_directory_def)
  then have st1: "st1 = fst (snd (open_file_log (\<lambda>_ _. None) ''a.log'' 2 fs log_state_0))"
    using assms by (simp add: lu_enable_default_file_logging_def log_levels Let_def)
  have s: "file_log_enabled st1 = 1" "cfg_quiet st1 = 0" "cfg_severity st1 = 0" "cb_handler st1 = Some Lu_file_handler" "cb_data st1 = None" "cb_severity st1 = 2"
    by (simp_all add: st1 open_file_log_def lu_log_add_fp_def lu_log_add_handler_def log_do_def log_state_0_def Let_def)
  have m: "log_logv_message (Text ''up'') None = Some ''up''" using log_logv_message_text [of "''up''" None] by (simp add: log_text_def)
  show ?thesis
    by (simp add: s m lu_event_warnx_def lu_event_log_logv_def log_levels log_outputs_def demo_log_env_def Let_def lu_init_event_def
        lu_stdout_handler_def run_handler_def lu_file_handler_def level_ok_def lu_log_level_strings_def print_message_def log_seq_def)
qed

end
