(* ===== verification/LuResizing.thy ===== *)
theory LuResizing
  imports LuPrelude "HOL-Library.Log_Nat" "HOL-Library.Multiset"
begin

text \<open>
  The table of \<open>src/other/test_hash.c\<close>, in which the growing and shrinking of a hash table was tried
  out: buckets of the same kind as those of the library, an index by remainder, and a size that follows the load.
  A node is its key and its value; the list of a bucket is the list of its nodes. Access outside the array of
  buckets, division by zero and signed overflow are \<open>None\<close>. \<open>got n\<close> says whether \<open>calloc\<close> has memory for \<open>n\<close>
  buckets; the nodes and the table itself are taken without a check, and the model has the runs in which \<open>malloc\<close> succeeds.
\<close>

section \<open>The load factor\<close>

text \<open>
  The load factor is a C float, here an integer \<open>n\<close> that stands for \<open>n / 2^65\<close>. \<open>rn24\<close> rounds to 24 significant bits,
  to nearest, ties to even. The quotient keeps one bit more for a remainder, so that it is rounded as the exact one is.
\<close>

definition rn24 :: "int \<Rightarrow> int" where
  "rn24 n =
     (let a = \<bar>n\<bar>; e = nat (bitlen a - 24); q = a div 2 ^ e; r = a mod 2 ^ e
      in sgn n * ((if 2 * r > 2 ^ e \<or> 2 * r = 2 ^ e \<and> odd q then q + 1 else q) * 2 ^ e))"

definition float_quotient :: "int \<Rightarrow> int \<Rightarrow> int" where
  "float_quotient x y =
     (let n = \<bar>x\<bar> * 2 ^ 64 in sgn x * sgn y * (n div \<bar>y\<bar> * 2 + (if n mod \<bar>y\<bar> = 0 then 0 else 1)))"

text \<open>Division by zero gives an infinity, for which \<open>2^97\<close> stands: no quotient of two ints reaches it. Zero by zero is not a number;
  both comparisons with it fail, and \<open>SHRINK_THRESHOLD\<close> stands for it.\<close>

definition load_factor :: "int \<Rightarrow> int \<Rightarrow> int" where
  "load_factor cnt sz =
     (if sz = 0 then if cnt = 0 then 2 ^ 63 else sgn cnt * 2 ^ 97
      else rn24 (float_quotient (rn24 cnt) (rn24 sz)))"

definition LOAD_FACTOR_THRESHOLD :: int where "LOAD_FACTOR_THRESHOLD = 3 * 2 ^ 63"
definition SHRINK_THRESHOLD :: int where "SHRINK_THRESHOLD = 2 ^ 63"

section \<open>The table\<close>

datatype rz_bucket_type = RZ_LIST | RZ_RBTREE

record 'v rz_bucket =
  rz_type :: rz_bucket_type
  rz_nodes :: "(int \<times> 'v) list"
  rz_esize :: nat

record 'v rz_table =
  rz_buckets :: "'v rz_bucket list"
  rz_size :: int
  rz_count :: int

definition rz_zero :: "'v rz_bucket" where
  "rz_zero = \<lparr>rz_type = RZ_LIST, rz_nodes = [], rz_esize = 0\<rparr>"

text \<open>The remainder of C has the sign of its first argument.\<close>

definition c_rem :: "int \<Rightarrow> int \<Rightarrow> int" where
  "c_rem a b = sgn a * (\<bar>a\<bar> mod \<bar>b\<bar>)"

definition push_node :: "int \<times> 'v \<Rightarrow> 'v rz_bucket \<Rightarrow> 'v rz_bucket" where
  "push_node n b = b\<lparr>rz_nodes := n # rz_nodes b\<rparr>"

section \<open>Operations\<close>

text \<open>The inner loop copies the nodes of a list to the front of their new buckets, the outer one goes over the old buckets.\<close>

fun rehash_nodes :: "int \<Rightarrow> (int \<times> 'v) list \<Rightarrow> 'v rz_bucket list \<Rightarrow> 'v rz_bucket list option" where
  "rehash_nodes new_size [] bs = Some bs"
| "rehash_nodes new_size (n # ns) bs =
     (let i = c_rem (fst n) new_size
      in if new_size = 0 \<or> i < 0 \<or> length bs \<le> nat i then None else rehash_nodes new_size ns (bs[nat i := push_node n (bs ! nat i)]))"

fun rehash_buckets :: "int \<Rightarrow> 'v rz_bucket list \<Rightarrow> 'v rz_bucket list \<Rightarrow> 'v rz_bucket list option" where
  "rehash_buckets new_size [] bs = Some bs"
| "rehash_buckets new_size (b # old) bs =
     (case rz_type b of
        RZ_RBTREE \<Rightarrow> rehash_buckets new_size old bs
      | RZ_LIST \<Rightarrow> (case rehash_nodes new_size (rz_nodes b) bs of
                     None \<Rightarrow> None | Some bs' \<Rightarrow> rehash_buckets new_size old bs'))"

text \<open>Replacing the array of buckets: \<open>Some (t, 0)\<close>, or the table unchanged with -1 when there is no memory.\<close>

definition change_size :: "(int \<Rightarrow> bool) \<Rightarrow> int \<Rightarrow> 'v rz_table \<Rightarrow> ('v rz_table \<times> int) option" where
  "change_size got new_size t =
     (if \<not> got new_size then Some (t, - 1)
      else (case rehash_buckets new_size (rz_buckets t) (replicate (nat new_size) rz_zero) of
              None \<Rightarrow> None | Some bs \<Rightarrow> Some (t\<lparr>rz_buckets := bs, rz_size := new_size\<rparr>, 0)))"

definition resize_table :: "(int \<Rightarrow> bool) \<Rightarrow> 'v rz_table \<Rightarrow> ('v rz_table \<times> int) option" where
  "resize_table got t =
     (let load = load_factor (rz_count t) (rz_size t) in
      case (if load > LOAD_FACTOR_THRESHOLD
            then (if rz_size t * 2 > 2 ^ 31 - 1 then None else change_size got (rz_size t * 2) t)
            else Some (t, 0)) of
        None \<Rightarrow> None
      | Some (t1, r) \<Rightarrow>
          if r \<noteq> 0 then Some (t1, r)
          else if load < SHRINK_THRESHOLD \<and> rz_size t1 > 8 then change_size got (rz_size t1 div 2) t1
          else Some (t1, 0))"

definition rz_insert :: "(int \<Rightarrow> bool) \<Rightarrow> 'v rz_table \<Rightarrow> int \<Rightarrow> 'v \<Rightarrow> ('v rz_table \<times> int) option" where
  "rz_insert got t0 k v =
     (case resize_table got t0 of
        None \<Rightarrow> None
      | Some (t, r) \<Rightarrow>
          if r \<noteq> 0 then Some (t, - 1)
          else if rz_size t = 0 \<or> c_rem k (rz_size t) < 0 \<or> length (rz_buckets t) \<le> nat (c_rem k (rz_size t)) \<or>
                  rz_count t = 2 ^ 31 - 1 then None
          else (let i = nat (c_rem k (rz_size t)); b = rz_buckets t ! i in
                Some (t\<lparr>rz_buckets := (case rz_type b of
                                        RZ_LIST \<Rightarrow> (rz_buckets t)[i := (push_node (k, v) b)\<lparr>rz_esize := rz_esize b + 1\<rparr>]
                                      | RZ_RBTREE \<Rightarrow> rz_buckets t),
                       rz_count := rz_count t + 1\<rparr>, 0)))"

definition create_hash_table :: "int \<Rightarrow> 'v rz_table" where
  "create_hash_table sz = \<lparr>rz_buckets = replicate (nat sz) rz_zero, rz_size = sz, rz_count = 0\<rparr>"

text \<open>The nodes that are freed, in the order of the calls; the array and the table follow.\<close>

definition destroy_hash_table :: "'v rz_table option \<Rightarrow> (int \<times> 'v) list" where
  "destroy_hash_table t =
     (case t of None \<Rightarrow> []
      | Some t \<Rightarrow> concat (map (\<lambda>b. case rz_type b of RZ_LIST \<Rightarrow> rz_nodes b | RZ_RBTREE \<Rightarrow> []) (rz_buckets t)))"

fun rz_insert_all :: "(int \<Rightarrow> bool) \<Rightarrow> 'v rz_table \<Rightarrow> (int \<times> 'v) list \<Rightarrow> 'v rz_table option" where
  "rz_insert_all got t [] = Some t"
| "rz_insert_all got t (e # es) =
     (case rz_insert got t (fst e) (snd e) of
        Some (t', r) \<Rightarrow> if r = 0 then rz_insert_all got t' es else None
      | None \<Rightarrow> None)"

section \<open>The load factor is exact\<close>

lemma rn24_parts:
  assumes "0 \<le> n"
  obtains m q r e where "rn24 n = m * 2 ^ e" "n = q * 2 ^ e + r" "0 \<le> r" "r < 2 ^ e" "q \<le> m" "m \<le> q + 1"
    "m = q + 1 \<longrightarrow> 0 < r" "0 < e \<longrightarrow> 2 ^ 23 \<le> q"
proof -
  define e where "e = nat (bitlen n - 24)"
  define q where "q = n div 2 ^ e"
  define r where "r = n mod 2 ^ e"
  define m where "m = (if 2 * r > 2 ^ e \<or> 2 * r = 2 ^ e \<and> odd q then q + 1 else q)"
  have rn: "rn24 n = m * 2 ^ e"
    using assms by (cases "n = 0") (simp_all add: rn24_def Let_def m_def e_def q_def r_def)
  have n: "n = q * 2 ^ e + r" unfolding q_def r_def by (rule div_mult_mod_eq [symmetric])
  have r: "0 \<le> r" "r < 2 ^ e" by (simp_all add: r_def)
  have "2 * r > 2 ^ e \<or> 2 * r = 2 ^ e \<Longrightarrow> 0 < r" using r(1) zero_less_power [of "2::int" e] by linarith
  then have m: "q \<le> m" "m \<le> q + 1" "m = q + 1 \<longrightarrow> 0 < r"
    using r(1) by (auto simp: m_def split: if_splits)
  have "0 < e \<longrightarrow> 2 ^ 23 \<le> q"
  proof
    assume "0 < e"
    then have "24 < bitlen n" by (simp add: e_def)
    then have b: "0 < n" "nat (bitlen n - 1) = 23 + e" using assms by (cases "n = 0"; simp add: e_def)+
    have "(2::int) ^ (23 + e) \<le> n" using bitlen_bounds [OF b(1)] b(2) by simp
    then have "(2 ^ 23 * 2 ^ e) div 2 ^ e \<le> q" unfolding q_def by (intro zdiv_mono1) (simp_all add: power_add)
    then show "2 ^ 23 \<le> q" by simp
  qed
  then show thesis using that [OF rn n r m] by blast
qed

lemma pow_shift: "e \<le> j \<Longrightarrow> c * 2 ^ j = c * 2 ^ (j - e) * (2::int) ^ e"
  by (simp add: power_add [symmetric])

lemma rn24_lower:
  assumes "c * 2 ^ j \<le> n" "0 \<le> c" "c \<le> 2 ^ 24"
  shows "c * 2 ^ j \<le> rn24 n"
proof -
  have n0: "0 \<le> n" using assms(1,2) by (meson mult_nonneg_nonneg order_trans zero_le_numeral zero_le_power)
  obtain m q r e where p: "rn24 n = m * 2 ^ e" "n = q * 2 ^ e + r" "0 \<le> r" "r < 2 ^ e" "q \<le> m" "m \<le> q + 1"
    "m = q + 1 \<longrightarrow> 0 < r" "0 < e \<longrightarrow> 2 ^ 23 \<le> q"
    by (rule rn24_parts [OF n0])
  show ?thesis
  proof (cases "e \<le> j")
    case True
    have "c * 2 ^ (j - e) * 2 ^ e < (q + 1) * 2 ^ e" using assms(1) p(2,4) pow_shift [OF True, of c] by (simp add: algebra_simps)
    then have "c * 2 ^ (j - e) \<le> m" using p(5) by simp
    then show ?thesis unfolding p(1) pow_shift [OF True] by (intro mult_right_mono) simp_all
  next
    case False
    have "c * 2 ^ j \<le> 2 ^ 24 * 2 ^ j" using assms(3) by (intro mult_right_mono) simp_all
    also have "\<dots> \<le> 2 ^ 23 * 2 ^ e" unfolding power_add [symmetric] using False by (intro power_increasing) simp_all
    also have "\<dots> \<le> m * 2 ^ e" using False p(5,8) by (intro mult_right_mono) simp_all
    finally show ?thesis unfolding p(1) .
  qed
qed

lemma rn24_upper:
  assumes "n \<le> c * 2 ^ j" "0 \<le> n" "c < 2 ^ 24"
  shows "rn24 n \<le> c * 2 ^ j"
proof -
  obtain m q r e where p: "rn24 n = m * 2 ^ e" "n = q * 2 ^ e + r" "0 \<le> r" "r < 2 ^ e" "q \<le> m" "m \<le> q + 1"
    "m = q + 1 \<longrightarrow> 0 < r" "0 < e \<longrightarrow> 2 ^ 23 \<le> q"
    by (rule rn24_parts [OF assms(2)])
  show ?thesis
  proof (cases "e \<le> j")
    case True
    have "q * 2 ^ e + r \<le> c * 2 ^ (j - e) * 2 ^ e" using assms(1) p(2) pow_shift [OF True, of c] by simp
    then have "q * 2 ^ e \<le> c * 2 ^ (j - e) * 2 ^ e" "0 < r \<Longrightarrow> q * 2 ^ e < c * 2 ^ (j - e) * 2 ^ e" using p(3) by linarith+
    then have q: "q \<le> c * 2 ^ (j - e)" "0 < r \<Longrightarrow> q < c * 2 ^ (j - e)" by simp_all
    have "m = q \<or> m = q + 1" using p(5,6) by linarith
    then have "m \<le> c * 2 ^ (j - e)" using q p(7) by (elim disjE) linarith+
    then show ?thesis unfolding p(1) pow_shift [OF True] by (intro mult_right_mono) simp_all
  next
    case False
    have "c * 2 ^ j < 2 ^ 24 * 2 ^ j" using assms(3) by (intro mult_strict_right_mono) simp_all
    also have "\<dots> \<le> 2 ^ 23 * 2 ^ e" unfolding power_add [symmetric] using False by (intro power_increasing) simp_all
    also have "\<dots> \<le> q * 2 ^ e" using False p(8) by (intro mult_right_mono) simp_all
    finally show ?thesis using assms(1) p(2,3) by linarith
  qed
qed

lemma rn24_exact: "0 \<le> n \<Longrightarrow> n < 2 ^ 24 \<Longrightarrow> rn24 n = n"
  using rn24_upper [of n n 0] rn24_lower [of n 0 n] by simp

text \<open>Up to four million buckets and nodes the rounding changes no comparison.\<close>

lemma load_factor_pos:
  assumes "0 \<le> c" "c \<le> 2 ^ 22" "0 < s" "s \<le> 2 ^ 22"
  shows "load_factor c s = rn24 (c * 2 ^ 64 div s * 2 + (if c * 2 ^ 64 mod s = 0 then 0 else 1))"
proof -
  have "rn24 c = c" "rn24 s = s" using assms by (intro rn24_exact; simp)+
  then show ?thesis using assms by (cases "c = 0") (simp_all add: load_factor_def float_quotient_def Let_def)
qed

lemma quotient_ge:
  assumes "x * s \<le> d * s + f" "f < s" "0 < s"
  shows "x \<le> (d :: int)"
proof -
  have "x * s < (d + 1) * s" using assms(1,2) by (simp add: algebra_simps)
  then show ?thesis using assms(3) by simp
qed

lemma load_above:
  assumes "0 \<le> c" "c \<le> 2 ^ 22" "0 < s" "s \<le> 2 ^ 22"
  shows "LOAD_FACTOR_THRESHOLD < load_factor c s \<longleftrightarrow> 3 * s < 4 * c"
proof -
  define d where "d = c * 2 ^ 64 div s"
  define f where "f = c * 2 ^ 64 mod s"
  have cs: "c * 2 ^ 64 = d * s + f" "0 \<le> f" "f < s" using assms(3) by (simp_all add: d_def f_def)
  have d0: "0 \<le> d" using assms(1,3) by (simp add: d_def pos_imp_zdiv_nonneg_iff)
  have lf: "load_factor c s = rn24 (d * 2 + (if f = 0 then 0 else 1))" unfolding d_def f_def by (rule load_factor_pos [OF assms])
  show ?thesis
  proof (cases "3 * s < 4 * c")
    case True
    have "(3 * 2 ^ 62 + 2 ^ 40) * s \<le> c * 2 ^ 64" using True assms(4) by simp
    then have "3 * 2 ^ 62 + 2 ^ 40 \<le> d" using cs assms(3) by (intro quotient_ge [of _ s d f]) simp_all
    then have "(3 * 2 ^ 22 + 1) * 2 ^ 41 \<le> load_factor c s" unfolding lf by (intro rn24_lower) simp_all
    then show ?thesis using True by (simp add: LOAD_FACTOR_THRESHOLD_def)
  next
    case False
    then have le: "d * s + f \<le> 3 * 2 ^ 62 * s" using cs(1) by simp
    then have "d * s \<le> 3 * 2 ^ 62 * s" "f \<noteq> 0 \<Longrightarrow> d * s < 3 * 2 ^ 62 * s" using cs(2) by linarith+
    then have "d \<le> 3 * 2 ^ 62" "f \<noteq> 0 \<Longrightarrow> d < 3 * 2 ^ 62" using assms(3) by simp_all
    then have "d * 2 + (if f = 0 then 0 else 1) \<le> 3 * 2 ^ 63" by (cases "f = 0") simp_all
    then have "load_factor c s \<le> 3 * 2 ^ 63" unfolding lf using d0 by (intro rn24_upper) simp_all
    then show ?thesis using False by (simp add: LOAD_FACTOR_THRESHOLD_def)
  qed
qed

lemma load_below:
  assumes "0 \<le> c" "c \<le> 2 ^ 22" "0 < s" "s \<le> 2 ^ 22"
  shows "load_factor c s < SHRINK_THRESHOLD \<longleftrightarrow> 4 * c < s"
proof -
  define d where "d = c * 2 ^ 64 div s"
  define f where "f = c * 2 ^ 64 mod s"
  have cs: "c * 2 ^ 64 = d * s + f" "0 \<le> f" "f < s" using assms(3) by (simp_all add: d_def f_def)
  have d0: "0 \<le> d" using assms(1,3) by (simp add: d_def pos_imp_zdiv_nonneg_iff)
  have lf: "load_factor c s = rn24 (d * 2 + (if f = 0 then 0 else 1))" unfolding d_def f_def by (rule load_factor_pos [OF assms])
  show ?thesis
  proof (cases "4 * c < s")
    case True
    have "c * 2 ^ 64 \<le> (2 ^ 62 - 2 ^ 40) * s" using True assms(4) by simp
    then have "d * s \<le> (2 ^ 62 - 2 ^ 40) * s" using cs(1,2) by linarith
    then have "d \<le> 2 ^ 62 - 2 ^ 40" using assms(3) mult_right_le_imp_le by blast
    then have "load_factor c s \<le> (2 ^ 23 - 1) * 2 ^ 40" unfolding lf using d0 by (intro rn24_upper) simp_all
    then show ?thesis using True by (simp add: SHRINK_THRESHOLD_def)
  next
    case False
    have "2 ^ 62 * s \<le> c * 2 ^ 64" using False by simp
    then have "2 ^ 62 \<le> d" using cs assms(3) by (intro quotient_ge [of _ s d f]) simp_all
    then have "1 * 2 ^ 63 \<le> load_factor c s" unfolding lf by (intro rn24_lower) simp_all
    then show ?thesis using False by (simp add: SHRINK_THRESHOLD_def)
  qed
qed

section \<open>Growing and shrinking keep the nodes\<close>

text \<open>Every bucket is a list, and a node is in the bucket of its remainder; keys are not negative.\<close>

definition placed :: "int \<Rightarrow> 'v rz_bucket list \<Rightarrow> bool" where
  "placed n bs \<longleftrightarrow> 0 < n \<and> length bs = nat n \<and>
     (\<forall>i<length bs. rz_type (bs ! i) = RZ_LIST \<and> (\<forall>e\<in>set (rz_nodes (bs ! i)). 0 \<le> fst e \<and> nat (fst e mod n) = i))"

definition all_nodes :: "'v rz_bucket list \<Rightarrow> (int \<times> 'v) multiset" where
  "all_nodes bs = (\<Sum>b\<leftarrow>bs. mset (rz_nodes b))"

definition rz_ok :: "'v rz_table \<Rightarrow> bool" where
  "rz_ok t \<longleftrightarrow> placed (rz_size t) (rz_buckets t) \<and> rz_count t = int (size (all_nodes (rz_buckets t)))"

lemma c_rem_nonneg: "0 \<le> k \<Longrightarrow> 0 < n \<Longrightarrow> c_rem k n = k mod n"
  by (cases "k = 0") (simp_all add: c_rem_def)

lemma placed_lists: "placed n bs \<Longrightarrow> b \<in> set bs \<Longrightarrow> rz_type b = RZ_LIST \<and> (\<forall>e\<in>set (rz_nodes b). 0 \<le> fst e)"
  unfolding placed_def in_set_conv_nth by blast

lemma all_nodes_update:
  "i < length bs \<Longrightarrow> rz_nodes b = e # rz_nodes (bs ! i) \<Longrightarrow> all_nodes (bs[i := b]) = add_mset e (all_nodes bs)"
  by (induction bs arbitrary: i) (auto simp: all_nodes_def nth_Cons split: nat.splits)

lemma placed_update:
  assumes "placed n bs" "0 \<le> fst e" "rz_nodes b = e # rz_nodes (bs ! nat (fst e mod n))" "rz_type b = RZ_LIST"
  shows "placed n (bs[nat (fst e mod n) := b])" "nat (fst e mod n) < length bs"
proof -
  have n: "0 < n" "length bs = nat n" using assms(1) by (simp_all add: placed_def)
  then show l: "nat (fst e mod n) < length bs" by (simp add: nat_less_iff)
  show "placed n (bs[nat (fst e mod n) := b])"
    unfolding placed_def
  proof (intro conjI allI impI)
    fix i assume i: "i < length (bs[nat (fst e mod n) := b])"
    have old: "rz_type (bs ! i) = RZ_LIST" "\<forall>x\<in>set (rz_nodes (bs ! i)). 0 \<le> fst x \<and> nat (fst x mod n) = i"
      using assms(1) i by (simp_all add: placed_def)
    show "rz_type (bs[nat (fst e mod n) := b] ! i) = RZ_LIST"
      using old(1) i assms(4) by (cases "i = nat (fst e mod n)") (simp, simp)
    show "\<forall>x\<in>set (rz_nodes (bs[nat (fst e mod n) := b] ! i)). 0 \<le> fst x \<and> nat (fst x mod n) = i"
    proof (cases "i = nat (fst e mod n)")
      case True
      then have "set (rz_nodes (bs[nat (fst e mod n) := b] ! i)) = insert e (set (rz_nodes (bs ! i)))" using i assms(3) by simp
      then show ?thesis using old(2) assms(2) True [symmetric] by (simp only: ball_simps)
    next
      case False
      then show ?thesis using old(2) by simp
    qed
  qed (simp_all add: n)
qed

lemma rehash_nodes_ok:
  assumes "placed n bs" "\<forall>e\<in>set ns. 0 \<le> fst e"
  shows "\<exists>bs'. rehash_nodes n ns bs = Some bs' \<and> placed n bs' \<and> all_nodes bs' = mset ns + all_nodes bs"
  using assms
proof (induction ns arbitrary: bs)
  case (Cons e ns)
  let ?i = "nat (fst e mod n)"
  let ?b = "push_node e (bs ! ?i)"
  have n: "0 < n" and e: "0 \<le> fst e" using Cons.prems by (simp_all add: placed_def)
  have i: "?i < length bs" using Cons.prems(1) n by (simp add: placed_def nat_less_iff)
  have b: "rz_nodes ?b = e # rz_nodes (bs ! ?i)" "rz_type ?b = RZ_LIST"
    using Cons.prems(1) i by (simp_all add: push_node_def placed_def)
  obtain bs' where r: "rehash_nodes n ns (bs[?i := ?b]) = Some bs'" "placed n bs'"
    "all_nodes bs' = mset ns + all_nodes (bs[?i := ?b])"
    using Cons.IH [OF placed_update(1) [OF Cons.prems(1) e b]] Cons.prems(2) by auto
  have "rehash_nodes n (e # ns) bs = Some bs'" using r(1) i n e pos_mod_sign [OF n, of "fst e"] by (simp add: c_rem_nonneg Let_def not_le not_less)
  then show ?case using r(2,3) all_nodes_update [OF i b(1)] by simp
qed simp

lemma rehash_buckets_ok:
  assumes "placed n bs" "\<forall>b\<in>set old. rz_type b = RZ_LIST \<and> (\<forall>e\<in>set (rz_nodes b). 0 \<le> fst e)"
  shows "\<exists>bs'. rehash_buckets n old bs = Some bs' \<and> placed n bs' \<and> all_nodes bs' = all_nodes old + all_nodes bs"
  using assms
proof (induction old arbitrary: bs)
  case Nil
  then show ?case by (simp add: all_nodes_def)
next
  case (Cons b old)
  obtain bs1 where r: "rehash_nodes n (rz_nodes b) bs = Some bs1" "placed n bs1" "all_nodes bs1 = mset (rz_nodes b) + all_nodes bs"
    using rehash_nodes_ok [OF Cons.prems(1), of "rz_nodes b"] Cons.prems(2) by auto
  obtain bs2 where "rehash_buckets n old bs1 = Some bs2" "placed n bs2" "all_nodes bs2 = all_nodes old + all_nodes bs1"
    using Cons.IH [OF r(2)] Cons.prems(2) by auto
  then show ?case using r Cons.prems(2) by (simp add: all_nodes_def)
qed

lemma placed_new: "0 < n \<Longrightarrow> placed n (replicate (nat n) rz_zero)" "all_nodes (replicate m rz_zero) = {#}"
  by (simp add: placed_def rz_zero_def, induction m) (simp_all add: all_nodes_def rz_zero_def)

lemma create_ok: "0 < n \<Longrightarrow> rz_ok (create_hash_table n)" "all_nodes (rz_buckets (create_hash_table n)) = {#}"
  by (simp_all add: rz_ok_def create_hash_table_def placed_new)

lemma change_size_ok:
  assumes "rz_ok t" "0 < n" "got n"
  shows "\<exists>t'. change_size got n t = Some (t', 0) \<and> rz_ok t' \<and> rz_size t' = n \<and> rz_count t' = rz_count t \<and>
    all_nodes (rz_buckets t') = all_nodes (rz_buckets t)"
proof -
  have "\<forall>b\<in>set (rz_buckets t). rz_type b = RZ_LIST \<and> (\<forall>e\<in>set (rz_nodes b). 0 \<le> fst e)"
    using assms(1) placed_lists unfolding rz_ok_def by blast
  from rehash_buckets_ok [OF placed_new(1) [OF assms(2)] this] show ?thesis
    using assms by (auto simp: change_size_def rz_ok_def placed_new(2))
qed

text \<open>What a table of moderate size does before an insertion.\<close>

definition next_size :: "int \<Rightarrow> int \<Rightarrow> int" where
  "next_size cnt sz = (if 3 * sz < 4 * cnt then 2 * sz else if 4 * cnt < sz \<and> 8 < sz then sz div 2 else sz)"

lemma resize_ok:
  assumes t: "rz_ok t" "rz_count t \<le> 2 ^ 22" "rz_size t \<le> 2 ^ 22" and got: "\<And>n. got n"
  shows "\<exists>t'. resize_table got t = Some (t', 0) \<and> rz_ok t' \<and> rz_size t' = next_size (rz_count t) (rz_size t) \<and>
    rz_count t' = rz_count t \<and> all_nodes (rz_buckets t') = all_nodes (rz_buckets t)"
proof -
  have b: "0 \<le> rz_count t" "0 < rz_size t" using t(1) by (simp_all add: rz_ok_def placed_def)
  note above = load_above [OF b(1) t(2) b(2) t(3)]
  note below = load_below [OF b(1) t(2) b(2) t(3)]
  consider "3 * rz_size t < 4 * rz_count t" | "4 * rz_count t < rz_size t" "8 < rz_size t" | 
    "\<not> 3 * rz_size t < 4 * rz_count t" "\<not> (4 * rz_count t < rz_size t \<and> 8 < rz_size t)" by linarith
  then show ?thesis
  proof cases
    case 1
    then have s: "0 < rz_size t * 2" "\<not> 4 * rz_count t < rz_size t" using b by simp_all
    show ?thesis using change_size_ok [OF t(1) s(1), of got, OF got] 1 s(2) t(3) above below
      by (auto simp: resize_table_def Let_def next_size_def)
  next
    case 2
    then have s: "0 < rz_size t div 2" "\<not> 3 * rz_size t < 4 * rz_count t" using b by simp_all
    show ?thesis using change_size_ok [OF t(1) s(1), of got, OF got] 2 s(2) above below
      by (auto simp: resize_table_def Let_def next_size_def)
  next
    case 3
    then show ?thesis using t(1) above below by (auto simp: resize_table_def Let_def next_size_def)
  qed
qed

text \<open>An insertion adds its node to the table and counts it, whatever keys are there; without memory it returns -1 and
  leaves the table as it is.\<close>

theorem rz_insert_ok:
  assumes t: "rz_ok t" "rz_count t \<le> 2 ^ 22" "rz_size t \<le> 2 ^ 22" and got: "\<And>n. got n" and k: "0 \<le> k"
  shows "\<exists>t'. rz_insert got t k v = Some (t', 0) \<and> rz_ok t' \<and> rz_size t' = next_size (rz_count t) (rz_size t) \<and>
    rz_count t' = rz_count t + 1 \<and> all_nodes (rz_buckets t') = add_mset (k, v) (all_nodes (rz_buckets t))"
proof -
  obtain t1 where r: "resize_table got t = Some (t1, 0)" "rz_ok t1" "rz_size t1 = next_size (rz_count t) (rz_size t)"
    "rz_count t1 = rz_count t" "all_nodes (rz_buckets t1) = all_nodes (rz_buckets t)"
    using resize_ok [OF t, of got, OF got] by blast
  let ?i = "nat (k mod rz_size t1)"
  let ?b = "(push_node (k, v) (rz_buckets t1 ! ?i))\<lparr>rz_esize := rz_esize (rz_buckets t1 ! ?i) + 1\<rparr>"
  have p: "placed (rz_size t1) (rz_buckets t1)" using r(2) by (simp add: rz_ok_def)
  have n: "0 < rz_size t1" and i: "?i < length (rz_buckets t1)" using p by (simp_all add: placed_def nat_less_iff)
  have b: "rz_nodes ?b = (k, v) # rz_nodes (rz_buckets t1 ! ?i)" "rz_type ?b = RZ_LIST" "rz_type (rz_buckets t1 ! ?i) = RZ_LIST"
    using p i by (simp_all add: push_node_def placed_def)
  let ?t = "t1\<lparr>rz_buckets := (rz_buckets t1)[?i := ?b], rz_count := rz_count t1 + 1\<rparr>"
  have "rz_insert got t k v = Some (?t, 0)"
    using r(1,4) n i b(3) k t(2) pos_mod_sign [OF n, of k] by (simp add: rz_insert_def Let_def c_rem_nonneg not_le not_less)
  moreover have "placed (rz_size t1) ((rz_buckets t1)[?i := ?b])"
    using placed_update(1) [of _ _ "(k, v)" ?b, OF p] b k by simp
  ultimately show ?thesis using r all_nodes_update [OF i b(1)] by (simp add: rz_ok_def)
qed

theorem rz_insert_no_memory:
  assumes "rz_ok t" "rz_count t \<le> 2 ^ 22" "rz_size t \<le> 2 ^ 22" "\<And>n. \<not> got n"
    and "next_size (rz_count t) (rz_size t) \<noteq> rz_size t"
  shows "rz_insert got t k v = Some (t, - 1)"
proof -
  have b: "0 \<le> rz_count t" "0 < rz_size t" using assms(1) by (simp_all add: rz_ok_def placed_def)
  show ?thesis
    using assms(3-5) b load_above [OF b(1) assms(2) b(2) assms(3)] load_below [OF b(1) assms(2) b(2) assms(3)]
    by (auto simp: rz_insert_def resize_table_def change_size_def Let_def next_size_def split: if_splits)
qed

text \<open>A run of insertions in a new table: every node is there, freeing the table frees each of them once, and the table never has
  more than one node above three quarters of its buckets.\<close>

lemma next_size_room:
  assumes "4 * c \<le> 3 * s + 4" "2 \<le> s" "0 \<le> c"
  shows "4 * c \<le> 3 * next_size c s" "2 \<le> next_size c s" "next_size c s \<le> max s (3 * c)"
  using assms by (auto simp: next_size_def)

lemma rz_insert_all_ok:
  assumes "rz_ok t" "\<And>n. got n" "\<forall>e\<in>set es. 0 \<le> fst e" "rz_count t + int (length es) \<le> 2 ^ 20" "rz_size t \<le> 2 ^ 22"
    "4 * rz_count t \<le> 3 * rz_size t + 4" "2 \<le> rz_size t"
  shows "\<exists>t'. rz_insert_all got t es = Some t' \<and> rz_ok t' \<and> all_nodes (rz_buckets t') = mset es + all_nodes (rz_buckets t) \<and>
    4 * rz_count t' \<le> 3 * rz_size t' + 4"
  using assms
proof (induction es arbitrary: t)
  case (Cons e es)
  have c: "0 \<le> rz_count t" "rz_count t \<le> 2 ^ 22" using Cons.prems(1,4) by (simp_all add: rz_ok_def)
  obtain t1 where r: "rz_insert got t (fst e) (snd e) = Some (t1, 0)" "rz_ok t1" "rz_size t1 = next_size (rz_count t) (rz_size t)"
    "rz_count t1 = rz_count t + 1" "all_nodes (rz_buckets t1) = add_mset e (all_nodes (rz_buckets t))"
    using rz_insert_ok [OF Cons.prems(1) c(2) Cons.prems(5), of got "fst e" "snd e", OF Cons.prems(2)] Cons.prems(3) by auto
  note room = next_size_room [OF Cons.prems(6,7) c(1), folded r(3)]
  have s: "rz_size t1 \<le> 2 ^ 22" "rz_count t1 + int (length es) \<le> 2 ^ 20" "4 * rz_count t1 \<le> 3 * rz_size t1 + 4"
    using room Cons.prems(4,5) r(4) by simp_all
  obtain t2 where "rz_insert_all got t1 es = Some t2" "rz_ok t2" "all_nodes (rz_buckets t2) = mset es + all_nodes (rz_buckets t1)"
    "4 * rz_count t2 \<le> 3 * rz_size t2 + 4"
    using Cons.IH [OF r(2) Cons.prems(2) _ s(2,1,3) room(2)] Cons.prems(3) by auto
  then show ?case using r(1,5) by (auto intro!: exI [of _ t2])
qed simp

lemma destroy_frees: "rz_ok t \<Longrightarrow> mset (destroy_hash_table (Some t)) = all_nodes (rz_buckets t)"
proof -
  assume "rz_ok t"
  then have "\<forall>b\<in>set (rz_buckets t). rz_type b = RZ_LIST" using placed_lists unfolding rz_ok_def by blast
  then have "map (\<lambda>b. mset (case rz_type b of RZ_LIST \<Rightarrow> rz_nodes b | RZ_RBTREE \<Rightarrow> [])) (rz_buckets t) =
      map (\<lambda>b. mset (rz_nodes b)) (rz_buckets t)" by (intro map_cong) simp_all
  note same = arg_cong [OF this, of sum_list]
  show ?thesis using same by (simp only: destroy_hash_table_def all_nodes_def option.case mset_concat map_map comp_def)
qed

theorem rz_run_keeps_nodes:
  assumes "\<And>n. got n" "\<forall>e\<in>set es. 0 \<le> fst e" "length es \<le> 2 ^ 20" "2 \<le> n" "n \<le> 2 ^ 22"
  shows "\<exists>t. rz_insert_all got (create_hash_table n) es = Some t \<and> mset (destroy_hash_table (Some t)) = mset es \<and>
    rz_count t = int (length es) \<and> 4 * rz_count t \<le> 3 * rz_size t + 4"
proof -
  have c: "rz_count (create_hash_table n :: 'a rz_table) = 0" "rz_size (create_hash_table n :: 'a rz_table) = n"
    by (simp_all add: create_hash_table_def)
  have ok: "rz_ok (create_hash_table n :: 'a rz_table)" using assms(4) by (intro create_ok) simp
  obtain t where r: "rz_insert_all got (create_hash_table n) es = Some t" "rz_ok t" "all_nodes (rz_buckets t) = mset es"
    "4 * rz_count t \<le> 3 * rz_size t + 4"
    using rz_insert_all_ok [OF ok, of got es, OF assms(1,2)] c assms(3-5) by (auto simp: create_ok(2))
  show ?thesis using r destroy_frees [OF r(2)] by (auto simp: rz_ok_def)
qed

text \<open>What the experiment does not get right: a new array of buckets has no sizes, and a negative key is an index outside it.\<close>

theorem rz_resize_forgets_sizes:
  "map_option (\<lambda>t. map (\<lambda>b. (length (rz_nodes b), rz_esize b)) (rz_buckets t))
     (rz_insert_all (\<lambda>_. True) (create_hash_table 2) [(0, ()), (1, ()), (2, ())]) = Some [(1, 0), (1, 0), (1, 1), (0, 0)]"
  by code_simp

theorem rz_negative_key: "map_option snd (rz_insert (\<lambda>_. True) (create_hash_table 8) (- 3) ()) = None"
  by code_simp

end
