(* ===== verification/Spec2Isabelle.thy ===== *)
theory Spec2Isabelle
  imports LuEventOpProps LuLifeCycle LuQueueEvent LuUtil LuErrorStrings LuPoolProps LuMMProps LuLogProps LuResizing
begin

text \<open>
  A model of luevent, an event-notification library in C that follows libevent, with the theorems that
  say what its parts promise, and, where the code does not do what it means to, the theorems that show it.

  The parts and how they interact. A program makes an event base, assigns events to it, and adds,
  deletes and activates them. Adding an event puts it in the slot of its descriptor or signal and tells the
  backend (epoll) what to watch; activating it appends it to the queue of its priority; its timeout
  belongs in a heap. The base reads its time from a timer that never steps back. Beside the event core stand
  a hash table with lists and red-black trees for buckets, two users of it (error strings and socket error
  strings), the allocation wrappers, a memory pool and the log, which the rest of the library calls.

  The theories, in the order in which they build on each other:

  \<^item> \<open>LuPrelude\<close>: machine integers, flag words, lemmas on lists and multisets, the collections
    \<open>lu_flags\<close> and \<open>lu_consts\<close>.
  \<^item> \<open>LuTime\<close>: \<open>struct timeval\<close> with the macros of \<open>src/include/lu_util.h\<close>, an instance of \<open>linorder\<close>, and the
    timer of \<open>src/src/lu_evutil_time.c\<close>, whose fallback counts the progress of the wall clock.
  \<^item> \<open>LuEventStruct\<close>: the event and its flags (\<open>lu_event_struct.h\<close>, \<open>lu_event.h\<close>).
  \<^item> \<open>LuMinHeap\<close>: every operation of \<open>src/src/lu_min_heap.c\<close>. Push, pop and erase refine the insertion into and
    the removal from a multiset of events and keep the indices stored in the events; \<open>LuBag\<close> has that interface as a locale,
    interpreted on the heap. Pop can lose the order of the heap.
  \<^item> \<open>LuEventBase\<close>: the base (\<open>lu_event-internal.h\<close>), the world (base, events, calls made), locks and assertions. A
    failed assertion, a null pointer or an access outside an array is an \<open>Inl\<close>.
  \<^item> \<open>LuEvMap\<close>, \<open>LuEvMapInv\<close>: the maps from descriptors and signals to events (\<open>src/src/lu_evmap.c\<close>), their
    invariant, and what the backend has been asked to watch.
  \<^item> \<open>LuEvent\<close>, \<open>LuEventInv\<close>, \<open>LuEventOps\<close>: the event core of \<open>src/src/lu_event.c\<close>, its invariant \<open>core_inv\<close>, and the
    proofs that assign, add, del, active and the priorities keep it and stop at no fault.
  \<^item> \<open>LuUtil\<close>: \<open>src/src/lu_util.c\<close>: formatted output, case tables, paths, directories, descriptors, environment.
  \<^item> \<open>LuBackend\<close>: the epoll backend, the signal machinery and the lock check (\<open>lu_epool.c\<close>, \<open>lu_evsignal.c\<close>,
    \<open>lu_evthread.c\<close>).
  \<^item> \<open>LuThread\<close>: the callback tables of \<open>lu_thread.h\<close> and the lock and condition macros of \<open>lu_evthread-internal.h\<close>. On any
    recursive lock they do what the model does with the depth of the lock of a base.
  \<^item> \<open>LuEvBase\<close>: configuration, creating a base, freeing it, one-shot events.
  \<^item> \<open>LuBaseNew\<close>: every outcome of creating a base, whatever memory, epoll and the signal pipe do.
  \<^item> \<open>LuEventSys\<close>, \<open>LuEventProps\<close>, \<open>LuEventOpProps\<close>: the steps that a program can make from a new base on (an inductive
    relation) and what holds in every state reached: the backend watches exactly what the inserted events ask for, the queues hold
    exactly the active events, the counters count them.
  \<^item> \<open>LuEventView\<close>: the locale \<open>op_view\<close>, by which whatever part of the world the basic operations leave alone is left
    alone by adding, deleting and activating; it gives that every operation releases the lock and keeps the settings of the base.
  \<^item> \<open>LuBaseFree\<close>: freeing a base ends from every state reached, no assertion in it fails, and what is released is empty.
  \<^item> \<open>LuLifeCycle\<close>: the whole life of a base, from \<open>lu_event_base_new\<close> over any operations to \<open>lu_event_base_free\<close>.
  \<^item> \<open>LuQueue\<close>, \<open>LuQueueProps\<close>, \<open>LuQueueSpec\<close>, \<open>LuQueueEvent\<close>: the macros of \<open>src/compat/sys/queue.h\<close> on a memory of
    links. Each of the five kinds of list represents a HOL list, and locales say what each kind offers, from a
    sequence to a deque that is walked in both directions. The lists of the event core are shown to be what
    the macros make in memory, for the active queues and for the lists of the descriptors.
  \<^item> \<open>LuRBTree\<close>, \<open>LuRBTreeInv\<close>, \<open>LuRBTreeOps\<close>, \<open>LuRBTreeProps\<close>, \<open>LuRBTreeDelete\<close>: the red-black trees of \<open>src/src/lu_hash_table.c\<close>, on memory.
    The predicate \<open>tree_at\<close> says that a memory represents a tree of addresses; rotations keep the sequence of keys, so that
    insertion and search are right whatever the colours are. Deletion is right on trees with balanced black heights and a
    black sentinel (\<open>rb_delete_removes\<close>); it does not keep the heights balanced, and a run that loses keys is shown.
  \<^item> \<open>LuHashTable\<close>, \<open>LuHashTableProps\<close>, \<open>LuHashGrow\<close>, \<open>LuHashMap\<close>: the hash function on IEEE doubles, the buckets and
    all operations of the table, which refine those of a map; the locale \<open>missing_key_map\<close> is what the clients of the
    table use, interpreted on it.
  \<^item> \<open>LuErrorCodes\<close>, \<open>LuError\<close>, \<open>LuErrorStrings\<close>: the codes of \<open>lu_erron.h\<close>, the error strings of \<open>src/src/lu_error.c\<close>, filled into
    a table on first use, and the socket error strings that \<open>lu_util.c\<close> caches.
  \<^item> \<open>LuPool\<close>, \<open>LuPoolProps\<close>: the memory pool (\<open>src/src/lu_mm_pool_palloc.c\<close>, \<open>lu_mm_alloc.c\<close>): what it hands out is
    aligned and apart from everything else, in every run; a large allocation is found again when it is freed; a reset pool is as new.
  \<^item> \<open>LuMM\<close>, \<open>LuMMProps\<close>: the allocation wrappers of \<open>src/src/lu_mm-internal.c\<close> and their log.
  \<^item> \<open>LuLog\<close>, \<open>LuLogProps\<close>: the log of \<open>src/src/lu_log.c\<close>: filters, handlers, buffer, file; the report of a failed assertion,
    which never returns.
  \<^item> \<open>LuResizing\<close>: the table of \<open>src/other/test_hash.c\<close>, whose size follows its load. The load factor, a C float, is compared as
    the exact quotient is up to 2^22 buckets; growing and shrinking keep the nodes, and after a run at most one node is above three quarters of the buckets.
  \<^item> This theory: what spans the socket errors, their cache and the log.

  How code became definitions. A definition has the name of its C function, without a trailing underscore. A loop or a part of
  a function that needs its own recursion has a name of its own, and the text before it says what it is. State is a record that is
  given and returned; what the C library, the kernel, an allocator or a clock answers is an argument; so are the operations that are
  declared and called but defined nowhere under src/ (the epoll operations without change list, the change list itself,
  \<open>lu_evthread_make_base_notifiable_nolock_\<close>). Integers whose overflow matters are words of their width; pointers to events are
  numbers, and the events are a function of them. Concurrency is not modelled beyond the depth of the lock and the
  order of the calls on a mutex.

  Fuel. \<open>lu_event_add_nolock_\<close> calls itself through the notification of the base; its fuel is the depth of this recursion, and
  two is always enough (\<open>add_nolock_fuel\<close>). A walk down a red-black tree gets one step more than there are nodes, the
  repairs get \<open>rb_next + 4\<close> rounds; on well-formed trees insertion and search do not run out
  (\<open>rb_insert_sorted\<close>, \<open>rb_find_decides\<close>); deletion does not run out
  on balanced ones (\<open>rb_delete_removes\<close>). The loops of freeing a base get
  rounds; as many as there are events, and at least two, are enough (\<open>base_free_completes\<close>). The other
  recursions are structural or have a measure.

  Not modelled: \<open>src/src/lu_signalfd.c\<close>, which is empty; \<open>lu_watch.h\<close> and the headers under \<open>http\<close>, which declare what no source
  defines; \<open>CIRCLEQ_REPLACE\<close> of \<open>compat/sys/queue.h\<close>, which compiles with no argument; the allocation failures inside the hash
  table, after which its wrappers end the process; threads that run at the same time; the
  demo program, the tests and \<open>src/other/lu_hash.h\<close>, a vendored hash table. The dispatch loop of the library is not in its sources:
  nothing runs the active callbacks.
\<close>

section \<open>Socket errors in the log\<close>


definition demo_sock_env :: sock_log_env where
  "demo_sock_env = \<lparr>sl_raw = sock_zero, sl_strerror = (\<lambda>_. ''bad''), sl_alloc = \<lparr>dup1 = True, dup2 = True, entry_ok = True, dup3 = True\<rparr>,
     sl_errno = 11, sl_sockopt = (\<lambda>_. Inr 0)\<rparr>"

end
